(* ===== verification/Prelude.thy ===== *)
theory Prelude
  imports Main "HOL-Library.Word" "HOL-Library.Monad_Syntax"
begin

text \<open>
  Shared vocabulary of the development: the C integer types, the faults an execution of the
  program can end in, the result type with its sequencing operator, and the list lemmas that
  the components share.  The collections \<open>mem_simps\<close> (byte buffers and headers) and
  \<open>res_simps\<close> (sequencing of fallible steps) are filled by the later theories.
\<close>

unbundle bit_operations_syntax

named_theorems mem_simps \<open>reading and writing byte buffers\<close>
named_theorems res_simps \<open>sequencing of fallible steps\<close>

section \<open>Integer types of the code\<close>

type_synonym u8 = "8 word"
type_synonym u16 = "16 word"
type_synonym u32 = "32 word"
type_synonym u64 = "64 word"

text \<open>\<open>ip_addr\<close> is a union of four bytes and one little-endian word: the word determines both.\<close>

type_synonym ip_addr = u32

text \<open>\<open>mac_addr\<close> is an array of six bytes.\<close>

type_synonym mac_addr = "u8 list"

section \<open>Faults and results\<close>

text \<open>
  An operation of the program either finishes with a value or stops the process: a failed
  \<open>assert\<close>, a dereference of a null pointer, an access to an object that was freed or never
  allocated, an access outside a buffer, an operation that the C standard leaves undefined (a
  shift by 31 or more of the \<open>int\<close> 1), a call of \<open>exit\<close>, or a loop that does not end.  \<open>Out_of_fuel\<close> belongs to the
  model only: local delivery of a packet calls back into the protocol handlers, and the depth of
  that recursion is a parameter (see theory Stack).
\<close>

datatype fault =
    Assert_failed
  | Null_deref
  | Dangling
  | Out_of_bounds
  | Undefined_behaviour
  | Exit_failure
  | Diverges
  | Out_of_fuel

type_synonym 'a res = "fault + 'a"

definition bindE :: "'a res \<Rightarrow> ('a \<Rightarrow> 'b res) \<Rightarrow> 'b res" where
  "bindE r f = (case r of Inl e \<Rightarrow> Inl e | Inr x \<Rightarrow> f x)"

definition of_option :: "fault \<Rightarrow> 'a option \<Rightarrow> 'a res" where
  "of_option e x = (case x of None \<Rightarrow> Inl e | Some y \<Rightarrow> Inr y)"

definition guardE :: "fault \<Rightarrow> bool \<Rightarrow> 'a res \<Rightarrow> 'a res" where
  "guardE e b r = (if b then r else Inl e)"

lemma bindE_simps [simp, res_simps]:
  "bindE (Inl e) f = Inl e"
  "bindE (Inr x) f = f x"
  by (simp_all add: bindE_def)

lemma bindE_Inr_iff [res_simps]:
  "bindE r f = Inr y \<longleftrightarrow> (\<exists>x. r = Inr x \<and> f x = Inr y)"
  by (cases r) simp_all

lemma bindE_Inl_iff [res_simps]:
  "bindE r f = Inl e \<longleftrightarrow> r = Inl e \<or> (\<exists>x. r = Inr x \<and> f x = Inl e)"
  by (cases r) simp_all

lemma bindE_assoc: "bindE (bindE r f) g = bindE r (\<lambda>x. bindE (f x) g)"
  by (cases r) simp_all

lemma bindE_Inr: "bindE r Inr = r"
  by (cases r) simp_all

lemma bindE_cong [fundef_cong]:
  "r = r' \<Longrightarrow> (\<And>x. r' = Inr x \<Longrightarrow> f x = f' x) \<Longrightarrow> bindE r f = bindE r' f'"
  by (cases r') simp_all

lemma of_option_simps [simp, res_simps]:
  "of_option e None = Inl e"
  "of_option e (Some x) = Inr x"
  by (simp_all add: of_option_def)

lemma of_option_Inr_iff [simp, res_simps]: "of_option e x = Inr y \<longleftrightarrow> x = Some y"
  by (cases x) simp_all

lemma guardE_Inr_iff [simp, res_simps]: "guardE e b r = Inr y \<longleftrightarrow> b \<and> r = Inr y"
  by (simp add: guardE_def)

lemma guardE_True [simp, res_simps]: "guardE e True r = r"
  by (simp add: guardE_def)

lemma guardE_False [simp, res_simps]: "guardE e False r = Inl e"
  by (simp add: guardE_def)

section \<open>Bounds of the integer types\<close>

lemma unat_u8_less: "unat (b :: u8) < 256"
  using unsigned_less [of b, where ?'a = nat] by simp

lemma unat_u16_less: "unat (b :: u16) < 65536"
  using unsigned_less [of b, where ?'a = nat] by simp

lemma unat_u32_less: "unat (b :: u32) < 4294967296"
  using unsigned_less [of b, where ?'a = nat] by simp

lemma unat_ucast_u8:
  "unat (ucast (b :: u8) :: u16) = unat b" "unat (ucast (b :: u8) :: u32) = unat b"
  using unat_u8_less [of b] by (simp_all add: unsigned_ucast_eq take_bit_nat_eq_self)

lemma unat_ucast_u16: "unat (ucast (b :: u16) :: u32) = unat b"
  using unat_u16_less [of b] by (simp add: unsigned_ucast_eq take_bit_nat_eq_self)

section \<open>Writing a run of bytes into a buffer\<close>

text \<open>\<open>memcpy (buf + off, xs, length xs)\<close> inside a buffer.\<close>

definition write_at :: "nat \<Rightarrow> 'a list \<Rightarrow> 'a list \<Rightarrow> 'a list" where
  "write_at off xs buf = take off buf @ xs @ drop (off + length xs) buf"

definition slice :: "nat \<Rightarrow> nat \<Rightarrow> 'a list \<Rightarrow> 'a list" where
  "slice off n buf = take n (drop off buf)"

lemma length_write_at [simp, mem_simps]:
  "off + length xs \<le> length buf \<Longrightarrow> length (write_at off xs buf) = length buf"
  by (simp add: write_at_def)

lemma length_slice [simp, mem_simps]: "off + n \<le> length buf \<Longrightarrow> length (slice off n buf) = n"
  by (simp add: slice_def)

lemma slice_write_same [simp, mem_simps]:
  "off + length xs \<le> length buf \<Longrightarrow> n = length xs \<Longrightarrow> slice off n (write_at off xs buf) = xs"
  by (simp add: slice_def write_at_def)

lemma nth_write_at:
  "off + length xs \<le> length buf \<Longrightarrow> i < length buf \<Longrightarrow>
   write_at off xs buf ! i = (if off \<le> i \<and> i < off + length xs then xs ! (i - off) else buf ! i)"
  by (auto simp: write_at_def nth_append min_def)

lemma nth_slice: "off + n \<le> length buf \<Longrightarrow> i < n \<Longrightarrow> slice off n buf ! i = buf ! (off + i)"
  by (simp add: slice_def)

lemma slice_write_disjoint [mem_simps]:
  assumes "off + length xs \<le> length buf" and "off' + n \<le> length buf"
    and "off' + n \<le> off \<or> off + length xs \<le> off'"
  shows "slice off' n (write_at off xs buf) = slice off' n buf"
  by (rule nth_equalityI) (use assms in \<open>auto simp: nth_slice nth_write_at\<close>)

lemma slice_write_inside [mem_simps]:
  assumes "off + length xs \<le> length buf" and "off \<le> off'" and "off' + n \<le> off + length xs"
  shows "slice off' n (write_at off xs buf) = slice (off' - off) n xs"
  by (rule nth_equalityI) (use assms in \<open>auto simp: nth_slice nth_write_at algebra_simps\<close>)

lemma write_at_slice [simp, mem_simps]:
  "off + n \<le> length buf \<Longrightarrow> write_at off (slice off n buf) buf = buf"
  by (rule nth_equalityI) (auto simp: nth_write_at nth_slice)

lemma slice_append_split: "slice off (m + n) buf = slice off m buf @ slice (off + m) n buf"
  by (simp add: slice_def take_add add.commute)

lemma slice_full [simp]: "length xs = n \<Longrightarrow> slice 0 n xs = xs"
  by (simp add: slice_def)

end
