(* ===== verification/Runs.thy ===== *)
theory Runs
  imports Prelude
begin

text \<open>
  Safety of fallible steps: \<open>runs F P r\<close> says that a step ends in a value that satisfies \<open>P\<close> or
  in a fault that \<open>F\<close> allows.  The rules, one per construct of the model, are collected in
  \<open>run_rules\<close>; a step that allows no fault is one that succeeds.
\<close>

named_theorems run_rules \<open>one rule per construct for the safety of a step\<close>

definition runs :: "(fault \<Rightarrow> bool) \<Rightarrow> ('a \<Rightarrow> bool) \<Rightarrow> 'a res \<Rightarrow> bool" where
  "runs F P r = (case r of Inl e \<Rightarrow> F e | Inr x \<Rightarrow> P x)"

abbreviation no_fault :: "fault \<Rightarrow> bool" where
  "no_fault \<equiv> (\<lambda>_. False)"

lemma runs_simps [simp]: "runs F P (Inr x) = P x" "runs F P (Inl e) = F e"
  by (simp_all add: runs_def)

lemma runs_no_fault: "runs no_fault P r \<longleftrightarrow> (\<exists>x. r = Inr x \<and> P x)"
  by (cases r) simp_all

lemma runs_weaken:
  assumes "runs F P r" and "\<And>e. F e \<Longrightarrow> G e" and "\<And>x. r = Inr x \<Longrightarrow> P x \<Longrightarrow> Q x"
  shows "runs G Q r"
  using assms by (cases r) auto

lemma runs_post: "runs F P r \<Longrightarrow> (\<And>x. P x \<Longrightarrow> Q x) \<Longrightarrow> runs F Q r"
  by (cases r) auto

lemma runs_value: "runs no_fault P r \<Longrightarrow> (\<And>x. P x \<Longrightarrow> Q x) \<Longrightarrow> runs F Q r"
  by (cases r) auto

text \<open>Sequencing: the value of the first step is any that its own specification allows.\<close>

lemma runs_bind:
  assumes "runs F P r" and "\<And>x. P x \<Longrightarrow> runs F Q (f x)"
  shows "runs F Q (bindE r f)"
  using assms by (cases r) auto

lemma runs_bind_eq:
  assumes "runs F P r" and "\<And>x. r = Inr x \<Longrightarrow> P x \<Longrightarrow> runs F Q (f x)"
  shows "runs F Q (bindE r f)"
  using assms by (cases r) auto

lemma runs_bind_value:
  assumes "runs no_fault P r" and "\<And>x. P x \<Longrightarrow> runs F Q (f x)"
  shows "runs F Q (bindE r f)"
  using assms by (cases r) auto

lemma runs_map:
  assumes "runs no_fault P r" and "\<And>x. P x \<Longrightarrow> Q (g x)"
  shows "runs F Q (bindE r (\<lambda>x. Inr (g x)))"
  using assms by (cases r) auto

lemma runs_of_option [run_rules]: "x = Some y \<Longrightarrow> P y \<Longrightarrow> runs F P (of_option e x)"
  by simp

lemma runs_guard [run_rules]: "(\<not> b \<Longrightarrow> F e) \<Longrightarrow> (b \<Longrightarrow> runs F P r) \<Longrightarrow> runs F P (guardE e b r)"
  by (simp add: guardE_def)

lemma runs_if [run_rules]:
  "(b \<Longrightarrow> runs F P r) \<Longrightarrow> (\<not> b \<Longrightarrow> runs F P s) \<Longrightarrow> runs F P (if b then r else s)"
  by simp

lemma runs_option [run_rules]:
  "(x = None \<Longrightarrow> runs F P r) \<Longrightarrow> (\<And>y. x = Some y \<Longrightarrow> runs F P (f y)) \<Longrightarrow>
   runs F P (case x of None \<Rightarrow> r | Some y \<Rightarrow> f y)"
  by (cases x) simp_all

lemma runs_let [run_rules]: "(\<And>y. y = x \<Longrightarrow> runs F P (f y)) \<Longrightarrow> runs F P (let y = x in f y)"
  by simp

lemma runs_InrD: "runs F P r \<Longrightarrow> r = Inr x \<Longrightarrow> P x"
  by simp

lemma runs_InlD: "runs F P r \<Longrightarrow> r = Inl e \<Longrightarrow> F e"
  by simp

end
