(* ===== verification/Utils.thy ===== *)
theory Utils
  imports Prelude
begin

text \<open>
  The helpers of \<open>utils.h\<close> and \<open>utils.c\<close>: byte order, the Internet checksum, dotted-decimal
  addresses, address masks and the broadcast hardware address.
\<close>

section \<open>Byte order\<close>

text \<open>
  The macros work on whatever integer type their argument has; the code relies on a
  little-endian host.  \<open>HTONS\<close> of a \<open>size_t\<close> is computed at that width and then truncated by
  the assignment to a 16-bit field.
\<close>

definition HTONS :: "'a::len word \<Rightarrow> 'a word" where
  "HTONS n = drop_bit 8 n + push_bit 8 (n AND 0xff)"

definition HTONL :: "u32 \<Rightarrow> u32" where
  "HTONL n = drop_bit 24 n + (drop_bit 8 n AND 0x0000ff00)
           + (push_bit 8 n AND 0x00ff0000) + (push_bit 24 n AND 0xff000000)"

abbreviation NTOHS :: "'a::len word \<Rightarrow> 'a word" where
  "NTOHS \<equiv> HTONS"

abbreviation NTOHL :: "u32 \<Rightarrow> u32" where
  "NTOHL \<equiv> HTONL"

text \<open>A 16-bit and a 32-bit object in memory, and the bytes it occupies.\<close>

definition le16 :: "u8 \<Rightarrow> u8 \<Rightarrow> u16" where
  "le16 b0 b1 = ucast b0 OR push_bit 8 (ucast b1)"

definition le32 :: "u8 \<Rightarrow> u8 \<Rightarrow> u8 \<Rightarrow> u8 \<Rightarrow> u32" where
  "le32 b0 b1 b2 b3 = ucast b0 OR push_bit 8 (ucast b1) OR push_bit 16 (ucast b2)
     OR push_bit 24 (ucast b3)"

definition bytes16 :: "u16 \<Rightarrow> u8 list" where
  "bytes16 w = [ucast w, ucast (drop_bit 8 w)]"

definition bytes32 :: "u32 \<Rightarrow> u8 list" where
  "bytes32 w = [ucast w, ucast (drop_bit 8 w), ucast (drop_bit 16 w), ucast (drop_bit 24 w)]"

lemma and_ff: "(n::'a::len word) AND 0xff = take_bit 8 n"
proof -
  have "(0xff :: 'a word) = mask 8" by (simp add: mask_eq_exp_minus_1)
  then show ?thesis by (simp add: take_bit_eq_mask)
qed


lemma plus_or_disj:
  fixes a b :: "'a::len word"
  assumes "\<And>i. i < LENGTH('a) \<Longrightarrow> \<not> (bit a i \<and> bit b i)"
  shows "a + b = a OR b"
  by (rule disjunctive_add) (use assms in \<open>auto dest: bit_imp_le_length\<close>)

lemma byte_bit [simp]: "8 \<le> n \<Longrightarrow> \<not> bit (b :: u8) n" "\<not> bit (b :: u8) (8 + n)"
  by (auto dest: bit_imp_le_length)

lemma HTONS16_bits: "HTONS (n :: u16) = drop_bit 8 n OR push_bit 8 (take_bit 8 n)"
  unfolding HTONS_def and_ff
  by (rule plus_or_disj) (auto simp: bit_simps dest: bit_imp_le_length)

lemma HTONS16_involutive [simp]: "HTONS (HTONS (n :: u16)) = n"
  unfolding HTONS16_bits
  by (rule bit_word_eqI) (auto simp: bit_simps)

lemma bit_le16: "bit (le16 b0 b1) i \<longleftrightarrow> (if i < 8 then bit b0 i else bit b1 (i - 8))"
  by (auto simp: le16_def bit_simps dest: bit_imp_le_length)

lemma bit_le32: "bit (le32 b0 b1 b2 b3) i \<longleftrightarrow>
  (if i < 8 then bit b0 i else if i < 16 then bit b1 (i - 8)
   else if i < 24 then bit b2 (i - 16) else bit b3 (i - 24))"
  by (auto simp: le32_def bit_simps dest: bit_imp_le_length)

lemma HTONS_le16: "HTONS (le16 b0 b1) = le16 b1 b0"
  unfolding HTONS16_bits
  by (rule bit_word_eqI) (auto simp: bit_simps bit_le16)

lemma HTONL_masks: "(0x0000ff00::u32) = push_bit 8 (mask 8)" "(0x00ff0000::u32) = push_bit 16 (mask 8)" "(0xff000000::u32) = push_bit 24 (mask 8)"
  by (simp_all add: mask_eq_exp_minus_1)

lemma HTONL_bits: "HTONL n = drop_bit 24 n OR (drop_bit 8 n AND push_bit 8 (mask 8))
    OR (push_bit 8 n AND push_bit 16 (mask 8)) OR (push_bit 24 n AND push_bit 24 (mask 8))"
  unfolding HTONL_def HTONL_masks
  apply (subst plus_or_disj)
   apply (auto simp: bit_simps dest: bit_imp_le_length)[1]
  apply (subst plus_or_disj)
   apply (auto simp: bit_simps dest: bit_imp_le_length)[1]
  apply (subst plus_or_disj)
   apply (auto simp: bit_simps dest: bit_imp_le_length)[1]
  apply (simp add: or.assoc)
  done

lemma HTONL_le32: "HTONL (le32 b0 b1 b2 b3) = le32 b3 b2 b1 b0"
  unfolding HTONL_bits
  by (rule bit_word_eqI) (auto simp: bit_simps bit_le32)
  
lemma le16_of_bytes [simp]: "le16 (ucast w) (ucast (drop_bit 8 w)) = w"
  by (rule bit_word_eqI) (auto simp: bit_simps bit_le16)

lemma le32_of_bytes [simp]:
  "le32 (ucast w) (ucast (drop_bit 8 w)) (ucast (drop_bit 16 w)) (ucast (drop_bit 24 w)) = w"
  by (rule bit_word_eqI) (auto simp: bit_simps bit_le32)

lemma bytes16_le16 [simp]: "bytes16 (le16 a b) = [a, b]"
  by (auto simp: bytes16_def bit_simps bit_le16 intro!: bit_word_eqI)

lemma bytes32_le32 [simp]: "bytes32 (le32 a b c d) = [a, b, c, d]"
  by (auto simp: bytes32_def bit_simps bit_le32 intro!: bit_word_eqI)

lemma HTONL_involutive [simp]: "HTONL (HTONL n) = n"
  by (metis HTONL_le32 le32_of_bytes)

lemma bytes32_HTONL: "bytes32 (HTONL w) = rev (bytes32 w)"
  by (metis HTONL_le32 bytes32_le32 le32_of_bytes rev.simps append.simps)

lemma length_bytes [simp, mem_simps]: "length (bytes16 w) = 2" "length (bytes32 v) = 4"
  by (simp_all add: bytes16_def bytes32_def)

lemma unat_le16: "unat (le16 a b) = unat a + 256 * unat b"
proof -
  have "le16 a b = ucast a + push_bit 8 (ucast b)"
    unfolding le16_def by (rule plus_or_disj [symmetric]) (auto simp: bit_simps)
  then show ?thesis
    using unat_u8_less [of a] unat_u8_less [of b]
    by (simp add: unat_word_ariths push_bit_eq_mult unat_ucast_u8)
qed

section \<open>The Internet checksum\<close>

text \<open>
  \<open>calc_checksum_16\<close> adds the 16-bit words of the buffer in a 32-bit accumulator, the loop as a
  recursion over pairs of bytes; an odd last byte is the high half of a word.  Two folds bring
  the carries back, and the complement of the low half is the result.
\<close>

fun sum_words :: "u8 list \<Rightarrow> u32 \<Rightarrow> u32" where
  "sum_words (b0 # b1 # bs) result = sum_words bs (result + ucast (NTOHS (le16 b0 b1)))"
| "sum_words [b] result = result"
| "sum_words [] result = result"

definition fold_carry :: "u32 \<Rightarrow> u32" where
  "fold_carry result = (result AND 0xffff) + drop_bit 16 result"

definition calc_checksum_16 :: "u8 list \<Rightarrow> u16" where
  "calc_checksum_16 buff =
    (let result = sum_words buff 0;
         result = (if odd (length buff) then result + push_bit 8 (ucast (last buff)) else result);
         result = fold_carry result;
         result = fold_carry result
     in ucast (NOT result AND 0xffff))"

text \<open>The specification: the sum of the big-endian words, reduced in ones' complement.\<close>

fun be_sum :: "u8 list \<Rightarrow> nat" where
  "be_sum (b0 # b1 # bs) = 256 * unat b0 + unat b1 + be_sum bs"
| "be_sum [b] = 256 * unat b"
| "be_sum [] = 0"

definition ones_complement :: "nat \<Rightarrow> nat" where
  "ones_complement s = (if s = 0 then 0 else (s - 1) mod 65535 + 1)"

lemma sum_words_be_sum:
  "unat (if odd (length bs) then sum_words bs acc + push_bit 8 (ucast (last bs))
         else sum_words bs acc) = (unat acc + be_sum bs) mod 2 ^ 32"
proof (induction bs acc rule: sum_words.induct)
  case (1 b0 b1 bs acc)
  have "unat (ucast (NTOHS (le16 b0 b1)) :: u32) = 256 * unat b0 + unat b1"
    by (simp add: HTONS_le16 unat_ucast_u16 unat_le16)
  then have "unat (acc + ucast (NTOHS (le16 b0 b1))) = (unat acc + (256 * unat b0 + unat b1)) mod 2 ^ 32"
    by (simp add: unat_word_ariths)
  with 1 show ?case
    by (cases bs) (auto simp: mod_simps add.assoc)
next
  case (2 b acc)
  have "unat (push_bit 8 (ucast b) :: u32) = 256 * unat b"
    using unat_u8_less [of b]
    by (simp add: push_bit_eq_mult unat_word_ariths unat_ucast_u8)
  then show ?case by (simp add: unat_word_ariths)
next
  case (3 acc)
  show ?case using unat_u32_less [of acc] by simp
qed

lemma unat_fold_carry: "unat (fold_carry r) = unat r mod 65536 + unat r div 65536"
proof -
  have m: "(0xffff :: u32) = mask 16" by (simp add: mask_eq_exp_minus_1)
  have "unat r div 65536 < 65536" using unat_u32_less [of r] by simp
  then show ?thesis
    unfolding fold_carry_def m
    by (simp add: take_bit_eq_mask [symmetric] unat_word_ariths unsigned_take_bit_eq
        take_bit_eq_mod unat_drop_bit_eq drop_bit_eq_div)
qed

lemma ones_complement_unique:
  assumes "y \<le> 65535" and "y mod 65535 = s mod 65535" and "y = 0 \<longleftrightarrow> s = 0"
  shows "ones_complement s = y"
proof (cases "s = 0")
  case False
  then have "0 < s" "0 < y" using assms(3) by auto
  from assms(2) obtain q q' where "y + 65535 * q = s + 65535 * q'"
    by (auto simp: nat_mod_eq_iff)
  with \<open>0 < s\<close> \<open>0 < y\<close> have "(y - 1) + 65535 * q = (s - 1) + 65535 * q'" by arith
  then have "(s - 1) mod 65535 = (y - 1) mod 65535"
    by (metis mod_mult_self2)
  then show ?thesis using False \<open>0 < y\<close> assms(1) by (simp add: ones_complement_def)
qed (use assms in \<open>simp add: ones_complement_def\<close>)

lemma ones_complement_le: "ones_complement s \<le> 65535"
proof -
  have "(s - 1) mod 65535 < 65535" by simp
  then have "(s - 1) mod 65535 + 1 \<le> 65535" by linarith
  then show ?thesis by (simp only: ones_complement_def split: if_split) simp
qed

lemma ones_complement_mod: "ones_complement s mod 65535 = s mod 65535"
  by (cases s) (auto simp: ones_complement_def mod_simps)

lemma ones_complement_0_iff [simp]: "ones_complement s = 0 \<longleftrightarrow> s = 0"
  by (simp add: ones_complement_def)

lemma ones_complement_max_iff: "ones_complement s = 65535 \<longleftrightarrow> s \<noteq> 0 \<and> s mod 65535 = 0"
proof
  assume a: "ones_complement s = 65535"
  have "s mod 65535 = 65535 mod 65535" using ones_complement_mod [of s] unfolding a by (rule sym)
  then show "s \<noteq> 0 \<and> s mod 65535 = 0" using a ones_complement_0_iff [of s] by auto
next
  assume s: "s \<noteq> 0 \<and> s mod 65535 = 0"
  show "ones_complement s = 65535"
  proof (rule ccontr)
    assume "ones_complement s \<noteq> 65535"
    with ones_complement_le [of s] have "ones_complement s < 65535" by simp
    then have "ones_complement s mod 65535 = ones_complement s" by (rule mod_less)
    with s ones_complement_mod [of s] ones_complement_0_iff [of s] show False by simp
  qed
qed

lemma two_folds:
  "unat (fold_carry (fold_carry r)) = ones_complement (unat r)"
proof -
  define x y where "x = unat r" and "y = unat (fold_carry r)"
  have y: "y = x mod 65536 + x div 65536" by (simp add: x_def y_def unat_fold_carry)
  have x: "x = 65536 * (x div 65536) + x mod 65536" by simp
  have "x div 65536 < 65536" using unat_u32_less [of r] by (simp add: x_def)
  then have "y \<le> 131070" using y mod_less_divisor [of 65536 x] by simp
  then have z: "y mod 65536 + y div 65536 \<le> 65535" by (cases "y < 65536") (auto simp: le_mod_geq le_div_geq)
  have step: "(n mod 65536 + n div 65536) mod 65535 = n mod 65535" for n :: nat
  proof -
    have "n = (n mod 65536 + n div 65536) + 65535 * (n div 65536)" by simp
    then show ?thesis by (metis mod_mult_self2)
  qed
  have zero: "n mod 65536 + n div 65536 = 0 \<longleftrightarrow> n = 0" for n :: nat
    using mult_div_mod_eq [of 65536 n] by auto
  have "ones_complement x = y mod 65536 + y div 65536"
  proof (rule ones_complement_unique)
    have "(y mod 65536 + y div 65536) mod 65535 = y mod 65535" by (rule step)
    also have "\<dots> = x mod 65535" unfolding y by (rule step)
    finally show "(y mod 65536 + y div 65536) mod 65535 = x mod 65535" .
    have "y mod 65536 + y div 65536 = 0 \<longleftrightarrow> y = 0" by (rule zero)
    also have "\<dots> \<longleftrightarrow> x = 0" unfolding y by (rule zero)
    finally show "y mod 65536 + y div 65536 = 0 \<longleftrightarrow> x = 0" .
  qed (fact z)
  then show ?thesis by (simp add: unat_fold_carry x_def y_def)
qed

lemma calc_checksum_16_spec:
  assumes "be_sum bs < 2 ^ 32"
  shows "unat (calc_checksum_16 bs) = 65535 - ones_complement (be_sum bs)"
proof -
  define s where "s = (if odd (length bs) then sum_words bs 0 + push_bit 8 (ucast (last bs))
     else sum_words bs 0)"
  have s: "unat s = be_sum bs"
    unfolding s_def by (subst sum_words_be_sum) (use assms in simp)
  define r where "r = fold_carry (fold_carry s)"
  have r: "unat r = ones_complement (be_sum bs)" by (simp add: r_def two_folds s)
  have m: "(0xffff :: u32) = mask 16" by (simp add: mask_eq_exp_minus_1)
  have not16: "unat (NOT w) = 65535 - unat w" for w :: u16
  proof -
    have "NOT w = - 1 - w" by (simp add: not_eq_complement)
    moreover have "unat (- 1 - w) = unat (- 1 :: u16) - unat w" by (rule unat_sub) simp
    ultimately show ?thesis by (simp add: unsigned_minus_1_eq_mask mask_eq_exp_minus_1)
  qed
  have "calc_checksum_16 bs = ucast (NOT r AND 0xffff)"
    by (simp add: calc_checksum_16_def Let_def r_def s_def)
  also have "\<dots> = NOT (ucast r)"
    unfolding m by (rule bit_word_eqI) (auto simp: bit_simps)
  finally have "unat (calc_checksum_16 bs) = unat (NOT (ucast r :: u16))" by simp
  also have "\<dots> = 65535 - unat (ucast r :: u16)"
    by (rule not16)
  also have "unat (ucast r :: u16) = unat r"
    using r ones_complement_le [of "be_sum bs"]
    by (simp add: unsigned_ucast_eq take_bit_nat_eq_self)
  finally show ?thesis by (simp add: r)
qed


lemma be_sum_append:
  "even (length xs) \<Longrightarrow> be_sum (xs @ ys) = be_sum xs + be_sum ys"
  by (induction xs rule: be_sum.induct) auto

lemma be_sum_bound: "be_sum bs \<le> 32768 * length bs + 32768"
proof (induction bs rule: be_sum.induct)
  case (1 b0 b1 bs)
  then show ?case using unat_u8_less [of b0] unat_u8_less [of b1] by simp
next
  case (2 b)
  then show ?case using unat_u8_less [of b] by simp
qed simp

lemma be_sum_small: "length bs \<le> 131000 \<Longrightarrow> be_sum bs < 2 ^ 32"
  using be_sum_bound [of bs] by simp

lemma be_sum_bytes16: "be_sum (bytes16 (HTONS w)) = unat w"
proof -
  obtain a b where w: "w = le16 a b"
    by (metis le16_of_bytes)
  show ?thesis by (simp add: w HTONS_le16 unat_le16)
qed

text \<open>A stored checksum makes the whole sum a multiple of 65535, and nothing else does.\<close>

lemma checksum_zero_iff:
  assumes "be_sum bs < 2 ^ 32"
  shows "calc_checksum_16 bs = 0 \<longleftrightarrow> be_sum bs \<noteq> 0 \<and> be_sum bs mod 65535 = 0"
proof -
  have "calc_checksum_16 bs = 0 \<longleftrightarrow> ones_complement (be_sum bs) = 65535"
  proof -
    have "calc_checksum_16 bs = 0 \<longleftrightarrow> unat (calc_checksum_16 bs) = 0"
      by (simp add: unat_eq_zero)
    also have "\<dots> \<longleftrightarrow> ones_complement (be_sum bs) = 65535"
      unfolding calc_checksum_16_spec [OF assms] using ones_complement_le [of "be_sum bs"] by linarith
    finally show ?thesis .
  qed
  also have "\<dots> \<longleftrightarrow> be_sum bs \<noteq> 0 \<and> be_sum bs mod 65535 = 0"
    by (rule ones_complement_max_iff)
  finally show ?thesis .
qed

lemma complement_mod_iff:
  fixes m s a b c :: nat
  assumes "a + b = m" and "b mod m = (s + c) mod m"
  shows "(s + a) mod m = 0 \<longleftrightarrow> c mod m = 0"
proof -
  define X where "X = (int s + int c - int b) + int m"
  have "int b mod int m = (int s + int c) mod int m"
    using assms(2) by (metis of_nat_add of_nat_mod)
  then have "int m dvd int b - (int s + int c)"
    by (simp only: mod_eq_dvd_iff)
  then have "int m dvd - (int b - (int s + int c)) + int m"
    by (simp only: dvd_add_triv_right_iff dvd_minus_iff)
  then have X: "int m dvd X" by (simp add: X_def algebra_simps)
  have *: "int (s + a) = X - int c" "int c = X - int (s + a)"
    using assms(1) by (simp_all add: X_def)
  have "int m dvd int (s + a) \<longleftrightarrow> int m dvd int c"
    by (metis * X dvd_diff)
  then show ?thesis by (simp only: dvd_eq_mod_eq_0 [symmetric] int_dvd_int_iff)
qed

text \<open>
  Storing the checksum in a 16-bit field at an even offset of a buffer: \<open>pre\<close> and \<open>post\<close> are the
  bytes around it and \<open>old\<close> is what the field held while the checksum was computed.  The result
  verifies exactly when the old field was a zero of ones' complement arithmetic.
\<close>

lemma checksum_fill:
  assumes "even (length pre)" and "length old = 2" and "length pre + length post \<le> 130000"
    and c: "c = calc_checksum_16 (pre @ old @ post)"
  shows "calc_checksum_16 (pre @ bytes16 (HTONS c) @ post) = 0 \<longleftrightarrow>
    be_sum old mod 65535 = 0 \<and> (be_sum pre + be_sum post \<noteq> 0 \<or> be_sum old = 0)"
proof -
  define s o1 where "s = be_sum pre + be_sum post" and "o1 = be_sum old"
  have old: "be_sum (pre @ old @ post) = s + o1"
    using assms(1,2) by (simp add: be_sum_append s_def o1_def)
  have new: "be_sum (pre @ bytes16 (HTONS c) @ post) = s + unat c"
    using assms(1) by (simp add: be_sum_append be_sum_bytes16 s_def)
  have b: "be_sum (pre @ old @ post) < 2 ^ 32" "be_sum (pre @ bytes16 (HTONS c) @ post) < 2 ^ 32"
    by (rule be_sum_small, use assms in simp)+
  have sum: "unat c + ones_complement (s + o1) = 65535"
    using calc_checksum_16_spec [OF b(1)] c old ones_complement_le [of "s + o1"] by simp
  have "(s + unat c) mod 65535 = 0 \<longleftrightarrow> o1 mod 65535 = 0"
    by (rule complement_mod_iff [OF sum ones_complement_mod])
  moreover have "s + unat c = 0 \<longleftrightarrow> s = 0 \<and> o1 \<noteq> 0 \<and> o1 mod 65535 = 0"
    using checksum_zero_iff [OF b(1)] c old by (auto simp: unat_eq_zero)
  ultimately have "s + unat c \<noteq> 0 \<and> (s + unat c) mod 65535 = 0 \<longleftrightarrow>
      o1 mod 65535 = 0 \<and> (s \<noteq> 0 \<or> o1 = 0)"
    by argo
  then show ?thesis
    unfolding checksum_zero_iff [OF b(2)] new s_def o1_def .
qed

section \<open>Dotted-decimal addresses\<close>

text \<open>
  What \<open>sscanf\<close> does for a \<open>%u\<close> directive: skip white space, take an optional sign and at least
  one digit, convert with \<open>strtoul\<close> (64 bits wide, saturating on overflow, a minus sign negates
  modulo \<open>2 ^ 64\<close>) and store the low 32 bits.  A string ends at its NUL, which is neither a
  digit, a space nor a dot.
\<close>

definition is_digit :: "char \<Rightarrow> bool" where
  "is_digit c \<longleftrightarrow> 48 \<le> (of_char c :: nat) \<and> (of_char c :: nat) \<le> 57"

definition is_space :: "char \<Rightarrow> bool" where
  "is_space c \<longleftrightarrow> (of_char c :: nat) = 32 \<or> 9 \<le> (of_char c :: nat) \<and> (of_char c :: nat) \<le> 13"

fun scan_digits :: "string \<Rightarrow> nat \<Rightarrow> nat \<times> string" where
  "scan_digits [] v = (v, [])"
| "scan_digits (c # cs) v =
     (if is_digit c then scan_digits cs (10 * v + (of_char c - 48)) else (v, c # cs))"

definition scan_sign :: "string \<Rightarrow> bool \<times> string" where
  "scan_sign s = (case s of [] \<Rightarrow> (False, [])
     | c # cs \<Rightarrow> if c = CHR ''-'' then (True, cs) else if c = CHR ''+'' then (False, cs) else (False, s))"

definition strtoul :: "bool \<Rightarrow> nat \<Rightarrow> nat" where
  "strtoul neg v = (if 2 ^ 64 \<le> v then 2 ^ 64 - 1 else if neg then (2 ^ 64 - v) mod 2 ^ 64 else v)"

definition scan_unsigned :: "string \<Rightarrow> (u32 \<times> string) option" where
  "scan_unsigned s =
    (let (neg, s) = scan_sign (dropWhile is_space s)
     in case s of [] \<Rightarrow> None
        | c # _ \<Rightarrow> if is_digit c
                   then (let (v, rest) = scan_digits s 0 in Some (of_nat (strtoul neg v), rest))
                   else None)"

definition scan_dot :: "string \<Rightarrow> string option" where
  "scan_dot s = (case s of [] \<Rightarrow> None | c # cs \<Rightarrow> if c = CHR ''.'' then Some cs else None)"

text \<open>\<open>sscanf (s, "%u.%u.%u.%u", &a, &b, &c, &d) == 4\<close>\<close>

definition sscanf_ip :: "string \<Rightarrow> (u32 \<times> u32 \<times> u32 \<times> u32) option" where
  "sscanf_ip s = do {
     (a, s) \<leftarrow> scan_unsigned s;
     s \<leftarrow> scan_dot s;
     (b, s) \<leftarrow> scan_unsigned s;
     s \<leftarrow> scan_dot s;
     (c, s) \<leftarrow> scan_unsigned s;
     s \<leftarrow> scan_dot s;
     (d, s) \<leftarrow> scan_unsigned s;
     Some (a, b, c, d) }"

definition convert_ip_from_str_to_int :: "string \<Rightarrow> ip_addr" where
  "convert_ip_from_str_to_int s =
    (case sscanf_ip s of
       None \<Rightarrow> 0
     | Some (a, b, c, d) \<Rightarrow>
         if a > 255 \<or> b > 255 \<or> c > 255 \<or> d > 255 then 0
         else le32 (ucast a) (ucast b) (ucast c) (ucast d))"

fun show_dec :: "nat \<Rightarrow> string" where
  "show_dec n = (if n < 10 then [char_of (48 + n)] else show_dec (n div 10) @ [char_of (48 + n mod 10)])"

declare show_dec.simps [simp del]

definition convert_ip_from_int_to_str :: "ip_addr \<Rightarrow> string" where
  "convert_ip_from_int_to_str ip =
     show_dec (unat (ip AND 0xff)) @ ''.'' @ show_dec (unat (drop_bit 8 ip AND 0xff)) @ ''.'' @
     show_dec (unat (drop_bit 16 ip AND 0xff)) @ ''.'' @ show_dec (unat (drop_bit 24 ip AND 0xff))"

lemma of_char_digit: "(n :: nat) < 10 \<Longrightarrow> (of_char (char_of (48 + n) :: char) :: nat) = 48 + n"
  by simp

lemma is_digit_char_of: "(n :: nat) < 10 \<Longrightarrow> is_digit (char_of (48 + n))"
  by (simp only: is_digit_def of_char_digit) simp

lemma scan_digits_show_dec:
  "scan_digits (show_dec n @ rest) v = scan_digits rest (v * 10 ^ length (show_dec n) + n)"
proof (induction n arbitrary: v rest rule: show_dec.induct)
  case (1 n)
  show ?case
  proof (cases "n < 10")
    case True
    then show ?thesis
      by (simp add: show_dec.simps [of n] is_digit_char_of of_char_digit mult.commute del: of_char_of)
  next
    case False
    have m: "n mod 10 < 10" by simp
    have "n + 10 * (v * 10 ^ length (show_dec (n div 10)))
        = v * (10 * 10 ^ length (show_dec (n div 10))) + n"
      by simp
    with False "1.IH" [OF False, where v = v and rest = "char_of (48 + n mod 10) # rest"] show ?thesis
      by (simp add: show_dec.simps [of n] is_digit_char_of [OF m] of_char_digit [OF m] ac_simps
          del: of_char_of)
  qed
qed

lemma show_dec_Cons: "\<exists>d cs. (d :: nat) < 10 \<and> show_dec n = char_of (48 + d) # cs"
proof (induction n rule: show_dec.induct)
  case (1 n)
  show ?case
  proof (cases "n < 10")
    case True
    then show ?thesis by (auto simp: show_dec.simps [of n])
  next
    case False
    from "1.IH" [OF False] obtain d :: nat and cs where "d < 10" "show_dec (n div 10) = char_of (48 + d) # cs"
      by blast
    with False show ?thesis by (auto simp: show_dec.simps [of n])
  qed
qed

lemma digit_char_cases:
  assumes "(d :: nat) < 10"
  shows "\<not> is_space (char_of (48 + d))" "char_of (48 + d) \<noteq> CHR ''-''" "char_of (48 + d) \<noteq> CHR ''+''"
proof -
  show "\<not> is_space (char_of (48 + d))"
    using assms by (simp only: is_space_def of_char_digit) simp
  have "(of_char (char_of (48 + d) :: char) :: nat) \<noteq> of_char CHR ''-''"
       "(of_char (char_of (48 + d) :: char) :: nat) \<noteq> of_char CHR ''+''"
    using assms by (simp_all only: of_char_digit) simp_all
  then show "char_of (48 + d) \<noteq> CHR ''-''" "char_of (48 + d) \<noteq> CHR ''+''" by metis+
qed

lemma scan_unsigned_show_dec:
  assumes "n < 2 ^ 64" and "rest = [] \<or> \<not> is_digit (hd rest)"
  shows "scan_unsigned (show_dec n @ rest) = Some (of_nat n, rest)"
proof -
  obtain d :: nat and cs where d: "d < 10" and s: "show_dec n = char_of (48 + d) # cs"
    using show_dec_Cons by blast
  have "scan_digits (show_dec n @ rest) 0 = (n, rest)"
    using assms(2) scan_digits_show_dec [of n rest 0] by (cases rest) simp_all
  then show ?thesis
    using assms(1) digit_char_cases [OF d] is_digit_char_of [OF d]
    by (simp add: scan_unsigned_def scan_sign_def strtoul_def s)
qed

lemma scan_dot_Cons [simp]: "scan_dot (CHR ''.'' # s) = Some s"
  by (simp add: scan_dot_def)

lemma dot_not_digit [simp]: "\<not> is_digit CHR ''.''"
  by (simp add: is_digit_def)

lemma sscanf_ip_show:
  assumes "a < 256" "b < 256" "c < 256" "d < 256"
  shows "sscanf_ip (show_dec a @ ''.'' @ show_dec b @ ''.'' @ show_dec c @ ''.'' @ show_dec d) =
    Some (of_nat a, of_nat b, of_nat c, of_nat d)"
  using assms scan_unsigned_show_dec [of d "[]"]
  by (simp add: sscanf_ip_def scan_unsigned_show_dec)

lemma convert_ip_roundtrip:
  "convert_ip_from_str_to_int (convert_ip_from_int_to_str ip) = ip"
proof -
  have b: "unat (w AND 0xff) < 256" for w :: u32
    using unat_u8_less [of "ucast w"] by (simp add: and_ff unsigned_ucast_eq unsigned_take_bit_eq)
  have le: "w AND 0xff \<le> 255" for w :: u32
    by (rule word_and_le1)
  have uc: "ucast (w AND 0xff) = (ucast w :: u8)" for w :: u32
    unfolding and_ff by (rule bit_word_eqI) (auto simp: bit_simps)
  show ?thesis
    unfolding convert_ip_from_str_to_int_def convert_ip_from_int_to_str_def
      sscanf_ip_show [OF b b b b]
    using le by (simp add: not_less [symmetric] uc)
qed

lemma length_show_dec: "n < 1000 \<Longrightarrow> length (show_dec n) \<le> 3"
  by (simp add: show_dec.simps [of n] show_dec.simps [of "n div 10"] show_dec.simps [of "n div 10 div 10"])

section \<open>Address masks\<close>

text \<open>
  \<open>(1 << mask) - 1\<close> for a \<open>char\<close> mask: defined for 0 to 30.  From 31 on the shift of the \<open>int\<close> 1
  (or the subtraction after it) overflows, and a negative shift count is undefined as well.
\<close>

definition prefix_mask :: "u8 \<Rightarrow> u32 res" where
  "prefix_mask m = guardE Undefined_behaviour (0 \<le> sint m \<and> sint m < 31)
                     (Inr (push_bit (nat (sint m)) 1 - 1))"

definition apply_mask :: "string \<Rightarrow> u8 \<Rightarrow> string res" where
  "apply_mask prefix m =
     bindE (prefix_mask m) (\<lambda>bits. Inr (convert_ip_from_int_to_str (convert_ip_from_str_to_int prefix AND bits)))"

lemma prefix_mask_eq:
  "prefix_mask m = (if 0 \<le> sint m \<and> sint m < 31 then Inr (mask (nat (sint m))) else Inl Undefined_behaviour)"
  by (simp add: prefix_mask_def guardE_def mask_eq_exp_minus_1 push_bit_eq_mult)

lemma prefix_mask_Inr_iff:
  "prefix_mask m = Inr b \<longleftrightarrow> 0 \<le> sint m \<and> sint m < 31 \<and> b = mask (nat (sint m))"
  by (auto simp: prefix_mask_eq)

section \<open>Hardware addresses\<close>

definition MAC_ADDR_SIZE :: nat where
  "MAC_ADDR_SIZE = 6"

definition layer2_fill_with_broadcast_mac :: "mac_addr" where
  "layer2_fill_with_broadcast_mac = replicate MAC_ADDR_SIZE 255"

definition IS_MAC_BROADCAST_ADDR :: "mac_addr \<Rightarrow> bool" where
  "IS_MAC_BROADCAST_ADDR mac \<longleftrightarrow>
     mac ! 0 = 0xff \<and> mac ! 1 = 0xff \<and> mac ! 2 = 0xff \<and> mac ! 3 = 0xff \<and> mac ! 4 = 0xff \<and> mac ! 5 = 0xff"

lemma length_broadcast [simp]: "length layer2_fill_with_broadcast_mac = 6"
  by (simp add: layer2_fill_with_broadcast_mac_def MAC_ADDR_SIZE_def)

lemma broadcast_iff:
  assumes "length mac = 6"
  shows "IS_MAC_BROADCAST_ADDR mac \<longleftrightarrow> mac = layer2_fill_with_broadcast_mac"
proof -
  obtain a b c d e f where "mac = [a, b, c, d, e, f]"
    using assms by (auto simp: numeral_eq_Suc length_Suc_conv)
  then show ?thesis
    by (simp add: IS_MAC_BROADCAST_ADDR_def layer2_fill_with_broadcast_mac_def MAC_ADDR_SIZE_def
        numeral_eq_Suc)
qed

section \<open>Hexadecimal dump\<close>

text \<open>The text \<open>dump_hex\<close> prints: full lines of 16 bytes, then the padded rest.\<close>

definition hex_digit :: "nat \<Rightarrow> char" where
  "hex_digit n = (if n < 10 then char_of (48 + n) else char_of (87 + n))"

definition hex_byte :: "u8 \<Rightarrow> string" where
  "hex_byte b = [hex_digit (unat b div 16), hex_digit (unat b mod 16), CHR '' '']"

definition ascii :: "u8 list \<Rightarrow> string" where
  "ascii bs = map (\<lambda>b. char_of (unat b)) bs"

definition dump_line :: "u8 list \<Rightarrow> string" where
  "dump_line bs = concat (map hex_byte bs) @ ''| '' @ ascii bs @ [CHR 0x0A]"

definition dump_hex :: "u8 list \<Rightarrow> string" where
  "dump_hex bytes =
    (let size = length bytes; rest = drop (size div 16 * 16) bytes
     in concat (map (\<lambda>i. dump_line (slice (i * 16) 16 bytes)) [0 ..< size div 16])
        @ concat (map hex_byte rest)
        @ (if size mod 16 \<noteq> 0 then concat (replicate (16 - size mod 16) ''   '') else [])
        @ ''| '' @ ascii rest)"

lemma length_hex_bytes: "length (concat (map hex_byte bs)) = 3 * length bs"
  by (induction bs) (simp_all add: hex_byte_def)

end
