(* ===== verification/Skbuff.thy ===== *)
theory Skbuff
  imports Prelude
begin

text \<open>
  Socket buffers (\<open>skbuff.h\<close>): one zeroed allocation holding the bytes between \<open>head\<close> and
  \<open>end\<close>, with \<open>data\<close> and \<open>tail\<close> pointing into it.  Pointers into the buffer are offsets from
  \<open>head\<close>, \<open>end\<close> is the length of the buffer, and a null header pointer is \<open>None\<close>.  The
  assertions of the code are failures of the operations.
\<close>

section \<open>State and operations\<close>

record skb =
  buf :: "u8 list"
  data_off :: nat
  tail_off :: nat
  skb_len :: nat
  skb_intf :: "nat option"
  ethernet_hdr_off :: "nat option"
  ip_hdr_off :: "nat option"
  tcp_hdr_off :: "nat option"
  udp_hdr_off :: "nat option"

text \<open>\<open>len\<close> is a \<open>size_t\<close>: additions and subtractions wrap at \<open>2 ^ 64\<close>.\<close>

definition size_add :: "nat \<Rightarrow> nat \<Rightarrow> nat" where
  "size_add a b = (a + b) mod 2 ^ 64"

definition size_sub :: "nat \<Rightarrow> nat \<Rightarrow> nat" where
  "size_sub a b = (a + 2 ^ 64 - b) mod 2 ^ 64"

definition alloc_skb :: "nat \<Rightarrow> skb" where
  "alloc_skb n =
    \<lparr>buf = replicate n 0, data_off = 0, tail_off = 0, skb_len = 0, skb_intf = None,
     ethernet_hdr_off = None, ip_hdr_off = None, tcp_hdr_off = None, udp_hdr_off = None\<rparr>"

definition skb_reserve :: "nat \<Rightarrow> skb \<Rightarrow> skb res" where
  "skb_reserve n s =
    (let s = s\<lparr>data_off := data_off s + n, tail_off := tail_off s + n\<rparr>
     in guardE Assert_failed (tail_off s \<le> length (buf s)) (Inr s))"

text \<open>\<open>data -= size\<close> would leave the buffer exactly when \<open>size\<close> exceeds the head room.\<close>

definition skb_push :: "nat \<Rightarrow> skb \<Rightarrow> skb res" where
  "skb_push n s =
    guardE Assert_failed (n \<le> data_off s)
      (Inr (s\<lparr>data_off := data_off s - n, skb_len := size_add (skb_len s) n\<rparr>))"

definition skb_pull :: "nat \<Rightarrow> skb \<Rightarrow> skb res" where
  "skb_pull n s =
    (let s = s\<lparr>data_off := data_off s + n, skb_len := size_sub (skb_len s) n\<rparr>
     in guardE Assert_failed (data_off s \<le> tail_off s) (Inr s))"

text \<open>\<open>skb_put\<close> returns the old \<open>tail\<close>, which the callers read before the call here.\<close>

definition skb_put :: "nat \<Rightarrow> skb \<Rightarrow> skb res" where
  "skb_put n s =
    (let s = s\<lparr>tail_off := tail_off s + n, skb_len := size_add (skb_len s) n\<rparr>
     in guardE Assert_failed (tail_off s \<le> length (buf s)) (Inr s))"

definition skb_headroom :: "skb \<Rightarrow> nat" where
  "skb_headroom s = data_off s"

definition skb_tailroom :: "skb \<Rightarrow> nat" where
  "skb_tailroom s = length (buf s) - tail_off s"

text \<open>
  Access to memory through a pointer into the buffer: a run of bytes, or a packed structure
  given by its codec.
\<close>

definition rd_bytes :: "nat \<Rightarrow> nat \<Rightarrow> skb \<Rightarrow> u8 list res" where
  "rd_bytes off n s = guardE Out_of_bounds (off + n \<le> length (buf s)) (Inr (slice off n (buf s)))"

definition wr_bytes :: "nat \<Rightarrow> u8 list \<Rightarrow> skb \<Rightarrow> skb res" where
  "wr_bytes off bs s =
    guardE Out_of_bounds (off + length bs \<le> length (buf s)) (Inr (s\<lparr>buf := write_at off bs (buf s)\<rparr>))"

definition rd_hdr :: "nat \<Rightarrow> (u8 list \<Rightarrow> 'h) \<Rightarrow> nat \<Rightarrow> skb \<Rightarrow> 'h res" where
  "rd_hdr n dec off s = bindE (rd_bytes off n s) (\<lambda>bs. Inr (dec bs))"

definition wr_hdr :: "('h \<Rightarrow> u8 list) \<Rightarrow> nat \<Rightarrow> 'h \<Rightarrow> skb \<Rightarrow> skb res" where
  "wr_hdr enc off h s = wr_bytes off (enc h) s"

text \<open>The bytes a consumer of the buffer sees.\<close>

definition payload :: "skb \<Rightarrow> u8 list" where
  "payload s = slice (data_off s) (tail_off s - data_off s) (buf s)"

section \<open>Invariant\<close>

definition wf_skb :: "skb \<Rightarrow> bool" where
  "wf_skb s \<longleftrightarrow> data_off s \<le> tail_off s \<and> tail_off s \<le> length (buf s) \<and>
     skb_len s = tail_off s - data_off s \<and> length (buf s) < 2 ^ 64"

lemma size_add_small [simp]: "a + b < 2 ^ 64 \<Longrightarrow> size_add a b = a + b"
  by (simp add: size_add_def)

lemma size_sub_small [simp]: "b \<le> a \<Longrightarrow> a < 2 ^ 64 \<Longrightarrow> size_sub a b = a - b"
  by (simp add: size_sub_def mod_simps flip: Nat.add_diff_assoc2)

lemma wf_alloc_skb: "n < 2 ^ 64 \<Longrightarrow> wf_skb (alloc_skb n)"
  by (simp add: wf_skb_def alloc_skb_def)

lemma wf_skb_reserve: "wf_skb s \<Longrightarrow> skb_reserve n s = Inr t \<Longrightarrow> wf_skb t"
  by (auto simp: wf_skb_def skb_reserve_def Let_def)

lemma wf_skb_push: "wf_skb s \<Longrightarrow> skb_push n s = Inr t \<Longrightarrow> wf_skb t"
  by (auto simp: wf_skb_def skb_push_def)

lemma wf_skb_pull: "wf_skb s \<Longrightarrow> skb_pull n s = Inr t \<Longrightarrow> wf_skb t"
  by (auto simp: wf_skb_def skb_pull_def Let_def)

lemma wf_skb_put: "wf_skb s \<Longrightarrow> skb_put n s = Inr t \<Longrightarrow> wf_skb t"
  by (auto simp: wf_skb_def skb_put_def Let_def)

lemma wf_wr_bytes: "wf_skb s \<Longrightarrow> wr_bytes off bs s = Inr t \<Longrightarrow> wf_skb t"
  by (auto simp: wf_skb_def wr_bytes_def)

lemma wf_wr_hdr: "wf_skb s \<Longrightarrow> wr_hdr enc off h s = Inr t \<Longrightarrow> wf_skb t"
  unfolding wr_hdr_def by (rule wf_wr_bytes)

lemmas wf_skb_ops = wf_skb_reserve wf_skb_push wf_skb_pull wf_skb_put wf_wr_bytes wf_wr_hdr

section \<open>What the operations do to the payload\<close>

lemma length_payload: "wf_skb s \<Longrightarrow> length (payload s) = skb_len s"
  by (simp add: wf_skb_def payload_def)

lemma skb_push_ok:
  "n \<le> data_off s \<Longrightarrow> wf_skb s \<Longrightarrow>
   skb_push n s = Inr (s\<lparr>data_off := data_off s - n, skb_len := skb_len s + n\<rparr>)"
  by (auto simp: skb_push_def wf_skb_def)

lemma skb_pull_ok:
  "n \<le> skb_len s \<Longrightarrow> wf_skb s \<Longrightarrow>
   skb_pull n s = Inr (s\<lparr>data_off := data_off s + n, skb_len := skb_len s - n\<rparr>)"
  by (auto simp: skb_pull_def wf_skb_def Let_def)

lemma skb_pull_short: "skb_len s < n \<Longrightarrow> wf_skb s \<Longrightarrow> skb_pull n s = Inl Assert_failed"
  by (auto simp: skb_pull_def wf_skb_def Let_def guardE_def)

lemma skb_put_ok:
  "n \<le> skb_tailroom s \<Longrightarrow> wf_skb s \<Longrightarrow>
   skb_put n s = Inr (s\<lparr>tail_off := tail_off s + n, skb_len := skb_len s + n\<rparr>)"
  by (auto simp: skb_put_def skb_tailroom_def wf_skb_def Let_def)

lemma payload_push:
  assumes "wf_skb s" and "skb_push n s = Inr t"
  shows "payload t = slice (data_off s - n) n (buf s) @ payload s"
proof -
  have "n \<le> data_off s" using assms(2) by (auto simp: skb_push_def)
  moreover from this have "tail_off s - (data_off s - n) = n + (tail_off s - data_off s)"
    using assms(1) by (simp add: wf_skb_def)
  ultimately show ?thesis
    using assms slice_append_split [of "data_off s - n" n "tail_off s - data_off s" "buf s"]
    by (simp add: skb_push_def payload_def) auto
qed

lemma payload_pull:
  assumes "wf_skb s" and "skb_pull n s = Inr t"
  shows "payload t = drop n (payload s)"
  using assms by (auto simp: skb_pull_def Let_def payload_def slice_def drop_take add.commute)

lemma payload_put:
  assumes "wf_skb s" and "skb_put n s = Inr t"
  shows "payload t = payload s @ slice (tail_off s) n (buf s)"
  using assms slice_append_split [of "data_off s" "tail_off s - data_off s" n "buf s"]
  by (auto simp: skb_put_def Let_def payload_def wf_skb_def)

text \<open>Writing at the start of the data replaces the first bytes of the payload.\<close>

lemma wr_bytes_front:
  assumes "wf_skb s" and "length bs \<le> skb_len s"
  shows "\<exists>t. wr_bytes (data_off s) bs s = Inr t \<and> wf_skb t \<and> payload t = bs @ drop (length bs) (payload s) \<and>
    t = s\<lparr>buf := write_at (data_off s) bs (buf s)\<rparr>"
proof -
  have r: "data_off s + length bs \<le> length (buf s)" and n: "length bs \<le> tail_off s - data_off s"
    using assms by (auto simp: wf_skb_def)
  let ?t = "s\<lparr>buf := write_at (data_off s) bs (buf s)\<rparr>"
  have w: "wr_bytes (data_off s) bs s = Inr ?t" using r by (simp add: wr_bytes_def)
  have "drop (data_off s) (write_at (data_off s) bs (buf s)) = bs @ drop (data_off s + length bs) (buf s)"
    using r by (simp add: write_at_def)
  then have "payload ?t = bs @ drop (length bs) (payload s)"
    using n by (simp add: payload_def slice_def drop_take add.commute)
  with w wf_wr_bytes [OF assms(1) w] show ?thesis by blast
qed

text \<open>A push undoes a pull.\<close>

lemma skb_push_pull:
  "wf_skb s \<Longrightarrow> skb_pull n s = Inr t \<Longrightarrow> skb_push n t = Inr s"
  by (auto simp: skb_pull_def skb_push_def Let_def wf_skb_def)

section \<open>Structures in a buffer\<close>

text \<open>
  A packed structure is a codec between a record and the bytes it occupies; the client reads
  and writes it through a pointer.  Theory Headers interprets the interface for every header of
  the code.
\<close>

locale packed_struct =
  fixes hsize :: nat
    and enc :: "'h \<Rightarrow> u8 list"
    and dec :: "u8 list \<Rightarrow> 'h"
    and valid :: "'h \<Rightarrow> bool"
  assumes length_enc: "valid h \<Longrightarrow> length (enc h) = hsize"
    and dec_enc: "valid h \<Longrightarrow> dec (enc h) = h"
    and enc_dec: "length bs = hsize \<Longrightarrow> enc (dec bs) = bs"
    and valid_dec: "length bs = hsize \<Longrightarrow> valid (dec bs)"
begin

lemma wr_ok:
  "valid h \<Longrightarrow> off + hsize \<le> length (buf s) \<Longrightarrow>
   wr_hdr enc off h s = Inr (s\<lparr>buf := write_at off (enc h) (buf s)\<rparr>)"
  by (simp add: wr_hdr_def wr_bytes_def length_enc)

lemma rd_ok: "off + hsize \<le> length (buf s) \<Longrightarrow> rd_hdr hsize dec off s = Inr (dec (slice off hsize (buf s)))"
  by (simp add: rd_hdr_def rd_bytes_def)

lemma rd_Inr_iff:
  "rd_hdr hsize dec off s = Inr h \<longleftrightarrow> off + hsize \<le> length (buf s) \<and> h = dec (slice off hsize (buf s))"
  by (auto simp: rd_hdr_def rd_bytes_def res_simps)

lemma rd_valid: "rd_hdr hsize dec off s = Inr h \<Longrightarrow> valid h"
  by (auto simp: rd_Inr_iff valid_dec)

lemma rd_wr: "valid h \<Longrightarrow> wr_hdr enc off h s = Inr t \<Longrightarrow> rd_hdr hsize dec off t = Inr h"
  by (auto simp: wr_hdr_def wr_bytes_def rd_Inr_iff length_enc dec_enc)

lemma wr_rd: "rd_hdr hsize dec off s = Inr h \<Longrightarrow> wr_hdr enc off h s = Inr s"
  by (auto simp: rd_Inr_iff wr_hdr_def wr_bytes_def enc_dec)

lemma wr_front:
  assumes "wf_skb s" and "hsize \<le> skb_len s" and "valid h"
  shows "\<exists>t. wr_hdr enc (data_off s) h s = Inr t \<and> wf_skb t \<and> payload t = enc h @ drop hsize (payload s) \<and>
    t = s\<lparr>buf := write_at (data_off s) (enc h) (buf s)\<rparr>"
  using wr_bytes_front [of s "enc h"] assms by (simp add: wr_hdr_def length_enc)

lemma rd_front:
  assumes "wf_skb s" and "payload s = enc h @ rest" and "valid h"
  shows "rd_hdr hsize dec (data_off s) s = Inr h" "skb_len s = hsize + length rest"
proof -
  have l: "length (enc h) = hsize" using length_enc [OF assms(3)] .
  show len: "skb_len s = hsize + length rest" using length_payload [OF assms(1)] assms(2) l by simp
  with assms(1) have b: "data_off s + hsize \<le> tail_off s" "tail_off s \<le> length (buf s)" by (auto simp: wf_skb_def)
  then have "slice (data_off s) hsize (buf s) = take hsize (payload s)" by (simp add: payload_def slice_def min_def)
  also have "\<dots> = enc h" using assms(2) l by simp
  finally show "rd_hdr hsize dec (data_off s) s = Inr h" using rd_ok [of "data_off s" s] dec_enc [OF assms(3)] b by simp
qed

lemma enc_inj: "valid h \<Longrightarrow> valid h' \<Longrightarrow> enc h = enc h' \<Longrightarrow> h = h'"
  by (metis dec_enc)

end

end
