(* ===== verification/Headers.thy ===== *)
theory Headers
  imports Utils Skbuff
begin

text \<open>
  The packed header structures and their memory layout: \<open>struct ethernet_hdr\<close>, \<open>arp_hdr\<close>,
  \<open>ip_hdr\<close>, \<open>icmp_hdr\<close>, \<open>udp_hdr\<close>, \<open>tcp_hdr\<close> and \<open>pseudo_ip_hdr\<close>.  Multi-byte fields hold
  what a little-endian host loads from memory, so a field in network order is read with
  \<open>NTOHS\<close>/\<open>NTOHL\<close> as in the code.  Every structure is an instance of the interface
  \<open>packed_struct\<close>.
\<close>

section \<open>Ethernet\<close>

record ethernet_hdr =
  dst_mac :: mac_addr
  src_mac :: mac_addr
  eth_type :: u16

definition ETH_HDR_SIZE :: nat where "ETH_HDR_SIZE = 14"

definition enc_eth :: "ethernet_hdr \<Rightarrow> u8 list" where
  "enc_eth h = dst_mac h @ src_mac h @ bytes16 (eth_type h)"

definition dec_eth :: "u8 list \<Rightarrow> ethernet_hdr" where
  "dec_eth b = \<lparr>dst_mac = slice 0 6 b, src_mac = slice 6 6 b, eth_type = le16 (b ! 12) (b ! 13)\<rparr>"

definition valid_eth :: "ethernet_hdr \<Rightarrow> bool" where
  "valid_eth h \<longleftrightarrow> length (dst_mac h) = 6 \<and> length (src_mac h) = 6"

section \<open>ARP\<close>

record arp_hdr =
  hw_type :: u16
  proto_type :: u16
  hw_addr_len :: u8
  proto_addr_len :: u8
  opcode :: u16
  sender_hw_addr :: mac_addr
  sender_proto_addr :: ip_addr
  target_hw_addr :: mac_addr
  target_proto_addr :: ip_addr

definition ARP_HDR_SIZE :: nat where "ARP_HDR_SIZE = 28"

definition enc_arp :: "arp_hdr \<Rightarrow> u8 list" where
  "enc_arp h = bytes16 (hw_type h) @ bytes16 (proto_type h) @ [hw_addr_len h, proto_addr_len h] @
     bytes16 (opcode h) @ sender_hw_addr h @ bytes32 (sender_proto_addr h) @
     target_hw_addr h @ bytes32 (target_proto_addr h)"

definition dec_arp :: "u8 list \<Rightarrow> arp_hdr" where
  "dec_arp b = \<lparr>hw_type = le16 (b ! 0) (b ! 1), proto_type = le16 (b ! 2) (b ! 3),
     hw_addr_len = b ! 4, proto_addr_len = b ! 5, opcode = le16 (b ! 6) (b ! 7),
     sender_hw_addr = slice 8 6 b, sender_proto_addr = le32 (b ! 14) (b ! 15) (b ! 16) (b ! 17),
     target_hw_addr = slice 18 6 b, target_proto_addr = le32 (b ! 24) (b ! 25) (b ! 26) (b ! 27)\<rparr>"

definition valid_arp :: "arp_hdr \<Rightarrow> bool" where
  "valid_arp h \<longleftrightarrow> length (sender_hw_addr h) = 6 \<and> length (target_hw_addr h) = 6"

section \<open>IP\<close>

text \<open>Two 4-bit fields share the first byte, \<open>hlen\<close> in the low half.\<close>

type_synonym u4 = "4 word"

definition nibbles :: "u4 \<Rightarrow> u4 \<Rightarrow> u8" where
  "nibbles lo hi = ucast lo OR push_bit 4 (ucast hi)"

record ip_hdr =
  ip_hlen :: u4
  ip_ver :: u4
  ip_tos :: u8
  ip_total_len :: u16
  ip_id :: u16
  ip_frag_off :: u16
  ip_ttl :: u8
  ip_proto :: u8
  ip_hcksum :: u16
  src_ip :: ip_addr
  dst_ip :: ip_addr

definition IP_HDR_SIZE :: nat where "IP_HDR_SIZE = 20"

definition enc_ip :: "ip_hdr \<Rightarrow> u8 list" where
  "enc_ip h = [nibbles (ip_hlen h) (ip_ver h), ip_tos h] @ bytes16 (ip_total_len h) @ bytes16 (ip_id h) @
     bytes16 (ip_frag_off h) @ [ip_ttl h, ip_proto h] @ bytes16 (ip_hcksum h) @ bytes32 (src_ip h) @ bytes32 (dst_ip h)"

definition dec_ip :: "u8 list \<Rightarrow> ip_hdr" where
  "dec_ip b = \<lparr>ip_hlen = ucast (b ! 0), ip_ver = ucast (drop_bit 4 (b ! 0)), ip_tos = b ! 1,
     ip_total_len = le16 (b ! 2) (b ! 3), ip_id = le16 (b ! 4) (b ! 5), ip_frag_off = le16 (b ! 6) (b ! 7),
     ip_ttl = b ! 8, ip_proto = b ! 9, ip_hcksum = le16 (b ! 10) (b ! 11),
     src_ip = le32 (b ! 12) (b ! 13) (b ! 14) (b ! 15), dst_ip = le32 (b ! 16) (b ! 17) (b ! 18) (b ! 19)\<rparr>"

section \<open>ICMP\<close>

record icmp_hdr =
  icmp_type :: u8
  icmp_code :: u8
  icmp_cksum :: u16

definition ICMP_HDR_SIZE :: nat where "ICMP_HDR_SIZE = 4"

definition enc_icmp :: "icmp_hdr \<Rightarrow> u8 list" where
  "enc_icmp h = [icmp_type h, icmp_code h] @ bytes16 (icmp_cksum h)"

definition dec_icmp :: "u8 list \<Rightarrow> icmp_hdr" where
  "dec_icmp b = \<lparr>icmp_type = b ! 0, icmp_code = b ! 1, icmp_cksum = le16 (b ! 2) (b ! 3)\<rparr>"

section \<open>UDP\<close>

record udp_hdr =
  udp_src_port :: u16
  udp_dst_port :: u16
  udp_total_len :: u16
  udp_cksum :: u16

definition UDP_HDR_SIZE :: nat where "UDP_HDR_SIZE = 8"

definition enc_udp :: "udp_hdr \<Rightarrow> u8 list" where
  "enc_udp h = bytes16 (udp_src_port h) @ bytes16 (udp_dst_port h) @ bytes16 (udp_total_len h) @
     bytes16 (udp_cksum h)"

definition dec_udp :: "u8 list \<Rightarrow> udp_hdr" where
  "dec_udp b = \<lparr>udp_src_port = le16 (b ! 0) (b ! 1), udp_dst_port = le16 (b ! 2) (b ! 3),
     udp_total_len = le16 (b ! 4) (b ! 5), udp_cksum = le16 (b ! 6) (b ! 7)\<rparr>"

section \<open>TCP\<close>

record tcp_hdr =
  tcp_src_port :: u16
  tcp_dst_port :: u16
  tcp_seq :: u32
  tcp_ack :: u32
  tcp_rsrv1 :: u4
  tcp_hlen :: u4
  tcp_flags :: u8
  tcp_wnd_sz :: u16
  tcp_cksum :: u16
  tcp_urgp :: u16

text \<open>The bits of \<open>struct tcp_flags\<close>.\<close>

definition fl_fin :: "u8 \<Rightarrow> bool" where "fl_fin v = bit v 0"
definition fl_syn :: "u8 \<Rightarrow> bool" where "fl_syn v = bit v 1"
definition fl_rst :: "u8 \<Rightarrow> bool" where "fl_rst v = bit v 2"
definition fl_ack :: "u8 \<Rightarrow> bool" where "fl_ack v = bit v 4"

definition TCP_HDR_SIZE :: nat where "TCP_HDR_SIZE = 20"

definition enc_tcp :: "tcp_hdr \<Rightarrow> u8 list" where
  "enc_tcp h = bytes16 (tcp_src_port h) @ bytes16 (tcp_dst_port h) @ bytes32 (tcp_seq h) @
     bytes32 (tcp_ack h) @ [nibbles (tcp_rsrv1 h) (tcp_hlen h), tcp_flags h] @
     bytes16 (tcp_wnd_sz h) @ bytes16 (tcp_cksum h) @ bytes16 (tcp_urgp h)"

definition dec_tcp :: "u8 list \<Rightarrow> tcp_hdr" where
  "dec_tcp b = \<lparr>tcp_src_port = le16 (b ! 0) (b ! 1), tcp_dst_port = le16 (b ! 2) (b ! 3),
     tcp_seq = le32 (b ! 4) (b ! 5) (b ! 6) (b ! 7), tcp_ack = le32 (b ! 8) (b ! 9) (b ! 10) (b ! 11),
     tcp_rsrv1 = ucast (b ! 12), tcp_hlen = ucast (drop_bit 4 (b ! 12)), tcp_flags = b ! 13,
     tcp_wnd_sz = le16 (b ! 14) (b ! 15), tcp_cksum = le16 (b ! 16) (b ! 17),
     tcp_urgp = le16 (b ! 18) (b ! 19)\<rparr>"

record pseudo_ip_hdr =
  ps_src_ip :: ip_addr
  ps_dst_ip :: ip_addr
  ps_rsrv :: u8
  ps_proto :: u8
  ps_len :: u16

definition PSEUDO_IP_HDR_SIZE :: nat where "PSEUDO_IP_HDR_SIZE = 12"

definition enc_pseudo :: "pseudo_ip_hdr \<Rightarrow> u8 list" where
  "enc_pseudo h = bytes32 (ps_src_ip h) @ bytes32 (ps_dst_ip h) @ [ps_rsrv h, ps_proto h] @ bytes16 (ps_len h)"

definition dec_pseudo :: "u8 list \<Rightarrow> pseudo_ip_hdr" where
  "dec_pseudo b = \<lparr>ps_src_ip = le32 (b ! 0) (b ! 1) (b ! 2) (b ! 3),
     ps_dst_ip = le32 (b ! 4) (b ! 5) (b ! 6) (b ! 7), ps_rsrv = b ! 8, ps_proto = b ! 9,
     ps_len = le16 (b ! 10) (b ! 11)\<rparr>"

section \<open>The codecs are inverse to each other\<close>

lemma nibble_high: "4 \<le> n \<Longrightarrow> \<not> bit (x :: u4) n" "\<not> bit (x :: u4) (4 + n)"
  by (auto dest: bit_imp_le_length)

lemma nibbles_parts [simp]:
  "ucast (nibbles lo hi) = lo" "ucast (drop_bit 4 (nibbles lo hi)) = hi"
  "nibbles (ucast b) (ucast (drop_bit 4 b)) = b"
  by (auto simp: nibbles_def bit_simps nibble_high intro!: bit_word_eqI)

lemma nibbles_parts_Suc [simp]: "nibbles (ucast b) (ucast (drop_bit (Suc (Suc (Suc (Suc 0)))) b)) = b"
  using nibbles_parts(3) [of b] by (simp add: numeral_eq_Suc)

lemmas header_sizes = ETH_HDR_SIZE_def ARP_HDR_SIZE_def IP_HDR_SIZE_def ICMP_HDR_SIZE_def
  UDP_HDR_SIZE_def TCP_HDR_SIZE_def PSEUDO_IP_HDR_SIZE_def

lemmas header_codecs = enc_eth_def dec_eth_def enc_arp_def dec_arp_def enc_ip_def dec_ip_def
  enc_icmp_def dec_icmp_def enc_udp_def dec_udp_def enc_tcp_def dec_tcp_def enc_pseudo_def dec_pseudo_def

lemmas bytes_defs = bytes16_def bytes32_def

text \<open>Splitting a list of known length into its elements.\<close>

lemmas list_of_length = numeral_eq_Suc length_Suc_conv

lemma mac_elements: "length m = 6 \<Longrightarrow> \<exists>a b c d e f. m = [a, b, c, d, e, f]"
  by (auto simp: list_of_length)

interpretation eth: packed_struct ETH_HDR_SIZE enc_eth dec_eth valid_eth
proof unfold_locales
  fix h :: ethernet_hdr assume "valid_eth h"
  then obtain a b c d e f a' b' c' d' e' f' where
    "dst_mac h = [a, b, c, d, e, f]" "src_mac h = [a', b', c', d', e', f']"
    by (metis mac_elements valid_eth_def)
  then show "length (enc_eth h) = ETH_HDR_SIZE" "dec_eth (enc_eth h) = h"
    by (simp_all add: header_codecs header_sizes bytes_defs slice_def)
next
  fix bs :: "u8 list" assume l: "length bs = ETH_HDR_SIZE"
  then show "enc_eth (dec_eth bs) = bs"
    by (auto simp: header_sizes list_of_length header_codecs slice_def)
  show "valid_eth (dec_eth bs)"
    using l by (simp add: valid_eth_def dec_eth_def header_sizes)
qed

interpretation arp: packed_struct ARP_HDR_SIZE enc_arp dec_arp valid_arp
proof unfold_locales
  fix h :: arp_hdr assume "valid_arp h"
  then obtain a b c d e f a' b' c' d' e' f' where
    "sender_hw_addr h = [a, b, c, d, e, f]" "target_hw_addr h = [a', b', c', d', e', f']"
    by (metis mac_elements valid_arp_def)
  then show "length (enc_arp h) = ARP_HDR_SIZE" "dec_arp (enc_arp h) = h"
    by (simp_all add: header_codecs header_sizes bytes_defs slice_def)
next
  fix bs :: "u8 list" assume l: "length bs = ARP_HDR_SIZE"
  then show "enc_arp (dec_arp bs) = bs"
    by (auto simp: header_sizes list_of_length header_codecs slice_def)
  show "valid_arp (dec_arp bs)"
    using l by (simp add: valid_arp_def dec_arp_def header_sizes)
qed

abbreviation any_hdr :: "'h \<Rightarrow> bool" where
  "any_hdr \<equiv> (\<lambda>_. True)"

interpretation ip: packed_struct IP_HDR_SIZE enc_ip dec_ip any_hdr
proof unfold_locales
  show "length (enc_ip h) = IP_HDR_SIZE" "dec_ip (enc_ip h) = h" for h
    by (simp_all add: header_codecs header_sizes bytes_defs)
  show "length bs = IP_HDR_SIZE \<Longrightarrow> enc_ip (dec_ip bs) = bs" for bs
    by (auto simp: header_sizes list_of_length header_codecs)
qed simp

interpretation icmp: packed_struct ICMP_HDR_SIZE enc_icmp dec_icmp any_hdr
proof unfold_locales
  show "length (enc_icmp h) = ICMP_HDR_SIZE" "dec_icmp (enc_icmp h) = h" for h
    by (simp_all add: header_codecs header_sizes bytes_defs)
  show "length bs = ICMP_HDR_SIZE \<Longrightarrow> enc_icmp (dec_icmp bs) = bs" for bs
    by (auto simp: header_sizes list_of_length header_codecs)
qed simp

interpretation udp: packed_struct UDP_HDR_SIZE enc_udp dec_udp any_hdr
proof unfold_locales
  show "length (enc_udp h) = UDP_HDR_SIZE" "dec_udp (enc_udp h) = h" for h
    by (simp_all add: header_codecs header_sizes bytes_defs)
  show "length bs = UDP_HDR_SIZE \<Longrightarrow> enc_udp (dec_udp bs) = bs" for bs
    by (auto simp: header_sizes list_of_length header_codecs)
qed simp

interpretation tcp: packed_struct TCP_HDR_SIZE enc_tcp dec_tcp any_hdr
proof unfold_locales
  show "length (enc_tcp h) = TCP_HDR_SIZE" "dec_tcp (enc_tcp h) = h" for h
    by (simp_all add: header_codecs header_sizes bytes_defs)
  show "length bs = TCP_HDR_SIZE \<Longrightarrow> enc_tcp (dec_tcp bs) = bs" for bs
    by (auto simp: header_sizes list_of_length header_codecs)
qed simp

interpretation pseudo: packed_struct PSEUDO_IP_HDR_SIZE enc_pseudo dec_pseudo any_hdr
proof unfold_locales
  show "length (enc_pseudo h) = PSEUDO_IP_HDR_SIZE" "dec_pseudo (enc_pseudo h) = h" for h
    by (simp_all add: header_codecs header_sizes bytes_defs)
  show "length bs = PSEUDO_IP_HDR_SIZE \<Longrightarrow> enc_pseudo (dec_pseudo bs) = bs" for bs
    by (auto simp: header_sizes list_of_length header_codecs)
qed simp

end
