(* ===== verification/Linked_List.thy ===== *)
theory Linked_List
  imports Prelude
begin

text \<open>
  The intrusive circular doubly-linked lists of \<open>list.h\<close>, on a heap of \<open>next\<close>/\<open>prev\<close> pointers
  with 64-bit addresses, whose arithmetic wraps around.
  The operations are the assignments of the source, in its order.  \<open>is_list\<close> relates a head to
  the sequence of entries it owns; every operation is shown to implement its counterpart on HOL
  lists, loops included.  The rest of the development keeps such sequences as HOL lists
  (\<open>list_add\<close> is Cons, \<open>list_del\<close> is \<open>remove1\<close>, \<open>list_last_entry\<close> is \<open>last\<close>), which the
  refinement here justifies.  The links sit inside the objects they chain, so the loops of the
  program compute the object from its link; they are shown to run over the objects in order.
\<close>

section \<open>The operations\<close>

type_synonym addr = "64 word"

record list_heap =
  next_of :: "addr \<Rightarrow> addr"
  prev_of :: "addr \<Rightarrow> addr"

definition set_next :: "addr \<Rightarrow> addr \<Rightarrow> list_heap \<Rightarrow> list_heap" where
  "set_next p q h = h\<lparr>next_of := (next_of h)(p := q)\<rparr>"

definition set_prev :: "addr \<Rightarrow> addr \<Rightarrow> list_heap \<Rightarrow> list_heap" where
  "set_prev p q h = h\<lparr>prev_of := (prev_of h)(p := q)\<rparr>"

definition list_empty :: "list_heap \<Rightarrow> addr \<Rightarrow> bool" where
  "list_empty h l \<longleftrightarrow> next_of h l = l"

definition INIT_LIST_HEAD :: "addr \<Rightarrow> list_heap \<Rightarrow> list_heap" where
  "INIT_LIST_HEAD l h = set_next l l (set_prev l l h)"

definition list_add :: "addr \<Rightarrow> addr \<Rightarrow> list_heap \<Rightarrow> list_heap" where
  "list_add new head h =
    (let h = set_prev new head h;
         h = set_next new (next_of h head) h;
         h = set_next (prev_of h new) new h;
         h = set_prev (next_of h new) new h
     in h)"

definition list_del :: "addr \<Rightarrow> list_heap \<Rightarrow> list_heap" where
  "list_del entry h =
    (let h = set_next (prev_of h entry) (next_of h entry) h;
         h = set_prev (next_of h entry) (prev_of h entry) h
     in h)"

text \<open>
  \<open>container_of\<close> subtracts the offset of the member; \<open>list_entry\<close> is another name for it.  The
  macro \<open>list_entry_is_head\<close> is true of the entries that are not the head.
\<close>

definition container_of :: "addr \<Rightarrow> addr \<Rightarrow> addr" where
  "container_of ptr off = ptr - off"

definition list_first_entry :: "list_heap \<Rightarrow> addr \<Rightarrow> addr \<Rightarrow> addr" where
  "list_first_entry h ptr off = container_of (next_of h ptr) off"

definition list_last_entry :: "list_heap \<Rightarrow> addr \<Rightarrow> addr \<Rightarrow> addr" where
  "list_last_entry h ptr off = container_of (prev_of h ptr) off"

definition list_next_entry :: "list_heap \<Rightarrow> addr \<Rightarrow> addr \<Rightarrow> addr" where
  "list_next_entry h pos off = container_of (next_of h (pos + off)) off"

definition list_entry_is_head :: "addr \<Rightarrow> addr \<Rightarrow> addr \<Rightarrow> bool" where
  "list_entry_is_head pos head off \<longleftrightarrow> pos + off \<noteq> head"

text \<open>
  \<open>list_for_each\<close>: \<open>for (pos = head->next; pos != head; pos = pos->next)\<close>, with the loop body a
  state transformer that does not change the links.  The loop of a corrupted list may not end,
  so it is a partial function.
\<close>

partial_function (option) list_for_each_from ::
    "list_heap \<Rightarrow> addr \<Rightarrow> (addr \<Rightarrow> 's \<Rightarrow> 's) \<Rightarrow> addr \<Rightarrow> 's \<Rightarrow> 's option" where
  "list_for_each_from h head body pos s =
     (if pos = head then Some s else list_for_each_from h head body (next_of h pos) (body pos s))"

definition list_for_each ::
    "list_heap \<Rightarrow> addr \<Rightarrow> (addr \<Rightarrow> 's \<Rightarrow> 's) \<Rightarrow> 's \<Rightarrow> 's option" where
  "list_for_each h head body s = list_for_each_from h head body (next_of h head) s"

text \<open>
  \<open>list_for_each_safe\<close> around \<open>list_del\<close>, the loop of every \<open>destroy_\<dots>\<close> function: the
  successor is read before the body unlinks (and frees) the entry.
\<close>

partial_function (option) list_del_each_from ::
    "addr \<Rightarrow> addr \<Rightarrow> addr \<Rightarrow> addr list \<Rightarrow> list_heap \<Rightarrow> (addr list \<times> list_heap) option" where
  "list_del_each_from head pos tmp freed h =
     (if pos = head then Some (freed, h)
      else (let h = list_del pos h
            in list_del_each_from head tmp (next_of h tmp) (freed @ [pos]) h))"

definition list_del_each :: "addr \<Rightarrow> list_heap \<Rightarrow> (addr list \<times> list_heap) option" where
  "list_del_each head h =
     (let pos = next_of h head in list_del_each_from head pos (next_of h pos) [] h)"

text \<open>
  \<open>list_for_each_entry\<close>, the loop over the objects.  Its body may leave the enclosing function
  with a result (\<open>Inl\<close>), as every search of the program does, or go on (\<open>Inr\<close>).
\<close>

partial_function (option) list_for_each_entry_from ::
    "list_heap \<Rightarrow> addr \<Rightarrow> addr \<Rightarrow> (addr \<Rightarrow> 's \<Rightarrow> 'r + 's) \<Rightarrow> addr \<Rightarrow> 's \<Rightarrow> ('r + 's) option" where
  "list_for_each_entry_from h head off body pos s =
     (if list_entry_is_head pos head off
      then (case body pos s of
              Inl r \<Rightarrow> Some (Inl r)
            | Inr s \<Rightarrow> list_for_each_entry_from h head off body (list_next_entry h pos off) s)
      else Some (Inr s))"

definition list_for_each_entry ::
    "list_heap \<Rightarrow> addr \<Rightarrow> addr \<Rightarrow> (addr \<Rightarrow> 's \<Rightarrow> 'r + 's) \<Rightarrow> 's \<Rightarrow> ('r + 's) option" where
  "list_for_each_entry h head off body s =
     list_for_each_entry_from h head off body (list_first_entry h head off) s"

text \<open>
  \<open>list_for_each_entry_safe\<close>: the next object is computed before the body, which may change the
  heap, and the one after it when the loop steps, on the heap the body has left.
\<close>

partial_function (option) list_for_each_entry_safe_from ::
    "addr \<Rightarrow> addr \<Rightarrow> (addr \<Rightarrow> list_heap \<times> 's \<Rightarrow> list_heap \<times> 's) \<Rightarrow> addr \<Rightarrow> addr \<Rightarrow> list_heap \<times> 's \<Rightarrow> (list_heap \<times> 's) option" where
  "list_for_each_entry_safe_from head off body pos tmp hs =
     (if list_entry_is_head pos head off
      then (let hs = body pos hs
            in list_for_each_entry_safe_from head off body tmp (list_next_entry (fst hs) tmp off) hs)
      else Some hs)"

definition list_for_each_entry_safe ::
    "addr \<Rightarrow> addr \<Rightarrow> (addr \<Rightarrow> list_heap \<times> 's \<Rightarrow> list_heap \<times> 's) \<Rightarrow> list_heap \<times> 's \<Rightarrow> (list_heap \<times> 's) option" where
  "list_for_each_entry_safe head off body hs =
     (let pos = list_first_entry (fst hs) head off
      in list_for_each_entry_safe_from head off body pos (list_next_entry (fst hs) pos off) hs)"

section \<open>The sequence a head owns\<close>

fun seg :: "list_heap \<Rightarrow> addr \<Rightarrow> addr list \<Rightarrow> addr \<Rightarrow> bool" where
  "seg h p [] q \<longleftrightarrow> next_of h p = q \<and> prev_of h q = p"
| "seg h p (x # xs) q \<longleftrightarrow> next_of h p = x \<and> prev_of h x = p \<and> seg h x xs q"

definition is_list :: "list_heap \<Rightarrow> addr \<Rightarrow> addr list \<Rightarrow> bool" where
  "is_list h head xs \<longleftrightarrow> distinct (head # xs) \<and> seg h head xs head"

lemmas heap_defs = set_next_def set_prev_def

lemma seg_append: "seg h p (xs @ y # ys) q \<longleftrightarrow> seg h p xs y \<and> seg h y ys q"
  by (induction xs arbitrary: p) auto

lemma seg_frame:
  assumes "\<And>a. a \<in> set (p # xs) \<Longrightarrow> next_of h' a = next_of h a"
    and "\<And>a. a \<in> set (xs @ [q]) \<Longrightarrow> prev_of h' a = prev_of h a"
  shows "seg h' p xs q \<longleftrightarrow> seg h p xs q"
  using assms by (induction xs arbitrary: p) auto

lemma seg_next: "seg h p xs q \<Longrightarrow> next_of h p = hd (xs @ [q])"
  by (cases xs) auto

lemma seg_prev: "seg h p xs q \<Longrightarrow> prev_of h q = last (p # xs)"
  by (induction xs arbitrary: p) auto

lemma is_list_init: "is_list (INIT_LIST_HEAD l h) l []"
  by (simp add: is_list_def INIT_LIST_HEAD_def heap_defs)

lemma is_list_empty: "is_list h l xs \<Longrightarrow> list_empty h l \<longleftrightarrow> xs = []"
  by (cases xs) (auto simp: is_list_def list_empty_def)

lemma is_list_last: "is_list h l xs \<Longrightarrow> xs \<noteq> [] \<Longrightarrow> prev_of h l = last xs"
  by (auto simp: is_list_def dest: seg_prev)

text \<open>The objects of a list: \<open>off\<close> bytes before the links the head owns.\<close>

definition objects :: "list_heap \<Rightarrow> addr \<Rightarrow> addr \<Rightarrow> addr list \<Rightarrow> bool" where
  "objects h head off es \<longleftrightarrow> is_list h head (map (\<lambda>e. e + off) es)"

lemma container_of_member [simp]: "container_of (e + off) off = e"
  by (simp add: container_of_def)

lemma objects_ends:
  assumes "objects h l off es" and "es \<noteq> []"
  shows "list_first_entry h l off = hd es" "list_last_entry h l off = last es"
proof -
  from assms show "list_first_entry h l off = hd es"
    by (cases es) (auto simp: objects_def is_list_def list_first_entry_def)
  have "prev_of h l = last (map (\<lambda>e. e + off) es)"
    using is_list_last [of h l "map (\<lambda>e. e + off) es"] assms by (simp add: objects_def)
  then show "list_last_entry h l off = last es" using assms(2) by (simp add: list_last_entry_def last_map)
qed

lemma is_list_add:
  assumes "is_list h l xs" and "new \<notin> set (l # xs)"
  shows "is_list (list_add new l h) l (new # xs)"
proof (cases xs)
  case Nil
  then show ?thesis using assms by (auto simp: is_list_def list_add_def heap_defs Let_def)
next
  case (Cons y ys)
  let ?h = "list_add new l h"
  have "seg h y ys l" "distinct (l # y # ys)" "new \<notin> set (l # y # ys)" "next_of h l = y"
    using assms Cons by (auto simp: is_list_def)
  moreover from this have "seg ?h y ys l \<longleftrightarrow> seg h y ys l"
    by (intro seg_frame) (auto simp: list_add_def heap_defs Let_def)
  ultimately show ?thesis
    using Cons by (auto simp: is_list_def list_add_def heap_defs Let_def)
qed

lemma is_list_del:
  assumes "is_list h l xs" and "x \<in> set xs"
  shows "is_list (list_del x h) l (remove1 x xs)"
proof -
  let ?h = "list_del x h"
  from assms(2) obtain ys zs where xs: "xs = ys @ x # zs" and "x \<notin> set ys"
    by (metis split_list_first)
  have d: "distinct (l # ys @ x # zs)" and s1: "seg h l ys x" and s2: "seg h x zs l"
    using assms(1) by (auto simp: xs is_list_def seg_append)
  define p q where "p = last (l # ys)" and "q = hd (zs @ [l])"
  have p: "prev_of h x = p" and q: "next_of h x = q"
    using seg_prev [OF s1] seg_next [OF s2] by (simp_all add: p_def q_def)
  have "seg ?h l (ys @ zs) l"
  proof (cases ys rule: rev_cases)
    case Nil
    show ?thesis
    proof (cases zs)
      case Nil
      then show ?thesis using \<open>ys = []\<close> d p q
        by (auto simp: p_def q_def list_del_def heap_defs Let_def)
    next
      case (Cons z zs')
      have "seg ?h z zs' l \<longleftrightarrow> seg h z zs' l"
        using d p q \<open>ys = []\<close> Cons
        by (intro seg_frame) (auto simp: p_def q_def list_del_def heap_defs Let_def)
      then show ?thesis using \<open>ys = []\<close> Cons d p q s2
        by (auto simp: p_def q_def list_del_def heap_defs Let_def)
    qed
  next
    case (snoc ys' y)
    have "seg ?h l ys' y \<longleftrightarrow> seg h l ys' y"
      using d p q snoc
      by (intro seg_frame) (cases zs; auto simp: p_def q_def list_del_def heap_defs Let_def)+
    moreover have "seg ?h y zs l"
    proof (cases zs)
      case Nil
      then show ?thesis using snoc d p q
        by (auto simp: p_def q_def list_del_def heap_defs Let_def)
    next
      case (Cons z zs')
      have "seg ?h z zs' l \<longleftrightarrow> seg h z zs' l"
        using d p q snoc Cons
        by (intro seg_frame) (auto simp: p_def q_def list_del_def heap_defs Let_def)
      then show ?thesis using snoc Cons d p q s2
        by (auto simp: p_def q_def list_del_def heap_defs Let_def)
    qed
    ultimately show ?thesis using s1 snoc by (simp add: seg_append)
  qed
  then show ?thesis using d \<open>x \<notin> set ys\<close> by (auto simp: is_list_def xs remove1_append)
qed

text \<open>Operations on one list leave every other list alone.\<close>

lemma is_list_add_other:
  assumes "is_list h l xs" and "is_list h l' ys" and "set (l # xs) \<inter> set (l' # ys) = {}"
    and "new \<notin> set (l' # ys)"
  shows "is_list (list_add new l h) l' ys"
proof -
  have "next_of h l \<in> set (l # xs)"
    using assms(1) by (cases xs) (auto simp: is_list_def)
  then have "seg (list_add new l h) l' ys l' \<longleftrightarrow> seg h l' ys l'"
    using assms(3,4) by (intro seg_frame) (auto simp: list_add_def heap_defs Let_def)
  then show ?thesis using assms(2) by (simp add: is_list_def)
qed

lemma is_list_neighbours:
  assumes "is_list h l xs" and "x \<in> set xs"
  shows "next_of h x \<in> set (l # xs)" and "prev_of h x \<in> set (l # xs)"
proof -
  from assms(2) obtain ys zs where xs: "xs = ys @ x # zs" by (metis split_list)
  have "seg h l ys x" "seg h x zs l"
    using assms(1) by (auto simp: xs is_list_def seg_append)
  from seg_prev [OF this(1)] seg_next [OF this(2)]
  show "next_of h x \<in> set (l # xs)" "prev_of h x \<in> set (l # xs)"
    by (cases zs; auto simp: xs)+
qed

lemma is_list_del_other:
  assumes "is_list h l xs" and "x \<in> set xs" and "is_list h l' ys"
    and "set (l # xs) \<inter> set (l' # ys) = {}"
  shows "is_list (list_del x h) l' ys"
proof -
  have "seg (list_del x h) l' ys l' \<longleftrightarrow> seg h l' ys l'"
    using is_list_neighbours [OF assms(1,2)] assms(2,4)
    by (intro seg_frame) (auto simp: list_del_def heap_defs Let_def)
  then show ?thesis using assms(3) by (simp add: is_list_def)
qed

section \<open>The loops\<close>

lemma list_for_each_from_seg:
  "seg h p xs head \<Longrightarrow> head \<notin> set xs \<Longrightarrow>
   list_for_each_from h head body (next_of h p) s = Some (fold body xs s)"
proof (induction xs arbitrary: p s)
  case Nil
  then show ?case by (simp add: list_for_each_from.simps)
next
  case (Cons x xs)
  then show ?case by (subst list_for_each_from.simps) auto
qed

lemma list_for_each_is_list:
  "is_list h l xs \<Longrightarrow> list_for_each h l body s = Some (fold body xs s)"
  by (simp add: list_for_each_def is_list_def list_for_each_from_seg)

lemma list_del_each_from_is_list:
  assumes "is_list h l (x # xs)"
  shows "\<exists>h'. list_del_each_from l x (next_of h x) freed h = Some (freed @ x # xs, h') \<and> is_list h' l []"
  using assms
proof (induction xs arbitrary: x freed h)
  case Nil
  let ?h = "list_del x h"
  have "x \<noteq> l" "next_of h x = l" using Nil by (auto simp: is_list_def)
  moreover have "is_list ?h l []" using is_list_del [OF Nil, of x] by simp
  ultimately show ?case
    by (simp add: list_del_each_from.simps [of l x] list_del_each_from.simps [of l l] Let_def)
next
  case (Cons y ys)
  let ?h = "list_del x h"
  have "x \<noteq> l" "next_of h x = y" using Cons.prems by (auto simp: is_list_def)
  moreover have l: "is_list ?h l (y # ys)" using is_list_del [OF Cons.prems, of x] by simp
  from Cons.IH [OF l, of "freed @ [x]"]
  obtain h' where "list_del_each_from l y (next_of ?h y) (freed @ [x]) ?h = Some (freed @ x # y # ys, h')"
    "is_list h' l []" by auto
  ultimately show ?case
    by (simp add: list_del_each_from.simps [of l x] Let_def)
qed

lemma list_del_each_is_list:
  assumes "is_list h l xs"
  shows "\<exists>h'. list_del_each l h = Some (xs, h') \<and> is_list h' l []"
proof (cases xs)
  case Nil
  then have "next_of h l = l" using assms by (auto simp: is_list_def)
  then show ?thesis using assms Nil
    by (simp add: list_del_each_def list_del_each_from.simps Let_def)
next
  case (Cons x xs')
  then have "next_of h l = x" using assms by (auto simp: is_list_def)
  then show ?thesis
    using list_del_each_from_is_list [of h l x xs' "[]"] assms Cons
    by (simp add: list_del_each_def Let_def)
qed

section \<open>The loops over objects\<close>

text \<open>What a loop whose body may leave it computes on a sequence.\<close>

fun until :: "('a \<Rightarrow> 's \<Rightarrow> 'r + 's) \<Rightarrow> 'a list \<Rightarrow> 's \<Rightarrow> 'r + 's" where
  "until body [] s = Inr s"
| "until body (x # xs) s = (case body x s of Inl r \<Rightarrow> Inl r | Inr s \<Rightarrow> until body xs s)"

lemma until_find: "until (\<lambda>x s. if P x then Inl x else Inr s) xs s = (case find P xs of Some x \<Rightarrow> Inl x | None \<Rightarrow> Inr s)"
  by (induction xs) simp_all

lemma entry_head [simp]: "list_entry_is_head (container_of head off) head off \<longleftrightarrow> False"
  by (simp add: list_entry_is_head_def container_of_def)

lemma for_each_entry_seg:
  "seg h p (map (\<lambda>e. e + off) es) head \<Longrightarrow> head \<notin> set (map (\<lambda>e. e + off) es) \<Longrightarrow>
   list_for_each_entry_from h head off body (container_of (next_of h p) off) s = Some (until body es s)"
proof (induction es arbitrary: p s)
  case Nil
  then show ?case by (simp add: list_for_each_entry_from.simps)
next
  case (Cons e es)
  then have e: "next_of h p = e + off" "e + off \<noteq> head" and rest: "seg h (e + off) (map (\<lambda>e. e + off) es) head"
    "head \<notin> set (map (\<lambda>e. e + off) es)" by auto
  from Cons.IH [OF rest] e show ?case
    by (simp add: list_for_each_entry_from.simps [of h head off body e] list_entry_is_head_def list_next_entry_def split: sum.split)
qed

text \<open>A loop over the objects of a list visits them in order, until its body leaves it.\<close>

lemma list_for_each_entry_objects:
  assumes "objects h head off es"
  shows "list_for_each_entry h head off body s = Some (until body es s)"
  using assms by (simp add: list_for_each_entry_def list_first_entry_def objects_def is_list_def for_each_entry_seg)

text \<open>The loops that empty a list: unlink the object, then free it (here: note it down).\<close>

definition unlink_entry :: "addr \<Rightarrow> addr \<Rightarrow> list_heap \<times> addr list \<Rightarrow> list_heap \<times> addr list" where
  "unlink_entry off pos = (\<lambda>(h, freed). (list_del (pos + off) h, freed @ [pos]))"

lemma for_each_entry_safe_unlink:
  assumes "objects h head off (e # es)"
  shows "\<exists>h'. list_for_each_entry_safe_from head off (unlink_entry off) e (list_next_entry h e off) (h, freed) =
    Some (h', freed @ e # es) \<and> objects h' head off []"
  using assms
proof (induction es arbitrary: e freed h)
  case Nil
  let ?h = "list_del (e + off) h"
  have e: "e + off \<noteq> head" "next_of h (e + off) = head" using Nil by (auto simp: objects_def is_list_def)
  have "objects ?h head off []" using is_list_del [of h head "[e + off]" "e + off"] Nil by (simp add: objects_def)
  then show ?case
    using e by (simp add: list_for_each_entry_safe_from.simps [of head off _ e] list_entry_is_head_def list_next_entry_def
        unlink_entry_def Let_def) (simp add: list_for_each_entry_safe_from.simps)
next
  case (Cons e' es)
  let ?h = "list_del (e + off) h"
  have e: "e + off \<noteq> head" "next_of h (e + off) = e' + off" using Cons.prems by (auto simp: objects_def is_list_def)
  have "objects ?h head off (e' # es)"
    using is_list_del [of h head "map (\<lambda>e. e + off) (e # e' # es)" "e + off"] Cons.prems by (simp add: objects_def)
  from Cons.IH [OF this, of "freed @ [e]"] e show ?case
    by (simp add: list_for_each_entry_safe_from.simps [of head off _ e] list_entry_is_head_def list_next_entry_def
        unlink_entry_def Let_def)
qed

lemma list_for_each_entry_safe_objects:
  assumes "objects h head off es"
  shows "\<exists>h'. list_for_each_entry_safe head off (unlink_entry off) (h, []) = Some (h', es) \<and> objects h' head off []"
proof (cases es)
  case Nil
  then have "next_of h head = head" using assms by (simp add: objects_def is_list_def)
  then show ?thesis using assms Nil
    by (simp add: list_for_each_entry_safe_def list_first_entry_def Let_def list_for_each_entry_safe_from.simps)
next
  case (Cons e es')
  have "list_first_entry h head off = e" using objects_ends(1) [OF assms] Cons by simp
  with for_each_entry_safe_unlink [of h head off e es' "[]"] assms Cons show ?thesis
    by (simp add: list_for_each_entry_safe_def Let_def)
qed

section \<open>The queue discipline\<close>

text \<open>
  Every receive queue of the stack is a list whose producer adds at the head and whose consumer
  takes the last entry.  The interface below is all that argument needs.
\<close>

locale head_list =
  fixes owns :: "'h \<Rightarrow> 'a \<Rightarrow> 'a list \<Rightarrow> bool"
    and add :: "'a \<Rightarrow> 'a \<Rightarrow> 'h \<Rightarrow> 'h"
    and del :: "'a \<Rightarrow> 'h \<Rightarrow> 'h"
    and is_nil :: "'h \<Rightarrow> 'a \<Rightarrow> bool"
    and oldest :: "'h \<Rightarrow> 'a \<Rightarrow> 'a"
  assumes owns_distinct: "owns h l xs \<Longrightarrow> distinct (l # xs)"
    and owns_nil: "owns h l xs \<Longrightarrow> is_nil h l \<longleftrightarrow> xs = []"
    and owns_oldest: "owns h l xs \<Longrightarrow> xs \<noteq> [] \<Longrightarrow> oldest h l = last xs"
    and owns_add: "owns h l xs \<Longrightarrow> new \<notin> set (l # xs) \<Longrightarrow> owns (add new l h) l (new # xs)"
    and owns_del: "owns h l xs \<Longrightarrow> x \<in> set xs \<Longrightarrow> owns (del x h) l (remove1 x xs)"
begin

lemma owns_add_all:
  "owns h l xs \<Longrightarrow> distinct (ys @ l # xs) \<Longrightarrow> owns (fold (\<lambda>y. add y l) ys h) l (rev ys @ xs)"
proof (induction ys arbitrary: h xs)
  case (Cons y ys)
  have "owns (add y l h) l (y # xs)"
    using Cons.prems by (intro owns_add) auto
  from Cons.IH [OF this] Cons.prems(2) show ?case by auto
qed simp

lemma owns_take_oldest:
  assumes "owns h l (xs @ [x])"
  shows "oldest h l = x" and "owns (del (oldest h l) h) l xs"
proof -
  show x: "oldest h l = x" using owns_oldest [OF assms] by simp
  have "x \<notin> set xs" using owns_distinct [OF assms] by auto
  then show "owns (del (oldest h l) h) l xs"
    using owns_del [OF assms, of x] by (simp add: x remove1_append)
qed

lemma add_keeps_oldest:
  assumes "owns h l xs" and "xs \<noteq> []" and "new \<notin> set (l # xs)"
  shows "oldest (add new l h) l = oldest h l"
  using owns_oldest [OF owns_add [OF assms(1,3)]] owns_oldest [OF assms(1,2)] assms(2) by simp

end

interpretation heap_list: head_list is_list list_add list_del list_empty prev_of
  by unfold_locales
    (auto simp: is_list_empty is_list_last intro: is_list_add is_list_del, simp_all add: is_list_def)

text \<open>Draining a queue: as long as it is not empty, take the last link and unlink it.\<close>

partial_function (option) drain :: "addr \<Rightarrow> addr list \<Rightarrow> list_heap \<Rightarrow> (addr list \<times> list_heap) option" where
  "drain l got h =
     (if list_empty h l then Some (got, h)
      else drain l (got @ [prev_of h l]) (list_del (prev_of h l) h))"

lemma drain_is_list:
  "is_list h l (rev ys) \<Longrightarrow> \<exists>h'. drain l got h = Some (got @ ys, h') \<and> is_list h' l []"
proof (induction ys arbitrary: got h)
  case Nil
  then show ?case by (simp add: drain.simps is_list_empty)
next
  case (Cons y ys)
  then have l: "is_list h l (rev ys @ [y])" by simp
  have "is_list (list_del y h) l (rev ys)"
    using heap_list.owns_take_oldest [OF l] by simp
  from Cons.IH [OF this, of "got @ [y]"] show ?case
    using heap_list.owns_take_oldest(1) [OF l] is_list_empty [OF l]
    by (subst drain.simps) simp
qed

end
