(* ===== verification/State.thy ===== *)
theory State
  imports Headers Linked_List
begin

text \<open>
  The state of the program: the structures of \<open>graph.h\<close>, \<open>net.h\<close>, \<open>comm.h\<close>, \<open>arp.h\<close>,
  \<open>ip.h\<close>, \<open>udp.h\<close> and \<open>tcp.h\<close>, the objects that exist, and the file-level variables.  An
  object is reached through an identifier (its address) in the table of its type; a freed or
  never allocated object is absent, and reaching for it is the fault \<open>Dangling\<close>.  A list of
  \<open>list.h\<close> is the sequence of its entries, head first (theory Linked_List).
\<close>

section \<open>Structures\<close>

type_synonym skb_id = nat
type_synonym intf_id = nat
type_synonym node_id = nat
type_synonym link_id = nat
type_synonym sock_id = nat
type_synonym conn_id = nat
type_synonym graph_id = nat

datatype comm_type = CT_NONE | CT_UDP | CT_TUNTAP

text \<open>The two operation tables \<open>udp_comm_ops\<close> and \<open>tuntap_comm_ops\<close>; a null \<open>ops\<close> is \<open>None\<close>.\<close>

datatype comm_ops = Udp_comm_ops | Tuntap_comm_ops

record comm =
  comm_type :: comm_type
  comm_fd :: int
  comm_port :: u16
  comm_ops :: "comm_ops option"

record arp_entry =
  arp_ip :: ip_addr
  arp_mac :: mac_addr
  arp_intf :: intf_id
  arp_resolved :: bool
  arp_pending_pkts :: "skb_id list"

record rt_entry =
  rt_dst :: ip_addr
  rt_mask :: u8
  rt_next :: ip_addr
  rt_intf :: intf_id

record mac_table_entry =
  mte_mac :: mac_addr
  mte_intf :: intf_id

text \<open>
  \<open>struct node\<close> and \<open>struct intf\<close> embed the network properties of \<open>net.h\<close>: they extend the record
  of those.
\<close>

record node_nw_prop =
  is_lb_addr_config :: bool
  lb_addr :: ip_addr
  arp_table :: "arp_entry list"
  mac_table :: "mac_table_entry list"
  rt_table :: "rt_entry list"

record node = node_nw_prop +
  node_name :: string
  node_intfs :: "intf_id option list"

record intf_nw_prop =
  tcp_socks_manager :: "sock_id list"
  udp_socks_manager :: "sock_id list"
  if_mac :: mac_addr
  is_ip_addr_config :: bool
  if_ip :: ip_addr
  if_mask :: u8

record intf = intf_nw_prop +
  if_name :: string
  if_node :: node_id
  if_link :: "link_id option"
  if_comm :: comm

record link =
  intf1 :: intf_id
  intf2 :: intf_id
  cost :: u32

record graph =
  graph_name :: string
  graph_nodes :: "node_id list"

record udp_sock =
  us_bound :: bool
  us_node :: node_id
  us_intf :: "intf_id option"
  us_local_port :: u16
  us_rx_skb :: "skb_id list"

datatype tcp_handle = Handle_syn_sent | Handle_estab

record tcp_sock =
  ts_bound :: bool
  ts_listening :: bool
  ts_node :: node_id
  ts_local_ip :: ip_addr
  ts_intf :: "intf_id option"
  ts_local_port :: u16
  ts_conns :: "conn_id list"
  ts_closed_conns :: "conn_id list"

record tcp_connection_sock =
  tc_parent :: sock_id
  tc_state :: tcp_handle
  tc_remote_ip :: ip_addr
  tc_remote_port :: u16
  snt_una :: u32
  snt_nxt :: u32
  snt_wnd :: u16
  snt_iss :: u32
  rcv_nxt :: u32
  rcv_wnd :: u16
  rcv_irs :: u32
  tc_rx_skb :: "skb_id list"
  tc_tx_skb :: "skb_id list"

definition MAX_INTFS_PER_NODE :: nat where "MAX_INTFS_PER_NODE = 4"
definition MAX_COMMS :: nat where "MAX_COMMS = 1024"
definition MAX_UDP_SOCKS :: nat where "MAX_UDP_SOCKS = 8"
definition MAX_TCP_SOCKS :: nat where "MAX_TCP_SOCKS = 8"
definition MAX_TCP_CONN_SOCKS :: nat where "MAX_TCP_CONN_SOCKS = 8"
definition BUFF_HEADROOM :: nat where "BUFF_HEADROOM = 60"
definition BUFF_TAILROOM :: nat where "BUFF_TAILROOM = 46"

section \<open>The operating system\<close>

text \<open>
  What leaves the process is recorded in order: frames given to \<open>sendto\<close> and \<open>write\<close>, the
  user callbacks, the sockets bound and closed, the TAP devices opened and configured, and the
  calls that set up the receive thread.  The results of the system calls are the environment's
  choice, a function of everything that happened before.  A call of \<open>socket\<close> is not recorded, as
  the attempt to bind the socket follows it at once.
\<close>

datatype event =
    Ev_sendto int u16 "u8 list"
  | Ev_write int "u8 list"
  | Ev_send_callback "u8 list" intf_id
  | Ev_receive_callback "u8 list" intf_id
  | Ev_bind int u16
  | Ev_close int
  | Ev_open string
  | Ev_tunsetiff int string
  | Ev_pthread_create
  | Ev_epoll_create
  | Ev_epoll_ctl int nat

record os =
  os_sendto :: "event list \<Rightarrow> int \<Rightarrow> u16 \<Rightarrow> u8 list \<Rightarrow> int"
  os_write :: "event list \<Rightarrow> int \<Rightarrow> u8 list \<Rightarrow> int"
  os_socket :: "event list \<Rightarrow> int"
  os_bind :: "event list \<Rightarrow> int \<Rightarrow> u16 \<Rightarrow> bool"
  os_open :: "event list \<Rightarrow> string \<Rightarrow> int"
  os_tunsetiff :: "event list \<Rightarrow> int \<Rightarrow> string \<Rightarrow> int"
  os_pthread_create :: "event list \<Rightarrow> int"
  os_epoll_create :: "event list \<Rightarrow> int"
  os_epoll_ctl :: "event list \<Rightarrow> int \<Rightarrow> nat \<Rightarrow> int"

section \<open>The world\<close>

record world =
  w_nodes :: "node_id \<Rightarrow> node option"
  w_intfs :: "intf_id \<Rightarrow> intf option"
  w_links :: "link_id \<Rightarrow> link option"
  w_skbs :: "skb_id \<Rightarrow> skb option"
  w_udp_socks :: "sock_id \<Rightarrow> udp_sock option"
  w_tcp_socks :: "sock_id \<Rightarrow> tcp_sock option"
  w_tcp_conns :: "conn_id \<Rightarrow> tcp_connection_sock option"
  w_next :: nat
  w_graphs :: "graph_id \<Rightarrow> graph option"
  udp_fd_to_sock :: "sock_id option list"
  tcp_fd_to_sock :: "sock_id option list"
  fd_conn_to_sock :: "conn_id option list"
  fd_to_comm_map :: "intf_id option list"
  next_udp_port :: u16
  ip_forward_enable :: bool
  send_callback :: bool
  receive_callback :: bool
  trace :: "event list"

text \<open>The zero-initialised file-level variables of the program, before any call.\<close>

definition init_world :: world where
  "init_world =
    \<lparr>w_nodes = Map.empty, w_intfs = Map.empty, w_links = Map.empty, w_skbs = Map.empty,
     w_udp_socks = Map.empty, w_tcp_socks = Map.empty, w_tcp_conns = Map.empty, w_next = 1,
     w_graphs = Map.empty, udp_fd_to_sock = replicate MAX_UDP_SOCKS None,
     tcp_fd_to_sock = replicate MAX_TCP_SOCKS None,
     fd_conn_to_sock = replicate MAX_TCP_CONN_SOCKS None,
     fd_to_comm_map = replicate MAX_COMMS None, next_udp_port = 40000,
     ip_forward_enable = True, send_callback = False, receive_callback = False, trace = []\<rparr>"

type_synonym 'a step = "('a \<times> world) res"

text \<open>The loops over a descriptor table that look for a free slot.\<close>

fun first_free :: "'a option list \<Rightarrow> nat \<Rightarrow> nat option" where
  "first_free [] k = None"
| "first_free (None # xs) k = Some k"
| "first_free (Some x # xs) k = first_free xs (Suc k)"

lemma first_free_Some: "first_free xs k = Some j \<Longrightarrow> k \<le> j \<and> j - k < length xs \<and> xs ! (j - k) = None"
proof (induction xs k rule: first_free.induct)
  case (3 x xs k)
  then have "Suc k \<le> j \<and> j - Suc k < length xs \<and> xs ! (j - Suc k) = None" by simp
  moreover from this have "j - k = Suc (j - Suc k)" by arith
  ultimately show ?case by simp
qed auto

definition emit :: "event \<Rightarrow> world \<Rightarrow> world" where
  "emit e w = w\<lparr>trace := trace w @ [e]\<rparr>"

section \<open>Access to objects\<close>

definition get_skb :: "skb_id \<Rightarrow> world \<Rightarrow> skb res" where
  "get_skb p w = of_option Dangling (w_skbs w p)"

definition put_skb :: "skb_id \<Rightarrow> skb \<Rightarrow> world \<Rightarrow> world" where
  "put_skb p s w = w\<lparr>w_skbs := (w_skbs w)(p \<mapsto> s)\<rparr>"

text \<open>\<open>calloc\<close> returns the address of no live object, and does not fail.\<close>

definition new_skb :: "skb \<Rightarrow> world \<Rightarrow> skb_id \<times> world" where
  "new_skb s w = (w_next w, (put_skb (w_next w) s w)\<lparr>w_next := Suc (w_next w)\<rparr>)"

text \<open>Freeing an object that is not live is a fault.\<close>

definition free_skb :: "skb_id \<Rightarrow> world \<Rightarrow> world res" where
  "free_skb p w = guardE Dangling (w_skbs w p \<noteq> None) (Inr (w\<lparr>w_skbs := (w_skbs w)(p := None)\<rparr>))"

definition on_skb :: "skb_id \<Rightarrow> (skb \<Rightarrow> skb res) \<Rightarrow> world \<Rightarrow> world res" where
  "on_skb p f w = bindE (get_skb p w) (\<lambda>s. bindE (f s) (\<lambda>s'. Inr (put_skb p s' w)))"

definition get_intf :: "intf_id \<Rightarrow> world \<Rightarrow> intf res" where
  "get_intf i w = of_option Dangling (w_intfs w i)"

definition put_intf :: "intf_id \<Rightarrow> intf \<Rightarrow> world \<Rightarrow> world" where
  "put_intf i x w = w\<lparr>w_intfs := (w_intfs w)(i \<mapsto> x)\<rparr>"

definition get_node :: "node_id \<Rightarrow> world \<Rightarrow> node res" where
  "get_node n w = of_option Dangling (w_nodes w n)"

definition put_node :: "node_id \<Rightarrow> node \<Rightarrow> world \<Rightarrow> world" where
  "put_node n x w = w\<lparr>w_nodes := (w_nodes w)(n \<mapsto> x)\<rparr>"

definition get_link :: "link_id \<Rightarrow> world \<Rightarrow> link res" where
  "get_link l w = of_option Dangling (w_links w l)"

definition put_link :: "link_id \<Rightarrow> link \<Rightarrow> world \<Rightarrow> world" where
  "put_link l x w = w\<lparr>w_links := (w_links w)(l \<mapsto> x)\<rparr>"

definition get_graph :: "graph_id \<Rightarrow> world \<Rightarrow> graph res" where
  "get_graph g w = of_option Dangling (w_graphs w g)"

definition put_graph :: "graph_id \<Rightarrow> graph \<Rightarrow> world \<Rightarrow> world" where
  "put_graph g x w = w\<lparr>w_graphs := (w_graphs w)(g \<mapsto> x)\<rparr>"

definition get_udp_sock :: "sock_id \<Rightarrow> world \<Rightarrow> udp_sock res" where
  "get_udp_sock u w = of_option Dangling (w_udp_socks w u)"

definition put_udp_sock :: "sock_id \<Rightarrow> udp_sock \<Rightarrow> world \<Rightarrow> world" where
  "put_udp_sock u x w = w\<lparr>w_udp_socks := (w_udp_socks w)(u \<mapsto> x)\<rparr>"

definition get_tcp_sock :: "sock_id \<Rightarrow> world \<Rightarrow> tcp_sock res" where
  "get_tcp_sock t w = of_option Dangling (w_tcp_socks w t)"

definition put_tcp_sock :: "sock_id \<Rightarrow> tcp_sock \<Rightarrow> world \<Rightarrow> world" where
  "put_tcp_sock t x w = w\<lparr>w_tcp_socks := (w_tcp_socks w)(t \<mapsto> x)\<rparr>"

definition get_tcp_conn :: "conn_id \<Rightarrow> world \<Rightarrow> tcp_connection_sock res" where
  "get_tcp_conn c w = of_option Dangling (w_tcp_conns w c)"

definition put_tcp_conn :: "conn_id \<Rightarrow> tcp_connection_sock \<Rightarrow> world \<Rightarrow> world" where
  "put_tcp_conn c x w = w\<lparr>w_tcp_conns := (w_tcp_conns w)(c \<mapsto> x)\<rparr>"

lemmas world_access = get_skb_def put_skb_def new_skb_def free_skb_def on_skb_def get_intf_def
  put_intf_def get_node_def put_node_def get_link_def put_link_def get_graph_def put_graph_def get_udp_sock_def put_udp_sock_def
  get_tcp_sock_def put_tcp_sock_def get_tcp_conn_def put_tcp_conn_def emit_def

section \<open>Laws of the object tables\<close>

text \<open>
  The tables share one interface: a lookup after a store finds the stored object, a store of
  one identifier leaves the others alone, and a lookup fails only on absent objects.
\<close>

locale object_table =
  fixes table :: "world \<Rightarrow> nat \<Rightarrow> 'o option"
    and get :: "nat \<Rightarrow> world \<Rightarrow> 'o res"
    and put :: "nat \<Rightarrow> 'o \<Rightarrow> world \<Rightarrow> world"
  assumes get_table: "get i w = of_option Dangling (table w i)"
    and put_table: "table (put i x w) = (table w)(i \<mapsto> x)"
begin

lemma get_put: "get j (put i x w) = (if j = i then Inr x else get j w)"
  by (simp add: get_table put_table)

lemma get_put_same [simp]: "get i (put i x w) = Inr x"
  by (simp add: get_put)

lemma get_put_other [simp]: "j \<noteq> i \<Longrightarrow> get j (put i x w) = get j w"
  by (simp add: get_put)

lemma get_Inr_iff: "get i w = Inr x \<longleftrightarrow> table w i = Some x"
  by (simp add: get_table)

lemma get_Inl_iff: "get i w = Inl e \<longleftrightarrow> table w i = None \<and> e = Dangling"
  by (cases "table w i") (auto simp: get_table)

lemma put_put: "table (put i y (put i x w)) = table (put i y w)"
  by (simp add: put_table)

end

interpretation skb_table: object_table w_skbs get_skb put_skb
  by unfold_locales (simp_all add: get_skb_def put_skb_def)

interpretation intf_table: object_table w_intfs get_intf put_intf
  by unfold_locales (simp_all add: get_intf_def put_intf_def)

interpretation node_table: object_table w_nodes get_node put_node
  by unfold_locales (simp_all add: get_node_def put_node_def)

interpretation link_table: object_table w_links get_link put_link
  by unfold_locales (simp_all add: get_link_def put_link_def)

interpretation graph_table: object_table w_graphs get_graph put_graph
  by unfold_locales (simp_all add: get_graph_def put_graph_def)

interpretation udp_sock_table: object_table w_udp_socks get_udp_sock put_udp_sock
  by unfold_locales (simp_all add: get_udp_sock_def put_udp_sock_def)

interpretation tcp_sock_table: object_table w_tcp_socks get_tcp_sock put_tcp_sock
  by unfold_locales (simp_all add: get_tcp_sock_def put_tcp_sock_def)

interpretation tcp_conn_table: object_table w_tcp_conns get_tcp_conn put_tcp_conn
  by unfold_locales (simp_all add: get_tcp_conn_def put_tcp_conn_def)

end
