(* ===== verification/Route.thy ===== *)
theory Route
  imports State
begin

text \<open>
  The routing table of \<open>ip.c\<close> and \<open>ip.h\<close>: adding routes and longest prefix match, with its
  specification and the relation of the masked comparison to network prefixes.
\<close>

section \<open>Masks\<close>

definition INT_IP_MASKED :: "ip_addr \<Rightarrow> u8 \<Rightarrow> u32 res" where
  "INT_IP_MASKED ip m = bindE (prefix_mask m) (\<lambda>b. Inr (ip AND b))"

definition IP_NET_EQ :: "ip_addr \<Rightarrow> ip_addr \<Rightarrow> u8 \<Rightarrow> bool res" where
  "IP_NET_EQ ip1 ip2 m =
    bindE (INT_IP_MASKED ip1 m) (\<lambda>a. bindE (INT_IP_MASKED ip2 m) (\<lambda>b. Inr (a = b)))"

section \<open>The routing table\<close>

definition init_rt_table :: "rt_entry list" where
  "init_rt_table = []"

definition rt_table_add_route ::
    "rt_entry list \<Rightarrow> ip_addr \<Rightarrow> u8 \<Rightarrow> ip_addr \<Rightarrow> intf_id \<Rightarrow> rt_entry list" where
  "rt_table_add_route table dst m nxt i =
     \<lparr>rt_dst = dst, rt_mask = m, rt_next = nxt, rt_intf = i\<rparr> # table"

text \<open>
  The loop of \<open>rt_lookup_lpm\<close> with its three variables.  \<open>&&\<close> evaluates the comparison of the
  networks, with its shift, before that of the masks; masks are signed \<open>char\<close>s.
\<close>

fun rt_lookup_from ::
    "rt_entry list \<Rightarrow> ip_addr \<Rightarrow> u8 \<Rightarrow> rt_entry option \<Rightarrow> rt_entry option \<Rightarrow> rt_entry option res" where
  "rt_lookup_from [] ip max_mask max_entry default_entry =
     Inr (case max_entry of Some e \<Rightarrow> Some e | None \<Rightarrow> default_entry)"
| "rt_lookup_from (e # es) ip max_mask max_entry default_entry =
     (if rt_dst e = 0 then rt_lookup_from es ip max_mask max_entry (Some e)
      else bindE (IP_NET_EQ ip (rt_dst e) (rt_mask e)) (\<lambda>eq.
             if eq \<and> sint (rt_mask e) > sint max_mask
             then rt_lookup_from es ip (rt_mask e) (Some e) default_entry
             else rt_lookup_from es ip max_mask max_entry default_entry))"

definition rt_lookup_lpm :: "rt_entry list \<Rightarrow> ip_addr \<Rightarrow> rt_entry option res" where
  "rt_lookup_lpm table ip = rt_lookup_from table ip 0 None None"

section \<open>Longest prefix match\<close>

text \<open>
  The entries whose mask the code can shift by, and the entries that match an address.  Bits
  below the mask are compared in host order.
\<close>

definition routable :: "rt_entry list \<Rightarrow> bool" where
  "routable table \<longleftrightarrow> (\<forall>e \<in> set table. rt_dst e = 0 \<or> 0 \<le> sint (rt_mask e) \<and> sint (rt_mask e) < 31)"

definition rt_matches :: "ip_addr \<Rightarrow> rt_entry \<Rightarrow> bool" where
  "rt_matches ip e \<longleftrightarrow> rt_dst e \<noteq> 0 \<and> 0 < sint (rt_mask e) \<and>
     take_bit (nat (sint (rt_mask e))) ip = take_bit (nat (sint (rt_mask e))) (rt_dst e)"

lemma IP_NET_EQ_eq:
  "0 \<le> sint m \<Longrightarrow> sint m < 31 \<Longrightarrow>
   IP_NET_EQ a b m = Inr (take_bit (nat (sint m)) a = take_bit (nat (sint m)) b)"
  by (simp add: IP_NET_EQ_def INT_IP_MASKED_def prefix_mask_eq take_bit_eq_mask)

text \<open>The specification, one entry at a time from the end of the list.\<close>

fun lpm_best :: "ip_addr \<Rightarrow> rt_entry list \<Rightarrow> rt_entry option" where
  "lpm_best ip [] = None"
| "lpm_best ip (e # es) =
     (case lpm_best ip es of
        None \<Rightarrow> if rt_matches ip e then Some e else None
      | Some b \<Rightarrow> if rt_matches ip e \<and> sint (rt_mask b) \<le> sint (rt_mask e) then Some e else Some b)"

fun last_default :: "rt_entry list \<Rightarrow> rt_entry option" where
  "last_default [] = None"
| "last_default (e # es) =
     (case last_default es of Some d \<Rightarrow> Some d | None \<Rightarrow> if rt_dst e = 0 then Some e else None)"

lemma lpm_best_None_iff: "lpm_best ip table = None \<longleftrightarrow> (\<forall>e \<in> set table. \<not> rt_matches ip e)"
  by (induction table) (auto split: option.splits if_splits)

lemma lpm_best_Some:
  "lpm_best ip table = Some e \<Longrightarrow>
   \<exists>pre post. table = pre @ e # post \<and> rt_matches ip e \<and>
     (\<forall>c \<in> set pre. rt_matches ip c \<longrightarrow> sint (rt_mask c) < sint (rt_mask e)) \<and>
     (\<forall>c \<in> set post. rt_matches ip c \<longrightarrow> sint (rt_mask c) \<le> sint (rt_mask e))"
proof (induction table arbitrary: e)
  case (Cons x xs)
  show ?case
  proof (cases "lpm_best ip xs")
    case None
    then have "\<forall>c \<in> set xs. \<not> rt_matches ip c" by (simp add: lpm_best_None_iff)
    with None Cons.prems show ?thesis
      by (intro exI [of _ "[]"] exI [of _ xs]) (auto split: if_splits)
  next
    case (Some b)
    from Cons.IH [OF this] obtain pre post where b: "xs = pre @ b # post" "rt_matches ip b"
      "\<forall>c \<in> set pre. rt_matches ip c \<longrightarrow> sint (rt_mask c) < sint (rt_mask b)"
      "\<forall>c \<in> set post. rt_matches ip c \<longrightarrow> sint (rt_mask c) \<le> sint (rt_mask b)" by blast
    show ?thesis
    proof (cases "rt_matches ip x \<and> sint (rt_mask b) \<le> sint (rt_mask x)")
      case True
      then have "e = x" using Some Cons.prems by simp
      moreover have "\<forall>c \<in> set xs. rt_matches ip c \<longrightarrow> sint (rt_mask c) \<le> sint (rt_mask x)"
        using b True by fastforce
      ultimately show ?thesis using True
        by (intro exI [of _ "[]"] exI [of _ xs]) auto
    next
      case False
      then have "e = b" using Some Cons.prems by auto
      with b False show ?thesis
        by (intro exI [of _ "x # pre"] exI [of _ post]) auto
    qed
  qed
qed simp

lemma last_default_Some: "last_default table = Some d \<Longrightarrow> d \<in> set table \<and> rt_dst d = 0"
  by (induction table) (auto split: option.splits if_splits)

lemma last_default_None_iff: "last_default table = None \<longleftrightarrow> (\<forall>e \<in> set table. rt_dst e \<noteq> 0)"
  by (induction table) (auto split: option.splits if_splits)

lemma rt_lookup_from_eq:
  assumes "routable table" and "0 \<le> sint mx"
  shows "rt_lookup_from table ip mx best def = Inr
    (case (case lpm_best ip table of None \<Rightarrow> best
           | Some b \<Rightarrow> if sint mx < sint (rt_mask b) then Some b else best)
     of Some e \<Rightarrow> Some e
      | None \<Rightarrow> (case last_default table of Some d \<Rightarrow> Some d | None \<Rightarrow> def))"
  using assms
proof (induction table arbitrary: mx best "def")
  case Nil
  then show ?case by (simp split: option.split)
next
  case (Cons e es)
  have r: "routable es" and e: "rt_dst e = 0 \<or> 0 \<le> sint (rt_mask e) \<and> sint (rt_mask e) < 31"
    using Cons.prems(1) by (simp_all add: routable_def)
  consider (default) "rt_dst e = 0" | (better) "rt_matches ip e" "sint mx < sint (rt_mask e)"
    | (skip) "rt_dst e \<noteq> 0" "\<not> (rt_matches ip e \<and> sint mx < sint (rt_mask e))"
    by blast
  then show ?case
  proof cases
    case default
    then have "\<not> rt_matches ip e" by (simp add: rt_matches_def)
    with default Cons.IH [OF r Cons.prems(2)] show ?thesis
      by (simp split: option.split)
  next
    case better
    then have "rt_lookup_from (e # es) ip mx best def = rt_lookup_from es ip (rt_mask e) (Some e) def"
      using e by (auto simp: rt_matches_def IP_NET_EQ_eq)
    moreover have "0 \<le> sint (rt_mask e)" "rt_dst e \<noteq> 0" using better by (auto simp: rt_matches_def)
    ultimately show ?thesis using better Cons.IH [OF r]
      by (auto split: option.split)
  next
    case skip
    then have "rt_lookup_from (e # es) ip mx best def = rt_lookup_from es ip mx best def"
      using e Cons.prems(2) by (auto simp: rt_matches_def IP_NET_EQ_eq)
    with skip Cons.IH [OF r Cons.prems(2)] show ?thesis
      by (auto split: option.split)
  qed
qed

lemma rt_lookup_lpm_eq:
  assumes "routable table"
  shows "rt_lookup_lpm table ip =
    Inr (case lpm_best ip table of Some e \<Rightarrow> Some e | None \<Rightarrow> last_default table)"
proof -
  have "lpm_best ip table = Some b \<Longrightarrow> 0 < sint (rt_mask b)" for b
    using lpm_best_Some [of ip table b] by (auto simp: rt_matches_def)
  then show ?thesis
    using rt_lookup_from_eq [OF assms, of 0 ip None None]
    by (auto simp: rt_lookup_lpm_def split: option.splits)
qed

text \<open>What the lookup returns is an entry of the table.\<close>

lemma rt_lookup_from_mem:
  "rt_lookup_from table ip mx best def = Inr (Some e) \<Longrightarrow> e \<in> set table \<or> best = Some e \<or> def = Some e"
  by (induction table ip mx best "def" rule: rt_lookup_from.induct)
    (auto simp: res_simps split: option.splits if_splits)

lemma rt_lookup_lpm_mem: "rt_lookup_lpm table ip = Inr (Some e) \<Longrightarrow> e \<in> set table"
  using rt_lookup_from_mem [of table ip 0 None None e] by (simp add: rt_lookup_lpm_def)

text \<open>A mask the code cannot shift by stops the lookup, unless an earlier fault did.\<close>

lemma rt_lookup_undefined:
  assumes "e \<in> set table" and "rt_dst e \<noteq> 0" and "\<not> (0 \<le> sint (rt_mask e) \<and> sint (rt_mask e) < 31)"
  shows "rt_lookup_from table ip mx best def = Inl Undefined_behaviour"
  using assms(1)
proof (induction table arbitrary: mx best "def")
  case (Cons x xs)
  show ?case
  proof (cases "x = e")
    case True
    with assms(2,3) show ?thesis
      by (auto simp: IP_NET_EQ_def INT_IP_MASKED_def prefix_mask_eq)
  next
    case False
    with Cons.prems have "e \<in> set xs" by simp
    then have IH: "rt_lookup_from xs ip mx best def = Inl Undefined_behaviour" for mx best "def"
      by (rule Cons.IH)
    then show ?thesis
      by (auto simp: IP_NET_EQ_def INT_IP_MASKED_def prefix_mask_eq)
  qed
qed simp

lemma routable_add:
  "routable (rt_table_add_route table dst m nxt i) \<longleftrightarrow>
     routable table \<and> (dst = 0 \<or> 0 \<le> sint m \<and> sint m < 31)"
  by (auto simp: routable_def rt_table_add_route_def)

text \<open>
  The prefix a mask of whole bytes denotes, in network order, is what the masked comparison
  compares.
\<close>

lemma bit_HTONL: "i < 32 \<Longrightarrow> bit (HTONL w) i \<longleftrightarrow> bit w (24 - 8 * (i div 8) + i mod 8)"
proof -
  assume i: "i < 32"
  define a b c d where "a = (ucast w :: u8)" and "b = (ucast (drop_bit 8 w) :: u8)"
    and "c = (ucast (drop_bit 16 w) :: u8)" and "d = (ucast (drop_bit 24 w) :: u8)"
  have w: "w = le32 a b c d" by (simp add: a_def b_def c_def d_def)
  consider "i < 8" | "8 \<le> i" "i < 16" | "16 \<le> i" "i < 24" | "24 \<le> i" using i by linarith
  then show ?thesis
  proof cases
    case 1
    then show ?thesis by (simp add: w HTONL_le32 bit_le32)
  next
    case 2
    then have "i div 8 = 1" "i mod 8 = i - 8" by (auto simp: le_mod_geq le_div_geq)
    then show ?thesis using 2 by (simp add: w HTONL_le32 bit_le32)
  next
    case 3
    then have "i div 8 = 2" "i mod 8 = i - 16" by (auto simp: le_mod_geq le_div_geq)
    then show ?thesis using 3 by (simp add: w HTONL_le32 bit_le32)
  next
    case 4
    then have "i div 8 = 3" "i mod 8 = i - 24" using i by (auto simp: le_mod_geq le_div_geq)
    then show ?thesis using 4 i by (simp add: w HTONL_le32 bit_le32)
  qed
qed

definition net_prefix :: "nat \<Rightarrow> ip_addr \<Rightarrow> u32" where
  "net_prefix n ip = drop_bit (32 - n) (HTONL ip)"

lemma net_prefix_eq_iff:
  assumes "n \<le> 32"
  shows "net_prefix n a = net_prefix n b \<longleftrightarrow>
    (\<forall>i < 32. 32 - n \<le> i \<longrightarrow> bit (HTONL a) i = bit (HTONL b) i)" (is "?l \<longleftrightarrow> ?r")
proof
  assume ?l
  then have *: "bit (HTONL a) (32 - n + j) = bit (HTONL b) (32 - n + j)" for j
    by (metis bit_drop_bit_eq comp_apply net_prefix_def)
  show ?r
  proof (intro allI impI)
    fix i assume "i < 32" "32 - n \<le> i"
    then show "bit (HTONL a) i = bit (HTONL b) i" using * [of "i - (32 - n)"] by simp
  qed
next
  assume r: ?r
  have "bit (HTONL a) k = bit (HTONL b) k" if "32 - n \<le> k" for k
    using r that by (cases "k < 32") (auto dest: bit_imp_le_length)
  then show ?l
    unfolding net_prefix_def by (intro bit_word_eqI) (simp add: bit_drop_bit_eq)
qed

lemma take_bit_eq_bits:
  "take_bit n (a :: 'a::len word) = take_bit n b \<longleftrightarrow> (\<forall>i < n. bit a i = bit b i)" (is "?l \<longleftrightarrow> ?r")
proof
  assume ?l
  then show ?r by (metis bit_take_bit_iff)
next
  assume ?r
  then show ?l by (intro bit_word_eqI) (auto simp: bit_take_bit_iff)
qed

text \<open>The position of a bit after the byte swap.\<close>

definition swap_pos :: "nat \<Rightarrow> nat" where
  "swap_pos i = 24 - 8 * (i div 8) + i mod 8"

lemma swap_pos:
  assumes "i < 32"
  shows "swap_pos i < 32" "swap_pos (swap_pos i) = i" "k \<le> 4 \<Longrightarrow> swap_pos i < 8 * k \<longleftrightarrow> 32 - 8 * k \<le> i"
proof -
  define q r where "q = i div 8" and "r = i mod 8"
  have i: "i = 8 * q + r" "r < 8" "q < 4" using assms by (auto simp: q_def r_def)
  have s: "swap_pos i = 8 * (3 - q) + r" using i by (simp add: swap_pos_def q_def r_def)
  have "swap_pos i div 8 = 3 - q" "swap_pos i mod 8 = r" using i(2) by (simp_all add: s)
  then have "swap_pos (swap_pos i) = 24 - 8 * (3 - q) + r" by (simp only: swap_pos_def [of "swap_pos i"])
  also have "\<dots> = i" using i by linarith
  finally show "swap_pos (swap_pos i) = i" .
  show "swap_pos i < 32" using i s by linarith
  show "k \<le> 4 \<Longrightarrow> swap_pos i < 8 * k \<longleftrightarrow> 32 - 8 * k \<le> i"
  proof -
    assume k: "k \<le> 4"
    have "swap_pos i < 8 * k \<longleftrightarrow> 3 - q < k" using i(2) s by linarith
    also have "\<dots> \<longleftrightarrow> 4 - k \<le> q" using i(3) k by linarith
    also have "\<dots> \<longleftrightarrow> 32 - 8 * k \<le> i" using i(1,2) k by linarith
    finally show ?thesis .
  qed
qed

lemma net_prefix_bytes:
  assumes "k \<le> 4"
  shows "net_prefix (8 * k) a = net_prefix (8 * k) b \<longleftrightarrow> take_bit (8 * k) a = take_bit (8 * k) b"
proof -
  have H: "bit (HTONL w) i \<longleftrightarrow> bit w (swap_pos i)" if "i < 32" for w i
    using bit_HTONL [OF that] by (simp add: swap_pos_def)
  have "(\<forall>i < 32. 32 - 8 * k \<le> i \<longrightarrow> bit (HTONL a) i = bit (HTONL b) i) \<longleftrightarrow>
        (\<forall>i < 32. swap_pos i < 8 * k \<longrightarrow> bit a (swap_pos i) = bit b (swap_pos i))"
    using H swap_pos(3) [OF _ assms] by auto
  also have "\<dots> \<longleftrightarrow> (\<forall>j < 8 * k. bit a j = bit b j)"
  proof (rule iffI; intro allI impI)
    fix j assume l: "\<forall>i < 32. swap_pos i < 8 * k \<longrightarrow> bit a (swap_pos i) = bit b (swap_pos i)" and j: "j < 8 * k"
    then have "j < 32" using assms by simp
    then show "bit a j = bit b j" using l [rule_format, of "swap_pos j"] swap_pos(1,2) [of j] j by simp
  qed auto
  finally show ?thesis
    using net_prefix_eq_iff [of "8 * k" a b] assms by (simp add: take_bit_eq_bits)
qed

text \<open>
  A mask \<open>8 k + r\<close> in general: the first \<open>k\<close> bytes of the address and the low \<open>r\<close> bits, not
  the high ones, of the byte that follows.
\<close>

lemma take_bit_bytes:
  assumes "k < 4" and "r < 8"
  shows "take_bit (8 * k + r) a = take_bit (8 * k + r) (b :: u32) \<longleftrightarrow>
    take_bit (8 * k) a = take_bit (8 * k) b \<and> take_bit r (bytes32 a ! k) = take_bit r (bytes32 b ! k)"
proof -
  have byte: "bytes32 w ! k = ucast (drop_bit (8 * k) w)" for w
    using assms(1) by (auto simp: bytes32_def less_Suc_eq numeral_eq_Suc)
  have "(\<forall>i < 8 * k + r. bit a i = bit b i) \<longleftrightarrow>
    (\<forall>i < 8 * k. bit a i = bit b i) \<and> (\<forall>i < r. bit a (8 * k + i) = bit b (8 * k + i))"
  proof (rule iffI, force, intro allI impI)
    fix i assume l: "(\<forall>i < 8 * k. bit a i = bit b i) \<and> (\<forall>i < r. bit a (8 * k + i) = bit b (8 * k + i))" and i: "i < 8 * k + r"
    show "bit a i = bit b i"
    proof (cases "i < 8 * k")
      case False
      then have "i = 8 * k + (i - 8 * k)" "i - 8 * k < r" using i by linarith+
      with l show ?thesis by metis
    qed (use l in blast)
  qed
  moreover have "take_bit r (bytes32 a ! k) = take_bit r (bytes32 b ! k) \<longleftrightarrow>
      (\<forall>i < r. bit a (8 * k + i) = bit b (8 * k + i))"
    using assms(2) by (simp add: byte take_bit_eq_bits bit_simps)
  ultimately show ?thesis by (simp add: take_bit_eq_bits)
qed

lemma IP_NET_EQ_bytes:
  assumes "sint m = int (8 * k + r)" and "r < 8" and "8 * k + r < 31"
  shows "IP_NET_EQ a b m =
    Inr (net_prefix (8 * k) a = net_prefix (8 * k) b \<and> take_bit r (bytes32 a ! k) = take_bit r (bytes32 b ! k))"
proof -
  have k: "k < 4" "k \<le> 4" using assms(3) by simp_all
  have m: "nat (sint m) = 8 * k + r" "0 \<le> sint m" "sint m < 31" using assms(1,3) by simp_all
  then show ?thesis
    using IP_NET_EQ_eq [OF m(2,3), of a b] take_bit_bytes [OF k(1) assms(2)] net_prefix_bytes [OF k(2)] by simp
qed

end
