(* ===== verification/Comm.thy ===== *)
theory Comm
  imports State
begin

text \<open>
  The communication layer: \<open>comm.c\<close> and its two transports \<open>comm_udp.c\<close> (a UDP socket per
  interface, the far end of the link as destination) and \<open>comm_tuntap.c\<close>.  A \<open>struct comm\<close> is
  part of its interface, so the interface identifies it (\<open>COMM_INTF\<close>).
\<close>

section \<open>Descriptors\<close>

definition set_fd_comm :: "int \<Rightarrow> intf_id option \<Rightarrow> world \<Rightarrow> bool \<times> world" where
  "set_fd_comm fd c w =
    (if fd < 0 \<or> fd \<ge> int MAX_COMMS then (False, w)
     else (True, w\<lparr>fd_to_comm_map := (fd_to_comm_map w)[nat fd := c]\<rparr>))"

definition fd_to_comm :: "int \<Rightarrow> world \<Rightarrow> intf_id option" where
  "fd_to_comm fd w =
    (if fd < 0 \<or> fd \<ge> int MAX_COMMS then None else fd_to_comm_map w ! nat fd)"

text \<open>\<open>get_nbr_if\<close> and \<open>get_nbr_node\<close> of \<open>graph.h\<close>: the other end of an interface's link.\<close>

definition get_nbr_if :: "intf_id \<Rightarrow> world \<Rightarrow> intf_id option res" where
  "get_nbr_if i w =
    bindE (get_intf i w) (\<lambda>x.
      case if_link x of
        None \<Rightarrow> Inr None
      | Some l \<Rightarrow> bindE (get_link l w) (\<lambda>lk.
          Inr (Some (if i = intf1 lk then intf2 lk else intf1 lk))))"

definition get_nbr_node :: "intf_id \<Rightarrow> world \<Rightarrow> node_id option res" where
  "get_nbr_node i w =
    bindE (get_nbr_if i w) (\<lambda>n.
      case n of
        None \<Rightarrow> Inr None
      | Some j \<Rightarrow> bindE (get_intf j w) (\<lambda>y. Inr (Some (if_node y))))"

section \<open>Opening and closing\<close>

definition set_comm :: "intf_id \<Rightarrow> (comm \<Rightarrow> comm) \<Rightarrow> world \<Rightarrow> world res" where
  "set_comm i f w = bindE (get_intf i w) (\<lambda>x. Inr (put_intf i (x\<lparr>if_comm := f (if_comm x)\<rparr>) w))"

text \<open>
  \<open>get_next_udp_port\<close> counts through the 16-bit ports; the loop of \<open>udp_init_comm\<close> ends with
  the first port that can be bound, if there is one.
\<close>

definition get_next_udp_port :: "world \<Rightarrow> u16 \<times> world" where
  "get_next_udp_port w = (next_udp_port w, w\<lparr>next_udp_port := next_udp_port w + 1\<rparr>)"

partial_function (option) bind_loop :: "os \<Rightarrow> int \<Rightarrow> world \<Rightarrow> (u16 \<times> world) option" where
  "bind_loop os fd w =
    (let (port, w1) = get_next_udp_port w;
         w2 = emit (Ev_bind fd port) w1
     in if os_bind os (trace w) fd port then Some (port, w2) else bind_loop os fd w2)"

definition udp_init_comm :: "os \<Rightarrow> intf_id \<Rightarrow> world \<Rightarrow> bool step" where
  "udp_init_comm os i w =
    (let fd = os_socket os (trace w)
     in case bind_loop os fd w of
          None \<Rightarrow> Inl Diverges
        | Some (port, w) \<Rightarrow>
            bindE (set_comm i (\<lambda>c. c\<lparr>comm_fd := fd, comm_port := port\<rparr>) w) (\<lambda>w.
              Inr (set_fd_comm fd (Some i) w)))"

definition udp_destroy_comm :: "intf_id \<Rightarrow> world \<Rightarrow> bool step" where
  "udp_destroy_comm i w =
    bindE (get_intf i w) (\<lambda>x.
      let fd = comm_fd (if_comm x)
      in if fd \<noteq> 0
         then bindE (set_comm i (\<lambda>c. c\<lparr>comm_fd := 0, comm_port := 0\<rparr>)
                (emit (Ev_close fd) (snd (set_fd_comm fd None w)))) (\<lambda>w. Inr (True, w))
         else Inr (True, w))"

text \<open>
  \<open>tun_alloc\<close> copies at most \<open>IFNAMSIZ\<close> characters of the name into the request; a failed
  \<open>ioctl\<close> leaves the descriptor of the device open.
\<close>

definition IFNAMSIZ :: nat where "IFNAMSIZ = 16"

definition tun_alloc :: "os \<Rightarrow> string \<Rightarrow> world \<Rightarrow> int \<times> world" where
  "tun_alloc os name w =
    (let fd = os_open os (trace w) ''/dev/net/tun'';
         w1 = emit (Ev_open ''/dev/net/tun'') w
     in if fd < 0 then (- 1, w1)
        else let req = take IFNAMSIZ name;
                 err = os_tunsetiff os (trace w1) fd req;
                 w2 = emit (Ev_tunsetiff fd req) w1
             in if err < 0 then (err, w2) else (fd, w2))"

lemma tun_alloc_frame: "\<exists>es. tun_alloc os name w = (fst (tun_alloc os name w), w\<lparr>trace := trace w @ es\<rparr>)"
  by (auto simp: tun_alloc_def emit_def Let_def)

definition tuntap_init_comm :: "os \<Rightarrow> intf_id \<Rightarrow> world \<Rightarrow> bool step" where
  "tuntap_init_comm os i w =
    bindE (get_intf i w) (\<lambda>x.
      let (fd, w) = tun_alloc os (if_name x) w
      in bindE (set_comm i (\<lambda>c. c\<lparr>comm_fd := fd\<rparr>) w) (\<lambda>w.
           if fd < 0 then Inr (False, w) else Inr (set_fd_comm fd (Some i) w)))"

definition tuntap_destroy_comm :: "intf_id \<Rightarrow> world \<Rightarrow> bool step" where
  "tuntap_destroy_comm i w =
    bindE (get_intf i w) (\<lambda>x.
      let fd = comm_fd (if_comm x)
      in if fd \<noteq> 0
         then bindE (set_comm i (\<lambda>c. c\<lparr>comm_fd := 0\<rparr>)
                (emit (Ev_close fd) (snd (set_fd_comm fd None w)))) (\<lambda>w. Inr (True, w))
         else Inr (True, w))"

definition init_comm :: "os \<Rightarrow> intf_id \<Rightarrow> comm_type \<Rightarrow> world \<Rightarrow> bool step" where
  "init_comm os i ct w =
    (case ct of
       CT_UDP \<Rightarrow> bindE (set_comm i (\<lambda>c. c\<lparr>comm_type := ct, comm_ops := Some Udp_comm_ops\<rparr>) w)
                   (udp_init_comm os i)
     | CT_TUNTAP \<Rightarrow> bindE (set_comm i (\<lambda>c. c\<lparr>comm_type := ct, comm_ops := Some Tuntap_comm_ops\<rparr>) w)
                   (tuntap_init_comm os i)
     | CT_NONE \<Rightarrow> Inl Exit_failure)"

definition destroy_comm :: "intf_id \<Rightarrow> world \<Rightarrow> bool step" where
  "destroy_comm i w =
    bindE (get_intf i w) (\<lambda>x.
      case comm_ops (if_comm x) of
        None \<Rightarrow> Inl Null_deref
      | Some Udp_comm_ops \<Rightarrow> udp_destroy_comm i w
      | Some Tuntap_comm_ops \<Rightarrow> tuntap_destroy_comm i w)"

section \<open>Sending\<close>

text \<open>
  The \<open>send_bytes\<close> operations return a \<open>ssize_t\<close>; \<open>udp_send_bytes\<close> returns its \<open>bool\<close> verdict
  converted to one.
\<close>

definition udp_send_bytes :: "os \<Rightarrow> intf_id \<Rightarrow> u8 list \<Rightarrow> world \<Rightarrow> int step" where
  "udp_send_bytes os i bytes w =
    bindE (get_intf i w) (\<lambda>x.
    bindE (get_nbr_if i w) (\<lambda>nbr.
      case nbr of
        None \<Rightarrow> Inr (0, w)
      | Some j \<Rightarrow> bindE (get_intf j w) (\<lambda>y.
          let fd = comm_fd (if_comm x); port = comm_port (if_comm y)
          in if port = 0 \<or> fd = 0 then Inr (0, w)
             else if os_sendto os (trace w) fd port bytes < 0
                  then Inr (0, emit (Ev_sendto fd port bytes) w)
                  else Inr (1, emit (Ev_sendto fd port bytes) w))))"

definition tuntap_send_bytes :: "os \<Rightarrow> intf_id \<Rightarrow> u8 list \<Rightarrow> world \<Rightarrow> int step" where
  "tuntap_send_bytes os i bytes w =
    bindE (get_intf i w) (\<lambda>x.
      let fd = comm_fd (if_comm x)
      in Inr (os_write os (trace w) fd bytes, emit (Ev_write fd bytes) w))"

definition send_bytes_out :: "os \<Rightarrow> u8 list \<Rightarrow> intf_id \<Rightarrow> world \<Rightarrow> int step" where
  "send_bytes_out os bytes i w =
    (let w = (if send_callback w then emit (Ev_send_callback bytes i) w else w)
     in bindE (get_intf i w) (\<lambda>x.
          case comm_ops (if_comm x) of
            None \<Rightarrow> Inl Null_deref
          | Some Udp_comm_ops \<Rightarrow> udp_send_bytes os i bytes w
          | Some Tuntap_comm_ops \<Rightarrow> tuntap_send_bytes os i bytes w))"

definition send_pkt_out :: "os \<Rightarrow> intf_id \<Rightarrow> skb_id \<Rightarrow> world \<Rightarrow> bool step" where
  "send_pkt_out os i p w =
    bindE (get_skb p w) (\<lambda>s.
    bindE (rd_bytes (data_off s) (skb_len s) s) (\<lambda>bytes.
    bindE (send_bytes_out os bytes i w) (\<lambda>(result, w).
      if result \<ge> 0 then bindE (free_skb p w) (\<lambda>w. Inr (True, w)) else Inr (False, w))))"

fun send_flood_from :: "os \<Rightarrow> intf_id option \<Rightarrow> u8 list \<Rightarrow> intf_id option list \<Rightarrow> bool \<Rightarrow> world \<Rightarrow> bool step" where
  "send_flood_from os exempted bytes [] rc w = Inr (rc, w)"
| "send_flood_from os exempted bytes (None # slots) rc w = send_flood_from os exempted bytes slots rc w"
| "send_flood_from os exempted bytes (Some i # slots) rc w =
     (if Some i \<noteq> exempted
      then bindE (send_bytes_out os bytes i w) (\<lambda>(n, w).
             send_flood_from os exempted bytes slots (rc \<or> n < 0) w)
      else send_flood_from os exempted bytes slots rc w)"

definition send_bytes_flood :: "os \<Rightarrow> node_id \<Rightarrow> intf_id option \<Rightarrow> u8 list \<Rightarrow> world \<Rightarrow> bool step" where
  "send_bytes_flood os n exempted bytes w =
    bindE (get_node n w) (\<lambda>nd. send_flood_from os exempted bytes (node_intfs nd) False w)"

definition send_pkt_flood :: "os \<Rightarrow> node_id \<Rightarrow> intf_id option \<Rightarrow> skb_id \<Rightarrow> world \<Rightarrow> bool step" where
  "send_pkt_flood os n exempted p w =
    bindE (get_skb p w) (\<lambda>s.
    bindE (rd_bytes (data_off s) (skb_len s) s) (\<lambda>bytes.
    bindE (send_bytes_flood os n exempted bytes w) (\<lambda>(ok, w).
      if ok then bindE (free_skb p w) (\<lambda>w. Inr (True, w)) else Inr (False, w))))"

section \<open>Receiving\<close>

text \<open>
  The \<open>recv_bytes\<close> operations of the two tables: \<open>recvfrom\<close> and \<open>read\<close> deliver the frame that
  waits on the descriptor, cut to the size of the buffer, or report an error (\<open>None\<close>).
\<close>

definition udp_recv_bytes :: "u8 list option \<Rightarrow> nat \<Rightarrow> u8 list option" where
  "udp_recv_bytes waiting n = map_option (take n) waiting"

definition tuntap_recv_bytes :: "u8 list option \<Rightarrow> nat \<Rightarrow> u8 list option" where
  "tuntap_recv_bytes waiting n = map_option (take n) waiting"

definition recv_bytes :: "comm \<Rightarrow> u8 list option \<Rightarrow> nat \<Rightarrow> u8 list option res" where
  "recv_bytes c waiting n =
    (case comm_ops c of
       None \<Rightarrow> Inl Null_deref
     | Some Udp_comm_ops \<Rightarrow> Inr (udp_recv_bytes waiting n)
     | Some Tuntap_comm_ops \<Rightarrow> Inr (tuntap_recv_bytes waiting n))"

lemma recv_bytes_open:
  "comm_ops c \<noteq> None \<Longrightarrow> recv_bytes c waiting n = Inr (map_option (take n) waiting)"
  by (auto simp: recv_bytes_def udp_recv_bytes_def tuntap_recv_bytes_def split: comm_ops.splits)

section \<open>Callbacks\<close>

definition set_send_callback :: "bool \<Rightarrow> world \<Rightarrow> world" where
  "set_send_callback cb w = w\<lparr>send_callback := cb\<rparr>"

definition set_receive_callback :: "bool \<Rightarrow> world \<Rightarrow> world" where
  "set_receive_callback cb w = w\<lparr>receive_callback := cb\<rparr>"

end
