(* ===== verification/Net.thy ===== *)
theory Net
  imports Route Comm "HOL-Library.Multiset"
begin

text \<open>
  Nodes and interfaces as \<open>net.c\<close> and the inline functions of \<open>graph.h\<close> see them: names and
  lookups, hardware addresses, address configuration, and the search for the interface that
  owns an address.
\<close>

section \<open>Names\<close>

definition MAX_IF_NAME_SIZE :: nat where "MAX_IF_NAME_SIZE = 15"
definition MAX_TOPO_NAME_SIZE :: nat where "MAX_TOPO_NAME_SIZE = 32"
definition MAX_NODE_NAME_SIZE :: nat where "MAX_NODE_NAME_SIZE = 32"

text \<open>
  A C string ends before its NUL; \<open>strncmp\<close> compares and \<open>strncpy\<close> (into a zeroed array one
  byte longer) copies at most \<open>n\<close> characters.
\<close>

definition cstr :: "string \<Rightarrow> string" where
  "cstr s = takeWhile (\<lambda>c. c \<noteq> CHR 0x00) s"

definition strncmp_eq :: "string \<Rightarrow> string \<Rightarrow> nat \<Rightarrow> bool" where
  "strncmp_eq a b n \<longleftrightarrow> take n (cstr a) = take n (cstr b)"

definition strncpy :: "string \<Rightarrow> nat \<Rightarrow> string" where
  "strncpy s n = take n (cstr s)"

section \<open>Interfaces of a node\<close>

fun available_slot_from :: "intf_id option list \<Rightarrow> nat \<Rightarrow> nat option" where
  "available_slot_from [] k = None"
| "available_slot_from (None # slots) k = Some k"
| "available_slot_from (Some i # slots) k = available_slot_from slots (Suc k)"

text \<open>The slot number, \<open>-1\<close> when there is none.\<close>

definition get_node_intf_available_slot :: "node \<Rightarrow> int" where
  "get_node_intf_available_slot nd =
    (case available_slot_from (node_intfs nd) 0 of None \<Rightarrow> - 1 | Some k \<Rightarrow> int k)"

text \<open>
  The searches over the slots of a node share one loop: the first interface present that
  passes a test.
\<close>

fun find_slot :: "(intf \<Rightarrow> bool res) \<Rightarrow> intf_id option list \<Rightarrow> world \<Rightarrow> intf_id option res" where
  "find_slot test [] w = Inr None"
| "find_slot test (None # slots) w = find_slot test slots w"
| "find_slot test (Some i # slots) w =
    bindE (get_intf i w) (\<lambda>x.
    bindE (test x) (\<lambda>b. if b then Inr (Some i) else find_slot test slots w))"

definition find_node_intf :: "(intf \<Rightarrow> bool res) \<Rightarrow> node_id \<Rightarrow> world \<Rightarrow> intf_id option res" where
  "find_node_intf test n w = bindE (get_node n w) (\<lambda>nd. find_slot test (node_intfs nd) w)"

definition get_node_if_by_name :: "node_id \<Rightarrow> string \<Rightarrow> world \<Rightarrow> intf_id option res" where
  "get_node_if_by_name n name w =
    find_node_intf (\<lambda>x. Inr (strncmp_eq (if_name x) name MAX_IF_NAME_SIZE)) n w"

text \<open>\<open>is_ip_local\<close> (\<open>ip.c\<close>) compares with the address of every interface, configured or not.\<close>

definition is_ip_local :: "node_id \<Rightarrow> ip_addr \<Rightarrow> world \<Rightarrow> bool res" where
  "is_ip_local n ip w =
    bindE (find_node_intf (\<lambda>x. Inr (if_ip x = ip)) n w) (\<lambda>r. Inr (r \<noteq> None))"

definition get_matching_interface :: "node_id \<Rightarrow> ip_addr \<Rightarrow> world \<Rightarrow> intf_id option res" where
  "get_matching_interface n ip w =
    find_node_intf (\<lambda>x. Inr (is_ip_addr_config x \<and> ip = if_ip x)) n w"

definition get_matching_subnet_interface_ip :: "node_id \<Rightarrow> ip_addr \<Rightarrow> world \<Rightarrow> intf_id option res" where
  "get_matching_subnet_interface_ip n ip w =
    find_node_intf (\<lambda>x. if is_ip_addr_config x then IP_NET_EQ ip (if_ip x) (if_mask x) else Inr False) n w"

definition get_matching_subnet_interface :: "node_id \<Rightarrow> string \<Rightarrow> world \<Rightarrow> intf_id option res" where
  "get_matching_subnet_interface n s w =
    get_matching_subnet_interface_ip n (convert_ip_from_str_to_int s) w"

section \<open>Configuration\<close>

definition node_set_loopback_address :: "node_id \<Rightarrow> string \<Rightarrow> world \<Rightarrow> bool step" where
  "node_set_loopback_address n s w =
    (let ip = convert_ip_from_str_to_int s
     in if ip = 0 then Inr (False, w)
        else bindE (get_node n w) (\<lambda>nd.
               Inr (True, put_node n (nd\<lparr>lb_addr := ip, is_lb_addr_config := True\<rparr>) w)))"

definition node_set_intf_ip_addr :: "node_id \<Rightarrow> string \<Rightarrow> string \<Rightarrow> u8 \<Rightarrow> world \<Rightarrow> bool step" where
  "node_set_intf_ip_addr n name s m w =
    bindE (get_node_if_by_name n name w) (\<lambda>r.
      case r of
        None \<Rightarrow> Inr (False, w)
      | Some i \<Rightarrow>
          let ip = convert_ip_from_str_to_int s
          in if ip = 0 then Inr (False, w)
             else bindE (get_intf i w) (\<lambda>x.
                  let w = put_intf i (x\<lparr>if_ip := ip, if_mask := m, is_ip_addr_config := True\<rparr>) w
                  in bindE (INT_IP_MASKED ip m) (\<lambda>net.
                     bindE (get_node n w) (\<lambda>nd.
                       Inr (True, put_node n (nd\<lparr>rt_table := rt_table_add_route (rt_table nd) net m 0 i\<rparr>) w)))))"

section \<open>Hardware addresses\<close>

text \<open>\<open>string[i] * 31\<close> is an \<open>int\<close> product of a signed \<open>char\<close>, converted to 64 bits.\<close>

definition hashcode :: "string \<Rightarrow> u64" where
  "hashcode s = fold (\<lambda>c result. result * (scast (of_char c :: u8) * 31)) (cstr s) 7"

definition low_mac_bytes :: "u64 \<Rightarrow> mac_addr" where
  "low_mac_bytes code = map (\<lambda>k. ucast (drop_bit (8 * k) code)) [0 ..< MAC_ADDR_SIZE]"

definition interface_assign_mac_address :: "intf_id \<Rightarrow> world \<Rightarrow> world res" where
  "interface_assign_mac_address i w =
    bindE (get_intf i w) (\<lambda>x.
    bindE (get_node (if_node x) w) (\<lambda>nd.
      Inr (put_intf i (x\<lparr>if_mac := low_mac_bytes (hashcode (node_name nd) * hashcode (if_name x))\<rparr>) w)))"

section \<open>What the searches find\<close>

lemma find_slot_Some:
  "find_slot test slots w = Inr (Some i) \<Longrightarrow>
   Some i \<in> set slots \<and> (\<exists>x. get_intf i w = Inr x \<and> test x = Inr True)"
proof (induction slots)
  case (Cons slot slots)
  then show ?case by (cases slot) (auto simp: res_simps split: if_splits)
qed simp

lemma find_slot_None:
  "find_slot test slots w = Inr None \<Longrightarrow> Some i \<in> set slots \<Longrightarrow>
   \<exists>x. get_intf i w = Inr x \<and> test x = Inr False"
proof (induction slots)
  case (Cons slot slots)
  then show ?case by (cases slot) (auto simp: res_simps split: if_splits)
qed simp

lemma find_slot_total:
  assumes "\<And>i. Some i \<in> set slots \<Longrightarrow> \<exists>x. get_intf i w = Inr x"
  shows "\<exists>r. find_slot (\<lambda>x. Inr (test x)) slots w = Inr r"
  using assms
proof (induction slots)
  case (Cons slot slots)
  then show ?case by (cases slot) fastforce+
qed simp

lemma is_ip_local_iff:
  assumes "get_node n w = Inr nd" and "is_ip_local n ip w = Inr b"
  shows "b \<longleftrightarrow> (\<exists>i x. Some i \<in> set (node_intfs nd) \<and> get_intf i w = Inr x \<and> if_ip x = ip)"
proof -
  from assms obtain r where r: "find_slot (\<lambda>x. Inr (if_ip x = ip)) (node_intfs nd) w = Inr r"
    and b: "b = (r \<noteq> None)"
    by (auto simp: is_ip_local_def find_node_intf_def res_simps)
  show ?thesis
  proof (cases r)
    case None
    with r b show ?thesis by (fastforce dest: find_slot_None)
  next
    case (Some i)
    with r b show ?thesis using find_slot_Some [of _ _ w i] by fastforce
  qed
qed

text \<open>The searches read interfaces and nodes only.\<close>

lemma find_slot_cong: "w_intfs w' = w_intfs w \<Longrightarrow> find_slot test slots w' = find_slot test slots w"
proof (induction slots)
  case (Cons slot slots)
  have "get_intf i w' = get_intf i w" for i using Cons.prems by (simp add: get_intf_def)
  then show ?case using Cons.IH [OF Cons.prems] by (cases slot) (simp_all only: find_slot.simps)
qed simp

lemma is_ip_local_cong:
  assumes "w_intfs w' = w_intfs w" and "w_nodes w' = w_nodes w"
  shows "is_ip_local n ip w' = is_ip_local n ip w"
  unfolding is_ip_local_def find_node_intf_def get_node_def find_slot_cong [OF assms(1)] assms(2) ..

lemma length_low_mac_bytes [simp]: "length (low_mac_bytes code) = 6"
  by (simp add: low_mac_bytes_def MAC_ADDR_SIZE_def)

lemma hashcode_mult: "fold (\<lambda>c r. r * f c) cs (a :: u64) = a * prod_list (map f cs)"
  by (induction cs arbitrary: a) (simp_all add: ac_simps)

lemma hashcode_perm:
  assumes "mset (cstr s) = mset (cstr t)"
  shows "hashcode s = hashcode t"
proof -
  have "prod_list (map f xs) = prod_mset (image_mset f (mset xs))" for f :: "char \<Rightarrow> u64" and xs
    by (simp add: prod_mset_prod_list [symmetric])
  then show ?thesis by (simp add: hashcode_def hashcode_mult assms)
qed

end
