(* ===== verification/Ethernet.thy ===== *)
theory Ethernet
  imports Comm
begin

text \<open>
  Ethernet framing, the output side of \<open>ethernet.c\<close> and the test that admits a frame.  The
  demultiplexer \<open>ethernet_input\<close> is in theory Stack, above the protocols it calls.
\<close>

definition ETH_PROTO_IP :: u16 where "ETH_PROTO_IP = 0x0800"
definition ETH_PROTO_ARP :: u16 where "ETH_PROTO_ARP = 0x0806"

definition ethernet_input_qualify :: "intf \<Rightarrow> ethernet_hdr \<Rightarrow> bool" where
  "ethernet_input_qualify x hdr \<longleftrightarrow> dst_mac hdr = if_mac x \<or> IS_MAC_BROADCAST_ADDR (dst_mac hdr)"

definition ethernet_output :: "os \<Rightarrow> intf_id \<Rightarrow> mac_addr \<Rightarrow> u16 \<Rightarrow> skb_id \<Rightarrow> world \<Rightarrow> bool step" where
  "ethernet_output os i mac proto p w =
    bindE (get_skb p w) (\<lambda>s.
    bindE (skb_push ETH_HDR_SIZE s) (\<lambda>s.
    bindE (get_intf i w) (\<lambda>x.
    bindE (wr_hdr enc_eth (data_off s)
             \<lparr>dst_mac = mac, src_mac = if_mac x, eth_type = HTONS proto\<rparr> s) (\<lambda>s.
    bindE (if skb_len s < 60 then skb_put (60 - skb_len s) s else Inr s) (\<lambda>s.
      send_pkt_out os i p (put_skb p s w))))))"

text \<open>
  \<open>wrap_eth_hdr_with_payload\<close> clears a header in front of a packet that lies at an offset of a
  larger buffer, and leaves the packet alone.
\<close>

definition wrap_eth_hdr_with_payload :: "nat \<Rightarrow> u8 list \<Rightarrow> (nat \<times> u8 list) res" where
  "wrap_eth_hdr_with_payload pkt mem =
    guardE Out_of_bounds (ETH_HDR_SIZE \<le> pkt \<and> pkt \<le> length mem)
      (let p = pkt - ETH_HDR_SIZE in Inr (p, write_at p (replicate ETH_HDR_SIZE 0) mem))"

lemma wrap_eth_hdr_cleared:
  assumes "wrap_eth_hdr_with_payload pkt mem = Inr (p, mem')"
  shows "slice p ETH_HDR_SIZE mem' = replicate ETH_HDR_SIZE 0" and "drop pkt mem' = drop pkt mem"
    and "take p mem' = take p mem" and "length mem' = length mem"
  using assms by (auto simp: wrap_eth_hdr_with_payload_def guardE_def Let_def write_at_def slice_def split: if_splits)

section \<open>The frame on the wire\<close>

text \<open>Destination, source, type, the payload, and what the buffer holds behind it up to 60 bytes.\<close>

definition frame_of :: "intf \<Rightarrow> mac_addr \<Rightarrow> u16 \<Rightarrow> skb \<Rightarrow> u8 list" where
  "frame_of x mac proto s =
     mac @ if_mac x @ bytes16 (HTONS proto) @ payload s @ slice (tail_off s) (46 - skb_len s) (buf s)"

text \<open>Room in front for the header, and behind for the padding of a short frame.\<close>

definition frame_room :: "skb \<Rightarrow> bool" where
  "frame_room s \<longleftrightarrow> wf_skb s \<and> ETH_HDR_SIZE \<le> data_off s \<and> 46 - skb_len s \<le> skb_tailroom s"

lemma rd_payload: "wf_skb s \<Longrightarrow> rd_bytes (data_off s) (skb_len s) s = Inr (payload s)"
  by (simp add: rd_bytes_def wf_skb_def payload_def)

lemma send_pkt_out_eq:
  assumes "get_skb p w = Inr s" and "wf_skb s"
  shows "send_pkt_out os i p w =
    bindE (send_bytes_out os (payload s) i w) (\<lambda>(result, w).
      if result \<ge> 0 then bindE (free_skb p w) (\<lambda>w. Inr (True, w)) else Inr (False, w))"
  using assms by (simp add: send_pkt_out_def rd_payload)

lemma ethernet_header_payload:
  assumes "wf_skb s" and "ETH_HDR_SIZE \<le> data_off s" and "valid_eth h"
    and "skb_push ETH_HDR_SIZE s = Inr s1" and "wr_hdr enc_eth (data_off s1) h s1 = Inr s2"
  shows "wf_skb s2" and "payload s2 = enc_eth h @ payload s" and "tail_off s2 = tail_off s"
    and "slice (tail_off s2) n (buf s2) = slice (tail_off s) n (buf s)"
    and "length (buf s2) = length (buf s)" and "skb_len s2 = skb_len s + ETH_HDR_SIZE"
proof -
  have s1: "s1 = s\<lparr>data_off := data_off s - ETH_HDR_SIZE, skb_len := skb_len s + ETH_HDR_SIZE\<rparr>"
    using skb_push_ok [OF assms(2,1)] assms(4) by simp
  have room: "data_off s \<le> length (buf s)" using assms(1) by (simp add: wf_skb_def)
  have len: "length (enc_eth h) = ETH_HDR_SIZE" by (rule eth.length_enc [OF assms(3)])
  have s2: "s2 = s1\<lparr>buf := write_at (data_off s1) (enc_eth h) (buf s)\<rparr>"
    using eth.wr_ok [OF assms(3), of "data_off s1" s1] assms(2,5) room by (simp add: s1)
  show "wf_skb s2" by (rule wf_wr_hdr [OF wf_skb_push [OF assms(1,4)] assms(5)])
  show "tail_off s2 = tail_off s" by (simp add: s1 s2)
  show l: "length (buf s2) = length (buf s)" using assms(2) room len by (simp add: s1 s2)
  show "skb_len s2 = skb_len s + ETH_HDR_SIZE" by (simp add: s1 s2)
  have "write_at (data_off s - ETH_HDR_SIZE) (enc_eth h) (buf s) =
        take (data_off s - ETH_HDR_SIZE) (buf s) @ enc_eth h @ drop (data_off s) (buf s)"
    using assms(2) by (simp add: write_at_def len)
  then have b: "drop (data_off s) (buf s2) = drop (data_off s) (buf s)"
    "drop (data_off s - ETH_HDR_SIZE) (buf s2) = enc_eth h @ drop (data_off s) (buf s)"
    using assms(2) room len by (simp_all add: s1 s2)
  have dt: "data_off s \<le> tail_off s" using assms(1) by (simp add: wf_skb_def)
  have "payload s2 = take (tail_off s - (data_off s - ETH_HDR_SIZE)) (drop (data_off s - ETH_HDR_SIZE) (buf s2))"
    by (simp add: payload_def slice_def s1 s2)
  also have "tail_off s - (data_off s - ETH_HDR_SIZE) = ETH_HDR_SIZE + (tail_off s - data_off s)"
    using dt assms(2) by simp
  finally show "payload s2 = enc_eth h @ payload s"
    unfolding b(2) by (simp add: len payload_def slice_def)
  have "drop (tail_off s - data_off s) (drop (data_off s) (buf s2)) =
        drop (tail_off s - data_off s) (drop (data_off s) (buf s))"
    by (simp only: b(1))
  then have "drop (tail_off s) (buf s2) = drop (tail_off s) (buf s)"
    using dt by simp
  then show "slice (tail_off s2) n (buf s2) = slice (tail_off s) n (buf s)"
    by (simp add: slice_def s1 s2)
qed

lemma ethernet_output_frame:
  assumes p: "get_skb p w = Inr s" and room: "frame_room s" and i: "get_intf i w = Inr x"
    and macs: "length mac = 6" "length (if_mac x) = 6"
  shows "\<exists>s'. wf_skb s' \<and> ethernet_output os i mac proto p w =
    bindE (send_bytes_out os (frame_of x mac proto s) i (put_skb p s' w)) (\<lambda>(result, w).
      if result \<ge> 0 then bindE (free_skb p w) (\<lambda>w. Inr (True, w)) else Inr (False, w))"
proof -
  have wf: "wf_skb s" and d: "ETH_HDR_SIZE \<le> data_off s" and t: "46 - skb_len s \<le> skb_tailroom s"
    using room by (simp_all add: frame_room_def)
  define h where "h = \<lparr>dst_mac = mac, src_mac = if_mac x, eth_type = HTONS proto\<rparr>"
  have h: "valid_eth h" using macs by (simp add: h_def valid_eth_def)
  define s1 where "s1 = s\<lparr>data_off := data_off s - ETH_HDR_SIZE, skb_len := skb_len s + ETH_HDR_SIZE\<rparr>"
  have s1: "skb_push ETH_HDR_SIZE s = Inr s1" using skb_push_ok [OF d wf] by (simp add: s1_def)
  obtain s2 where s2: "wr_hdr enc_eth (data_off s1) h s1 = Inr s2"
    using eth.wr_ok [OF h, of "data_off s1" s1] d wf by (auto simp: s1_def wf_skb_def)
  note P = ethernet_header_payload [OF wf d h s1 s2]
  have fin: "\<exists>s3. (if skb_len s2 < 60 then skb_put (60 - skb_len s2) s2 else Inr s2) = Inr s3 \<and>
      wf_skb s3 \<and> payload s3 = frame_of x mac proto s"
  proof (cases "skb_len s2 < 60")
    case True
    then have n: "60 - skb_len s2 = 46 - skb_len s" using P(6) by (simp add: ETH_HDR_SIZE_def)
    have "60 - skb_len s2 \<le> skb_tailroom s2" using t n P(3,5) by (simp add: skb_tailroom_def)
    from skb_put_ok [OF this P(1)] obtain s3 where s3: "skb_put (60 - skb_len s2) s2 = Inr s3" by simp
    have "payload s3 = frame_of x mac proto s"
      using payload_put [OF P(1) s3] P(2,4) n by (simp add: frame_of_def enc_eth_def h_def)
    with s3 True wf_skb_put [OF P(1) s3] show ?thesis by simp
  next
    case False
    then have "46 - skb_len s = 0" using P(6) by (simp add: ETH_HDR_SIZE_def)
    then have "payload s2 = frame_of x mac proto s"
      by (simp add: P(2) frame_of_def enc_eth_def h_def slice_def)
    with False P(1) show ?thesis by simp
  qed
  then obtain s3 where s3: "(if skb_len s2 < 60 then skb_put (60 - skb_len s2) s2 else Inr s2) = Inr s3"
    and wf3: "wf_skb s3" and pay3: "payload s3 = frame_of x mac proto s" by blast
  have "ethernet_output os i mac proto p w = send_pkt_out os i p (put_skb p s3 w)"
    using s1 s2 s3 p i by (simp add: ethernet_output_def h_def)
  then show ?thesis
    using send_pkt_out_eq [of p "put_skb p s3 w" s3 os i] wf3 pay3 by auto
qed

lemma length_frame_of:
  assumes "frame_room s" and "length mac = 6" and "length (if_mac x) = 6"
  shows "length (frame_of x mac proto s) = max 60 (skb_len s + 14)"
  using assms by (auto simp: frame_of_def frame_room_def length_payload skb_tailroom_def wf_skb_def)

end
