(* ===== verification/Arp.thy ===== *)
theory Arp
  imports Ethernet
begin

text \<open>
  Address resolution, \<open>arp.c\<close>: the table of a node with the packets that wait for an entry to
  be resolved, requests, replies, and the handler of received ARP messages.
\<close>

section \<open>The table\<close>

definition ARP_OP_REQUEST :: u16 where "ARP_OP_REQUEST = 1"
definition ARP_OP_REPLY :: u16 where "ARP_OP_REPLY = 2"
definition ARP_PROTO_ETH :: u16 where "ARP_PROTO_ETH = 1"
definition ARP_PROTO_IP :: u16 where "ARP_PROTO_IP = 0x0800"
definition IP_ADDR_SIZE :: nat where "IP_ADDR_SIZE = 4"

fun arp_table_lookup :: "arp_entry list \<Rightarrow> ip_addr \<Rightarrow> arp_entry option" where
  "arp_table_lookup [] ip = None"
| "arp_table_lookup (e # es) ip = (if arp_ip e = ip then Some e else arp_table_lookup es ip)"

definition arp_table_entry_add :: "arp_entry list \<Rightarrow> arp_entry \<Rightarrow> bool \<times> arp_entry list" where
  "arp_table_entry_add table e = (True, e # table)"

definition init_arp_entry :: "ip_addr \<Rightarrow> intf_id \<Rightarrow> arp_entry" where
  "init_arp_entry ip i = \<lparr>arp_ip = ip, arp_mac = replicate MAC_ADDR_SIZE 0, arp_intf = i,
     arp_resolved = False, arp_pending_pkts = []\<rparr>"

definition init_arp_table :: "arp_entry list" where
  "init_arp_table = []"

text \<open>A write through the pointer \<open>arp_table_lookup\<close> returned: the first entry of the address.\<close>

fun arp_table_set :: "ip_addr \<Rightarrow> (arp_entry \<Rightarrow> arp_entry) \<Rightarrow> arp_entry list \<Rightarrow> arp_entry list" where
  "arp_table_set ip f [] = []"
| "arp_table_set ip f (e # es) = (if arp_ip e = ip then f e # es else e # arp_table_set ip f es)"

definition set_arp_entry :: "node_id \<Rightarrow> ip_addr \<Rightarrow> (arp_entry \<Rightarrow> arp_entry) \<Rightarrow> world \<Rightarrow> world res" where
  "set_arp_entry n ip f w =
    bindE (get_node n w) (\<lambda>nd. Inr (put_node n (nd\<lparr>arp_table := arp_table_set ip f (arp_table nd)\<rparr>) w))"

section \<open>Messages\<close>

definition arp_message :: "u16 \<Rightarrow> intf \<Rightarrow> mac_addr \<Rightarrow> ip_addr \<Rightarrow> arp_hdr" where
  "arp_message op x tmac tip =
    \<lparr>hw_type = HTONS ARP_PROTO_ETH, proto_type = HTONS ARP_PROTO_IP, hw_addr_len = of_nat MAC_ADDR_SIZE,
     proto_addr_len = of_nat IP_ADDR_SIZE, opcode = HTONS op, sender_hw_addr = if_mac x,
     sender_proto_addr = if_ip x, target_hw_addr = tmac, target_proto_addr = tip\<rparr>"

text \<open>The common start of \<open>send_arp_broadcast_request\<close> and \<open>send_arp_reply_msg\<close>.\<close>

definition arp_skb :: "arp_hdr \<Rightarrow> skb res" where
  "arp_skb h =
    bindE (skb_reserve BUFF_HEADROOM (alloc_skb (BUFF_HEADROOM + BUFF_TAILROOM + ARP_HDR_SIZE))) (\<lambda>s.
    bindE (skb_push ARP_HDR_SIZE s) (\<lambda>s. wr_hdr enc_arp (data_off s) h s))"

definition send_arp_broadcast_request :: "os \<Rightarrow> intf_id \<Rightarrow> ip_addr \<Rightarrow> world \<Rightarrow> world res" where
  "send_arp_broadcast_request os i ip w =
    bindE (get_intf i w) (\<lambda>x.
    bindE (arp_skb (arp_message ARP_OP_REQUEST x (replicate MAC_ADDR_SIZE 0) ip)) (\<lambda>s.
      let (p, w) = new_skb s w
      in bindE (ethernet_output os i layer2_fill_with_broadcast_mac ETH_PROTO_ARP p w) (\<lambda>(ok, w).
           if \<not> ok then free_skb p w else Inr w)))"

definition send_arp_reply_msg :: "os \<Rightarrow> intf_id \<Rightarrow> arp_hdr \<Rightarrow> world \<Rightarrow> world res" where
  "send_arp_reply_msg os i shdr w =
    bindE (get_intf i w) (\<lambda>x.
    bindE (arp_skb (arp_message ARP_OP_REPLY x (sender_hw_addr shdr) (sender_proto_addr shdr))) (\<lambda>s.
      let (p, w) = new_skb s w
      in bindE (ethernet_output os i (sender_hw_addr shdr) ETH_PROTO_ARP p w) (\<lambda>(ok, w). Inr w)))"

definition process_arp_broadcast_request :: "os \<Rightarrow> intf_id \<Rightarrow> arp_hdr \<Rightarrow> world \<Rightarrow> bool step" where
  "process_arp_broadcast_request os i hdr w =
    bindE (get_intf i w) (\<lambda>x.
      if if_ip x \<noteq> target_proto_addr hdr then Inr (False, w)
      else bindE (send_arp_reply_msg os i hdr w) (\<lambda>w. Inr (True, w)))"

text \<open>
  The loop over the packets that wait for an entry: unlink, send, and free what could not be
  sent.  A packet is sent on the interface it was queued for.
\<close>

fun flush_pending :: "os \<Rightarrow> node_id \<Rightarrow> ip_addr \<Rightarrow> mac_addr \<Rightarrow> skb_id list \<Rightarrow> world \<Rightarrow> world res" where
  "flush_pending os n ip mac [] w = Inr w"
| "flush_pending os n ip mac (p # ps) w =
    bindE (set_arp_entry n ip (\<lambda>e. e\<lparr>arp_pending_pkts := remove1 p (arp_pending_pkts e)\<rparr>) w) (\<lambda>w.
    bindE (get_skb p w) (\<lambda>s.
    bindE (of_option Null_deref (skb_intf s)) (\<lambda>i.
    bindE (ethernet_output os i mac ETH_PROTO_IP p w) (\<lambda>(result, w).
    bindE (if \<not> result then free_skb p w else Inr w) (\<lambda>w.
      flush_pending os n ip mac ps w)))))"

definition arp_table_update_from_arp_reply :: "os \<Rightarrow> node_id \<Rightarrow> arp_hdr \<Rightarrow> world \<Rightarrow> world res" where
  "arp_table_update_from_arp_reply os n hdr w =
    bindE (get_node n w) (\<lambda>nd.
      case arp_table_lookup (arp_table nd) (sender_proto_addr hdr) of
        None \<Rightarrow> Inr w
      | Some e \<Rightarrow>
          bindE (set_arp_entry n (sender_proto_addr hdr)
                   (\<lambda>e. e\<lparr>arp_resolved := True, arp_mac := sender_hw_addr hdr\<rparr>) w) (\<lambda>w.
            flush_pending os n (sender_proto_addr hdr) (sender_hw_addr hdr) (arp_pending_pkts e) w))"

definition process_arp_reply_msg :: "os \<Rightarrow> intf_id \<Rightarrow> arp_hdr \<Rightarrow> world \<Rightarrow> bool step" where
  "process_arp_reply_msg os i hdr w =
    bindE (get_intf i w) (\<lambda>x.
    bindE (arp_table_update_from_arp_reply os (if_node x) hdr w) (\<lambda>w. Inr (True, w)))"

definition arp_input :: "os \<Rightarrow> skb_id \<Rightarrow> world \<Rightarrow> bool step" where
  "arp_input os p w =
    bindE (get_skb p w) (\<lambda>s.
      if skb_len s < ARP_HDR_SIZE then Inr (False, w)
      else bindE (rd_hdr ARP_HDR_SIZE dec_arp (data_off s) s) (\<lambda>hdr.
           bindE (if opcode hdr = HTONS ARP_OP_REQUEST
                  then bindE (of_option Null_deref (skb_intf s)) (\<lambda>i. process_arp_broadcast_request os i hdr w)
                  else if opcode hdr = HTONS ARP_OP_REPLY
                  then bindE (of_option Null_deref (skb_intf s)) (\<lambda>i. process_arp_reply_msg os i hdr w)
                  else Inr (False, w)) (\<lambda>(ok, w).
             if ok then bindE (free_skb p w) (\<lambda>w. Inr (True, w)) else Inr (False, w))))"

section \<open>Laws of the table\<close>

lemma arp_lookup_add [simp]:
  "arp_table_lookup (snd (arp_table_entry_add table e)) ip =
     (if arp_ip e = ip then Some e else arp_table_lookup table ip)"
  by (simp add: arp_table_entry_add_def)

lemma arp_lookup_Some_ip: "arp_table_lookup table ip = Some e \<Longrightarrow> arp_ip e = ip \<and> e \<in> set table"
  by (induction table) (auto split: if_splits)

lemma arp_lookup_None_iff: "arp_table_lookup table ip = None \<longleftrightarrow> ip \<notin> arp_ip ` set table"
  by (induction table) auto

text \<open>
  A table, its lookup, and a write through the pointer found: the interface behind which the
  senders and the reply handler share entries.
\<close>

locale keyed_table =
  fixes lookup :: "'t \<Rightarrow> 'k \<Rightarrow> 'e option"
    and set_entry :: "'k \<Rightarrow> ('e \<Rightarrow> 'e) \<Rightarrow> 't \<Rightarrow> 't"
    and add :: "'t \<Rightarrow> 'e \<Rightarrow> 't"
    and key :: "'e \<Rightarrow> 'k"
  assumes lookup_key: "lookup t k = Some e \<Longrightarrow> key e = k"
    and lookup_add: "lookup (add t e) k = (if key e = k then Some e else lookup t k)"
    and lookup_set: "(\<And>e. key (f e) = key e) \<Longrightarrow>
      lookup (set_entry k f t) k' = (if k = k' then map_option f (lookup t k') else lookup t k')"
begin

lemma lookup_set_same:
  "(\<And>e. key (f e) = key e) \<Longrightarrow> lookup t k = Some e \<Longrightarrow> lookup (set_entry k f t) k = Some (f e)"
  by (simp add: lookup_set)

lemma lookup_set_other:
  "(\<And>e. key (f e) = key e) \<Longrightarrow> k \<noteq> k' \<Longrightarrow> lookup (set_entry k f t) k' = lookup t k'"
  by (simp add: lookup_set)

lemma lookup_set_add:
  "(\<And>e. key (f e) = key e) \<Longrightarrow> key e = k \<Longrightarrow> lookup (set_entry k f (add t e)) k = Some (f e)"
  by (simp add: lookup_set lookup_add)

lemma lookup_set_twice:
  assumes "\<And>e. key (f e) = key e" and "\<And>e. key (g e) = key e"
  shows "lookup (set_entry k g (set_entry k f t)) k = map_option (g \<circ> f) (lookup t k)"
  using assms by (simp add: lookup_set option.map_comp)

end

lemma arp_lookup_set:
  "(\<And>e. arp_ip (f e) = arp_ip e) \<Longrightarrow>
   arp_table_lookup (arp_table_set ip f table) ip' =
     (if ip = ip' then map_option f (arp_table_lookup table ip') else arp_table_lookup table ip')"
  by (induction table) auto

interpretation arp_tbl: keyed_table arp_table_lookup arp_table_set
    "\<lambda>t e. snd (arp_table_entry_add t e)" arp_ip
  by unfold_locales (auto simp: arp_lookup_set dest: arp_lookup_Some_ip)

end
