(* ===== verification/Graph.thy ===== *)
theory Graph
  imports Net Arp
begin

text \<open>
  The topology, \<open>graph.c\<close> with the network properties of \<open>net.c\<close> and the table constructors and
  destructors of \<open>arp.c\<close>, \<open>ip.c\<close>, \<open>switch.c\<close>: graphs, nodes, links and interfaces are
  created, wired together and destroyed here.  The two interfaces of a link are part of it.
\<close>

section \<open>Network properties\<close>

text \<open>\<open>init_mac_table\<close> and the socket managers make empty lists.\<close>

definition init_mac_table :: "mac_table_entry list" where "init_mac_table = []"
definition init_udp_socks_manager :: "sock_id list" where "init_udp_socks_manager = []"
definition init_tcp_socks_manager :: "sock_id list" where "init_tcp_socks_manager = []"

text \<open>
  The \<open>destroy\<close> functions unlink and free the entries one after the other; the packets that
  wait for an ARP entry are not freed.
\<close>

fun destroy_entries :: "'a list \<Rightarrow> 'a list" where
  "destroy_entries [] = []"
| "destroy_entries (e # es) = destroy_entries es"

definition destroy_arp_table :: "arp_entry list \<Rightarrow> arp_entry list" where
  "destroy_arp_table table = destroy_entries table"

definition destroy_rt_table :: "rt_entry list \<Rightarrow> rt_entry list" where
  "destroy_rt_table table = destroy_entries table"

definition destroy_mac_table :: "mac_table_entry list \<Rightarrow> mac_table_entry list" where
  "destroy_mac_table table = destroy_entries table"

definition init_node_nw_prop :: "node \<Rightarrow> node" where
  "init_node_nw_prop nd = nd\<lparr>is_lb_addr_config := False, lb_addr := 0, arp_table := init_arp_table,
     rt_table := init_rt_table, mac_table := init_mac_table\<rparr>"

definition destroy_node_nw_prop :: "node \<Rightarrow> node" where
  "destroy_node_nw_prop nd = nd\<lparr>arp_table := destroy_arp_table (arp_table nd),
     mac_table := destroy_mac_table (mac_table nd), rt_table := destroy_rt_table (rt_table nd)\<rparr>"

definition init_intf_nw_prop :: "intf \<Rightarrow> intf" where
  "init_intf_nw_prop x = x\<lparr>tcp_socks_manager := init_tcp_socks_manager,
     udp_socks_manager := init_udp_socks_manager, if_mac := replicate MAC_ADDR_SIZE 0,
     is_ip_addr_config := False, if_ip := 0, if_mask := 0\<rparr>"

section \<open>Graphs and nodes\<close>

definition create_new_graph :: "string \<Rightarrow> world \<Rightarrow> graph_id \<times> world" where
  "create_new_graph name w =
    (w_next w, (put_graph (w_next w) \<lparr>graph_name = strncpy name MAX_TOPO_NAME_SIZE, graph_nodes = []\<rparr> w)
               \<lparr>w_next := Suc (w_next w)\<rparr>)"

definition zero_node :: node where
  "zero_node = \<lparr>is_lb_addr_config = False, lb_addr = 0, arp_table = [], mac_table = [], rt_table = [],
     node_name = [], node_intfs = replicate MAX_INTFS_PER_NODE None\<rparr>"

definition create_graph_node :: "graph_id \<Rightarrow> string \<Rightarrow> world \<Rightarrow> node_id step" where
  "create_graph_node g name w =
    (let n = w_next w;
         nd = init_node_nw_prop (zero_node\<lparr>node_name := strncpy name MAX_NODE_NAME_SIZE\<rparr>);
         w = (put_node n nd w)\<lparr>w_next := Suc n\<rparr>
     in bindE (get_graph g w) (\<lambda>gr.
          Inr (n, put_graph g (gr\<lparr>graph_nodes := n # graph_nodes gr\<rparr>) w)))"

fun find_node :: "string \<Rightarrow> node_id list \<Rightarrow> world \<Rightarrow> node_id option res" where
  "find_node name [] w = Inr None"
| "find_node name (n # ns) w =
     bindE (get_node n w) (\<lambda>nd.
       if strncmp_eq (node_name nd) name MAX_NODE_NAME_SIZE then Inr (Some n) else find_node name ns w)"

definition get_node_by_node_name :: "graph_id \<Rightarrow> string \<Rightarrow> world \<Rightarrow> node_id option res" where
  "get_node_by_node_name g name w = bindE (get_graph g w) (\<lambda>gr. find_node name (graph_nodes gr) w)"

section \<open>Interfaces and links\<close>

definition zero_intf :: intf where
  "zero_intf = \<lparr>tcp_socks_manager = [], udp_socks_manager = [], if_mac = replicate MAC_ADDR_SIZE 0,
     is_ip_addr_config = False, if_ip = 0, if_mask = 0, if_name = [], if_node = 0, if_link = None,
     if_comm = \<lparr>comm_type = CT_NONE, comm_fd = 0, comm_port = 0, comm_ops = None\<rparr>\<rparr>"

text \<open>The verdict of \<open>init_comm\<close> is dropped.\<close>

definition init_interface ::
    "os \<Rightarrow> intf_id \<Rightarrow> string \<Rightarrow> node_id \<Rightarrow> link_id option \<Rightarrow> comm_type \<Rightarrow> world \<Rightarrow> world res" where
  "init_interface os i name n l ct w =
    bindE (get_intf i w) (\<lambda>x.
    bindE (get_node n w) (\<lambda>nd.
      let slot = get_node_intf_available_slot nd
      in guardE Assert_failed (slot \<noteq> - 1)
          (let w = put_node n (nd\<lparr>node_intfs := (node_intfs nd)[nat slot := Some i]\<rparr>) w;
               w = put_intf i (init_intf_nw_prop (x\<lparr>if_name := strncpy name MAX_IF_NAME_SIZE,
                                 if_node := n, if_link := l\<rparr>)) w
           in bindE (interface_assign_mac_address i w) (\<lambda>w.
              bindE (init_comm os i ct w) (\<lambda>(_, w). Inr w)))))"

definition insert_link_between_two_nodes ::
    "os \<Rightarrow> node_id \<Rightarrow> node_id \<Rightarrow> string \<Rightarrow> string \<Rightarrow> u32 \<Rightarrow> world \<Rightarrow> link_id step" where
  "insert_link_between_two_nodes os n1 n2 from_ifname to_ifname c w =
    (let l = w_next w; i1 = Suc l; i2 = Suc i1;
         w = put_link l \<lparr>intf1 = i1, intf2 = i2, cost = c\<rparr> w;
         w = put_intf i2 zero_intf (put_intf i1 zero_intf w);
         w = w\<lparr>w_next := Suc i2\<rparr>
     in bindE (init_interface os i1 from_ifname n1 (Some l) CT_UDP w) (\<lambda>w.
        bindE (init_interface os i2 to_ifname n2 (Some l) CT_UDP w) (\<lambda>w. Inr (l, w))))"

definition insert_tuntap_interface :: "os \<Rightarrow> node_id \<Rightarrow> string \<Rightarrow> world \<Rightarrow> intf_id step" where
  "insert_tuntap_interface os n name w =
    (let i = w_next w;
         w = (put_intf i zero_intf w)\<lparr>w_next := Suc i\<rparr>
     in bindE (init_interface os i name n None CT_TUNTAP w) (\<lambda>w. Inr (i, w)))"

section \<open>Destruction\<close>

definition free_intf :: "intf_id \<Rightarrow> world \<Rightarrow> world" where
  "free_intf i w = w\<lparr>w_intfs := (w_intfs w)(i := None)\<rparr>"

definition destroy_interface :: "intf_id \<Rightarrow> world \<Rightarrow> world res" where
  "destroy_interface i w =
    bindE (get_intf i w) (\<lambda>x.
      let ct = comm_type (if_comm x)
      in bindE (destroy_comm i w) (\<lambda>(_, w).
           Inr (if ct = CT_TUNTAP then free_intf i w else w)))"

text \<open>
  The loop of \<open>destroy_link\<close> over the slots: a slot whose interface belongs to the link is
  cleared, in the first node and then in the second.
\<close>

definition clear_slot :: "link_id \<Rightarrow> node_id \<Rightarrow> nat \<Rightarrow> world \<Rightarrow> world res" where
  "clear_slot l n k w =
    bindE (get_node n w) (\<lambda>nd.
      case node_intfs nd ! k of
        None \<Rightarrow> Inr w
      | Some i \<Rightarrow> bindE (get_intf i w) (\<lambda>x.
          Inr (if if_link x = Some l then put_node n (nd\<lparr>node_intfs := (node_intfs nd)[k := None]\<rparr>) w else w)))"

fun clear_slots :: "link_id \<Rightarrow> node_id \<Rightarrow> node_id \<Rightarrow> nat list \<Rightarrow> world \<Rightarrow> world res" where
  "clear_slots l n1 n2 [] w = Inr w"
| "clear_slots l n1 n2 (k # ks) w =
     bindE (clear_slot l n1 k w) (\<lambda>w.
     bindE (clear_slot l n2 k w) (\<lambda>w. clear_slots l n1 n2 ks w))"

definition free_link :: "link_id \<Rightarrow> link \<Rightarrow> world \<Rightarrow> world" where
  "free_link l lk w = (free_intf (intf2 lk) (free_intf (intf1 lk) w))\<lparr>w_links := (w_links w)(l := None)\<rparr>"

definition destroy_link :: "link_id \<Rightarrow> world \<Rightarrow> world res" where
  "destroy_link l w =
    bindE (get_link l w) (\<lambda>lk.
    bindE (get_intf (intf1 lk) w) (\<lambda>x1.
    bindE (get_intf (intf2 lk) w) (\<lambda>x2.
    bindE (clear_slots l (if_node x1) (if_node x2) [0 ..< MAX_INTFS_PER_NODE] w) (\<lambda>w.
    bindE (destroy_interface (intf1 lk) w) (\<lambda>w.
    bindE (destroy_interface (intf2 lk) w) (\<lambda>w.
      Inr (free_link l lk w)))))))"

text \<open>\<open>list_del(&node->list)\<close> takes the node out of the graph it is in.\<close>

definition unlink_node :: "node_id \<Rightarrow> world \<Rightarrow> world" where
  "unlink_node n w =
    w\<lparr>w_graphs := (\<lambda>g. map_option (\<lambda>gr. gr\<lparr>graph_nodes := remove1 n (graph_nodes gr)\<rparr>) (w_graphs w g))\<rparr>"

fun destroy_slots :: "node_id \<Rightarrow> nat list \<Rightarrow> world \<Rightarrow> world res" where
  "destroy_slots n [] w = Inr w"
| "destroy_slots n (k # ks) w =
     bindE (get_node n w) (\<lambda>nd.
     bindE (case node_intfs nd ! k of
              None \<Rightarrow> Inr w
            | Some i \<Rightarrow> bindE (get_intf i w) (\<lambda>x.
                (case if_link x of Some l \<Rightarrow> destroy_link l w | None \<Rightarrow> destroy_interface i w))) (\<lambda>w.
       destroy_slots n ks w))"

definition destroy_node :: "node_id \<Rightarrow> world \<Rightarrow> world res" where
  "destroy_node n w =
    bindE (get_node n w) (\<lambda>_.
    bindE (destroy_slots n [0 ..< MAX_INTFS_PER_NODE] (unlink_node n w)) (\<lambda>w.
    bindE (get_node n w) (\<lambda>nd.
      let w = put_node n (destroy_node_nw_prop nd) w
      in Inr (w\<lparr>w_nodes := (w_nodes w)(n := None)\<rparr>))))"

fun destroy_nodes :: "node_id list \<Rightarrow> world \<Rightarrow> world res" where
  "destroy_nodes [] w = Inr w"
| "destroy_nodes (n # ns) w = bindE (destroy_node n w) (\<lambda>w. destroy_nodes ns w)"

definition destroy_graph :: "graph_id \<Rightarrow> world \<Rightarrow> world res" where
  "destroy_graph g w =
    bindE (get_graph g w) (\<lambda>gr.
    bindE (destroy_nodes (graph_nodes gr) w) (\<lambda>w.
      Inr (w\<lparr>w_graphs := (w_graphs w)(g := None)\<rparr>)))"

end
