(* ===== verification/Topology.thy ===== *)
theory Topology
  imports Graph
begin

text \<open>
  The shape of the topology as an abstract specification: which interfaces sit in the slots of
  which node, and which two interfaces a link joins.  The operations of theory Graph keep the
  shape well formed; destroying a node succeeds when none of its TAP interfaces sits in a slot
  before a linked one.
\<close>

section \<open>The shape\<close>

record port =
  p_node :: node_id
  p_link :: "link_id option"
  p_type :: comm_type
  p_ops :: "comm_ops option"

definition port_of :: "intf \<Rightarrow> port" where
  "port_of x = \<lparr>p_node = if_node x, p_link = if_link x, p_type = comm_type (if_comm x),
     p_ops = comm_ops (if_comm x)\<rparr>"

definition slots_map :: "world \<Rightarrow> node_id \<Rightarrow> intf_id option list option" where
  "slots_map w n = map_option node_intfs (w_nodes w n)"

definition ports_map :: "world \<Rightarrow> intf_id \<Rightarrow> port option" where
  "ports_map w i = map_option port_of (w_intfs w i)"

definition ends_map :: "world \<Rightarrow> link_id \<Rightarrow> (intf_id \<times> intf_id) option" where
  "ends_map w l = map_option (\<lambda>lk. (intf1 lk, intf2 lk)) (w_links w l)"

definition port_comm :: "port \<Rightarrow> bool" where
  "port_comm q \<longleftrightarrow>
    (if p_link q = None then p_type q = CT_TUNTAP \<and> p_ops q = Some Tuntap_comm_ops
     else p_type q = CT_UDP \<and> p_ops q = Some Udp_comm_ops)"

definition slots_ok :: "(node_id \<Rightarrow> intf_id option list option) \<Rightarrow> (intf_id \<Rightarrow> port option) \<Rightarrow> bool" where
  "slots_ok s p \<longleftrightarrow>
    (\<forall>n sl. s n = Some sl \<longrightarrow>
       length sl = MAX_INTFS_PER_NODE \<and>
       (\<forall>i. Some i \<in> set sl \<longrightarrow> (\<exists>q. p i = Some q \<and> p_node q = n)) \<and>
       (\<forall>k j i. k < length sl \<longrightarrow> j < length sl \<longrightarrow> sl ! k = Some i \<longrightarrow> sl ! j = Some i \<longrightarrow> j = k))"

definition ports_ok ::
    "(node_id \<Rightarrow> intf_id option list option) \<Rightarrow> (intf_id \<Rightarrow> port option) \<Rightarrow>
     (link_id \<Rightarrow> (intf_id \<times> intf_id) option) \<Rightarrow> bool" where
  "ports_ok s p e \<longleftrightarrow>
    (\<forall>i q. p i = Some q \<longrightarrow>
       port_comm q \<and> (\<exists>sl. s (p_node q) = Some sl \<and> Some i \<in> set sl) \<and>
       (\<forall>l. p_link q = Some l \<longrightarrow> (\<exists>a b. e l = Some (a, b) \<and> (i = a \<or> i = b))))"

definition links_ok :: "(intf_id \<Rightarrow> port option) \<Rightarrow> (link_id \<Rightarrow> (intf_id \<times> intf_id) option) \<Rightarrow> bool" where
  "links_ok p e \<longleftrightarrow>
    (\<forall>l a b. e l = Some (a, b) \<longrightarrow>
       a \<noteq> b \<and> (\<exists>q. p a = Some q \<and> p_link q = Some l) \<and> (\<exists>q. p b = Some q \<and> p_link q = Some l))"

definition below ::
    "(node_id \<Rightarrow> intf_id option list option) \<Rightarrow> (intf_id \<Rightarrow> port option) \<Rightarrow>
     (link_id \<Rightarrow> (intf_id \<times> intf_id) option) \<Rightarrow> nat \<Rightarrow> bool" where
  "below s p e m \<longleftrightarrow> (\<forall>x. s x \<noteq> None \<or> p x \<noteq> None \<or> e x \<noteq> None \<longrightarrow> x < m)"

lemma below_fresh: "below s p e m \<Longrightarrow> m \<le> x \<Longrightarrow> s x = None \<and> p x = None \<and> e x = None"
  unfolding below_def by (meson not_le)

definition wf_shape where
  "wf_shape s p e \<longleftrightarrow> slots_ok s p \<and> ports_ok s p e \<and> links_ok p e"

definition wf_topo :: "world \<Rightarrow> bool" where
  "wf_topo w \<longleftrightarrow> wf_shape (slots_map w) (ports_map w) (ends_map w) \<and>
     below (slots_map w) (ports_map w) (ends_map w) (w_next w)"

lemma slots_okD:
  "slots_ok s p \<Longrightarrow> s n = Some sl \<Longrightarrow> length sl = MAX_INTFS_PER_NODE"
  "slots_ok s p \<Longrightarrow> s n = Some sl \<Longrightarrow> Some i \<in> set sl \<Longrightarrow> \<exists>q. p i = Some q \<and> p_node q = n"
  "slots_ok s p \<Longrightarrow> s n = Some sl \<Longrightarrow> k < length sl \<Longrightarrow> j < length sl \<Longrightarrow>
     sl ! k = Some i \<Longrightarrow> sl ! j = Some i \<Longrightarrow> j = k"
  unfolding slots_ok_def by blast+

lemma ports_okD:
  "ports_ok s p e \<Longrightarrow> p i = Some q \<Longrightarrow> port_comm q"
  "ports_ok s p e \<Longrightarrow> p i = Some q \<Longrightarrow> \<exists>sl. s (p_node q) = Some sl \<and> Some i \<in> set sl"
  "ports_ok s p e \<Longrightarrow> p i = Some q \<Longrightarrow> p_link q = Some l \<Longrightarrow> \<exists>a b. e l = Some (a, b) \<and> (i = a \<or> i = b)"
  unfolding ports_ok_def by blast+

lemma links_okD:
  "links_ok p e \<Longrightarrow> e l = Some (a, b) \<Longrightarrow> a \<noteq> b"
  "links_ok p e \<Longrightarrow> e l = Some (a, b) \<Longrightarrow> \<exists>q. p a = Some q \<and> p_link q = Some l"
  "links_ok p e \<Longrightarrow> e l = Some (a, b) \<Longrightarrow> \<exists>q. p b = Some q \<and> p_link q = Some l"
  unfolding links_ok_def by blast+

section \<open>Changes of the shape\<close>

lemma slots_ok_add_node:
  assumes "slots_ok s p" and "length sl = MAX_INTFS_PER_NODE" and "set sl \<subseteq> {None}"
  shows "slots_ok (s(m \<mapsto> sl)) p"
proof -
  have "sl ! k = None" if "k < length sl" for k
    using assms(3) that nth_mem by fastforce
  then show ?thesis
    using assms unfolding slots_ok_def by (auto split: if_splits)
qed

lemma ports_ok_add_node:
  assumes "ports_ok s p e" and "s m = None"
  shows "ports_ok (s(m \<mapsto> sl)) p e"
  unfolding ports_ok_def
proof (intro allI impI)
  fix i q
  assume q: "p i = Some q"
  from ports_okD [OF assms(1) q] assms(2) have "p_node q \<noteq> m" by auto
  with ports_okD [OF assms(1) q]
  show "port_comm q \<and> (\<exists>sl'. (s(m \<mapsto> sl)) (p_node q) = Some sl' \<and> Some i \<in> set sl') \<and>
      (\<forall>l. p_link q = Some l \<longrightarrow> (\<exists>a b. e l = Some (a, b) \<and> (i = a \<or> i = b)))"
    by auto
qed

text \<open>A new interface in a free slot keeps the slots right.\<close>

lemma slots_ok_put:
  assumes s: "slots_ok s p" and n: "s n = Some sl" and k: "k < length sl" "sl ! k = None"
    and i: "p i = None" "p_node q = n"
  shows "slots_ok (s(n \<mapsto> sl[k := Some i])) (p(i \<mapsto> q))"
proof -
  have fresh: "Some i \<notin> set sl'" if "s n' = Some sl'" for n' sl'
    using slots_okD(2) [OF s that, of i] i(1) by auto
  then have fresh': "sl' ! j \<noteq> Some i" if "s n' = Some sl'" "j < length sl'" for n' sl' j
    using that nth_mem by metis
  have mem: "Some j \<in> set (sl[k := Some i]) \<Longrightarrow> j = i \<or> Some j \<in> set sl" for j
    using set_update_subset_insert [of sl k "Some i"] by auto
  have own: "\<exists>q'. (p(i \<mapsto> q)) j = Some q' \<and> p_node q' = n'"
    if "(s(n \<mapsto> sl[k := Some i])) n' = Some sl'" "Some j \<in> set sl'" for n' sl' j
    using that slots_okD(2) [OF s n, of j] slots_okD(2) [OF s, of n' sl' j] mem [of j] i
    by (auto split: if_splits)
  have inj: "j2 = j1"
    if "(s(n \<mapsto> sl[k := Some i])) n' = Some sl'" "j1 < length sl'" "j2 < length sl'"
      "sl' ! j1 = Some j" "sl' ! j2 = Some j" for n' sl' j1 j2 j
    using that slots_okD(3) [OF s n, of j1 j2 j] slots_okD(3) [OF s, of n' sl' j1 j2 j] fresh' [OF n] k
    by (auto simp: nth_list_update split: if_splits)
  have "length sl' = MAX_INTFS_PER_NODE" if "(s(n \<mapsto> sl[k := Some i])) n' = Some sl'" for n' sl'
    using that slots_okD(1) [OF s] n by (auto split: if_splits)
  with own inj show ?thesis unfolding slots_ok_def by blast
qed

lemma ports_ok_put:
  assumes pt: "ports_ok s p e" and n: "s n = Some sl" and k: "k < length sl" "sl ! k = None"
    and i: "p i = None" "p_node q = n" "port_comm q"
    and l: "\<And>l. p_link q = Some l \<Longrightarrow> \<exists>a b. e l = Some (a, b) \<and> (i = a \<or> i = b)"
  shows "ports_ok (s(n \<mapsto> sl[k := Some i])) (p(i \<mapsto> q)) e"
proof -
  have keep: "Some j \<in> set (sl[k := Some i])" if "Some j \<in> set sl" for j
  proof -
    from that obtain h where h: "h < length sl" "sl ! h = Some j" by (auto simp: in_set_conv_nth)
    with k(2) have "h \<noteq> k" by auto
    with h have "sl[k := Some i] ! h = Some j" "h < length (sl[k := Some i])" by simp_all
    then show ?thesis by (metis nth_mem)
  qed
  have "\<exists>sl'. (s(n \<mapsto> sl[k := Some i])) (p_node q') = Some sl' \<and> Some j \<in> set sl'"
    if "(p(i \<mapsto> q)) j = Some q'" for j q'
  proof (cases "j = i")
    case True
    with that i(2) k(1) show ?thesis by (auto intro: set_update_memI)
  next
    case False
    with that ports_okD(2) [OF pt, of j q'] n keep show ?thesis by (cases "p_node q' = n") auto
  qed
  moreover have "port_comm q'" if "(p(i \<mapsto> q)) j = Some q'" for j q'
    using that i(3) ports_okD(1) [OF pt] by (auto split: if_splits)
  moreover have "\<exists>a b. e l = Some (a, b) \<and> (j = a \<or> j = b)"
    if "(p(i \<mapsto> q)) j = Some q'" "p_link q' = Some l" for j q' l
    using that l ports_okD(3) [OF pt] by (auto split: if_splits)
  ultimately show ?thesis unfolding ports_ok_def by blast
qed

lemma ports_ok_add_link: "ports_ok s p e \<Longrightarrow> e l = None \<Longrightarrow> ports_ok s p (e(l \<mapsto> ab))"
  unfolding ports_ok_def by fastforce

text \<open>Interfaces disappear: their slots are cleared, and the link they were the ends of goes.\<close>

definition clear :: "intf_id set \<Rightarrow> intf_id option list \<Rightarrow> intf_id option list" where
  "clear D sl = map (\<lambda>slot. if slot \<in> Some ` D then None else slot) sl"

lemma length_clear [simp]: "length (clear D sl) = length sl"
  by (simp add: clear_def)

lemma clear_mem [simp]: "Some i \<in> set (clear D sl) \<longleftrightarrow> Some i \<in> set sl \<and> i \<notin> D"
  by (force simp: clear_def)

lemma clear_nth: "k < length sl \<Longrightarrow> clear D sl ! k = Some i \<Longrightarrow> sl ! k = Some i"
  by (auto simp: clear_def split: if_splits)

lemma clear_id: "(\<And>i. Some i \<in> set sl \<Longrightarrow> i \<notin> D) \<Longrightarrow> clear D sl = sl"
  by (force simp: clear_def intro: map_idI)

definition drop_link :: "link_id option \<Rightarrow> (link_id \<Rightarrow> 'a option) \<Rightarrow> link_id \<Rightarrow> 'a option" where
  "drop_link lo e = (case lo of None \<Rightarrow> e | Some l \<Rightarrow> e(l := None))"

lemma wf_shape_remove:
  assumes wf: "wf_shape s p e"
    and D: "\<And>i q. i \<in> D \<Longrightarrow> p i = Some q \<Longrightarrow> p_link q = lo"
    and lo: "\<And>l a b. lo = Some l \<Longrightarrow> e l = Some (a, b) \<Longrightarrow> a \<in> D \<and> b \<in> D"
  shows "wf_shape (\<lambda>n. map_option (clear D) (s n)) (p |` (- D)) (drop_link lo e)"
proof -
  have s: "slots_ok s p" and pt: "ports_ok s p e" and lk: "links_ok p e"
    using wf by (auto simp: wf_shape_def)
  have "slots_ok (\<lambda>n. map_option (clear D) (s n)) (p |` (- D))"
    unfolding slots_ok_def
  proof (intro allI impI conjI)
    fix n sl' assume "map_option (clear D) (s n) = Some sl'"
    then obtain sl where sl: "s n = Some sl" "sl' = clear D sl" by auto
    show "length sl' = MAX_INTFS_PER_NODE" using slots_okD(1) [OF s sl(1)] sl(2) by simp
    show "\<exists>q. (p |` (- D)) i = Some q \<and> p_node q = n" if "Some i \<in> set sl'" for i
      using that sl(2) slots_okD(2) [OF s sl(1), of i] by auto
    show "j = k" if "k < length sl'" "j < length sl'" "sl' ! k = Some i" "sl' ! j = Some i" for k j i
    proof (rule slots_okD(3) [OF s sl(1)])
      show "k < length sl" "j < length sl" using that sl(2) by simp_all
      show "sl ! k = Some i" using that sl(2) by - (rule clear_nth [of _ _ D], simp_all)
      show "sl ! j = Some i" using that sl(2) by - (rule clear_nth [of _ _ D], simp_all)
    qed
  qed
  moreover have "ports_ok (\<lambda>n. map_option (clear D) (s n)) (p |` (- D)) (drop_link lo e)"
    unfolding ports_ok_def
  proof (intro allI impI conjI)
    fix i q assume "(p |` (- D)) i = Some q"
    then have i: "i \<notin> D" "p i = Some q" by (auto simp: restrict_map_def split: if_splits)
    show "port_comm q" using ports_okD(1) [OF pt i(2)] .
    show "\<exists>sl. map_option (clear D) (s (p_node q)) = Some sl \<and> Some i \<in> set sl"
      using ports_okD(2) [OF pt i(2)] i(1) by auto
    show "\<exists>a b. drop_link lo e l = Some (a, b) \<and> (i = a \<or> i = b)" if "p_link q = Some l" for l
    proof -
      from ports_okD(3) [OF pt i(2) that] obtain a b where ab: "e l = Some (a, b)" "i = a \<or> i = b" by blast
      with lo [of l a b] i(1) have "lo \<noteq> Some l" by auto
      with ab show ?thesis by (auto simp: drop_link_def split: option.split)
    qed
  qed
  moreover have "links_ok (p |` (- D)) (drop_link lo e)"
    unfolding links_ok_def
  proof (intro allI impI)
    fix l a b assume l: "drop_link lo e l = Some (a, b)"
    then have e: "e l = Some (a, b)" and ne: "lo \<noteq> Some l"
      by (auto simp: drop_link_def split: option.splits if_splits)
    from links_okD [OF lk e] obtain qa qb where q: "p a = Some qa" "p_link qa = Some l"
      "p b = Some qb" "p_link qb = Some l" "a \<noteq> b" by blast
    with D ne have "a \<notin> D" "b \<notin> D" by auto
    with q show "a \<noteq> b \<and> (\<exists>q. (p |` (- D)) a = Some q \<and> p_link q = Some l) \<and>
        (\<exists>q. (p |` (- D)) b = Some q \<and> p_link q = Some l)" by auto
  qed
  ultimately show ?thesis by (simp add: wf_shape_def)
qed

text \<open>A node without interfaces disappears.\<close>

lemma wf_shape_remove_node:
  assumes "wf_shape s p e" and "s n = Some sl" and "\<And>i. Some i \<notin> set sl"
  shows "wf_shape (s(n := None)) p e"
proof -
  have "p_node q \<noteq> n" if "p i = Some q" for i q
    using ports_okD(2) [of s p e i q] assms that by (auto simp: wf_shape_def)
  then show ?thesis
    using assms(1) unfolding wf_shape_def slots_ok_def ports_ok_def by auto
qed

end
