(* ===== verification/Wiring.thy ===== *)
theory Wiring
  imports Topology
begin

text \<open>
  The operations of \<open>graph.c\<close> implement the changes of the shape of theory Topology: a link or a
  TAP interface is inserted into free slots, a link and a node are destroyed.
\<close>

section \<open>The communication layer keeps the shape\<close>

text \<open>Everything the shape depends on, apart from the interfaces.\<close>

definition same_wiring :: "world \<Rightarrow> world \<Rightarrow> bool" where
  "same_wiring w w' \<longleftrightarrow> w_nodes w' = w_nodes w \<and> w_links w' = w_links w \<and>
     w_graphs w' = w_graphs w \<and> w_next w' = w_next w"

definition same_shape :: "world \<Rightarrow> world \<Rightarrow> bool" where
  "same_shape w w' \<longleftrightarrow> same_wiring w w' \<and> ports_map w' = ports_map w"

lemma same_wiring_refl [simp]: "same_wiring w w"
  by (simp add: same_wiring_def)

lemma same_wiring_trans: "same_wiring u v \<Longrightarrow> same_wiring v w \<Longrightarrow> same_wiring u w"
  by (simp add: same_wiring_def)

lemma same_wiring_maps:
  "same_wiring w w' \<Longrightarrow> slots_map w' = slots_map w \<and> ends_map w' = ends_map w \<and> w_next w' = w_next w"
  by (simp add: same_wiring_def slots_map_def ends_map_def fun_eq_iff)

lemma same_shape_wf: "same_shape w w' \<Longrightarrow> wf_topo w' = wf_topo w"
  using same_wiring_maps [of w w'] by (simp add: same_shape_def wf_topo_def)

lemma set_fd_comm_frame [simp]:
  "same_wiring w (snd (set_fd_comm fd c w))" "w_intfs (snd (set_fd_comm fd c w)) = w_intfs w"
  by (simp_all add: set_fd_comm_def same_wiring_def)

lemma emit_frame [simp]: "same_wiring w (emit e w)" "w_intfs (emit e w) = w_intfs w"
  by (simp_all add: emit_def same_wiring_def)

lemma put_intf_wiring [simp]: "same_wiring w (put_intf i x w)"
  by (simp add: put_intf_def same_wiring_def)

lemma ports_put_intf: "ports_map (put_intf i x w) = (ports_map w)(i \<mapsto> port_of x)"
  by (simp add: ports_map_def put_intf_def fun_eq_iff)

lemma get_intf_port: "get_intf i w = Inr x \<Longrightarrow> ports_map w i = Some (port_of x)"
  by (simp add: intf_table.get_Inr_iff ports_map_def)

lemma port_get_intf: "ports_map w i = Some q \<Longrightarrow> \<exists>x. get_intf i w = Inr x \<and> port_of x = q"
  by (auto simp: intf_table.get_Inr_iff ports_map_def)

lemma put_same_port: "get_intf i w = Inr x \<Longrightarrow> port_of y = port_of x \<Longrightarrow> ports_map (put_intf i y w) = ports_map w"
  by (simp add: ports_put_intf get_intf_port fun_upd_idem)

lemma intfs_eq_get: "w_intfs w' = w_intfs w \<Longrightarrow> get_intf i w' = get_intf i w"
  by (simp add: get_intf_def)

lemma intfs_eq_ports: "w_intfs w' = w_intfs w \<Longrightarrow> ports_map w' = ports_map w"
  by (simp add: ports_map_def fun_eq_iff)

lemma set_comm_eq:
  "get_intf i w = Inr x \<Longrightarrow> set_comm i f w = Inr (put_intf i (x\<lparr>if_comm := f (if_comm x)\<rparr>) w)"
  by (simp add: set_comm_def)

text \<open>Closing: the descriptor is taken out of the map and closed, the structure zeroed.\<close>

definition closed_fd :: "int \<Rightarrow> world \<Rightarrow> world" where
  "closed_fd fd w = emit (Ev_close fd) (snd (set_fd_comm fd None w))"

lemma closed_fd_frame [simp]: "same_wiring w (closed_fd fd w)" "w_intfs (closed_fd fd w) = w_intfs w"
  by (simp_all add: closed_fd_def emit_def set_fd_comm_def same_wiring_def)

definition zero_fd :: "comm \<Rightarrow> comm" where
  "zero_fd c = (if comm_ops c = Some Udp_comm_ops then c\<lparr>comm_fd := 0, comm_port := 0\<rparr> else c\<lparr>comm_fd := 0\<rparr>)"

lemma destroy_comm_eq:
  assumes x: "get_intf i w = Inr x" and ops: "comm_ops (if_comm x) \<noteq> None"
  shows "destroy_comm i w =
    Inr (True, if comm_fd (if_comm x) = 0 then w
               else put_intf i (x\<lparr>if_comm := zero_fd (if_comm x)\<rparr>) (closed_fd (comm_fd (if_comm x)) w))"
proof -
  have "get_intf i (closed_fd (comm_fd (if_comm x)) w) = Inr x"
    using x by (simp add: intfs_eq_get [OF closed_fd_frame(2)])
  with x ops show ?thesis
    by (cases "the (comm_ops (if_comm x))")
      (auto simp: destroy_comm_def udp_destroy_comm_def tuntap_destroy_comm_def set_comm_eq zero_fd_def
        closed_fd_def [symmetric])
qed

lemma destroy_comm_shape:
  assumes x: "get_intf i w = Inr x" and ops: "comm_ops (if_comm x) \<noteq> None"
  shows "\<exists>w'. destroy_comm i w = Inr (True, w') \<and> same_shape w w'"
proof -
  let ?w1 = "closed_fd (comm_fd (if_comm x)) w"
  have "get_intf i ?w1 = Inr x" using x by (simp add: intfs_eq_get [OF closed_fd_frame(2)])
  then have "ports_map (put_intf i (x\<lparr>if_comm := zero_fd (if_comm x)\<rparr>) ?w1) = ports_map ?w1"
    by (rule put_same_port) (simp add: port_of_def zero_fd_def)
  then have "same_shape w (put_intf i (x\<lparr>if_comm := zero_fd (if_comm x)\<rparr>) ?w1)"
    using same_wiring_trans [OF closed_fd_frame(1) put_intf_wiring]
    by (simp add: same_shape_def intfs_eq_ports [OF closed_fd_frame(2)])
  then show ?thesis using destroy_comm_eq [OF x ops] by (auto simp: same_shape_def)
qed

definition ops_of :: "comm_type \<Rightarrow> comm_ops" where
  "ops_of ct = (if ct = CT_UDP then Udp_comm_ops else Tuntap_comm_ops)"

lemma bind_loop_frame:
  "bind_loop os fd w = Some r \<Longrightarrow> same_wiring w (snd r) \<and> w_intfs (snd r) = w_intfs w"
proof (induction rule: bind_loop.raw_induct [rotated, consumes 1])
  case (1 loop os fd w r)
  let ?w2 = "emit (Ev_bind fd (next_udp_port w)) (w\<lparr>next_udp_port := next_udp_port w + 1\<rparr>)"
  have f: "same_wiring w ?w2" "w_intfs ?w2 = w_intfs w" by (simp_all add: emit_def same_wiring_def)
  from 1(2) have "snd r = ?w2 \<or> loop os fd ?w2 = Some r"
    by (auto simp: get_next_udp_port_def Let_def split: if_splits)
  with f 1(1) [of os fd ?w2 r] show ?case using same_wiring_trans [OF f(1)] by auto
qed

lemma udp_init_comm_shape:
  assumes r: "udp_init_comm os i w = Inr (b, w')" and x: "get_intf i w = Inr x"
  shows "same_shape w w'"
proof -
  from r obtain port w1 where l: "bind_loop os (os_socket os (trace w)) w = Some (port, w1)"
    by (auto simp: udp_init_comm_def Let_def split: option.splits)
  from bind_loop_frame [OF l] have w1: "same_wiring w w1" "w_intfs w1 = w_intfs w" by simp_all
  let ?y = "x\<lparr>if_comm := (if_comm x)\<lparr>comm_fd := os_socket os (trace w), comm_port := port\<rparr>\<rparr>"
  have g: "get_intf i w1 = Inr x" using x by (simp add: intfs_eq_get [OF w1(2)])
  have "w' = snd (set_fd_comm (os_socket os (trace w)) (Some i) (put_intf i ?y w1))"
    using r l by (simp add: udp_init_comm_def set_comm_eq [OF g] Let_def)
  moreover have "ports_map (put_intf i ?y w1) = ports_map w"
    using put_same_port [OF g, of ?y] by (simp add: port_of_def intfs_eq_ports [OF w1(2)])
  ultimately show ?thesis
    using same_wiring_trans [OF same_wiring_trans [OF w1(1) put_intf_wiring] set_fd_comm_frame(1)]
    by (simp add: same_shape_def intfs_eq_ports [OF set_fd_comm_frame(2)])
qed

lemma tuntap_init_comm_shape:
  assumes r: "tuntap_init_comm os i w = Inr (b, w')" and x: "get_intf i w = Inr x"
  shows "same_shape w w'"
proof -
  from tun_alloc_frame [of os "if_name x" w] obtain fd es where
    t: "tun_alloc os (if_name x) w = (fd, w\<lparr>trace := trace w @ es\<rparr>)" by blast
  let ?w = "w\<lparr>trace := trace w @ es\<rparr>" and ?y = "x\<lparr>if_comm := (if_comm x)\<lparr>comm_fd := fd\<rparr>\<rparr>"
  have w1: "same_wiring w ?w" "w_intfs ?w = w_intfs w" by (simp_all add: same_wiring_def)
  have g: "get_intf i ?w = Inr x" using x by (simp add: intfs_eq_get [OF w1(2)])
  have "ports_map (put_intf i ?y ?w) = ports_map w"
    using put_same_port [OF g, of ?y] by (simp add: port_of_def intfs_eq_ports [OF w1(2)])
  then have p: "same_shape w (put_intf i ?y ?w)"
    using same_wiring_trans [OF w1(1) put_intf_wiring] by (simp add: same_shape_def)
  have "w' = put_intf i ?y ?w \<or> w' = snd (set_fd_comm fd (Some i) (put_intf i ?y ?w))"
    using r x t by (auto simp: tuntap_init_comm_def set_comm_eq [OF g] Let_def split: if_splits)
  then show ?thesis
    using p same_wiring_trans [OF _ set_fd_comm_frame(1)]
    by (auto simp: same_shape_def intfs_eq_ports [OF set_fd_comm_frame(2)])
qed

lemma init_comm_shape:
  assumes r: "init_comm os i ct w = Inr (b, w')" and x: "get_intf i w = Inr x"
  shows "same_wiring w w' \<and> ports_map w' = (ports_map w)(i \<mapsto> (port_of x)\<lparr>p_type := ct, p_ops := Some (ops_of ct)\<rparr>)"
proof -
  let ?y = "x\<lparr>if_comm := (if_comm x)\<lparr>comm_type := ct, comm_ops := Some (ops_of ct)\<rparr>\<rparr>"
  have "udp_init_comm os i (put_intf i ?y w) = Inr (b, w') \<or> tuntap_init_comm os i (put_intf i ?y w) = Inr (b, w')"
    using r by (cases ct) (simp_all add: init_comm_def set_comm_eq [OF x] ops_of_def)
  then have "same_shape (put_intf i ?y w) w'"
    using udp_init_comm_shape [of os i _ b w'] tuntap_init_comm_shape [of os i _ b w'] intf_table.get_put_same
    by blast
  moreover have "ports_map (put_intf i ?y w) = (ports_map w)(i \<mapsto> (port_of x)\<lparr>p_type := ct, p_ops := Some (ops_of ct)\<rparr>)"
    by (simp add: ports_put_intf port_of_def)
  ultimately show ?thesis
    using same_wiring_trans [OF put_intf_wiring [of w i ?y], of w'] by (simp add: same_shape_def)
qed

section \<open>Insertion\<close>

lemma slots_put_node: "slots_map (put_node n nd w) = (slots_map w)(n \<mapsto> node_intfs nd)"
  by (simp add: slots_map_def put_node_def fun_eq_iff)

lemma put_node_frame [simp]:
  "ports_map (put_node n nd w) = ports_map w" "ends_map (put_node n nd w) = ends_map w"
  "w_next (put_node n nd w) = w_next w" "w_graphs (put_node n nd w) = w_graphs w"
  "get_intf i (put_node n nd w) = get_intf i w"
  by (simp_all add: ports_map_def ends_map_def put_node_def get_intf_def fun_eq_iff)

lemma available_slot:
  "available_slot_from sl k = Some j \<Longrightarrow> k \<le> j \<and> j - k < length sl \<and> sl ! (j - k) = None"
proof (induction sl k rule: available_slot_from.induct)
  case (3 i slots k)
  then have "Suc k \<le> j \<and> j - Suc k < length slots \<and> slots ! (j - Suc k) = None" by simp
  moreover from this have "j - k = Suc (j - Suc k)" by arith
  ultimately show ?case by simp
qed auto

lemma available_slot_None: "available_slot_from sl k = None \<longleftrightarrow> None \<notin> set sl"
  by (induction sl k rule: available_slot_from.induct) auto

lemma node_slots: "get_node n w = Inr nd \<Longrightarrow> slots_map w n = Some (node_intfs nd)"
  by (simp add: node_table.get_Inr_iff slots_map_def)

lemma slots_node: "slots_map w n = Some sl \<Longrightarrow> \<exists>nd. get_node n w = Inr nd \<and> node_intfs nd = sl"
  by (auto simp: node_table.get_Inr_iff slots_map_def)

lemma assign_mac_shape:
  assumes "get_intf i w = Inr x" and "interface_assign_mac_address i w = Inr w'"
  shows "same_shape w w' \<and> (\<exists>y. get_intf i w' = Inr y)"
proof -
  from assms obtain m where w': "w' = put_intf i (x\<lparr>if_mac := m\<rparr>) w"
    by (auto simp: interface_assign_mac_address_def res_simps)
  then show ?thesis
    using put_same_port [OF assms(1), of "x\<lparr>if_mac := m\<rparr>"] by (simp add: same_shape_def port_of_def)
qed

text \<open>
  \<open>init_interface\<close> fails its assertion exactly when the node has no free slot; otherwise the
  interface takes the first free one.
\<close>

definition new_port :: "node_id \<Rightarrow> link_id option \<Rightarrow> comm_type \<Rightarrow> port" where
  "new_port n l ct = \<lparr>p_node = n, p_link = l, p_type = ct, p_ops = Some (ops_of ct)\<rparr>"

lemma init_interface_shape:
  assumes r: "init_interface os i name n l ct w = Inr w'" and n: "slots_map w n = Some sl"
  shows "\<exists>k < length sl. sl ! k = None \<and> slots_map w' = (slots_map w)(n \<mapsto> sl[k := Some i]) \<and>
    ports_map w' = (ports_map w)(i \<mapsto> new_port n l ct) \<and> ends_map w' = ends_map w \<and>
    w_next w' = w_next w \<and> w_graphs w' = w_graphs w"
proof -
  from slots_node [OF n] obtain nd where nd: "get_node n w = Inr nd" "node_intfs nd = sl" by blast
  from r nd obtain x where x: "get_intf i w = Inr x" by (auto simp: init_interface_def res_simps)
  from r nd x obtain k where k: "available_slot_from sl 0 = Some k"
    by (auto simp: init_interface_def get_node_intf_available_slot_def res_simps split: option.splits)
  let ?w1 = "put_node n (nd\<lparr>node_intfs := sl[k := Some i]\<rparr>) w"
  let ?y = "init_intf_nw_prop (x\<lparr>if_name := strncpy name MAX_IF_NAME_SIZE, if_node := n, if_link := l\<rparr>)"
  let ?w2 = "put_intf i ?y ?w1"
  from r nd x k obtain w3 b where w3: "interface_assign_mac_address i ?w2 = Inr w3"
    and w4: "init_comm os i ct w3 = Inr (b, w')"
    by (auto simp: init_interface_def get_node_intf_available_slot_def res_simps)
  have s3: "same_shape ?w2 w3" and y3: "\<exists>y. get_intf i w3 = Inr y"
    using assign_mac_shape [OF intf_table.get_put_same w3] by simp_all
  then obtain y where y: "get_intf i w3 = Inr y" by blast
  have "port_of y = port_of ?y"
    using get_intf_port [OF y] s3 by (simp add: same_shape_def ports_put_intf)
  then have py: "(port_of y)\<lparr>p_type := ct, p_ops := Some (ops_of ct)\<rparr> = new_port n l ct"
    by (simp add: port_of_def init_intf_nw_prop_def new_port_def)
  from init_comm_shape [OF w4 y] have s4: "same_wiring w3 w'"
    and p4: "ports_map w' = (ports_map w3)(i \<mapsto> new_port n l ct)" by (simp_all add: py)
  have "same_wiring ?w1 w'"
    using s3 s4 same_wiring_trans put_intf_wiring by (metis same_shape_def)
  from same_wiring_maps [OF this] this p4 s3 available_slot [OF k] show ?thesis
    by (auto simp: slots_put_node same_shape_def ports_put_intf same_wiring_def)
qed

lemma init_interface_node: "init_interface os i name n l ct w = Inr w' \<Longrightarrow> \<exists>sl. slots_map w n = Some sl"
  by (auto simp: init_interface_def res_simps slots_map_def node_table.get_Inr_iff)

lemma wf_insert_tuntap:
  assumes wf: "wf_topo w" and r: "insert_tuntap_interface os n name w = Inr (i, w')"
  shows "wf_topo w' \<and> ports_map w' i = Some (new_port n None CT_TUNTAP)"
proof -
  let ?w1 = "(put_intf i zero_intf w)\<lparr>w_next := Suc i\<rparr>"
  have i: "i = w_next w" and ii: "init_interface os i name n None CT_TUNTAP ?w1 = Inr w'"
    using r by (auto simp: insert_tuntap_interface_def Let_def res_simps)
  have w1: "slots_map ?w1 = slots_map w" "ends_map ?w1 = ends_map w"
    "ports_map ?w1 = (ports_map w)(i \<mapsto> port_of zero_intf)" "w_next ?w1 = Suc i"
    by (simp_all add: slots_map_def ends_map_def ports_map_def put_intf_def fun_eq_iff)
  have s: "slots_ok (slots_map w) (ports_map w)" and p: "ports_ok (slots_map w) (ports_map w) (ends_map w)"
    and l: "links_ok (ports_map w) (ends_map w)" and b: "below (slots_map w) (ports_map w) (ends_map w) i"
    using wf i by (auto simp: wf_topo_def wf_shape_def)
  have fresh: "ports_map w i = None" using b by (auto simp: below_def)
  from init_interface_node [OF ii] w1(1) obtain sl where sl: "slots_map w n = Some sl" by auto
  with init_interface_shape [OF ii, of sl] w1 obtain k where k: "k < length sl" "sl ! k = None"
    and w': "slots_map w' = (slots_map w)(n \<mapsto> sl[k := Some i])"
      "ports_map w' = (ports_map w)(i \<mapsto> new_port n None CT_TUNTAP)" "ends_map w' = ends_map w"
      "w_next w' = Suc i"
    by auto
  have q: "p_node (new_port n None CT_TUNTAP) = n" "port_comm (new_port n None CT_TUNTAP)"
    "p_link (new_port n None CT_TUNTAP) = None"
    by (simp_all add: new_port_def port_comm_def ops_of_def)
  have "links_ok ((ports_map w)(i \<mapsto> new_port n None CT_TUNTAP)) (ends_map w)"
    using l fresh unfolding links_ok_def by (metis fun_upd_other option.distinct(1))
  moreover have "below (slots_map w') (ports_map w') (ends_map w') (w_next w')"
    using b sl unfolding w' below_def by (auto simp: less_Suc_eq split: if_splits)
  ultimately show ?thesis
    using slots_ok_put [OF s sl k fresh q(1)] ports_ok_put [OF p sl k fresh q(1,2)] q(3)
    by (simp add: wf_topo_def wf_shape_def w')
qed

lemma wf_insert_link:
  assumes wf: "wf_topo w" and r: "insert_link_between_two_nodes os n1 n2 f1 f2 c w = Inr (l, w')"
  shows "wf_topo w' \<and> ends_map w' l = Some (Suc l, Suc (Suc l)) \<and>
    ports_map w' (Suc l) = Some (new_port n1 (Some l) CT_UDP) \<and>
    ports_map w' (Suc (Suc l)) = Some (new_port n2 (Some l) CT_UDP)"
proof -
  let ?a = "Suc l" and ?b = "Suc (Suc l)"
  let ?qa = "new_port n1 (Some l) CT_UDP" and ?qb = "new_port n2 (Some l) CT_UDP"
  let ?w1 = "(put_intf ?b zero_intf (put_intf ?a zero_intf
               (put_link l \<lparr>intf1 = ?a, intf2 = ?b, cost = c\<rparr> w)))\<lparr>w_next := Suc ?b\<rparr>"
  from r obtain w2 where l: "l = w_next w"
    and r1: "init_interface os ?a f1 n1 (Some l) CT_UDP ?w1 = Inr w2"
    and r2: "init_interface os ?b f2 n2 (Some l) CT_UDP w2 = Inr w'"
    by (auto simp: insert_link_between_two_nodes_def Let_def res_simps)
  let ?e = "(ends_map w)(l \<mapsto> (?a, ?b))"
  have w1: "slots_map ?w1 = slots_map w" "ends_map ?w1 = ?e" "w_next ?w1 = Suc ?b"
    "ports_map ?w1 = (ports_map w)(?a \<mapsto> port_of zero_intf, ?b \<mapsto> port_of zero_intf)"
    by (simp_all add: slots_map_def ends_map_def ports_map_def put_intf_def put_link_def fun_eq_iff)
  have s: "slots_ok (slots_map w) (ports_map w)" and p: "ports_ok (slots_map w) (ports_map w) (ends_map w)"
    and lk: "links_ok (ports_map w) (ends_map w)" and b: "below (slots_map w) (ports_map w) (ends_map w) l"
    using wf l by (auto simp: wf_topo_def wf_shape_def)
  have fresh: "ports_map w ?a = None" "ports_map w ?b = None" "ends_map w l = None"
    using below_fresh [OF b] by simp_all
  from init_interface_node [OF r1] w1(1) obtain sl where sl: "slots_map w n1 = Some sl" by auto
  with init_interface_shape [OF r1, of sl] w1 obtain k where k: "k < length sl" "sl ! k = None"
    and w2: "slots_map w2 = (slots_map w)(n1 \<mapsto> sl[k := Some ?a])" "ends_map w2 = ?e" "w_next w2 = Suc ?b"
      "ports_map w2 = (ports_map w)(?a \<mapsto> ?qa, ?b \<mapsto> port_of zero_intf)"
    by (auto simp: fun_upd_twist)
  let ?s2 = "(slots_map w)(n1 \<mapsto> sl[k := Some ?a])" and ?p2 = "(ports_map w)(?a \<mapsto> ?qa)"
  from init_interface_node [OF r2] w2 obtain sl2 where sl2: "?s2 n2 = Some sl2" by auto
  with init_interface_shape [OF r2, of sl2] w2 obtain j where j: "j < length sl2" "sl2 ! j = None"
    and w': "slots_map w' = ?s2(n2 \<mapsto> sl2[j := Some ?b])" "ends_map w' = ?e" "w_next w' = Suc ?b"
      "ports_map w' = ?p2(?b \<mapsto> ?qb)"
    by auto
  have q: "p_node ?qa = n1" "port_comm ?qa" "p_node ?qb = n2" "port_comm ?qb"
    "p_link ?qa = Some l" "p_link ?qb = Some l"
    by (simp_all add: new_port_def port_comm_def ops_of_def)
  have f2: "?p2 ?b = None" using fresh by simp
  have p1: "ports_ok (slots_map w) (ports_map w) ?e" using ports_ok_add_link [OF p fresh(3)] .
  have p2: "ports_ok ?s2 ?p2 ?e" by (rule ports_ok_put [OF p1 sl k fresh(1) q(1,2)]) (simp add: q)
  have p3: "ports_ok (slots_map w') (ports_map w') (ends_map w')"
    unfolding w' by (rule ports_ok_put [OF p2 sl2 j f2 q(3,4)]) (simp add: q)
  have s3: "slots_ok (slots_map w') (ports_map w')"
    unfolding w' by (rule slots_ok_put [OF slots_ok_put [OF s sl k fresh(1) q(1)] sl2 j f2 q(3)])
  have l3: "links_ok (ports_map w') (ends_map w')"
    unfolding links_ok_def
  proof (intro allI impI)
    fix l' a' b' assume e: "ends_map w' l' = Some (a', b')"
    show "a' \<noteq> b' \<and> (\<exists>q. ports_map w' a' = Some q \<and> p_link q = Some l') \<and>
        (\<exists>q. ports_map w' b' = Some q \<and> p_link q = Some l')"
    proof (cases "l' = l")
      case True
      with e q show ?thesis by (auto simp: w')
    next
      case False
      with e have e': "ends_map w l' = Some (a', b')" by (simp add: w')
      from links_okD [OF lk e'] fresh have "a' \<noteq> ?a" "a' \<noteq> ?b" "b' \<noteq> ?a" "b' \<noteq> ?b" by auto
      with links_okD [OF lk e'] show ?thesis by (auto simp: w')
    qed
  qed
  have "below (slots_map w') (ports_map w') (ends_map w') (w_next w')"
    using b sl sl2 unfolding w' below_def by (auto simp: less_Suc_eq split: if_splits)
  with p3 s3 l3 show ?thesis by (simp add: wf_topo_def wf_shape_def w')
qed

end
