(* ===== verification/Teardown.thy ===== *)
theory Teardown
  imports Wiring
begin

text \<open>
  Destruction: \<open>destroy_link\<close> removes a link with its two interfaces from the shape;
  \<open>destroy_node\<close> removes a node with all its interfaces, provided no TAP interface sits in a
  slot before a linked one (it would read the freed interface).
\<close>

section \<open>Interfaces\<close>

lemma shape_step: "same_shape w w' \<Longrightarrow> slots_map w' = slots_map w \<and> ends_map w' = ends_map w \<and>
    ports_map w' = ports_map w \<and> w_next w' = w_next w \<and> w_graphs w' = w_graphs w"
  using same_wiring_maps [of w w'] by (simp add: same_shape_def same_wiring_def)

lemma free_intf_maps:
  "slots_map (free_intf i w) = slots_map w" "ends_map (free_intf i w) = ends_map w"
  "ports_map (free_intf i w) = ports_map w |` (- {i})" "w_next (free_intf i w) = w_next w"
  "w_graphs (free_intf i w) = w_graphs w"
  by (auto simp: free_intf_def slots_map_def ends_map_def ports_map_def fun_eq_iff restrict_map_def)

lemma destroy_interface_udp:
  assumes q: "ports_map w i = Some q" and c: "port_comm q" "p_link q \<noteq> None"
  shows "\<exists>w'. destroy_interface i w = Inr w' \<and> same_shape w w'"
proof -
  from port_get_intf [OF q] obtain x where x: "get_intf i w = Inr x" "port_of x = q" by blast
  with c have t: "comm_type (if_comm x) = CT_UDP" "comm_ops (if_comm x) \<noteq> None"
    by (auto simp: port_comm_def port_of_def)
  from destroy_comm_shape [OF x(1) t(2)] x(1) t(1) show ?thesis
    by (auto simp: destroy_interface_def)
qed

lemma destroy_interface_tuntap:
  assumes q: "ports_map w i = Some q" and c: "port_comm q" "p_link q = None"
  shows "\<exists>w'. destroy_interface i w = Inr w' \<and> slots_map w' = slots_map w \<and> ends_map w' = ends_map w \<and>
    ports_map w' = ports_map w |` (- {i}) \<and> w_next w' = w_next w \<and> w_graphs w' = w_graphs w"
proof -
  from port_get_intf [OF q] obtain x where x: "get_intf i w = Inr x" "port_of x = q" by blast
  with c have t: "comm_type (if_comm x) = CT_TUNTAP" "comm_ops (if_comm x) \<noteq> None"
    by (auto simp: port_comm_def port_of_def)
  from destroy_comm_shape [OF x(1) t(2)] obtain w' where "destroy_comm i w = Inr (True, w')" "same_shape w w'"
    by blast
  with x(1) t(1) shape_step show ?thesis
    by (simp add: destroy_interface_def free_intf_maps)
qed

section \<open>The loop over the slots\<close>

definition unlinked :: "(intf_id \<Rightarrow> port option) \<Rightarrow> link_id \<Rightarrow> intf_id option \<Rightarrow> intf_id option" where
  "unlinked p l slot =
    (case slot of None \<Rightarrow> None
     | Some i \<Rightarrow> (case p i of Some q \<Rightarrow> if p_link q = Some l then None else Some i | None \<Rightarrow> Some i))"

lemma unlinked_idem [simp]: "unlinked p l (unlinked p l slot) = unlinked p l slot"
  by (auto simp: unlinked_def split: option.splits)

definition at_slot :: "('a \<Rightarrow> 'a) \<Rightarrow> nat \<Rightarrow> 'a list \<Rightarrow> 'a list" where
  "at_slot f k sl = sl[k := f (sl ! k)]"

lemma length_at_slot [simp]: "length (at_slot f k sl) = length sl"
  by (simp add: at_slot_def)

lemma fold_at_slot: "m \<le> length sl \<Longrightarrow> fold (at_slot f) [0 ..< m] sl = map f (take m sl) @ drop m sl"
proof (induction m)
  case (Suc m)
  then show ?case
    by (auto simp: at_slot_def nth_append list_update_append take_Suc_conv_app_nth
        upd_conv_take_nth_drop Cons_nth_drop_Suc [symmetric])
qed simp

lemma at_slot_idem: "(\<And>x. f (f x) = f x) \<Longrightarrow> at_slot f k (at_slot f k sl) = at_slot f k sl"
  by (cases "k < length sl") (simp_all add: at_slot_def list_update_beyond)

text \<open>What the slots of a node hold is live.\<close>

definition live_slots :: "(intf_id \<Rightarrow> port option) \<Rightarrow> intf_id option list \<Rightarrow> bool" where
  "live_slots p sl \<longleftrightarrow> length sl = MAX_INTFS_PER_NODE \<and> (\<forall>i. Some i \<in> set sl \<longrightarrow> p i \<noteq> None)"

lemma live_at_slot: "live_slots p sl \<Longrightarrow> k < MAX_INTFS_PER_NODE \<Longrightarrow> live_slots p (at_slot (unlinked p l) k sl)"
proof -
  assume a: "live_slots p sl" "k < MAX_INTFS_PER_NODE"
  from a have mem: "sl ! k \<in> set sl" by (simp add: live_slots_def)
  have "Some i \<in> set sl" if "Some i \<in> set (sl[k := unlinked p l (sl ! k)])" for i
    using set_mp [OF set_update_subset_insert that] mem
    by (auto simp: unlinked_def split: option.splits if_splits)
  with a show ?thesis by (simp add: live_slots_def at_slot_def)
qed

lemma clear_slot_shape:
  assumes sl: "slots_map w n = Some sl" and live: "live_slots (ports_map w) sl" and k: "k < MAX_INTFS_PER_NODE"
  shows "\<exists>w'. clear_slot l n k w = Inr w' \<and>
    slots_map w' = (slots_map w)(n \<mapsto> at_slot (unlinked (ports_map w) l) k sl) \<and>
    ports_map w' = ports_map w \<and> ends_map w' = ends_map w \<and> w_next w' = w_next w \<and> w_graphs w' = w_graphs w"
proof -
  from slots_node [OF sl] obtain nd where nd: "get_node n w = Inr nd" "node_intfs nd = sl" by blast
  have same: "(slots_map w)(n \<mapsto> sl) = slots_map w" using sl by auto
  show ?thesis
  proof (cases "sl ! k")
    case None
    then have "sl[k := None] = sl" by (metis list_update_id)
    with None nd same show ?thesis
      by (simp add: clear_slot_def at_slot_def unlinked_def)
  next
    case (Some i)
    with live k have "ports_map w i \<noteq> None" using nth_mem [of k sl] by (auto simp: live_slots_def)
    then obtain x where x: "get_intf i w = Inr x" "ports_map w i = Some (port_of x)"
      using port_get_intf get_intf_port by blast
    have id: "sl[k := Some i] = sl" using Some by (metis list_update_id)
    show ?thesis
      using Some nd x same id
      by (simp add: clear_slot_def at_slot_def unlinked_def port_of_def slots_put_node)
  qed
qed

definition cleared where
  "cleared p l n1 n2 ks s n =
    (if n = n1 \<or> n = n2 then map_option (fold (at_slot (unlinked p l)) ks) (s n) else s n)"

lemma clear_slots_shape:
  assumes "\<And>n. n = n1 \<or> n = n2 \<Longrightarrow> \<exists>sl. slots_map w n = Some sl \<and> live_slots (ports_map w) sl"
    and "\<And>k. k \<in> set ks \<Longrightarrow> k < MAX_INTFS_PER_NODE"
  shows "\<exists>w'. clear_slots l n1 n2 ks w = Inr w' \<and>
    slots_map w' = cleared (ports_map w) l n1 n2 ks (slots_map w) \<and>
    ports_map w' = ports_map w \<and> ends_map w' = ends_map w \<and> w_next w' = w_next w \<and> w_graphs w' = w_graphs w"
  using assms
proof (induction ks arbitrary: w)
  case Nil
  then show ?case by (simp add: cleared_def fun_eq_iff option.map_id)
next
  case (Cons k ks)
  let ?p = "ports_map w" and ?f = "at_slot (unlinked (ports_map w) l) k"
  have k: "k < MAX_INTFS_PER_NODE" using Cons.prems(2) by simp
  from Cons.prems(1) [of n1] obtain s1 where s1: "slots_map w n1 = Some s1" "live_slots ?p s1" by blast
  from Cons.prems(1) [of n2] obtain s2 where s2: "slots_map w n2 = Some s2" "live_slots ?p s2" by blast
  from clear_slot_shape [OF s1 k, of l] obtain w1 where w1: "clear_slot l n1 k w = Inr w1"
    "slots_map w1 = (slots_map w)(n1 \<mapsto> ?f s1)" "ports_map w1 = ?p" "ends_map w1 = ends_map w"
    "w_next w1 = w_next w" "w_graphs w1 = w_graphs w" by blast
  define t2 where "t2 = (if n2 = n1 then ?f s1 else s2)"
  have t2: "slots_map w1 n2 = Some t2" "live_slots (ports_map w1) t2"
    using w1 s2 live_at_slot [OF s1(2) k, of l] by (simp_all add: t2_def)
  from clear_slot_shape [OF t2 k, of l] w1 obtain w2 where w2: "clear_slot l n2 k w1 = Inr w2"
    "slots_map w2 = (slots_map w)(n1 \<mapsto> ?f s1, n2 \<mapsto> ?f t2)" "ports_map w2 = ?p" "ends_map w2 = ends_map w"
    "w_next w2 = w_next w" "w_graphs w2 = w_graphs w" by metis
  have f2: "?f t2 = ?f s2"
    by (cases "n2 = n1") (use s1 s2 in \<open>simp_all add: t2_def at_slot_idem\<close>)
  have m2: "slots_map w2 = cleared ?p l n1 n2 [k] (slots_map w)"
  proof (cases "n2 = n1")
    case True
    then show ?thesis using s1 s2 unfolding w2(2) f2 by (auto simp: cleared_def fun_eq_iff)
  next
    case False
    then show ?thesis using s1 s2 unfolding w2(2) f2 by (auto simp: cleared_def fun_eq_iff)
  qed
  have "\<exists>sl. slots_map w2 n = Some sl \<and> live_slots (ports_map w2) sl" if "n = n1 \<or> n = n2" for n
    using that s1 s2 live_at_slot [OF _ k] by (auto simp: m2 cleared_def w2)
  from Cons.IH [of w2, OF this] Cons.prems(2) obtain w3 where w3: "clear_slots l n1 n2 ks w2 = Inr w3"
    "slots_map w3 = cleared ?p l n1 n2 ks (slots_map w2)" "ports_map w3 = ?p" "ends_map w3 = ends_map w"
    "w_next w3 = w_next w" "w_graphs w3 = w_graphs w" using w2(3-6) by auto
  have "slots_map w3 = cleared ?p l n1 n2 (k # ks) (slots_map w)"
    unfolding w3(2) m2 by (auto simp: cleared_def fun_eq_iff option.map_comp comp_def)
  with w1 w2 w3 show ?case by simp
qed

section \<open>Destroying a link\<close>

lemma cleared_eq_clear:
  assumes wf: "wf_shape s p e" and l: "e l = Some (a, b)"
    and q: "p a = Some qa" "p b = Some qb"
  shows "cleared p l (p_node qa) (p_node qb) [0 ..< MAX_INTFS_PER_NODE] s = (\<lambda>n. map_option (clear {a, b}) (s n))"
proof
  fix n
  have sp: "slots_ok s p" "ports_ok s p e" "links_ok p e" using wf by (simp_all add: wf_shape_def)
  have lk: "p_link qa = Some l" "p_link qb = Some l" using links_okD(2,3) [OF sp(3) l] q by auto
  show "cleared p l (p_node qa) (p_node qb) [0 ..< MAX_INTFS_PER_NODE] s n = map_option (clear {a, b}) (s n)"
  proof (cases "s n")
    case None
    then show ?thesis by (simp add: cleared_def)
  next
    case (Some sl)
    show ?thesis
    proof (cases "n = p_node qa \<or> n = p_node qb")
      case True
      have "unlinked p l slot = (if slot \<in> Some ` {a, b} then None else slot)" if slot: "slot \<in> set sl" for slot
      proof (cases slot)
        case (Some i)
        with slot slots_okD(2) [OF sp(1) \<open>s n = Some sl\<close>] obtain qi where qi: "p i = Some qi" by blast
        have "p_link qi = Some l \<longleftrightarrow> i = a \<or> i = b"
          using ports_okD(3) [OF sp(2) qi, of l] l lk q qi by auto
        with Some qi show ?thesis by (auto simp: unlinked_def)
      qed (simp add: unlinked_def)
      moreover have "fold (at_slot (unlinked p l)) [0 ..< MAX_INTFS_PER_NODE] sl = map (unlinked p l) sl"
        using fold_at_slot [of MAX_INTFS_PER_NODE sl] slots_okD(1) [OF sp(1) Some] by simp
      ultimately show ?thesis using True Some by (simp add: cleared_def clear_def)
    next
      case False
      have "clear {a, b} sl = sl"
        using slots_okD(2) [OF sp(1) Some] q False by (intro clear_id) force
      with False Some show ?thesis by (simp add: cleared_def)
    qed
  qed
qed

lemma wf_live: "wf_shape s p e \<Longrightarrow> s n = Some sl \<Longrightarrow> live_slots p sl"
  by (fastforce simp: wf_shape_def live_slots_def dest: slots_okD)

definition link_gone :: "link_id \<Rightarrow> intf_id \<Rightarrow> intf_id \<Rightarrow> world \<Rightarrow> world \<Rightarrow> bool" where
  "link_gone l a b w w' \<longleftrightarrow>
    slots_map w' = (\<lambda>n. map_option (clear {a, b}) (slots_map w n)) \<and>
    ports_map w' = ports_map w |` (- {a, b}) \<and> ends_map w' = (ends_map w)(l := None) \<and>
    w_next w' = w_next w \<and> w_graphs w' = w_graphs w"

lemma destroy_link_shape:
  assumes wf: "wf_shape (slots_map w) (ports_map w) (ends_map w)" and l: "ends_map w l = Some (a, b)"
  shows "\<exists>w'. destroy_link l w = Inr w' \<and> link_gone l a b w w'"
proof -
  let ?s = "slots_map w" and ?p = "ports_map w" and ?e = "ends_map w"
  have sp: "slots_ok ?s ?p" "ports_ok ?s ?p ?e" "links_ok ?p ?e" using wf by (simp_all add: wf_shape_def)
  from links_okD(2,3) [OF sp(3) l] obtain qa qb where qa: "?p a = Some qa" "p_link qa = Some l"
    and qb: "?p b = Some qb" "p_link qb = Some l" by blast
  from l obtain lk where lk: "get_link l w = Inr lk" "intf1 lk = a" "intf2 lk = b"
    by (auto simp: ends_map_def link_table.get_Inr_iff)
  from port_get_intf [OF qa(1)] obtain xa where xa: "get_intf a w = Inr xa" "if_node xa = p_node qa"
    by (auto simp: port_of_def)
  from port_get_intf [OF qb(1)] obtain xb where xb: "get_intf b w = Inr xb" "if_node xb = p_node qb"
    by (auto simp: port_of_def)
  have "\<exists>sl. ?s n = Some sl \<and> live_slots ?p sl" if "n = p_node qa \<or> n = p_node qb" for n
    using that ports_okD(2) [OF sp(2) qa(1)] ports_okD(2) [OF sp(2) qb(1)] wf_live [OF wf] by blast
  from clear_slots_shape [of "p_node qa" "p_node qb" w "[0 ..< MAX_INTFS_PER_NODE]" l, OF this]
  obtain w1 where w1: "clear_slots l (p_node qa) (p_node qb) [0 ..< MAX_INTFS_PER_NODE] w = Inr w1"
    "slots_map w1 = (\<lambda>n. map_option (clear {a, b}) (?s n))"
    "ports_map w1 = ?p" "ends_map w1 = ?e" "w_next w1 = w_next w" "w_graphs w1 = w_graphs w"
    using cleared_eq_clear [OF wf l qa(1) qb(1)] by auto
  have c: "port_comm qa" "port_comm qb" using ports_okD(1) [OF sp(2)] qa qb by blast+
  from destroy_interface_udp [of w1 a qa] w1(3) qa c obtain w2 where w2: "destroy_interface a w1 = Inr w2"
    "same_shape w1 w2" by auto
  from destroy_interface_udp [of w2 b qb] w1(3) qb c shape_step [OF w2(2)] obtain w3
    where w3: "destroy_interface b w2 = Inr w3" "same_shape w2 w3" by auto
  let ?w4 = "free_link l lk w3"
  have "destroy_link l w = Inr ?w4"
    using lk xa xb w1(1) w2(1) w3(1) by (simp add: destroy_link_def)
  moreover have "link_gone l a b w ?w4"
    using shape_step [OF w2(2)] shape_step [OF w3(2)] w1 lk
    by (auto simp: link_gone_def free_link_def slots_map_def ends_map_def ports_map_def free_intf_def
        fun_eq_iff restrict_map_def)
  ultimately show ?thesis by blast
qed

lemma link_gone_wf:
  assumes wf: "wf_shape (slots_map w) (ports_map w) (ends_map w)" and l: "ends_map w l = Some (a, b)"
    and g: "link_gone l a b w w'"
  shows "wf_shape (slots_map w') (ports_map w') (ends_map w')"
proof -
  have "wf_shape (\<lambda>n. map_option (clear {a, b}) (slots_map w n)) (ports_map w |` (- {a, b}))
      (drop_link (Some l) (ends_map w))"
  proof (rule wf_shape_remove [OF wf])
    show "p_link q = Some l" if "i \<in> {a, b}" "ports_map w i = Some q" for i q
      using that links_okD(2,3) [of "ports_map w" "ends_map w" l a b] wf l by (auto simp: wf_shape_def)
    show "a' \<in> {a, b} \<and> b' \<in> {a, b}" if "Some l = Some l'" "ends_map w l' = Some (a', b')" for l' a' b'
      using that l by auto
  qed
  with g show ?thesis by (simp add: link_gone_def drop_link_def)
qed

section \<open>Destroying a node\<close>

text \<open>
  The slots of a node are in order when no TAP interface comes before a linked one:
  \<open>destroy_node\<close> frees a TAP interface but leaves its slot, and \<open>destroy_link\<close> reads all slots.
\<close>

definition linked_slot :: "(intf_id \<Rightarrow> port option) \<Rightarrow> intf_id option \<Rightarrow> bool" where
  "linked_slot p slot =
    (case slot of None \<Rightarrow> False | Some i \<Rightarrow> (case p i of None \<Rightarrow> False | Some q \<Rightarrow> p_link q \<noteq> None))"

fun taps_last :: "(intf_id \<Rightarrow> port option) \<Rightarrow> intf_id option list \<Rightarrow> bool" where
  "taps_last p [] \<longleftrightarrow> True"
| "taps_last p (None # slots) \<longleftrightarrow> taps_last p slots"
| "taps_last p (Some i # slots) \<longleftrightarrow>
     (if linked_slot p (Some i) then taps_last p slots else (\<forall>slot \<in> set slots. \<not> linked_slot p slot))"

lemma taps_last_no_links: "(\<forall>slot \<in> set slots. \<not> linked_slot p slot) \<Longrightarrow> taps_last p slots"
  by (induction p slots rule: taps_last.induct) auto

lemma linked_slot_clear:
  "linked_slot (p |` (- D)) (if slot \<in> Some ` D then None else slot) \<Longrightarrow> linked_slot p slot"
  by (auto simp: linked_slot_def restrict_map_def split: option.splits if_splits)

lemma taps_last_clear: "taps_last p slots \<Longrightarrow> taps_last (p |` (- D)) (clear D slots)"
proof (induction p slots rule: taps_last.induct)
  case (3 p i slots)
  have rest: "\<forall>slot \<in> set (clear D slots). \<not> linked_slot (p |` (- D)) slot"
    if "\<forall>slot \<in> set slots. \<not> linked_slot p slot"
  proof
    fix slot assume "slot \<in> set (clear D slots)"
    then obtain slot' where "slot' \<in> set slots" "slot = (if slot' \<in> Some ` D then None else slot')"
      by (auto simp: clear_def)
    with that linked_slot_clear show "\<not> linked_slot (p |` (- D)) slot" by metis
  qed
  show ?case
  proof (cases "i \<in> D")
    case True
    with 3 rest taps_last_no_links show ?thesis by (auto simp: clear_def split: if_splits)
  next
    case False
    then have "linked_slot (p |` (- D)) (Some i) = linked_slot p (Some i)" by (simp add: linked_slot_def)
    with False 3 rest show ?thesis by (auto simp: clear_def image_iff split: if_splits)
  qed
qed (auto simp: clear_def)

text \<open>
  The loop invariant at slot \<open>k\<close>: with the slots before \<open>k\<close> emptied the shape is well formed, and
  unless nothing linked is left the slots really are empty.
\<close>

definition upto_slot :: "nat \<Rightarrow> intf_id option list \<Rightarrow> intf_id option list" where
  "upto_slot k sl = replicate k None @ drop k sl"

definition destroying :: "node_id \<Rightarrow> nat \<Rightarrow> world \<Rightarrow> bool" where
  "destroying n k w \<longleftrightarrow>
    (\<exists>sl. slots_map w n = Some sl \<and> length sl = MAX_INTFS_PER_NODE \<and>
      wf_shape ((slots_map w)(n \<mapsto> upto_slot k sl)) (ports_map w) (ends_map w) \<and>
      below (slots_map w) (ports_map w) (ends_map w) (w_next w) \<and>
      taps_last (ports_map w) (drop k sl) \<and>
      (upto_slot k sl = sl \<or> (\<forall>slot \<in> set (drop k sl). \<not> linked_slot (ports_map w) slot)))"

lemma upto_slot_Suc:
  assumes "k < length sl"
  shows "sl ! k = None \<Longrightarrow> upto_slot (Suc k) sl = upto_slot k sl"
    and "upto_slot (Suc k) sl = (upto_slot k sl)[k := None]"
    and "upto_slot k sl ! k = sl ! k" "length (upto_slot k sl) = length sl"
    and "drop k sl = sl ! k # drop (Suc k) sl"
proof -
  show d: "drop k sl = sl ! k # drop (Suc k) sl" using assms by (simp add: Cons_nth_drop_Suc)
  have e1: "upto_slot (Suc k) sl = replicate k None @ None # drop (Suc k) sl"
    unfolding upto_slot_def by (simp only: replicate_Suc replicate_app_Cons_same append_Cons)
  have e2: "upto_slot k sl = replicate k None @ sl ! k # drop (Suc k) sl"
    by (simp only: upto_slot_def d)
  show "upto_slot (Suc k) sl = (upto_slot k sl)[k := None]"
    unfolding e1 e2 using list_update_length [of "replicate k None" "sl ! k" "drop (Suc k) sl" None]
    by simp
  show "sl ! k = None \<Longrightarrow> upto_slot (Suc k) sl = upto_slot k sl"
    unfolding e1 e2 by simp
  show "upto_slot k sl ! k = sl ! k" using assms by (simp add: upto_slot_def nth_append)
  show "length (upto_slot k sl) = length sl" using assms by (simp add: upto_slot_def)
qed

lemma clear_upto: "clear D (upto_slot k sl) = upto_slot k (clear D sl)"
  by (simp add: clear_def upto_slot_def drop_map)

lemma clear_drop: "drop k (clear D sl) = clear D (drop k sl)"
  by (simp add: clear_def drop_map)

text \<open>The other nodes keep their order while a node is destroyed.\<close>

definition others_ok :: "node_id \<Rightarrow> world \<Rightarrow> world \<Rightarrow> bool" where
  "others_ok n w w' \<longleftrightarrow>
    (\<forall>m sl. m \<noteq> n \<longrightarrow> slots_map w m = Some sl \<longrightarrow> taps_last (ports_map w) sl \<longrightarrow>
       (\<exists>sl'. slots_map w' m = Some sl' \<and> taps_last (ports_map w') sl')) \<and>
    (\<forall>m. m \<noteq> n \<longrightarrow> slots_map w m = None \<longrightarrow> slots_map w' m = None)"

lemma others_ok_refl: "others_ok n w w"
  by (simp add: others_ok_def)

lemma others_ok_trans: "others_ok n u v \<Longrightarrow> others_ok n v w \<Longrightarrow> others_ok n u w"
  unfolding others_ok_def by meson

lemma others_ok_clear:
  assumes "\<And>m. m \<noteq> n \<Longrightarrow> slots_map w' m = map_option (clear D) (slots_map w m)"
    and "ports_map w' = ports_map w |` (- D)"
  shows "others_ok n w w'"
  using assms taps_last_clear unfolding others_ok_def by auto

lemma below_sub:
  "below s p e m \<Longrightarrow> (\<And>x. s' x \<noteq> None \<Longrightarrow> s x \<noteq> None) \<Longrightarrow> (\<And>x. p' x \<noteq> None \<Longrightarrow> p x \<noteq> None) \<Longrightarrow>
   (\<And>x. e' x \<noteq> None \<Longrightarrow> e x \<noteq> None) \<Longrightarrow> m' = m \<Longrightarrow> below s' p' e' m'"
  by (auto simp: below_def)

lemma destroying_linked:
  assumes sl: "slots_map w n = Some sl" "length sl = MAX_INTFS_PER_NODE" and kl: "k < length sl" and ik: "sl ! k = Some i"
    and wf: "wf_shape ((slots_map w)(n \<mapsto> upto_slot k sl)) (ports_map w) (ends_map w)"
    and bl: "below (slots_map w) (ports_map w) (ends_map w) (w_next w)"
    and tl: "taps_last (ports_map w) (drop k sl)"
    and cl: "upto_slot k sl = sl \<or> (\<forall>slot \<in> set (drop k sl). \<not> linked_slot (ports_map w) slot)"
    and q: "ports_map w i = Some q" "p_node q = n" "p_link q = Some l"
  shows "\<exists>w'. destroy_link l w = Inr w' \<and> destroying n (Suc k) w' \<and> others_ok n w w' \<and> w_graphs w' = w_graphs w \<and> w_next w' = w_next w"
proof -
  let ?s = "(slots_map w)(n \<mapsto> upto_slot k sl)" and ?p = "ports_map w" and ?e = "ends_map w"
  note up = upto_slot_Suc [OF kl]
  have sp: "slots_ok ?s ?p" "ports_ok ?s ?p ?e" using wf by (simp_all add: wf_shape_def)
  have "linked_slot ?p (Some i)" using q(1,3) by (simp add: linked_slot_def)
  then have same: "upto_slot k sl = sl" using cl ik up(5) by auto
  then have s: "?s = slots_map w" using sl(1) by auto
  from ports_okD(3) [OF sp(2) q(1) q(3)] obtain a b where l: "?e l = Some (a, b)" "i = a \<or> i = b" by blast
  from destroy_link_shape [OF wf [unfolded s] l(1)] obtain w' where w': "destroy_link l w = Inr w'"
    "link_gone l a b w w'" by blast
  let ?sl = "clear {a, b} sl"
  have sl': "slots_map w' n = Some ?sl" using w'(2) sl(1) by (simp add: link_gone_def)
  have "?sl ! k = None" using ik l(2) kl by (auto simp: clear_def)
  then have u: "upto_slot (Suc k) ?sl = ?sl"
    using upto_slot_Suc(1) [of k ?sl] kl same clear_upto [of "{a, b}" k sl] by simp
  have "taps_last (ports_map w') (drop (Suc k) ?sl)"
    using taps_last_clear [OF tl, of "{a, b}"] w'(2) up(5) ik l(2)
    by (auto simp: link_gone_def clear_def drop_map)
  moreover have "below (slots_map w') (ports_map w') (ends_map w') (w_next w')"
    by (rule below_sub [OF bl]) (use w'(2) in \<open>auto simp: link_gone_def restrict_map_def split: if_splits\<close>)
  ultimately have "destroying n (Suc k) w'"
    using sl' u sl(2) link_gone_wf [OF wf [unfolded s] l(1) w'(2)]
    by (auto simp: destroying_def fun_upd_idem)
  moreover have "others_ok n w w'" using w'(2) by (intro others_ok_clear [of _ _ "{a, b}"]) (simp_all add: link_gone_def)
  ultimately show ?thesis using w' by (auto simp: link_gone_def)
qed

lemma destroying_unlinked:
  assumes sl: "slots_map w n = Some sl" "length sl = MAX_INTFS_PER_NODE" and kl: "k < length sl" and ik: "sl ! k = Some i"
    and wf: "wf_shape ((slots_map w)(n \<mapsto> upto_slot k sl)) (ports_map w) (ends_map w)"
    and bl: "below (slots_map w) (ports_map w) (ends_map w) (w_next w)"
    and tl: "taps_last (ports_map w) (drop k sl)"
    and cl: "upto_slot k sl = sl \<or> (\<forall>slot \<in> set (drop k sl). \<not> linked_slot (ports_map w) slot)"
    and q: "ports_map w i = Some q" "p_node q = n" "p_link q = None" "port_comm q"
  shows "\<exists>w'. destroy_interface i w = Inr w' \<and> destroying n (Suc k) w' \<and> others_ok n w w' \<and> w_graphs w' = w_graphs w \<and> w_next w' = w_next w"
proof -
  let ?s = "(slots_map w)(n \<mapsto> upto_slot k sl)" and ?p = "ports_map w" and ?e = "ends_map w"
  note up = upto_slot_Suc [OF kl]
  have sp: "slots_ok ?s ?p" using wf by (simp add: wf_shape_def)
  from destroy_interface_tuntap [OF q(1,4,3)] obtain w' where w': "destroy_interface i w = Inr w'"
    "slots_map w' = slots_map w" "ends_map w' = ?e" "ports_map w' = ?p |` (- {i})"
    "w_next w' = w_next w" "w_graphs w' = w_graphs w" by blast
  have wf': "wf_shape (\<lambda>m. map_option (clear {i}) (?s m)) (?p |` (- {i})) ?e"
  proof -
    have "wf_shape (\<lambda>m. map_option (clear {i}) (?s m)) (?p |` (- {i})) (drop_link None ?e)"
      by (rule wf_shape_remove [OF wf]) (use q(1,3) in auto)
    then show ?thesis by (simp add: drop_link_def)
  qed
  have "clear {i} (upto_slot k sl) = upto_slot (Suc k) sl"
  proof (rule nth_equalityI)
    fix j assume j: "j < length (clear {i} (upto_slot k sl))"
    have "upto_slot k sl ! j = Some i \<Longrightarrow> j = k"
      using slots_okD(3) [OF sp, of n "upto_slot k sl" k j i] j up(3,4) ik kl by simp
    then show "clear {i} (upto_slot k sl) ! j = upto_slot (Suc k) sl ! j"
      using j up ik kl by (auto simp: clear_def nth_list_update)
  qed (simp add: up(2))
  moreover have oth: "map_option (clear {i}) (slots_map w m) = slots_map w m" if "m \<noteq> n" for m
    using that slots_okD(2) [OF sp, of m] q by (cases "slots_map w m") (force intro: clear_id)+
  ultimately have "(\<lambda>m. map_option (clear {i}) (?s m)) = (slots_map w)(n \<mapsto> upto_slot (Suc k) sl)"
    by (auto simp: fun_eq_iff)
  with wf' have wf2: "wf_shape ((slots_map w')(n \<mapsto> upto_slot (Suc k) sl)) (ports_map w') (ends_map w')"
    by (simp add: w')
  have nl: "\<not> linked_slot (ports_map w') slot" if "slot \<in> set (drop (Suc k) sl)" for slot
  proof -
    have "\<not> linked_slot ?p (Some i)" using q(1,3) by (simp add: linked_slot_def)
    then have "\<not> linked_slot ?p slot" using tl up(5) ik that by auto
    then show ?thesis by (auto simp: w' linked_slot_def restrict_map_def split: option.splits)
  qed
  moreover have "below (slots_map w') (ports_map w') (ends_map w') (w_next w')"
    by (rule below_sub [OF bl]) (auto simp: w' restrict_map_def split: if_splits)
  ultimately have "destroying n (Suc k) w'"
    using sl wf2 nl taps_last_no_links unfolding destroying_def by (auto simp: w')
  moreover have "others_ok n w w'" using oth by (intro others_ok_clear [of _ _ "{i}"]) (simp_all add: w')
  ultimately show ?thesis using w' by auto
qed

lemma destroying_step:
  assumes d: "destroying n k w" and k: "k < MAX_INTFS_PER_NODE"
    and n: "get_node n w = Inr nd" and i: "node_intfs nd ! k = Some i"
  shows "\<exists>x w'. get_intf i w = Inr x \<and>
    (case if_link x of Some l \<Rightarrow> destroy_link l w | None \<Rightarrow> destroy_interface i w) = Inr w' \<and>
    destroying n (Suc k) w' \<and> others_ok n w w' \<and> w_graphs w' = w_graphs w \<and> w_next w' = w_next w"
proof -
  from d obtain sl where sl: "slots_map w n = Some sl" "length sl = MAX_INTFS_PER_NODE"
    and wf: "wf_shape ((slots_map w)(n \<mapsto> upto_slot k sl)) (ports_map w) (ends_map w)"
    and bl: "below (slots_map w) (ports_map w) (ends_map w) (w_next w)"
    and tl: "taps_last (ports_map w) (drop k sl)"
    and cl: "upto_slot k sl = sl \<or> (\<forall>slot \<in> set (drop k sl). \<not> linked_slot (ports_map w) slot)"
    by (auto simp: destroying_def)
  let ?s = "(slots_map w)(n \<mapsto> upto_slot k sl)" and ?p = "ports_map w" and ?e = "ends_map w"
  have kl: "k < length sl" using k sl(2) by simp
  have ik: "sl ! k = Some i" using node_slots [OF n] i sl(1) by simp
  have sp: "slots_ok ?s ?p" "ports_ok ?s ?p ?e" using wf by (simp_all add: wf_shape_def)
  have "Some i \<in> set (upto_slot k sl)" using ik upto_slot_Suc(3,4) [OF kl] kl nth_mem by metis
  with slots_okD(2) [OF sp(1), of n] obtain q where q: "?p i = Some q" "p_node q = n" by auto
  from port_get_intf [OF q(1)] obtain x where x: "get_intf i w = Inr x" "if_link x = p_link q"
    by (auto simp: port_of_def)
  have c: "port_comm q" using ports_okD(1) [OF sp(2) q(1)] .
  note parts = sl kl ik wf bl tl cl q
  show ?thesis
  proof (cases "p_link q")
    case None
    from destroying_unlinked [OF parts this c] show ?thesis using x None by auto
  next
    case (Some l)
    from destroying_linked [OF parts this] show ?thesis using x Some by auto
  qed
qed

lemma destroy_slots_shape:
  "destroying n k w \<Longrightarrow> k + length ks = MAX_INTFS_PER_NODE \<Longrightarrow> ks = [k ..< MAX_INTFS_PER_NODE] \<Longrightarrow>
   \<exists>w'. destroy_slots n ks w = Inr w' \<and> destroying n MAX_INTFS_PER_NODE w' \<and>
     others_ok n w w' \<and> w_graphs w' = w_graphs w \<and> w_next w' = w_next w"
proof (induction ks arbitrary: k w)
  case Nil
  then show ?case by (simp add: others_ok_refl)
next
  case (Cons j ks)
  have k: "k < MAX_INTFS_PER_NODE" "j = k" "ks = [Suc k ..< MAX_INTFS_PER_NODE]"
    "Suc k + length ks = MAX_INTFS_PER_NODE"
    using Cons.prems(2,3) upt_eq_Cons_conv [of k MAX_INTFS_PER_NODE j ks] by auto
  from Cons.prems(1) obtain sl where sl: "slots_map w n = Some sl" "length sl = MAX_INTFS_PER_NODE"
    by (auto simp: destroying_def)
  from slots_node [OF sl(1)] obtain nd where nd: "get_node n w = Inr nd" "node_intfs nd = sl" by blast
  show ?case
  proof (cases "sl ! k")
    case None
    have kl: "k < length sl" using k(1) sl(2) by simp
    have "destroying n (Suc k) w"
      using Cons.prems(1) sl upto_slot_Suc(1) [OF kl None] upto_slot_Suc(5) [OF kl] None
      unfolding destroying_def by auto
    from Cons.IH [OF this k(4,3)] nd None k(2) show ?thesis by simp
  next
    case (Some i)
    with nd have "node_intfs nd ! k = Some i" by simp
    from destroying_step [OF Cons.prems(1) k(1) nd(1) this] obtain x w1 where w1: "get_intf i w = Inr x"
      "(case if_link x of Some l \<Rightarrow> destroy_link l w | None \<Rightarrow> destroy_interface i w) = Inr w1"
      "destroying n (Suc k) w1" "others_ok n w w1" "w_graphs w1 = w_graphs w" "w_next w1 = w_next w" by blast
    from Cons.IH [OF w1(3) k(4,3)] w1 nd Some k(2) others_ok_trans [OF w1(4)] show ?thesis by auto
  qed
qed

text \<open>
  A node whose TAP interfaces come last is destroyed without a fault: it is gone with all its
  interfaces, and the shape stays well formed.
\<close>

lemma destroy_node_wf:
  assumes wf: "wf_topo w" and n: "slots_map w n = Some sl" and tl: "taps_last (ports_map w) sl"
  shows "\<exists>w'. destroy_node n w = Inr w' \<and> wf_topo w' \<and> slots_map w' n = None \<and>
    (\<forall>i q. ports_map w' i = Some q \<longrightarrow> p_node q \<noteq> n) \<and> others_ok n w w' \<and>
    w_graphs w' = w_graphs (unlink_node n w)"
proof -
  let ?w0 = "unlink_node n w"
  have w0: "slots_map ?w0 = slots_map w" "ports_map ?w0 = ports_map w" "ends_map ?w0 = ends_map w"
    "w_next ?w0 = w_next w"
    by (simp_all add: unlink_node_def slots_map_def ports_map_def ends_map_def fun_eq_iff)
  have "destroying n 0 ?w0"
    using wf n tl slots_okD(1) [of "slots_map w" "ports_map w" n sl]
    by (auto simp: destroying_def w0 wf_topo_def wf_shape_def upto_slot_def fun_upd_idem)
  from destroy_slots_shape [OF this, of "[0 ..< MAX_INTFS_PER_NODE]"] obtain w1
    where w1: "destroy_slots n [0 ..< MAX_INTFS_PER_NODE] ?w0 = Inr w1" "destroying n MAX_INTFS_PER_NODE w1"
      "w_graphs w1 = w_graphs ?w0" "w_next w1 = w_next w" "others_ok n w w1" by (auto simp: w0 others_ok_def)
  from w1(2) obtain s1 where s1: "slots_map w1 n = Some s1" "length s1 = MAX_INTFS_PER_NODE"
    and wf1: "wf_shape ((slots_map w1)(n \<mapsto> upto_slot MAX_INTFS_PER_NODE s1)) (ports_map w1) (ends_map w1)"
    and bl1: "below (slots_map w1) (ports_map w1) (ends_map w1) (w_next w1)"
    by (auto simp: destroying_def)
  from slots_node [OF s1(1)] obtain nd where nd: "get_node n w1 = Inr nd" by blast
  let ?w2 = "put_node n (destroy_node_nw_prop nd) w1"
  let ?w' = "?w2\<lparr>w_nodes := (w_nodes ?w2)(n := None)\<rparr>"
  from slots_node [OF n] obtain nd0 where "get_node n w = Inr nd0" by blast
  then have r: "destroy_node n w = Inr ?w'" using w1(1) nd by (simp add: destroy_node_def Let_def)
  have maps: "slots_map ?w' = (slots_map w1)(n := None)" "ports_map ?w' = ports_map w1"
    "ends_map ?w' = ends_map w1" "w_next ?w' = w_next w" "w_graphs ?w' = w_graphs ?w0"
    using w1 by (auto simp: slots_map_def ports_map_def ends_map_def put_node_def fun_eq_iff)
  have "Some i \<notin> set (upto_slot MAX_INTFS_PER_NODE s1)" for i
    using s1(2) by (simp add: upto_slot_def)
  with wf_shape_remove_node [OF wf1, of n]
  have wf': "wf_shape (slots_map ?w') (ports_map ?w') (ends_map ?w')" by (simp add: maps)
  have gone: "p_node q \<noteq> n" if "ports_map ?w' i = Some q" for i q
    using wf' that ports_okD(2) [of "slots_map ?w'" "ports_map ?w'" "ends_map ?w'" i q]
    by (auto simp: wf_shape_def maps)
  have "below (slots_map ?w') (ports_map ?w') (ends_map ?w') (w_next ?w')"
    by (rule below_sub [OF bl1]) (use w1(4) in \<open>auto simp: maps split: if_splits\<close>)
  moreover have "others_ok n w ?w'" using w1(5) by (simp add: others_ok_def maps)
  ultimately show ?thesis using r wf' gone maps by (auto simp: wf_topo_def)
qed

section \<open>Destroying a graph\<close>

lemma destroy_nodes_wf:
  assumes "wf_topo w" and "distinct ns"
    and "\<And>n. n \<in> set ns \<Longrightarrow> \<exists>sl. slots_map w n = Some sl \<and> taps_last (ports_map w) sl"
  shows "\<exists>w'. destroy_nodes ns w = Inr w' \<and> wf_topo w' \<and>
    (\<forall>n. n \<in> set ns \<or> slots_map w n = None \<longrightarrow> slots_map w' n = None)"
  using assms
proof (induction ns arbitrary: w)
  case (Cons n ns)
  from Cons.prems(3) [of n] obtain sl where sl: "slots_map w n = Some sl" "taps_last (ports_map w) sl" by auto
  from destroy_node_wf [OF Cons.prems(1) sl] obtain w1 where w1: "destroy_node n w = Inr w1" "wf_topo w1"
    "slots_map w1 n = None" "others_ok n w w1" by blast
  have "\<exists>sl. slots_map w1 m = Some sl \<and> taps_last (ports_map w1) sl" if "m \<in> set ns" for m
  proof -
    from that Cons.prems(2,3) obtain sm where "m \<noteq> n" "slots_map w m = Some sm" "taps_last (ports_map w) sm"
      by auto
    with w1(4) show ?thesis by (simp add: others_ok_def)
  qed
  from Cons.IH [OF w1(2) _ this] Cons.prems(2) obtain w2 where w2: "destroy_nodes ns w1 = Inr w2" "wf_topo w2"
    "\<And>n. n \<in> set ns \<or> slots_map w1 n = None \<Longrightarrow> slots_map w2 n = None" by auto
  have "slots_map w2 m = None" if m: "m \<in> set (n # ns) \<or> slots_map w m = None" for m
  proof (cases "m = n")
    case False
    with m w1(4) have "m \<in> set ns \<or> slots_map w1 m = None" by (auto simp: others_ok_def)
    then show ?thesis by (rule w2(3))
  qed (simp add: w1(3) w2(3))
  with w1(1) w2(1,2) show ?case by auto
qed simp

text \<open>
  C31: Destroying a graph of a well-formed topology, whose nodes have their TAP interfaces after
  their links, touches no freed object, frees all its nodes and leaves a well-formed topology.
\<close>

theorem destroy_graph_wf:
  assumes wf: "wf_topo w" and g: "get_graph g w = Inr gr" and d: "distinct (graph_nodes gr)"
    and n: "\<And>n. n \<in> set (graph_nodes gr) \<Longrightarrow> \<exists>sl. slots_map w n = Some sl \<and> taps_last (ports_map w) sl"
  shows "\<exists>w'. destroy_graph g w = Inr w' \<and> wf_topo w' \<and> w_graphs w' g = None \<and>
    (\<forall>n \<in> set (graph_nodes gr). w_nodes w' n = None)"
proof -
  from destroy_nodes_wf [OF wf d n] obtain w1 where w1: "destroy_nodes (graph_nodes gr) w = Inr w1" "wf_topo w1"
    "\<And>n. n \<in> set (graph_nodes gr) \<Longrightarrow> slots_map w1 n = None" by auto
  let ?w' = "w1\<lparr>w_graphs := (w_graphs w1)(g := None)\<rparr>"
  have "slots_map ?w' = slots_map w1" "ports_map ?w' = ports_map w1" "ends_map ?w' = ends_map w1"
    by (simp_all add: slots_map_def ports_map_def ends_map_def fun_eq_iff)
  with w1 g show ?thesis by (auto simp: destroy_graph_def wf_topo_def slots_map_def)
qed

section \<open>A TAP interface before a link\<close>

text \<open>
  The order matters: with a TAP interface in slot 0 and a linked one in slot 1, \<open>destroy_node\<close>
  frees the first and then, in \<open>destroy_link\<close>, reads its \<open>link\<close> field through slot 0.
\<close>

lemma clear_slot_dangling:
  assumes "slots_map w n = Some sl" and "sl ! k = Some t" and "ports_map w t = None"
  shows "clear_slot l n k w = Inl Dangling"
proof -
  from slots_node [OF assms(1)] obtain nd where "get_node n w = Inr nd" "node_intfs nd = sl" by blast
  moreover have "get_intf t w = Inl Dangling"
    using assms(3) by (simp add: intf_table.get_Inl_iff ports_map_def)
  ultimately show ?thesis using assms(2) by (simp add: clear_slot_def)
qed

lemma destroy_link_dangling:
  assumes e: "ends_map w l = Some (a, b)" and q: "ports_map w a = Some qa" "ports_map w b = Some qb"
    and n: "n = p_node qa \<or> n = p_node qb" and sl: "slots_map w n = Some sl" "sl ! 0 = Some t"
    and t: "ports_map w t = None"
    and others: "\<And>m. m \<noteq> n \<Longrightarrow> m = p_node qa \<Longrightarrow> \<exists>sm. slots_map w m = Some sm \<and> live_slots (ports_map w) sm"
  shows "destroy_link l w = Inl Dangling"
proof -
  from e obtain lk where lk: "get_link l w = Inr lk" "intf1 lk = a" "intf2 lk = b"
    by (auto simp: ends_map_def link_table.get_Inr_iff)
  from port_get_intf [OF q(1)] obtain xa where xa: "get_intf a w = Inr xa" "if_node xa = p_node qa"
    by (auto simp: port_of_def)
  from port_get_intf [OF q(2)] obtain xb where xb: "get_intf b w = Inr xb" "if_node xb = p_node qb"
    by (auto simp: port_of_def)
  have upt: "[0 ..< MAX_INTFS_PER_NODE] = 0 # [Suc 0 ..< MAX_INTFS_PER_NODE]"
    by (simp add: MAX_INTFS_PER_NODE_def upt_rec)
  have "clear_slots l (p_node qa) (p_node qb) [0 ..< MAX_INTFS_PER_NODE] w = Inl Dangling"
  proof (cases "n = p_node qa")
    case True
    then show ?thesis using clear_slot_dangling [OF sl t, of l] by (simp add: upt)
  next
    case False
    with others [of "p_node qa"] obtain sm where sm: "slots_map w (p_node qa) = Some sm" "live_slots (ports_map w) sm" by auto
    from clear_slot_shape [OF sm, of 0 l] obtain w2 where w2: "clear_slot l (p_node qa) 0 w = Inr w2"
      "slots_map w2 n = Some sl" "ports_map w2 t = None"
      using False sl(1) t by (auto simp: MAX_INTFS_PER_NODE_def)
    with False n clear_slot_dangling [OF w2(2) sl(2) w2(3), of l] show ?thesis by (simp add: upt)
  qed
  then show ?thesis using lk xa xb by (simp add: destroy_link_def)
qed

text \<open>
  C32: A node whose first slot is a TAP interface and whose second is a link cannot be destroyed:
  the freed interface stays in its slot and is read again.
\<close>

lemma destroy_node_tap_first:
  assumes wf: "wf_topo w" and sl: "slots_map w n = Some sl"
    and t: "sl ! 0 = Some t" "ports_map w t = Some qt" "p_link qt = None"
    and i: "sl ! 1 = Some i" "ports_map w i = Some q" "p_link q = Some l"
  shows "destroy_node n w = Inl Dangling"
proof -
  let ?w0 = "unlink_node n w"
  let ?s = "slots_map w" and ?p = "ports_map w" and ?e = "ends_map w"
  have w0: "slots_map ?w0 = ?s" "ports_map ?w0 = ?p" "ends_map ?w0 = ?e" "w_next ?w0 = w_next w"
    by (simp_all add: unlink_node_def slots_map_def ports_map_def ends_map_def fun_eq_iff)
  have wf': "wf_shape ?s ?p ?e" and sp: "slots_ok ?s ?p" "ports_ok ?s ?p ?e" "links_ok ?p ?e"
    using wf by (simp_all add: wf_topo_def wf_shape_def)
  have len: "length sl = MAX_INTFS_PER_NODE" using slots_okD(1) [OF sp(1) sl] .
  have qi: "p_node q = n"
    using slots_okD(2) [OF sp(1) sl, of i] i nth_mem [of 1 sl] len by (auto simp: MAX_INTFS_PER_NODE_def)
  from slots_node [of ?w0 n sl] sl w0 obtain nd0 where nd0: "get_node n ?w0 = Inr nd0" "node_intfs nd0 = sl" by auto
  from port_get_intf [of ?w0 t qt] t w0 obtain xt where xt: "get_intf t ?w0 = Inr xt" "if_link xt = None"
    by (auto simp: port_of_def)
  from destroy_interface_tuntap [of ?w0 t qt] t w0 ports_okD(1) [OF sp(2) t(2)] obtain w1
    where w1: "destroy_interface t ?w0 = Inr w1" "slots_map w1 = ?s" "ends_map w1 = ?e"
      "ports_map w1 = ?p |` (- {t})" by auto
  from slots_node [of w1 n sl] sl w1 obtain nd1 where nd1: "get_node n w1 = Inr nd1" "node_intfs nd1 = sl" by auto
  from ports_okD(3) [OF sp(2) i(2,3)] obtain a b where ab: "?e l = Some (a, b)" "i = a \<or> i = b" by blast
  from links_okD(2,3) [OF sp(3) ab(1)] obtain qa qb where qab: "?p a = Some qa" "p_link qa = Some l"
    "?p b = Some qb" "p_link qb = Some l" by blast
  have "i \<noteq> t" "a \<noteq> t" "b \<noteq> t" using t i qab by auto
  then have p1: "ports_map w1 i = Some q" "ports_map w1 a = Some qa" "ports_map w1 b = Some qb" "ports_map w1 t = None"
    using i qab w1 by (simp_all add: restrict_map_def)
  from port_get_intf [OF p1(1)] i obtain xi where xi: "get_intf i w1 = Inr xi" "if_link xi = Some l"
    by (auto simp: port_of_def)
  have "destroy_link l w1 = Inl Dangling"
  proof (rule destroy_link_dangling [OF _ p1(2,3) _ _ t(1) p1(4)])
    show "n = p_node qa \<or> n = p_node qb" using ab(2) qab i(2) qi by auto
    show "\<exists>sm. slots_map w1 m = Some sm \<and> live_slots (ports_map w1) sm" if "m \<noteq> n" "m = p_node qa" for m
    proof -
      from ports_okD(2) [OF sp(2) qab(1)] that obtain sm where sm: "?s m = Some sm" by auto
      have "Some t \<notin> set sm"
        using slots_okD(2) [OF sp(1) sm, of t] slots_okD(2) [OF sp(1) sl, of t] t that(1) nth_mem [of 0 sl] len
        by (auto simp: MAX_INTFS_PER_NODE_def)
      with wf_live [OF wf' sm] have "live_slots (ports_map w1) sm"
        by (auto simp: live_slots_def w1 restrict_map_def)
      with sm show ?thesis by (simp add: w1)
    qed
  qed (use w1 ab sl in auto)
  then have "destroy_slots n [0 ..< MAX_INTFS_PER_NODE] ?w0 = Inl Dangling"
    using nd0 xt w1(1) nd1 xi t(1) i(1) by (simp add: MAX_INTFS_PER_NODE_def upt_rec)
  moreover from slots_node [OF sl] obtain nd where "get_node n w = Inr nd" by blast
  ultimately show ?thesis by (simp add: destroy_node_def)
qed

end
