(* ===== verification/Construction.thy ===== *)
theory Construction
  imports Teardown
begin

text \<open>
  The topologies a program can build: from the initial state by creating graphs and nodes,
  inserting links and TAP interfaces, and destroying links and nodes, in any order.  All of them
  are well formed.
\<close>

section \<open>Creation\<close>

lemma wf_init_world: "wf_topo init_world"
  by (simp add: wf_topo_def wf_shape_def slots_ok_def ports_ok_def links_ok_def below_def slots_map_def ports_map_def
      ends_map_def init_world_def)

lemma below_mono: "below s p e m \<Longrightarrow> m \<le> m' \<Longrightarrow> below s p e m'"
  unfolding below_def by (metis order.strict_trans2)

lemma wf_create_graph:
  assumes "wf_topo w"
  shows "wf_topo (snd (create_new_graph name w))"
proof -
  let ?w = "snd (create_new_graph name w)"
  have "slots_map ?w = slots_map w" "ports_map ?w = ports_map w" "ends_map ?w = ends_map w" "w_next ?w = Suc (w_next w)"
    by (simp_all add: create_new_graph_def put_graph_def slots_map_def ports_map_def ends_map_def fun_eq_iff)
  then show ?thesis using assms by (simp add: wf_topo_def below_mono [of _ _ _ "w_next w"])
qed

lemma wf_create_node:
  assumes wf: "wf_topo w" and r: "create_graph_node g name w = Inr (n, w')"
  shows "wf_topo w' \<and> slots_map w' n = Some (replicate MAX_INTFS_PER_NODE None)"
proof -
  have n: "n = w_next w" and maps: "ports_map w' = ports_map w" "ends_map w' = ends_map w" "w_next w' = Suc n"
    "slots_map w' = (slots_map w)(n \<mapsto> replicate MAX_INTFS_PER_NODE None)"
    using r by (auto simp: create_graph_node_def Let_def res_simps put_graph_def put_node_def slots_map_def
        ports_map_def ends_map_def init_node_nw_prop_def zero_node_def fun_eq_iff)
  have "slots_map w n = None" using wf below_fresh [of _ _ _ "w_next w" n] n by (auto simp: wf_topo_def)
  moreover have "set (replicate MAX_INTFS_PER_NODE None :: intf_id option list) \<subseteq> {None}" by auto
  ultimately have "wf_shape (slots_map w') (ports_map w') (ends_map w')"
    using wf slots_ok_add_node [of "slots_map w" "ports_map w" "replicate MAX_INTFS_PER_NODE None" n]
      ports_ok_add_node [of "slots_map w" "ports_map w" "ends_map w" n]
    by (auto simp: wf_topo_def wf_shape_def maps)
  moreover have "below (slots_map w') (ports_map w') (ends_map w') (w_next w')"
    using wf n by (auto simp: wf_topo_def below_def maps less_Suc_eq)
  ultimately show ?thesis by (simp add: wf_topo_def maps)
qed

lemma wf_destroy_link:
  assumes wf: "wf_topo w" and r: "destroy_link l w = Inr w'"
  shows "wf_topo w'"
proof -
  from r obtain a b where l: "ends_map w l = Some (a, b)"
    by (auto simp: destroy_link_def res_simps get_link_def ends_map_def)
  have s: "wf_shape (slots_map w) (ports_map w) (ends_map w)" using wf by (simp add: wf_topo_def)
  from destroy_link_shape [OF s l] r have g: "link_gone l a b w w'" by simp
  have "below (slots_map w') (ports_map w') (ends_map w') (w_next w')"
    using wf g by (auto simp: wf_topo_def link_gone_def below_def restrict_map_def split: if_splits)
  with link_gone_wf [OF s l g] show ?thesis by (simp add: wf_topo_def)
qed

section \<open>Sequences of operations\<close>

inductive built :: "os \<Rightarrow> world \<Rightarrow> bool" for os where
  init: "built os init_world"
| graph: "built os w \<Longrightarrow> built os (snd (create_new_graph name w))"
| node: "built os w \<Longrightarrow> create_graph_node g name w = Inr (n, w') \<Longrightarrow> built os w'"
| link: "built os w \<Longrightarrow> insert_link_between_two_nodes os n1 n2 f1 f2 c w = Inr (l, w') \<Longrightarrow> built os w'"
| tuntap: "built os w \<Longrightarrow> insert_tuntap_interface os n name w = Inr (i, w') \<Longrightarrow> built os w'"
| unlink: "built os w \<Longrightarrow> destroy_link l w = Inr w' \<Longrightarrow> built os w'"
| remove: "built os w \<Longrightarrow> slots_map w n = Some sl \<Longrightarrow> taps_last (ports_map w) sl \<Longrightarrow>
    destroy_node n w = Inr w' \<Longrightarrow> built os w'"

text \<open>
  C29: Every state built by creating graphs, nodes, links and TAP interfaces and destroying links,
  and nodes whose TAP interfaces come after their links, is a well-formed topology: slots,
  interfaces, nodes and links refer to each other consistently.
\<close>

lemma built_wf: "built os w \<Longrightarrow> wf_topo w"
proof (induction rule: built.induct)
  case (remove w n sl w')
  from destroy_node_wf [OF remove.IH remove.hyps(2,3)] remove.hyps(4) show ?case by auto
qed (auto intro: wf_init_world wf_create_graph wf_destroy_link dest: wf_create_node wf_insert_link wf_insert_tuntap)

text \<open>
  What the invariant gives: in a topology that was built, the far end of a linked interface is
  the other interface of the link, which is live and leads back.
\<close>

lemma wf_neighbour:
  assumes wf: "wf_topo w" and x: "get_intf i w = Inr x" and l: "if_link x = Some l"
  shows "\<exists>j y. get_nbr_if i w = Inr (Some j) \<and> j \<noteq> i \<and> get_intf j w = Inr y \<and> if_link y = Some l \<and>
    get_nbr_if j w = Inr (Some i)"
proof -
  have s: "ports_ok (slots_map w) (ports_map w) (ends_map w)" "links_ok (ports_map w) (ends_map w)"
    using wf by (auto simp: wf_topo_def wf_shape_def)
  have "ports_map w i = Some (port_of x)" using x by (rule get_intf_port)
  from ports_okD(3) [OF s(1) this] l obtain a b where e: "ends_map w l = Some (a, b)" "i = a \<or> i = b"
    by (auto simp: port_of_def)
  then obtain lk where lk: "get_link l w = Inr lk" "intf1 lk = a" "intf2 lk = b"
    by (auto simp: ends_map_def get_link_def)
  note ends = links_okD [OF s(2) e(1)]
  define j where "j = (if i = a then b else a)"
  from ends(2,3) obtain qa qb where q: "ports_map w a = Some qa" "p_link qa = Some l" "ports_map w b = Some qb" "p_link qb = Some l"
    by blast
  then have "\<exists>y. get_intf j w = Inr y \<and> if_link y = Some l"
    using port_get_intf [of w a qa] port_get_intf [of w b qb] by (auto simp: j_def port_of_def)
  then obtain y where y: "get_intf j w = Inr y" "if_link y = Some l" by blast
  have "get_nbr_if i w = Inr (Some j)" "get_nbr_if j w = Inr (Some i)" "j \<noteq> i"
    using x y l lk e(2) ends(1) by (auto simp: get_nbr_if_def j_def)
  with y show ?thesis by blast
qed

end
