(* ===== verification/Ip_Header.thy ===== *)
theory Ip_Header
  imports State
begin

text \<open>
  The IP header of \<open>ip.c\<close>: the initial header, and computing, storing and checking the header
  checksum in a socket buffer.
\<close>

section \<open>The IP header\<close>

definition IP_PROTO_ICMP :: u8 where "IP_PROTO_ICMP = 1"
definition IP_PROTO_TCP :: u8 where "IP_PROTO_TCP = 6"
definition IP_PROTO_UDP :: u8 where "IP_PROTO_UDP = 17"

text \<open>\<open>memset\<close> to zero, then version, header length and time to live.\<close>

definition init_ip_hdr :: "ip_hdr" where
  "init_ip_hdr = (dec_ip (replicate IP_HDR_SIZE 0))\<lparr>ip_ver := 4, ip_hlen := 5, ip_ttl := 64\<rparr>"

definition calc_ip_hcksum :: "nat \<Rightarrow> skb \<Rightarrow> u16 res" where
  "calc_ip_hcksum off s =
    bindE (rd_hdr IP_HDR_SIZE dec_ip off s) (\<lambda>hdr.
    bindE (rd_bytes off (unat (ip_hlen hdr) * 4) s) (\<lambda>bs. Inr (calc_checksum_16 bs)))"

definition fill_ip_hcksum :: "nat \<Rightarrow> skb \<Rightarrow> skb res" where
  "fill_ip_hcksum off s =
    bindE (calc_ip_hcksum off s) (\<lambda>c.
    bindE (rd_hdr IP_HDR_SIZE dec_ip off s) (\<lambda>hdr.
      wr_hdr enc_ip off (hdr\<lparr>ip_hcksum := HTONS c\<rparr>) s))"

definition check_ip_hcksum :: "nat \<Rightarrow> skb \<Rightarrow> bool res" where
  "check_ip_hcksum off s = bindE (calc_ip_hcksum off s) (\<lambda>c. Inr (c = 0))"

text \<open>The header around its checksum field.\<close>

definition ip_pre :: "ip_hdr \<Rightarrow> u8 list" where
  "ip_pre h = take 10 (enc_ip h)"

definition ip_post :: "ip_hdr \<Rightarrow> u8 list" where
  "ip_post h = drop 12 (enc_ip h)"

lemma enc_ip_split:
  "enc_ip h = ip_pre h @ bytes16 (ip_hcksum h) @ ip_post h"
  "ip_pre (h\<lparr>ip_hcksum := c\<rparr>) = ip_pre h" "ip_post (h\<lparr>ip_hcksum := c\<rparr>) = ip_post h"
  "length (ip_pre h) = 10" "length (ip_post h) = 8"
  by (simp_all add: ip_pre_def ip_post_def enc_ip_def bytes_defs)

lemma unat_u4_5: "unat (5 :: u4) = 5"
  by simp

lemma calc_ip_hcksum_eq:
  assumes "rd_hdr IP_HDR_SIZE dec_ip off s = Inr h" and "ip_hlen h = 5"
  shows "calc_ip_hcksum off s = Inr (calc_checksum_16 (enc_ip h))"
proof -
  have r: "off + 20 \<le> length (buf s)" "h = dec_ip (slice off 20 (buf s))"
    using assms(1) by (simp_all add: ip.rd_Inr_iff) (simp_all add: IP_HDR_SIZE_def)
  have "enc_ip h = slice off 20 (buf s)"
    using ip.enc_dec [of "slice off 20 (buf s)"] r by (simp add: IP_HDR_SIZE_def)
  then show ?thesis
    using assms r(1) by (simp add: calc_ip_hcksum_def rd_bytes_def)
qed

lemma fill_ip_hcksum_eq:
  assumes "rd_hdr IP_HDR_SIZE dec_ip off s = Inr h" and "ip_hlen h = 5"
  shows "fill_ip_hcksum off s = wr_hdr enc_ip off (h\<lparr>ip_hcksum := HTONS (calc_checksum_16 (enc_ip h))\<rparr>) s"
  using assms calc_ip_hcksum_eq [OF assms] by (simp add: fill_ip_hcksum_def)

text \<open>
  The bytes the checksum is computed over, four times the length field from the start of the
  header: with a length of three or more they cover the checksum, with a smaller one they do not.
\<close>

lemma calc_ip_hcksum_bytes:
  assumes "rd_hdr IP_HDR_SIZE dec_ip off s = Inr h"
  shows "drop off (buf s) = enc_ip h @ drop (off + 20) (buf s)"
    and "calc_ip_hcksum off s = (if off + unat (ip_hlen h) * 4 \<le> length (buf s)
      then Inr (calc_checksum_16 (take (unat (ip_hlen h) * 4) (enc_ip h @ drop (off + 20) (buf s)))) else Inl Out_of_bounds)"
proof -
  have r: "off + 20 \<le> length (buf s)" "h = dec_ip (slice off 20 (buf s))"
    using assms by (simp_all add: ip.rd_Inr_iff) (simp_all add: IP_HDR_SIZE_def)
  have "enc_ip h = take 20 (drop off (buf s))"
    using ip.enc_dec [of "slice off 20 (buf s)"] r by (simp add: IP_HDR_SIZE_def slice_def)
  then show d: "drop off (buf s) = enc_ip h @ drop (off + 20) (buf s)"
    using append_take_drop_id [of 20 "drop off (buf s)"] by (simp add: add.commute)
  show "calc_ip_hcksum off s = (if off + unat (ip_hlen h) * 4 \<le> length (buf s)
      then Inr (calc_checksum_16 (take (unat (ip_hlen h) * 4) (enc_ip h @ drop (off + 20) (buf s)))) else Inl Out_of_bounds)"
    using assms d by (simp add: calc_ip_hcksum_def rd_bytes_def guardE_def slice_def)
qed

lemma header_bytes:
  assumes "12 \<le> n"
  shows "take n (enc_ip h @ r) = ip_pre h @ bytes16 (ip_hcksum h) @ take (n - 12) (ip_post h @ r)"
proof -
  have "enc_ip h @ r = (ip_pre h @ bytes16 (ip_hcksum h)) @ ip_post h @ r" by (simp add: enc_ip_split(1) [of h])
  moreover have "length (ip_pre h @ bytes16 (ip_hcksum h)) = 12" by (simp add: enc_ip_split(4) bytes_defs)
  ultimately show ?thesis using assms by (simp del: append_assoc)
qed

lemma ip_pre_sum: "ip_hlen h \<noteq> 0 \<Longrightarrow> be_sum (ip_pre h) \<noteq> 0"
proof -
  assume l: "ip_hlen h \<noteq> 0"
  have "nibbles (ip_hlen h) (ip_ver h) \<noteq> 0"
  proof
    assume "nibbles (ip_hlen h) (ip_ver h) = 0"
    then have "ip_hlen h = ucast (0 :: u8)" using nibbles_parts(1) [of "ip_hlen h" "ip_ver h"] by simp
    with l show False by simp
  qed
  then show ?thesis by (simp add: ip_pre_def enc_ip_def bytes_defs unat_eq_zero)
qed

text \<open>
  What a checksum fill achieves depends on what the field held: the check succeeds exactly when
  it held a zero of ones' complement arithmetic.  A length field that leaves the checksum out of
  the sum makes filling irrelevant to the check.
\<close>

lemma fill_then_check:
  assumes rd: "rd_hdr IP_HDR_SIZE dec_ip off s = Inr h" and fill: "fill_ip_hcksum off s = Inr t"
  shows "check_ip_hcksum off t =
    (if 3 \<le> unat (ip_hlen h) then Inr (unat (HTONS (ip_hcksum h)) mod 65535 = 0) else check_ip_hcksum off s)"
proof -
  define n z where "n = unat (ip_hlen h) * 4" and "z = drop (off + 20) (buf s)"
  note old = calc_ip_hcksum_bytes [OF rd, folded n_def z_def]
  from fill old(2) have bound: "off + n \<le> length (buf s)" by (auto simp: fill_ip_hcksum_def split: if_splits)
  define c where "c = calc_checksum_16 (take n (enc_ip h @ z))"
  define h' where "h' = h\<lparr>ip_hcksum := HTONS c\<rparr>"
  have wr: "wr_hdr enc_ip off h' s = Inr t"
    using fill rd old(2) bound by (simp add: fill_ip_hcksum_def h'_def c_def)
  have rd': "rd_hdr IP_HDR_SIZE dec_ip off t = Inr h'" by (rule ip.rd_wr [OF _ wr]) simp
  have r: "off + 20 \<le> length (buf s)" using rd by (simp add: ip.rd_Inr_iff) (simp add: IP_HDR_SIZE_def)
  have l: "length (enc_ip h') = 20" using ip.length_enc [of h'] by (simp add: IP_HDR_SIZE_def)
  have t: "drop (off + 20) (buf t) = z" "length (buf t) = length (buf s)" "unat (ip_hlen h') * 4 = n"
    using wr r l by (auto simp: wr_hdr_def wr_bytes_def write_at_def z_def h'_def n_def)
  have check: "check_ip_hcksum off t = Inr (calc_checksum_16 (take n (enc_ip h' @ z)) = 0)"
    using calc_ip_hcksum_bytes(2) [OF rd'] t bound by (simp add: check_ip_hcksum_def)
  show ?thesis
  proof (cases "3 \<le> unat (ip_hlen h)")
    case True
    then have n: "12 \<le> n" by (simp add: n_def)
    have small: "n \<le> 60" using unsigned_less [of "ip_hlen h", where 'a = nat] by (simp add: n_def)
    let ?post = "take (n - 12) (ip_post h @ z)"
    have e: "take n (enc_ip h' @ z) = ip_pre h @ bytes16 (HTONS c) @ ?post"
      using header_bytes [OF n, of h' z] by (simp add: h'_def enc_ip_split(2,3))
    have c: "c = calc_checksum_16 (ip_pre h @ bytes16 (ip_hcksum h) @ ?post)"
      unfolding c_def by (simp only: header_bytes [OF n])
    have "ip_hlen h \<noteq> 0" using True by auto
    note ip_pre_sum [OF this]
    moreover have "be_sum (bytes16 (ip_hcksum h)) = unat (HTONS (ip_hcksum h))"
      using be_sum_bytes16 [of "HTONS (ip_hcksum h)"] by simp
    moreover have "calc_checksum_16 (take n (enc_ip h' @ z)) = 0 \<longleftrightarrow>
      be_sum (bytes16 (ip_hcksum h)) mod 65535 = 0 \<and>
        (be_sum (ip_pre h) + be_sum ?post \<noteq> 0 \<or> be_sum (bytes16 (ip_hcksum h)) = 0)"
      unfolding e by (rule checksum_fill [OF _ _ _ c]) (use small in \<open>simp_all add: enc_ip_split(4) bytes_defs\<close>)
    ultimately show ?thesis using check True by simp
  next
    case False
    then have "n \<le> 8" by (simp add: n_def)
    then have "take n (enc_ip h' @ z) = take n (enc_ip h @ z)"
      by (simp add: enc_ip_split(1) [of h] enc_ip_split(1) [of h'] enc_ip_split(4)) (simp add: h'_def enc_ip_split(2))
    then show ?thesis using check False old(2) bound by (simp add: check_ip_hcksum_def)
  qed
qed

end
