(* ===== verification/Ip_Output.thy ===== *)
theory Ip_Output
  imports Ip_Header Net Arp
begin

text \<open>
  The outgoing and forwarding side of \<open>ip.c\<close>: \<open>ip_output\<close>, \<open>ip_postroute\<close>, \<open>ip_forward\<close>.
  A packet for an address of the node itself goes back up through \<open>ip_input\<close>, which is the
  parameter \<open>deliver\<close> here and is tied in theory Stack.
\<close>

type_synonym deliver = "skb_id \<Rightarrow> world \<Rightarrow> bool step"

definition set_ip_forward :: "bool \<Rightarrow> world \<Rightarrow> world" where
  "set_ip_forward val w = w\<lparr>ip_forward_enable := val\<rparr>"

text \<open>The address to resolve: the destination on a local network, the next hop otherwise.\<close>

definition arp_target :: "rt_entry \<Rightarrow> ip_addr \<Rightarrow> ip_addr" where
  "arp_target rt dst = (if rt_next rt = 0 then dst else rt_next rt)"

text \<open>The last part of \<open>ip_postroute\<close>: resolve the target, then queue or send.\<close>

definition ip_finish :: "os \<Rightarrow> node_id \<Rightarrow> intf_id \<Rightarrow> ip_addr \<Rightarrow> skb_id \<Rightarrow> world \<Rightarrow> bool step" where
  "ip_finish os n i target p w =
    bindE (get_node n w) (\<lambda>nd.
      let (e, w) = (case arp_table_lookup (arp_table nd) target of
             Some e \<Rightarrow> (e, w)
           | None \<Rightarrow> let e = init_arp_entry target i
                     in (e, put_node n (nd\<lparr>arp_table := snd (arp_table_entry_add (arp_table nd) e)\<rparr>) w))
      in if \<not> arp_resolved e
         then bindE (set_arp_entry n target (\<lambda>e. e\<lparr>arp_pending_pkts := p # arp_pending_pkts e\<rparr>) w) (\<lambda>w.
              bindE (send_arp_broadcast_request os i target w) (\<lambda>w. Inr (True, w)))
         else ethernet_output os i (arp_mac e) ETH_PROTO_IP p w)"

definition ip_postroute :: "os \<Rightarrow> deliver \<Rightarrow> node_id \<Rightarrow> skb_id \<Rightarrow> world \<Rightarrow> bool step" where
  "ip_postroute os deliver n p w =
    bindE (get_skb p w) (\<lambda>s.
    bindE (rd_hdr IP_HDR_SIZE dec_ip (data_off s) s) (\<lambda>hdr.
    bindE (get_node n w) (\<lambda>nd.
    bindE (rt_lookup_lpm (rt_table nd) (dst_ip hdr)) (\<lambda>r.
      case r of
        None \<Rightarrow> Inr (False, w)
      | Some rt \<Rightarrow>
          if skb_intf s \<noteq> None \<and> skb_intf s \<noteq> Some (rt_intf rt) then Inr (False, w)
          else
            bindE (get_intf (rt_intf rt) w) (\<lambda>x.
            bindE (wr_hdr enc_ip (data_off s) (hdr\<lparr>src_ip := if_ip x\<rparr>) (s\<lparr>skb_intf := Some (rt_intf rt)\<rparr>)) (\<lambda>s.
            bindE (fill_ip_hcksum (data_off s) s) (\<lambda>s.
              let w = put_skb p s w
              in bindE (is_ip_local n (dst_ip hdr) w) (\<lambda>local.
                   if local then deliver p w
                   else ip_finish os n (rt_intf rt) (arp_target rt (dst_ip hdr)) p w))))))))"

definition ip_output :: "os \<Rightarrow> deliver \<Rightarrow> node_id \<Rightarrow> ip_addr \<Rightarrow> u8 \<Rightarrow> skb_id \<Rightarrow> world \<Rightarrow> bool step" where
  "ip_output os deliver n ip prot p w =
    bindE (get_skb p w) (\<lambda>s.
    bindE (skb_push IP_HDR_SIZE s) (\<lambda>s.
    bindE (wr_hdr enc_ip (data_off s)
             (init_ip_hdr\<lparr>dst_ip := ip, ip_proto := prot,
                ip_total_len := ucast (HTONS (of_nat (skb_len s) :: u64))\<rparr>) s) (\<lambda>s.
      ip_postroute os deliver n p (put_skb p s w))))"

definition ip_forward :: "os \<Rightarrow> deliver \<Rightarrow> skb_id \<Rightarrow> world \<Rightarrow> bool step" where
  "ip_forward os deliver p w =
    (if \<not> ip_forward_enable w then Inr (False, w)
     else
       bindE (get_skb p w) (\<lambda>s.
       bindE (rd_hdr IP_HDR_SIZE dec_ip (data_off s) s) (\<lambda>hdr.
         if ip_ttl hdr = 0 then Inr (False, w)
         else
           bindE (wr_hdr enc_ip (data_off s) (hdr\<lparr>ip_ttl := ip_ttl hdr - 1\<rparr>) s) (\<lambda>s.
             if ip_ttl hdr - 1 = 0 then Inr (False, put_skb p s w)
             else
               bindE (of_option Null_deref (skb_intf s)) (\<lambda>i.
               bindE (get_intf i w) (\<lambda>x.
                 ip_postroute os deliver (if_node x) p (put_skb p (s\<lparr>skb_intf := None\<rparr>) w)))))))"

end
