(* ===== verification/Icmp.thy ===== *)
theory Icmp
  imports Ip_Output
begin

text \<open>ICMP echo, \<open>icmp.c\<close>: sending a message, answering requests, \<open>ping\<close>.\<close>

definition ICMP_ECHO_REQUEST_TYPE :: u8 where "ICMP_ECHO_REQUEST_TYPE = 8"
definition ICMP_ECHO_REQUEST_CODE :: u8 where "ICMP_ECHO_REQUEST_CODE = 0"
definition ICMP_ECHO_REPLY_TYPE :: u8 where "ICMP_ECHO_REPLY_TYPE = 0"
definition ICMP_ECHO_REPLY_CODE :: u8 where "ICMP_ECHO_REPLY_CODE = 0"

definition calc_icmp_cksum :: "nat \<Rightarrow> nat \<Rightarrow> skb \<Rightarrow> u16 res" where
  "calc_icmp_cksum off n s = bindE (rd_bytes off n s) (\<lambda>bs. Inr (calc_checksum_16 bs))"

definition fill_icmp_cksum :: "nat \<Rightarrow> nat \<Rightarrow> skb \<Rightarrow> skb res" where
  "fill_icmp_cksum off n s =
    bindE (calc_icmp_cksum off n s) (\<lambda>c.
    bindE (rd_hdr ICMP_HDR_SIZE dec_icmp off s) (\<lambda>hdr.
      wr_hdr enc_icmp off (hdr\<lparr>icmp_cksum := HTONS c\<rparr>) s))"

definition check_icmp_cksum :: "nat \<Rightarrow> nat \<Rightarrow> skb \<Rightarrow> bool res" where
  "check_icmp_cksum off n s = bindE (calc_icmp_cksum off n s) (\<lambda>c. Inr (c = 0))"

text \<open>The buffer \<open>icmp_out\<close> builds before it hands it to \<open>ip_output\<close>.\<close>

definition icmp_skb :: "u8 \<Rightarrow> u8 \<Rightarrow> u8 list \<Rightarrow> skb res" where
  "icmp_skb ty code bytes =
    bindE (skb_reserve BUFF_HEADROOM
             (alloc_skb (BUFF_HEADROOM + BUFF_TAILROOM + ICMP_HDR_SIZE + length bytes))) (\<lambda>s.
      let off = tail_off s
      in bindE (skb_put (ICMP_HDR_SIZE + length bytes) s) (\<lambda>s.
         bindE (rd_hdr ICMP_HDR_SIZE dec_icmp off s) (\<lambda>hdr.
         bindE (wr_hdr enc_icmp off (hdr\<lparr>icmp_type := ty, icmp_code := code\<rparr>) s) (\<lambda>s.
         bindE (if bytes \<noteq> [] then wr_bytes (off + ICMP_HDR_SIZE) bytes s else Inr s) (\<lambda>s.
           fill_icmp_cksum off (skb_len s) s)))))"

definition icmp_out :: "os \<Rightarrow> deliver \<Rightarrow> node_id \<Rightarrow> ip_addr \<Rightarrow> u8 \<Rightarrow> u8 \<Rightarrow> u8 list \<Rightarrow> world \<Rightarrow> bool step" where
  "icmp_out os deliver n ip ty code bytes w =
    bindE (icmp_skb ty code bytes) (\<lambda>s.
      let (p, w) = new_skb s w
      in bindE (ip_output os deliver n ip IP_PROTO_ICMP p w) (\<lambda>(result, w).
         bindE (if \<not> result then free_skb p w else Inr w) (\<lambda>w. Inr (result, w))))"

definition ping :: "os \<Rightarrow> deliver \<Rightarrow> node_id \<Rightarrow> string \<Rightarrow> world \<Rightarrow> bool step" where
  "ping os deliver n s w =
    icmp_out os deliver n (convert_ip_from_str_to_int s) ICMP_ECHO_REQUEST_TYPE ICMP_ECHO_REQUEST_CODE [] w"

text \<open>
  Both echo branches print the names of the interface and its node; the answer to a request
  goes to the source address behind \<open>skb->ip_hdr\<close>.
\<close>

definition icmp_input :: "os \<Rightarrow> deliver \<Rightarrow> skb_id \<Rightarrow> world \<Rightarrow> bool step" where
  "icmp_input os deliver p w =
    bindE (get_skb p w) (\<lambda>s.
      if skb_len s < ICMP_HDR_SIZE then Inr (False, w)
      else
        bindE (rd_hdr ICMP_HDR_SIZE dec_icmp (data_off s) s) (\<lambda>hdr.
        bindE (if icmp_type hdr = ICMP_ECHO_REQUEST_TYPE \<and> icmp_code hdr = ICMP_ECHO_REQUEST_CODE
               then bindE (of_option Null_deref (skb_intf s)) (\<lambda>i.
                    bindE (get_intf i w) (\<lambda>x.
                    bindE (get_node (if_node x) w) (\<lambda>_.
                    bindE (of_option Null_deref (ip_hdr_off s)) (\<lambda>ipo.
                    bindE (rd_hdr IP_HDR_SIZE dec_ip ipo s) (\<lambda>iph.
                    bindE (rd_bytes (data_off s + ICMP_HDR_SIZE) (skb_len s - ICMP_HDR_SIZE) s) (\<lambda>rest.
                    bindE (icmp_out os deliver (if_node x) (src_ip iph) ICMP_ECHO_REPLY_TYPE
                             ICMP_ECHO_REQUEST_CODE rest w) (\<lambda>(_, w). Inr w)))))))
               else if icmp_type hdr = ICMP_ECHO_REPLY_TYPE \<and> icmp_code hdr = ICMP_ECHO_REPLY_CODE
               then bindE (of_option Null_deref (skb_intf s)) (\<lambda>i.
                    bindE (get_intf i w) (\<lambda>x.
                    bindE (get_node (if_node x) w) (\<lambda>_. Inr w)))
               else Inr w) (\<lambda>w.
        bindE (free_skb p w) (\<lambda>w. Inr (True, w)))))"

end
