(* ===== verification/Udp.thy ===== *)
theory Udp
  imports Ip_Output
begin

text \<open>UDP, \<open>udp.c\<close>: sockets, binding, received datagrams and the send path.\<close>

definition MAX_UDP_PAYLOAD :: nat where "MAX_UDP_PAYLOAD = 1446"

section \<open>Sockets\<close>

definition udp_sock_of_fd :: "int \<Rightarrow> world \<Rightarrow> sock_id option" where
  "udp_sock_of_fd fd w =
    (if fd < 0 \<or> fd \<ge> int MAX_UDP_SOCKS then None else udp_fd_to_sock w ! nat fd)"

definition is_good_udp_sock :: "int \<Rightarrow> world \<Rightarrow> bool" where
  "is_good_udp_sock fd w \<longleftrightarrow> udp_sock_of_fd fd w \<noteq> None"

definition udp_socket :: "node_id \<Rightarrow> world \<Rightarrow> int \<times> world" where
  "udp_socket n w =
    (case first_free (udp_fd_to_sock w) 0 of
       None \<Rightarrow> (- 1, w)
     | Some k \<Rightarrow>
         let u = w_next w;
             w = put_udp_sock u \<lparr>us_bound = False, us_node = n, us_intf = None, us_local_port = 0,
                   us_rx_skb = []\<rparr> w
         in (int k, w\<lparr>w_next := Suc u, udp_fd_to_sock := (udp_fd_to_sock w)[k := Some u]\<rparr>))"

definition udp_close :: "int \<Rightarrow> world \<Rightarrow> int step" where
  "udp_close fd w =
    (case udp_sock_of_fd fd w of
       None \<Rightarrow> Inr (- 1, w)
     | Some u \<Rightarrow>
         let w = w\<lparr>udp_fd_to_sock := (udp_fd_to_sock w)[nat fd := None]\<rparr>
         in bindE (get_udp_sock u w) (\<lambda>sk.
            bindE (if us_bound sk
                   then bindE (of_option Null_deref (us_intf sk)) (\<lambda>i.
                        bindE (get_intf i w) (\<lambda>x.
                          Inr (put_intf i (x\<lparr>udp_socks_manager := remove1 u (udp_socks_manager x)\<rparr>) w)))
                   else Inr w) (\<lambda>w.
              Inr (0, w\<lparr>w_udp_socks := (w_udp_socks w)(u := None)\<rparr>))))"

definition udp_bind :: "int \<Rightarrow> ip_addr \<Rightarrow> u16 \<Rightarrow> world \<Rightarrow> int step" where
  "udp_bind fd ip port w =
    (case udp_sock_of_fd fd w of
       None \<Rightarrow> Inr (- 1, w)
     | Some u \<Rightarrow>
         bindE (get_udp_sock u w) (\<lambda>sk.
           if us_bound sk then Inr (- 1, w)
           else bindE (get_matching_interface (us_node sk) ip w) (\<lambda>r.
                case r of
                  None \<Rightarrow> Inr (- 1, w)
                | Some i \<Rightarrow>
                    let w = put_udp_sock u (sk\<lparr>us_bound := True, us_intf := Some i, us_local_port := port\<rparr>) w
                    in bindE (get_intf i w) (\<lambda>x.
                         Inr (0, put_intf i (x\<lparr>udp_socks_manager := u # udp_socks_manager x\<rparr>) w)))))"

fun udp_socks_manager_find :: "sock_id list \<Rightarrow> u16 \<Rightarrow> world \<Rightarrow> sock_id option res" where
  "udp_socks_manager_find [] port w = Inr None"
| "udp_socks_manager_find (u # us) port w =
     bindE (get_udp_sock u w) (\<lambda>sk.
       if us_local_port sk = port then Inr (Some u) else udp_socks_manager_find us port w)"

section \<open>Receiving\<close>

definition udp_input :: "skb_id \<Rightarrow> world \<Rightarrow> bool step" where
  "udp_input p w =
    bindE (get_skb p w) (\<lambda>s.
    bindE (rd_hdr UDP_HDR_SIZE dec_udp (data_off s) s) (\<lambda>hdr.
    bindE (of_option Null_deref (skb_intf s)) (\<lambda>i.
    bindE (get_intf i w) (\<lambda>x.
    bindE (udp_socks_manager_find (udp_socks_manager x) (NTOHS (udp_dst_port hdr)) w) (\<lambda>r.
      let s = s\<lparr>udp_hdr_off := Some (data_off s)\<rparr>
      in case r of
           None \<Rightarrow> Inr (False, put_skb p s w)
         | Some u \<Rightarrow>
             bindE (skb_pull UDP_HDR_SIZE s) (\<lambda>s.
             bindE (get_udp_sock u w) (\<lambda>sk.
               Inr (True, put_udp_sock u (sk\<lparr>us_rx_skb := p # us_rx_skb sk\<rparr>) (put_skb p s w)))))))))"

text \<open>
  A received datagram, or \<open>-1\<close> as \<open>None\<close>; \<open>want_ip\<close> and \<open>want_port\<close> tell whether the caller
  passed the two result pointers.
\<close>

definition udp_recvfrom ::
    "int \<Rightarrow> nat \<Rightarrow> bool \<Rightarrow> bool \<Rightarrow> world \<Rightarrow> (u8 list \<times> ip_addr option \<times> u16 option) option step" where
  "udp_recvfrom fd n want_ip want_port w =
    (case udp_sock_of_fd fd w of
       None \<Rightarrow> Inr (None, w)
     | Some u \<Rightarrow>
         bindE (get_udp_sock u w) (\<lambda>sk.
           if \<not> us_bound sk then Inr (None, w)
           else if us_rx_skb sk = [] then Inr (None, w)
           else
             let p = last (us_rx_skb sk)
             in bindE (get_skb p w) (\<lambda>s.
                let final_size = min (skb_len s) n
                in bindE (rd_bytes (data_off s) final_size s) (\<lambda>bytes.
                   bindE (skb_pull final_size s) (\<lambda>s.
                   bindE (if want_ip
                          then bindE (of_option Null_deref (ip_hdr_off s)) (\<lambda>off.
                               bindE (rd_hdr IP_HDR_SIZE dec_ip off s) (\<lambda>h. Inr (Some (src_ip h))))
                          else Inr None) (\<lambda>ip.
                   bindE (if want_port
                          then bindE (of_option Null_deref (udp_hdr_off s)) (\<lambda>off.
                               bindE (rd_hdr UDP_HDR_SIZE dec_udp off s) (\<lambda>h. Inr (Some (NTOHS (udp_src_port h)))))
                          else Inr None) (\<lambda>port.
                     let w = put_skb p s w
                     in bindE (if skb_len s = 0
                               then free_skb p (put_udp_sock u (sk\<lparr>us_rx_skb := remove1 p (us_rx_skb sk)\<rparr>) w)
                               else Inr w) (\<lambda>w.
                          Inr (Some (bytes, ip, port), w)))))))))"

section \<open>Sending\<close>

text \<open>The buffer \<open>udp_out\<close> builds before it hands it to \<open>ip_output\<close>.\<close>

definition udp_skb :: "udp_sock \<Rightarrow> u8 list \<Rightarrow> u16 \<Rightarrow> skb res" where
  "udp_skb sk bytes port =
    bindE (skb_reserve BUFF_HEADROOM
             (alloc_skb (BUFF_HEADROOM + BUFF_TAILROOM + UDP_HDR_SIZE + length bytes))) (\<lambda>s.
      let off = tail_off s
      in bindE (skb_put UDP_HDR_SIZE s) (\<lambda>s.
         let boff = tail_off s
         in bindE (skb_put (length bytes) s) (\<lambda>s.
            bindE (wr_bytes boff bytes s) (\<lambda>s.
            bindE (rd_hdr UDP_HDR_SIZE dec_udp off s) (\<lambda>hdr.
            bindE (wr_hdr enc_udp off
                     (hdr\<lparr>udp_src_port := HTONS (us_local_port sk), udp_dst_port := HTONS port,
                          udp_total_len := ucast (HTONS (of_nat (skb_len s) :: u64))\<rparr>) s) (\<lambda>s.
              Inr (s\<lparr>skb_intf := us_intf sk\<rparr>)))))))"

definition udp_out :: "os \<Rightarrow> deliver \<Rightarrow> sock_id \<Rightarrow> u8 list \<Rightarrow> ip_addr \<Rightarrow> u16 \<Rightarrow> world \<Rightarrow> bool step" where
  "udp_out os deliver u bytes ip port w =
    bindE (get_udp_sock u w) (\<lambda>sk.
    bindE (udp_skb sk bytes port) (\<lambda>s.
      let (p, w) = new_skb s w
      in bindE (of_option Null_deref (us_intf sk)) (\<lambda>i.
         bindE (get_intf i w) (\<lambda>x.
           ip_output os deliver (if_node x) ip IP_PROTO_UDP p w))))"

text \<open>\<open>udp_sendto\<close> sends at most \<open>MAX_UDP_PAYLOAD\<close> bytes and returns how many.\<close>

definition udp_sendto :: "os \<Rightarrow> deliver \<Rightarrow> int \<Rightarrow> u8 list \<Rightarrow> ip_addr \<Rightarrow> u16 \<Rightarrow> world \<Rightarrow> int step" where
  "udp_sendto os deliver fd buff ip port w =
    (case udp_sock_of_fd fd w of
       None \<Rightarrow> Inr (- 1, w)
     | Some u \<Rightarrow>
         bindE (get_udp_sock u w) (\<lambda>sk.
           if \<not> us_bound sk then Inr (- 1, w)
           else
             let final_size = min (length buff) MAX_UDP_PAYLOAD
             in bindE (udp_out os deliver u (take final_size buff) ip port w) (\<lambda>(result, w).
                  if \<not> result then Inr (- 1, w) else Inr (int final_size, w))))"

end
