(* ===== verification/Tcp.thy ===== *)
theory Tcp
  imports Ip_Output
begin

text \<open>
  TCP, \<open>tcp.c\<close>: listening sockets, connections and their two states, segments in and out.  The
  state of a connection is the handler its \<open>state\<close> pointer holds.
\<close>

definition MAX_TCP_PAYLOAD :: nat where "MAX_TCP_PAYLOAD = 1446"
definition TCP_WINDOW_SIZE :: u16 where "TCP_WINDOW_SIZE = 1500"

text \<open>The flag bytes the code builds: SYN+ACK, ACK, ACK+RST.\<close>

definition flags_syn_ack :: u8 where "flags_syn_ack = 0x12"
definition flags_ack :: u8 where "flags_ack = 0x10"
definition flags_ack_rst :: u8 where "flags_ack_rst = 0x14"

section \<open>Checksum\<close>

text \<open>
  The pseudo header is written into the twelve bytes before the TCP header, and what was there
  is put back afterwards.
\<close>

definition calc_tcp_cksum :: "nat \<Rightarrow> nat \<Rightarrow> ip_addr \<Rightarrow> ip_addr \<Rightarrow> skb \<Rightarrow> (u16 \<times> skb) res" where
  "calc_tcp_cksum off n src dst s =
    guardE Out_of_bounds (PSEUDO_IP_HDR_SIZE \<le> off)
     (let po = off - PSEUDO_IP_HDR_SIZE
      in bindE (rd_bytes po PSEUDO_IP_HDR_SIZE s) (\<lambda>backup.
         bindE (wr_hdr enc_pseudo po
                  \<lparr>ps_src_ip = src, ps_dst_ip = dst, ps_rsrv = 0, ps_proto = IP_PROTO_TCP,
                   ps_len = ucast (HTONS (of_nat n :: u64))\<rparr> s) (\<lambda>s.
         bindE (rd_bytes po (n + PSEUDO_IP_HDR_SIZE) s) (\<lambda>bs.
         bindE (wr_bytes po backup s) (\<lambda>s. Inr (calc_checksum_16 bs, s))))))"

definition fill_tcp_cksum :: "nat \<Rightarrow> nat \<Rightarrow> ip_addr \<Rightarrow> ip_addr \<Rightarrow> skb \<Rightarrow> skb res" where
  "fill_tcp_cksum off n src dst s =
    bindE (calc_tcp_cksum off n src dst s) (\<lambda>(c, s).
    bindE (rd_hdr TCP_HDR_SIZE dec_tcp off s) (\<lambda>hdr.
      wr_hdr enc_tcp off (hdr\<lparr>tcp_cksum := HTONS c\<rparr>) s))"

definition check_tcp_cksum :: "nat \<Rightarrow> nat \<Rightarrow> ip_addr \<Rightarrow> ip_addr \<Rightarrow> skb \<Rightarrow> bool res" where
  "check_tcp_cksum off n src dst s = bindE (calc_tcp_cksum off n src dst s) (\<lambda>(c, s). Inr (c = 0))"

section \<open>Lookups\<close>

definition tcp_sock_of_fd :: "int \<Rightarrow> world \<Rightarrow> sock_id option" where
  "tcp_sock_of_fd fd w =
    (if fd < 0 \<or> fd \<ge> int MAX_TCP_SOCKS then None else tcp_fd_to_sock w ! nat fd)"

definition tcp_conn_of_fd :: "int \<Rightarrow> world \<Rightarrow> conn_id option" where
  "tcp_conn_of_fd fd w =
    (if fd < 0 \<or> fd \<ge> int MAX_TCP_CONN_SOCKS then None else fd_conn_to_sock w ! nat fd)"

definition is_good_tcp_sock :: "int \<Rightarrow> world \<Rightarrow> bool" where
  "is_good_tcp_sock fd w \<longleftrightarrow> tcp_sock_of_fd fd w \<noteq> None"

definition is_good_tcp_connection_sock :: "int \<Rightarrow> world \<Rightarrow> bool" where
  "is_good_tcp_connection_sock fd w \<longleftrightarrow> tcp_conn_of_fd fd w \<noteq> None"

fun tcp_socks_manager_find :: "sock_id list \<Rightarrow> u16 \<Rightarrow> world \<Rightarrow> sock_id option res" where
  "tcp_socks_manager_find [] port w = Inr None"
| "tcp_socks_manager_find (t # ts) port w =
     bindE (get_tcp_sock t w) (\<lambda>sk.
       if ts_local_port sk = port then Inr (Some t) else tcp_socks_manager_find ts port w)"

fun find_matching_connection :: "conn_id list \<Rightarrow> ip_addr \<Rightarrow> u16 \<Rightarrow> world \<Rightarrow> conn_id option res" where
  "find_matching_connection [] ip port w = Inr None"
| "find_matching_connection (c # cs) ip port w =
     bindE (get_tcp_conn c w) (\<lambda>cn.
       if tc_remote_port cn = port \<and> tc_remote_ip cn = ip then Inr (Some c)
       else find_matching_connection cs ip port w)"

section \<open>Sending a segment\<close>

text \<open>
  \<open>snt.nxt + size\<close> is a 64-bit sum, \<open>snt.una + snt.wnd\<close> a 32-bit one.  When the segment does not
  fit the window the function returns \<open>-1\<close>, which its type \<open>bool\<close> turns into true.
\<close>

definition outside_window :: "tcp_connection_sock \<Rightarrow> nat \<Rightarrow> bool" where
  "outside_window cn n \<longleftrightarrow> unat (snt_nxt cn) + n > unat (snt_una cn + ucast (snt_wnd cn))"

definition tcp_advance :: "tcp_connection_sock \<Rightarrow> nat \<Rightarrow> u8 \<Rightarrow> tcp_connection_sock" where
  "tcp_advance cn n fl =
    cn\<lparr>snt_nxt := snt_nxt cn + of_nat n + (if fl_syn fl then 1 else 0) + (if fl_fin fl then 1 else 0)\<rparr>"

definition tcp_out :: "os \<Rightarrow> deliver \<Rightarrow> conn_id \<Rightarrow> u8 list \<Rightarrow> u8 \<Rightarrow> world \<Rightarrow> bool step" where
  "tcp_out os deliver c bytes fl w =
    bindE (get_tcp_conn c w) (\<lambda>cn.
    bindE (get_tcp_sock (tc_parent cn) w) (\<lambda>sk.
    bindE (skb_reserve BUFF_HEADROOM
             ((alloc_skb (BUFF_HEADROOM + BUFF_TAILROOM + TCP_HDR_SIZE + length bytes))\<lparr>skb_intf := ts_intf sk\<rparr>)) (\<lambda>s.
      let off = tail_off s
      in bindE (skb_put TCP_HDR_SIZE s) (\<lambda>s.
         bindE (rd_hdr TCP_HDR_SIZE dec_tcp off s) (\<lambda>hdr.
           let hdr = hdr\<lparr>tcp_src_port := HTONS (ts_local_port sk), tcp_dst_port := HTONS (tc_remote_port cn)\<rparr>
           in if outside_window cn (length bytes)
              then bindE (wr_hdr enc_tcp off hdr s) (\<lambda>s. Inr (True, snd (new_skb s w)))
              else
                bindE (wr_hdr enc_tcp off
                         (hdr\<lparr>tcp_seq := HTONL (snt_nxt cn), tcp_ack := HTONL (rcv_nxt cn), tcp_flags := fl,
                              tcp_wnd_sz := HTONS (rcv_wnd cn), tcp_hlen := 5\<rparr>) s) (\<lambda>s.
                  let boff = tail_off s
                  in bindE (if bytes \<noteq> []
                            then bindE (skb_put (length bytes) s) (wr_bytes boff bytes) else Inr s) (\<lambda>s.
                     bindE (fill_tcp_cksum off (skb_len s) (ts_local_ip sk) (tc_remote_ip cn) s) (\<lambda>s.
                       let w = put_tcp_conn c (tcp_advance cn (length bytes) fl) w;
                           (p, w) = new_skb s w
                       in bindE (of_option Null_deref (ts_intf sk)) (\<lambda>i.
                          bindE (get_intf i w) (\<lambda>x.
                            ip_output os deliver (if_node x) (tc_remote_ip cn) IP_PROTO_TCP p w))))))))))"

section \<open>The connection handlers\<close>

definition close_connection :: "os \<Rightarrow> deliver \<Rightarrow> conn_id \<Rightarrow> world \<Rightarrow> bool step" where
  "close_connection os deliver c w =
    bindE (tcp_out os deliver c [] flags_ack_rst w) (\<lambda>(_, w).
    bindE (get_tcp_conn c w) (\<lambda>cn.
    bindE (get_tcp_sock (tc_parent cn) w) (\<lambda>sk.
      Inr (True, put_tcp_sock (tc_parent cn)
             (sk\<lparr>ts_conns := remove1 c (ts_conns sk), ts_closed_conns := c # ts_closed_conns sk\<rparr>) w))))"

definition handle_estab :: "os \<Rightarrow> deliver \<Rightarrow> conn_id \<Rightarrow> skb_id \<Rightarrow> world \<Rightarrow> bool step" where
  "handle_estab os deliver c p w =
    bindE (get_skb p w) (\<lambda>s.
    bindE (rd_hdr TCP_HDR_SIZE dec_tcp (data_off s) s) (\<lambda>hdr.
    bindE (get_tcp_conn c w) (\<lambda>cn.
      if NTOHL (tcp_seq hdr) = rcv_nxt cn
      then if fl_rst (tcp_flags hdr) then close_connection os deliver c w
           else if fl_fin (tcp_flags hdr)
           then close_connection os deliver c (put_tcp_conn c (cn\<lparr>rcv_nxt := rcv_nxt cn + 1\<rparr>) w)
           else bindE (skb_pull TCP_HDR_SIZE s) (\<lambda>s.
                  Inr (True, put_tcp_conn c (cn\<lparr>rcv_nxt := rcv_nxt cn + of_nat (skb_len s),
                                               tc_rx_skb := p # tc_rx_skb cn\<rparr>) (put_skb p s w)))
      else Inr (False, w))))"

definition handle_syn_sent :: "conn_id \<Rightarrow> skb_id \<Rightarrow> world \<Rightarrow> bool step" where
  "handle_syn_sent c p w =
    bindE (get_skb p w) (\<lambda>s.
    bindE (rd_hdr TCP_HDR_SIZE dec_tcp (data_off s) s) (\<lambda>hdr.
    bindE (get_tcp_conn c w) (\<lambda>cn.
      if fl_ack (tcp_flags hdr) \<and> \<not> fl_syn (tcp_flags hdr) \<and> NTOHL (tcp_seq hdr) = rcv_nxt cn
      then Inr (False, put_tcp_conn c (cn\<lparr>tc_state := Handle_estab\<rparr>) w)
      else Inr (False, w))))"

definition handle_new_connection :: "os \<Rightarrow> deliver \<Rightarrow> sock_id \<Rightarrow> skb_id \<Rightarrow> world \<Rightarrow> bool step" where
  "handle_new_connection os deliver t p w =
    bindE (get_skb p w) (\<lambda>s.
    bindE (rd_hdr TCP_HDR_SIZE dec_tcp (data_off s) s) (\<lambda>hdr.
    bindE (of_option Null_deref (ip_hdr_off s)) (\<lambda>ipo.
    bindE (rd_hdr IP_HDR_SIZE dec_ip ipo s) (\<lambda>iph.
    bindE (get_tcp_sock t w) (\<lambda>sk.
      let c = w_next w;
          w = put_tcp_conn c
                \<lparr>tc_parent = t, tc_state = Handle_syn_sent, tc_remote_ip = src_ip iph,
                 tc_remote_port = NTOHS (tcp_src_port hdr), snt_una = 0, snt_nxt = 0,
                 snt_wnd = NTOHS (tcp_wnd_sz hdr), snt_iss = 0, rcv_nxt = NTOHL (tcp_seq hdr) + 1,
                 rcv_wnd = TCP_WINDOW_SIZE, rcv_irs = tcp_seq hdr, tc_rx_skb = [], tc_tx_skb = []\<rparr> w;
          w = put_tcp_sock t (sk\<lparr>ts_conns := c # ts_conns sk\<rparr>) (w\<lparr>w_next := Suc c\<rparr>)
      in bindE (tcp_out os deliver c [] flags_syn_ack w) (\<lambda>(_, w). Inr (False, w)))))))"

definition tcp_input :: "os \<Rightarrow> deliver \<Rightarrow> skb_id \<Rightarrow> world \<Rightarrow> bool step" where
  "tcp_input os deliver p w =
    bindE (get_skb p w) (\<lambda>s.
    bindE (rd_hdr TCP_HDR_SIZE dec_tcp (data_off s) s) (\<lambda>hdr.
    bindE (of_option Null_deref (skb_intf s)) (\<lambda>i.
    bindE (get_intf i w) (\<lambda>x.
    bindE (tcp_socks_manager_find (tcp_socks_manager x) (NTOHS (tcp_dst_port hdr)) w) (\<lambda>r.
      case r of
        None \<Rightarrow> Inr (False, w)
      | Some t \<Rightarrow>
          bindE (get_tcp_sock t w) (\<lambda>sk.
          bindE (of_option Null_deref (ip_hdr_off s)) (\<lambda>ipo.
          bindE (rd_hdr IP_HDR_SIZE dec_ip ipo s) (\<lambda>iph.
          bindE (find_matching_connection (ts_conns sk) (src_ip iph) (NTOHS (tcp_src_port hdr)) w) (\<lambda>rc.
            case rc of
              Some c \<Rightarrow>
                bindE (get_tcp_conn c w) (\<lambda>cn.
                  case tc_state cn of
                    Handle_estab \<Rightarrow> handle_estab os deliver c p w
                  | Handle_syn_sent \<Rightarrow> handle_syn_sent c p w)
            | None \<Rightarrow>
                if ts_listening sk \<and> fl_syn (tcp_flags hdr) \<and> \<not> fl_ack (tcp_flags hdr)
                then handle_new_connection os deliver t p w
                else Inr (False, w))))))))))"

section \<open>The socket interface\<close>

definition tcp_socket :: "node_id \<Rightarrow> world \<Rightarrow> int \<times> world" where
  "tcp_socket n w =
    (case first_free (tcp_fd_to_sock w) 0 of
       None \<Rightarrow> (- 1, w)
     | Some k \<Rightarrow>
         let t = w_next w;
             w = put_tcp_sock t \<lparr>ts_bound = False, ts_listening = False, ts_node = n, ts_local_ip = 0,
                   ts_intf = None, ts_local_port = 0, ts_conns = [], ts_closed_conns = []\<rparr> w
         in (int k, w\<lparr>w_next := Suc t, tcp_fd_to_sock := (tcp_fd_to_sock w)[k := Some t]\<rparr>))"

definition tcp_close :: "int \<Rightarrow> world \<Rightarrow> int step" where
  "tcp_close fd w =
    (case tcp_sock_of_fd fd w of
       None \<Rightarrow> Inr (- 1, w)
     | Some t \<Rightarrow>
         let w = w\<lparr>tcp_fd_to_sock := (tcp_fd_to_sock w)[nat fd := None]\<rparr>
         in bindE (get_tcp_sock t w) (\<lambda>sk.
            bindE (if ts_bound sk
                   then bindE (of_option Null_deref (ts_intf sk)) (\<lambda>i.
                        bindE (get_intf i w) (\<lambda>x.
                          Inr (put_intf i (x\<lparr>tcp_socks_manager := remove1 t (tcp_socks_manager x)\<rparr>) w)))
                   else Inr w) (\<lambda>w.
              Inr (0, w\<lparr>w_tcp_socks := (w_tcp_socks w)(t := None)\<rparr>))))"

definition tcp_bind :: "int \<Rightarrow> ip_addr \<Rightarrow> u16 \<Rightarrow> world \<Rightarrow> int step" where
  "tcp_bind fd ip port w =
    (case tcp_sock_of_fd fd w of
       None \<Rightarrow> Inr (- 1, w)
     | Some t \<Rightarrow>
         bindE (get_tcp_sock t w) (\<lambda>sk.
           if ts_bound sk then Inr (- 1, w)
           else bindE (get_matching_interface (ts_node sk) ip w) (\<lambda>r.
                case r of
                  None \<Rightarrow> Inr (- 1, w)
                | Some i \<Rightarrow>
                    let w = put_tcp_sock t (sk\<lparr>ts_bound := True, ts_intf := Some i, ts_local_ip := ip,
                              ts_local_port := port\<rparr>) w
                    in bindE (get_intf i w) (\<lambda>x.
                         Inr (0, put_intf i (x\<lparr>tcp_socks_manager := t # tcp_socks_manager x\<rparr>) w)))))"

definition tcp_listen :: "int \<Rightarrow> world \<Rightarrow> int step" where
  "tcp_listen fd w =
    (case tcp_sock_of_fd fd w of
       None \<Rightarrow> Inr (- 1, w)
     | Some t \<Rightarrow>
         bindE (get_tcp_sock t w) (\<lambda>sk.
           if \<not> ts_bound sk then Inr (- 1, w)
           else Inr (0, put_tcp_sock t (sk\<lparr>ts_listening := True\<rparr>) w)))"

text \<open>
  \<open>tcp_accept\<close> takes the first established connection of the list and the first unused
  descriptor.  The remote address and port are returned with the descriptor.
\<close>

fun first_estab :: "conn_id list \<Rightarrow> world \<Rightarrow> conn_id option res" where
  "first_estab [] w = Inr None"
| "first_estab (c # cs) w =
     bindE (get_tcp_conn c w) (\<lambda>cn.
       if tc_state cn = Handle_estab then Inr (Some c) else first_estab cs w)"

definition tcp_accept :: "int \<Rightarrow> world \<Rightarrow> (int \<times> ip_addr \<times> u16) option step" where
  "tcp_accept fd w =
    (case tcp_sock_of_fd fd w of
       None \<Rightarrow> Inr (None, w)
     | Some t \<Rightarrow>
         bindE (get_tcp_sock t w) (\<lambda>sk.
           if \<not> ts_listening sk then Inr (None, w)
           else bindE (first_estab (ts_conns sk) w) (\<lambda>rc.
                case rc of
                  None \<Rightarrow> Inr (None, w)
                | Some c \<Rightarrow>
                    (case first_free (fd_conn_to_sock w) 0 of
                       None \<Rightarrow> Inr (None, w)
                     | Some k \<Rightarrow>
                         bindE (get_tcp_conn c w) (\<lambda>cn.
                           Inr (Some (int k, tc_remote_ip cn, tc_remote_port cn),
                                w\<lparr>fd_conn_to_sock := (fd_conn_to_sock w)[k := Some c]\<rparr>))))))"

definition tcp_recv :: "int \<Rightarrow> nat \<Rightarrow> world \<Rightarrow> u8 list option step" where
  "tcp_recv fd n w =
    (case tcp_conn_of_fd fd w of
       None \<Rightarrow> Inr (None, w)
     | Some c \<Rightarrow>
         bindE (get_tcp_conn c w) (\<lambda>cn.
           if tc_state cn \<noteq> Handle_estab then Inr (None, w)
           else if tc_rx_skb cn = [] then Inr (None, w)
           else
             let p = last (tc_rx_skb cn)
             in bindE (get_skb p w) (\<lambda>s.
                let final_size = min (skb_len s) n
                in bindE (rd_bytes (data_off s) final_size s) (\<lambda>bytes.
                   bindE (skb_pull final_size s) (\<lambda>s.
                     let w = put_skb p s w
                     in bindE (if skb_len s = 0
                               then free_skb p (put_tcp_conn c (cn\<lparr>tc_rx_skb := remove1 p (tc_rx_skb cn)\<rparr>) w)
                               else Inr w) (\<lambda>w. Inr (Some bytes, w)))))))"

definition tcp_send :: "os \<Rightarrow> deliver \<Rightarrow> int \<Rightarrow> u8 list \<Rightarrow> world \<Rightarrow> int step" where
  "tcp_send os deliver fd buff w =
    (case tcp_conn_of_fd fd w of
       None \<Rightarrow> Inr (- 1, w)
     | Some c \<Rightarrow>
         bindE (get_tcp_conn c w) (\<lambda>cn.
           if tc_state cn \<noteq> Handle_estab then Inr (- 1, w)
           else
             let final_size = min (length buff) MAX_TCP_PAYLOAD
             in bindE (tcp_out os deliver c (take final_size buff) flags_ack w) (\<lambda>(result, w).
                  if \<not> result then Inr (- 1, w) else Inr (int final_size, w))))"

end
