(* ===== verification/Stack.thy ===== *)
theory Stack
  imports Icmp Udp Tcp
begin

text \<open>
  The receive path, from a frame handed over by the operating system up to the protocols, and
  the knot between local delivery and the protocols that send: \<open>ip_input\<close>, \<open>ip_preroute\<close>,
  \<open>ethernet_input\<close>, \<open>switch_input\<close>, \<open>pkt_receive\<close> and the body of \<open>recv_task\<close>.
\<close>

section \<open>Demultiplexing\<close>

text \<open>
  \<open>ip_input\<close> with the depth of local delivery as its first argument: a packet it accepts may
  make a protocol send a packet that is delivered locally again.
\<close>

fun ip_input :: "nat \<Rightarrow> os \<Rightarrow> skb_id \<Rightarrow> world \<Rightarrow> bool step" where
  "ip_input 0 os p w = Inl Out_of_fuel"
| "ip_input (Suc k) os p w =
    bindE (get_skb p w) (\<lambda>s.
    bindE (rd_hdr IP_HDR_SIZE dec_ip (data_off s) s) (\<lambda>hdr.
      if ip_proto hdr = IP_PROTO_ICMP
      then bindE (on_skb p (skb_pull IP_HDR_SIZE) w) (\<lambda>w. icmp_input os (ip_input k os) p w)
      else if ip_proto hdr = IP_PROTO_TCP
      then bindE (on_skb p (\<lambda>s. bindE (skb_pull IP_HDR_SIZE s) (\<lambda>s. Inr (s\<lparr>tcp_hdr_off := Some (data_off s)\<rparr>))) w)
             (\<lambda>w. tcp_input os (ip_input k os) p w)
      else if ip_proto hdr = IP_PROTO_UDP
      then bindE (on_skb p (\<lambda>s. bindE (skb_pull IP_HDR_SIZE s) (\<lambda>s. Inr (s\<lparr>udp_hdr_off := Some (data_off s)\<rparr>))) w)
             (\<lambda>w. udp_input p w)
      else Inr (False, w)))"

definition ip_preroute :: "nat \<Rightarrow> os \<Rightarrow> skb_id \<Rightarrow> world \<Rightarrow> bool step" where
  "ip_preroute k os p w =
    bindE (get_skb p w) (\<lambda>s.
    bindE (rd_hdr IP_HDR_SIZE dec_ip (data_off s) s) (\<lambda>hdr.
    bindE (of_option Null_deref (skb_intf s)) (\<lambda>i.
    bindE (get_intf i w) (\<lambda>x.
    bindE (is_ip_local (if_node x) (dst_ip hdr) w) (\<lambda>local.
      if local then ip_input k os p w else ip_forward os (ip_input k os) p w)))))"

definition ethernet_input :: "nat \<Rightarrow> os \<Rightarrow> skb_id \<Rightarrow> world \<Rightarrow> bool step" where
  "ethernet_input k os p w =
    bindE (get_skb p w) (\<lambda>s.
      let s = s\<lparr>ethernet_hdr_off := Some (data_off s)\<rparr>; w = put_skb p s w
      in if skb_len s < ETH_HDR_SIZE then Inr (False, w)
         else
           bindE (rd_hdr ETH_HDR_SIZE dec_eth (data_off s) s) (\<lambda>hdr.
           bindE (of_option Null_deref (skb_intf s)) (\<lambda>i.
           bindE (get_intf i w) (\<lambda>x.
             if \<not> ethernet_input_qualify x hdr then Inr (False, w)
             else if eth_type hdr = HTONS ETH_PROTO_ARP
             then bindE (on_skb p (skb_pull ETH_HDR_SIZE) w) (\<lambda>w. arp_input os p w)
             else if eth_type hdr = HTONS ETH_PROTO_IP
             then bindE (on_skb p (\<lambda>s. bindE (skb_pull ETH_HDR_SIZE s) (\<lambda>s. Inr (s\<lparr>ip_hdr_off := Some (data_off s)\<rparr>))) w)
                    (\<lambda>w. ip_preroute k os p w)
             else Inr (False, w)))))"

definition switch_input :: "skb_id \<Rightarrow> world \<Rightarrow> bool step" where
  "switch_input p w = Inr (False, w)"

definition pkt_receive :: "nat \<Rightarrow> os \<Rightarrow> skb_id \<Rightarrow> world \<Rightarrow> bool step" where
  "pkt_receive k os p w =
    bindE (get_skb p w) (\<lambda>s.
    bindE (of_option Null_deref (skb_intf s)) (\<lambda>i.
    bindE (if receive_callback w
           then bindE (rd_bytes (data_off s) (skb_len s) s) (\<lambda>bytes. Inr (emit (Ev_receive_callback bytes i) w))
           else Inr w) (\<lambda>w.
    bindE (get_intf i w) (\<lambda>x.
      if is_ip_addr_config x then ethernet_input k os p w else switch_input p w))))"

section \<open>One received frame\<close>

definition RECV_BUFFER_SIZE :: nat where "RECV_BUFFER_SIZE = 2048"
definition RECV_RESERVED_HEAD_ROOM :: nat where "RECV_RESERVED_HEAD_ROOM = 4"

text \<open>
  The body of the loop in \<open>recv_task\<close> for one readable descriptor of an interface, on which a
  frame waits or an error is pending.  Nothing received (an error or an empty frame) releases
  the buffer at once.
\<close>

definition drop_skb :: "skb \<Rightarrow> world \<Rightarrow> world" where
  "drop_skb s w = (let (p, w) = new_skb s w in w\<lparr>w_skbs := (w_skbs w)(p := None)\<rparr>)"

definition recv_frame :: "nat \<Rightarrow> os \<Rightarrow> intf_id \<Rightarrow> u8 list option \<Rightarrow> world \<Rightarrow> world res" where
  "recv_frame k os i waiting w =
    bindE (skb_reserve RECV_RESERVED_HEAD_ROOM (alloc_skb RECV_BUFFER_SIZE)) (\<lambda>s.
      let s = s\<lparr>skb_intf := Some i\<rparr>
      in bindE (get_intf i w) (\<lambda>x.
         bindE (recv_bytes (if_comm x) waiting (skb_tailroom s)) (\<lambda>received.
         case received of
           None \<Rightarrow> Inr (drop_skb s w)
         | Some bytes \<Rightarrow>
             if bytes = [] then Inr (drop_skb s w)
             else
               bindE (wr_bytes (data_off s) bytes s) (\<lambda>s.
               bindE (skb_put (length bytes) s) (\<lambda>s.
                 let (p, w) = new_skb s w
                 in bindE (pkt_receive k os p w) (\<lambda>(ok, w).
                      if \<not> ok then free_skb p w else Inr w))))))"

end
