(* ===== verification/World_Ok.thy ===== *)
theory World_Ok
  imports Runs Construction Stack
begin

text \<open>
  The invariant of the whole program state: what every pointer the stack follows relies on.  The
  packets that wait somewhere are described through the queues that own them; a packet that is
  being handled is in no queue.  One lemma per primitive update says that the invariant is kept
  and which packets are left alone.
\<close>

section \<open>The queues that own packets\<close>

datatype queue_id =
    Arp_queue node_id ip_addr
  | Udp_queue sock_id
  | Tcp_queue conn_id

fun queue :: "queue_id \<Rightarrow> world \<Rightarrow> skb_id list" where
  "queue (Arp_queue n ip) w =
     (case w_nodes w n of
        None \<Rightarrow> []
      | Some nd \<Rightarrow> (case arp_table_lookup (arp_table nd) ip of None \<Rightarrow> [] | Some e \<Rightarrow> arp_pending_pkts e))"
| "queue (Udp_queue u) w = (case w_udp_socks w u of None \<Rightarrow> [] | Some sk \<Rightarrow> us_rx_skb sk)"
| "queue (Tcp_queue c) w = (case w_tcp_conns w c of None \<Rightarrow> [] | Some cn \<Rightarrow> tc_rx_skb cn)"

text \<open>What the reader of a queue relies on: a header pointer that is set points at a whole header.\<close>

definition hdr_within :: "nat option \<Rightarrow> nat \<Rightarrow> skb \<Rightarrow> bool" where
  "hdr_within off n s \<longleftrightarrow> (case off of None \<Rightarrow> True | Some k \<Rightarrow> k + n \<le> length (buf s))"

fun fits :: "queue_id \<Rightarrow> world \<Rightarrow> skb \<Rightarrow> bool" where
  "fits (Arp_queue n ip) w s \<longleftrightarrow> frame_room s \<and> (\<exists>i. skb_intf s = Some i \<and> w_intfs w i \<noteq> None)"
| "fits (Udp_queue u) w s \<longleftrightarrow> wf_skb s \<and> hdr_within (ip_hdr_off s) IP_HDR_SIZE s \<and>
     udp_hdr_off s \<noteq> None \<and> hdr_within (udp_hdr_off s) UDP_HDR_SIZE s"
| "fits (Tcp_queue c) w s \<longleftrightarrow> wf_skb s"

definition queues_ok :: "world \<Rightarrow> bool" where
  "queues_ok w \<longleftrightarrow>
    (\<forall>q. distinct (queue q w)) \<and>
    (\<forall>q. \<forall>p \<in> set (queue q w). \<exists>s. w_skbs w p = Some s \<and> fits q w s) \<and>
    (\<forall>p q q'. p \<in> set (queue q w) \<longrightarrow> p \<in> set (queue q' w) \<longrightarrow> q = q')"

text \<open>A packet in the hands of the code: live, and in no queue.\<close>

definition flying :: "skb_id \<Rightarrow> skb \<Rightarrow> world \<Rightarrow> bool" where
  "flying p s w \<longleftrightarrow> w_skbs w p = Some s \<and> (\<forall>q. p \<notin> set (queue q w))"

lemma flying_get: "flying p s w \<Longrightarrow> get_skb p w = Inr s"
  by (simp add: flying_def get_skb_def)

section \<open>The configuration\<close>

text \<open>What handling packets never changes.\<close>

definition bare_node :: "node \<Rightarrow> node" where
  "bare_node nd = nd\<lparr>arp_table := []\<rparr>"

definition bare_udp :: "udp_sock \<Rightarrow> udp_sock" where
  "bare_udp sk = sk\<lparr>us_rx_skb := []\<rparr>"

definition bare_tcp :: "tcp_sock \<Rightarrow> tcp_sock" where
  "bare_tcp sk = sk\<lparr>ts_conns := [], ts_closed_conns := []\<rparr>"

definition same_config :: "world \<Rightarrow> world \<Rightarrow> bool" where
  "same_config w w' \<longleftrightarrow>
    w_intfs w' = w_intfs w \<and> w_links w' = w_links w \<and> w_graphs w' = w_graphs w \<and>
    map_option bare_node \<circ> w_nodes w' = map_option bare_node \<circ> w_nodes w \<and>
    map_option bare_udp \<circ> w_udp_socks w' = map_option bare_udp \<circ> w_udp_socks w \<and>
    map_option bare_tcp \<circ> w_tcp_socks w' = map_option bare_tcp \<circ> w_tcp_socks w \<and>
    udp_fd_to_sock w' = udp_fd_to_sock w \<and> tcp_fd_to_sock w' = tcp_fd_to_sock w \<and>
    fd_conn_to_sock w' = fd_conn_to_sock w \<and> fd_to_comm_map w' = fd_to_comm_map w \<and>
    next_udp_port w' = next_udp_port w \<and> ip_forward_enable w' = ip_forward_enable w \<and>
    send_callback w' = send_callback w \<and> receive_callback w' = receive_callback w"

definition node_ok :: "world \<Rightarrow> node \<Rightarrow> bool" where
  "node_ok w nd \<longleftrightarrow> routable (rt_table nd) \<and> (\<forall>e \<in> set (rt_table nd). w_intfs w (rt_intf e) \<noteq> None)"

definition intf_ok :: "intf \<Rightarrow> bool" where
  "intf_ok x \<longleftrightarrow> length (if_mac x) = 6 \<and>
    (is_ip_addr_config x \<longrightarrow> 0 \<le> sint (if_mask x) \<and> sint (if_mask x) < 31)"

definition udp_sock_ok :: "world \<Rightarrow> udp_sock \<Rightarrow> bool" where
  "udp_sock_ok w sk \<longleftrightarrow> w_nodes w (us_node sk) \<noteq> None \<and> (us_bound sk \<longrightarrow> us_intf sk \<noteq> None)"

definition tcp_sock_ok :: "world \<Rightarrow> tcp_sock \<Rightarrow> bool" where
  "tcp_sock_ok w sk \<longleftrightarrow> w_nodes w (ts_node sk) \<noteq> None \<and> (ts_bound sk \<longrightarrow> ts_intf sk \<noteq> None)"

text \<open>
  Where sockets are bound, and which sockets the manager of an interface lists: \<open>places u\<close> is
  \<open>None\<close> for a socket that does not exist, \<open>Some None\<close> for one that is not bound.  Both sides
  agree, and no manager lists a socket twice.
\<close>

definition registry_ok :: "(sock_id \<Rightarrow> intf_id option option) \<Rightarrow> (intf_id \<Rightarrow> sock_id list option) \<Rightarrow> bool" where
  "registry_ok places managers \<longleftrightarrow>
    (\<forall>i us. managers i = Some us \<longrightarrow> distinct us \<and> (\<forall>u \<in> set us. places u = Some (Some i))) \<and>
    (\<forall>u i. places u = Some (Some i) \<longrightarrow> (\<exists>us. managers i = Some us \<and> u \<in> set us))"

definition udp_place :: "udp_sock \<Rightarrow> intf_id option" where
  "udp_place sk = (if us_bound sk then us_intf sk else None)"

definition tcp_place :: "tcp_sock \<Rightarrow> intf_id option" where
  "tcp_place sk = (if ts_bound sk then ts_intf sk else None)"

definition udp_registry :: "world \<Rightarrow> bool" where
  "udp_registry w \<longleftrightarrow> registry_ok (map_option udp_place \<circ> w_udp_socks w) (map_option udp_socks_manager \<circ> w_intfs w)"

definition tcp_registry :: "world \<Rightarrow> bool" where
  "tcp_registry w \<longleftrightarrow> registry_ok (map_option tcp_place \<circ> w_tcp_socks w) (map_option tcp_socks_manager \<circ> w_intfs w)"

text \<open>A descriptor table: its length, live entries, no socket under two descriptors.\<close>

definition fds_ok :: "nat \<Rightarrow> (nat \<Rightarrow> 'o option) \<Rightarrow> nat option list \<Rightarrow> bool" where
  "fds_ok n table fds \<longleftrightarrow> length fds = n \<and>
    (\<forall>k u. k < n \<longrightarrow> fds ! k = Some u \<longrightarrow> table u \<noteq> None) \<and>
    (\<forall>k j u. k < n \<longrightarrow> j < n \<longrightarrow> fds ! k = Some u \<longrightarrow> fds ! j = Some u \<longrightarrow> k = j)"

text \<open>
  The table of the receive thread: a descriptor is mapped to a live interface that holds it.
  The nodes of a graph are live and listed once.
\<close>

definition comms_ok :: "world \<Rightarrow> bool" where
  "comms_ok w \<longleftrightarrow> length (fd_to_comm_map w) = MAX_COMMS \<and>
    (\<forall>k < MAX_COMMS. \<forall>i. fd_to_comm_map w ! k = Some i \<longrightarrow>
       (\<exists>x. w_intfs w i = Some x \<and> comm_fd (if_comm x) = int k))"

definition graph_ok :: "world \<Rightarrow> graph \<Rightarrow> bool" where
  "graph_ok w gr \<longleftrightarrow> distinct (graph_nodes gr) \<and> (\<forall>n \<in> set (graph_nodes gr). w_nodes w n \<noteq> None)"

lemma comms_live:
  assumes "comms_ok w"
  shows "length (fd_to_comm_map w) = MAX_COMMS" "Some i \<in> set (fd_to_comm_map w) \<Longrightarrow> w_intfs w i \<noteq> None"
  using assms by (auto simp: comms_ok_def in_set_conv_nth)

definition config_ok :: "world \<Rightarrow> bool" where
  "config_ok w \<longleftrightarrow> wf_shape (slots_map w) (ports_map w) (ends_map w) \<and>
    (\<forall>n nd. w_nodes w n = Some nd \<longrightarrow> node_ok w nd) \<and>
    (\<forall>i x. w_intfs w i = Some x \<longrightarrow> intf_ok x) \<and>
    (\<forall>u sk. w_udp_socks w u = Some sk \<longrightarrow> udp_sock_ok w sk) \<and>
    (\<forall>t sk. w_tcp_socks w t = Some sk \<longrightarrow> tcp_sock_ok w sk) \<and>
    udp_registry w \<and> tcp_registry w \<and>
    (\<forall>g gr. w_graphs w g = Some gr \<longrightarrow> graph_ok w gr) \<and>
    fds_ok MAX_UDP_SOCKS (w_udp_socks w) (udp_fd_to_sock w) \<and>
    fds_ok MAX_TCP_SOCKS (w_tcp_socks w) (tcp_fd_to_sock w) \<and> comms_ok w"

section \<open>The invariant\<close>

text \<open>Connections: their parent is a bound socket, and the open ones of a socket name it.\<close>

definition conns_ok :: "world \<Rightarrow> bool" where
  "conns_ok w \<longleftrightarrow>
    (\<forall>c cn. w_tcp_conns w c = Some cn \<longrightarrow> (\<exists>sk. w_tcp_socks w (tc_parent cn) = Some sk \<and> ts_bound sk)) \<and>
    (\<forall>t sk. w_tcp_socks w t = Some sk \<longrightarrow>
       (\<forall>c \<in> set (ts_conns sk). \<exists>cn. w_tcp_conns w c = Some cn \<and> tc_parent cn = t)) \<and>
    length (fd_conn_to_sock w) = MAX_TCP_CONN_SOCKS \<and>
    (\<forall>c. Some c \<in> set (fd_conn_to_sock w) \<longrightarrow> w_tcp_conns w c \<noteq> None)"

definition arp_ok :: "world \<Rightarrow> bool" where
  "arp_ok w \<longleftrightarrow> (\<forall>n nd. w_nodes w n = Some nd \<longrightarrow> (\<forall>e \<in> set (arp_table nd). length (arp_mac e) = 6))"

definition fresh_ok :: "world \<Rightarrow> bool" where
  "fresh_ok w \<longleftrightarrow> (\<forall>k. w_nodes w k \<noteq> None \<or> w_intfs w k \<noteq> None \<or> w_links w k \<noteq> None \<or> w_skbs w k \<noteq> None \<or>
     w_udp_socks w k \<noteq> None \<or> w_tcp_socks w k \<noteq> None \<or> w_tcp_conns w k \<noteq> None \<or> w_graphs w k \<noteq> None \<longrightarrow>
     k < w_next w)"

definition wf_world :: "world \<Rightarrow> bool" where
  "wf_world w \<longleftrightarrow> config_ok w \<and> conns_ok w \<and> arp_ok w \<and> queues_ok w \<and> fresh_ok w"


section \<open>Registries\<close>

lemma registry_okD:
  assumes "registry_ok p m"
  shows "m i = Some us \<Longrightarrow> distinct us" "m i = Some us \<Longrightarrow> u \<in> set us \<Longrightarrow> p u = Some (Some i)"
    "p u = Some (Some i) \<Longrightarrow> \<exists>us. m i = Some us \<and> u \<in> set us"
  using assms unfolding registry_ok_def by blast+

text \<open>A socket that is not bound appears and disappears without anybody noticing.\<close>

lemma registry_unplaced:
  assumes r: "registry_ok p m" and u: "\<And>i. p u \<noteq> Some (Some i)" "\<And>i. x \<noteq> Some (Some i)"
  shows "registry_ok (p(u := x)) m"
  unfolding registry_ok_def
proof (intro conjI allI impI ballI)
  show "(p(u := x)) v = Some (Some i)" if "m i = Some us" "v \<in> set us" for i us v
    using registry_okD(2) [OF r that] u(1) by auto
  show "\<exists>us. m i = Some us \<and> v \<in> set us" if "(p(u := x)) v = Some (Some i)" for v i
    using registry_okD(3) [OF r, of v i] that u(2) by (auto split: if_splits)
qed (rule registry_okD(1) [OF r])

lemma registry_bind:
  assumes r: "registry_ok p m" and u: "p u = Some None" and i: "m i = Some us"
  shows "registry_ok (p(u \<mapsto> Some i)) (m(i \<mapsto> u # us))"
proof -
  have new: "u \<notin> set vs" if "m j = Some vs" for j vs using registry_okD(2) [OF r that] u by auto
  show ?thesis
    unfolding registry_ok_def
  proof (intro conjI allI impI ballI)
    fix j vs
    assume vs: "(m(i \<mapsto> u # us)) j = Some vs"
    show "distinct vs" using vs registry_okD(1) [OF r] i new by (auto split: if_splits)
    show "(p(u \<mapsto> Some i)) v = Some (Some j)" if "v \<in> set vs" for v
      using vs that registry_okD(2) [OF r, of j] i new [of j] by (auto split: if_splits)
  next
    fix v j
    assume v: "(p(u \<mapsto> Some i)) v = Some (Some j)"
    show "\<exists>vs. (m(i \<mapsto> u # us)) j = Some vs \<and> v \<in> set vs"
      using v registry_okD(3) [OF r, of v j] i by (cases "v = u") auto
  qed
qed

lemma registry_close:
  assumes r: "registry_ok p m" and u: "p u = Some (Some i)" and i: "m i = Some us"
  shows "registry_ok (p(u := None)) (m(i \<mapsto> remove1 u us))"
proof -
  have new: "u \<notin> set vs" if "m j = Some vs" "j \<noteq> i" for j vs using registry_okD(2) [OF r that(1)] u that(2) by auto
  note d = registry_okD(1) [OF r i]
  show ?thesis
    unfolding registry_ok_def
  proof (intro conjI allI impI ballI)
    fix j vs
    assume vs: "(m(i \<mapsto> remove1 u us)) j = Some vs"
    show "distinct vs" using vs registry_okD(1) [OF r] d by (auto split: if_splits)
    show "(p(u := None)) v = Some (Some j)" if "v \<in> set vs" for v
      using vs that registry_okD(2) [OF r] i new d by (cases "j = i"; cases "v = u") (auto simp: set_remove1_eq)
  next
    fix v j
    assume v: "(p(u := None)) v = Some (Some j)"
    show "\<exists>vs. (m(i \<mapsto> remove1 u us)) j = Some vs \<and> v \<in> set vs"
      using v registry_okD(3) [OF r, of v j] i d by (cases "v = u") (auto simp: set_remove1_eq)
  qed
qed

text \<open>New interfaces list no socket.\<close>

lemma registry_more:
  assumes r: "registry_ok p m" and k: "\<And>i us. m i = Some us \<Longrightarrow> m' i = Some us"
    "\<And>i us. m' i = Some us \<Longrightarrow> m i = Some us \<or> us = []"
  shows "registry_ok p m'"
  unfolding registry_ok_def
proof (intro conjI allI impI ballI)
  show "distinct us" if "m' i = Some us" for i us using k(2) [OF that] registry_okD(1) [OF r] by fastforce
  show "p u = Some (Some i)" if "m' i = Some us" "u \<in> set us" for i us u
    using k(2) [OF that(1)] registry_okD(2) [OF r] that(2) by fastforce
  show "\<exists>us. m' i = Some us \<and> u \<in> set us" if "p u = Some (Some i)" for u i
    using registry_okD(3) [OF r that] k(1) by blast
qed

section \<open>Configurations that agree\<close>

lemma same_config_refl [simp]: "same_config w w"
  by (simp add: same_config_def)

lemma same_config_trans: "same_config w w1 \<Longrightarrow> same_config w1 w2 \<Longrightarrow> same_config w w2"
  by (simp add: same_config_def)

lemma same_config_sym: "same_config w w' \<Longrightarrow> same_config w' w"
  by (simp add: same_config_def)

lemma map_option_comp_eq:
  assumes "map_option f \<circ> m' = map_option f \<circ> m" and "m' k = Some y"
  shows "\<exists>x. m k = Some x \<and> f y = f x"
  using fun_cong [OF assms(1), of k] assms(2) by (auto simp: comp_def map_option_case split: option.splits)

lemma bare_node_eq:
  assumes "bare_node nd' = bare_node nd"
  shows "node_intfs nd' = node_intfs nd" "rt_table nd' = rt_table nd" "node_name nd' = node_name nd"
    "lb_addr nd' = lb_addr nd"
  using arg_cong [OF assms, of node_intfs] arg_cong [OF assms, of rt_table] arg_cong [OF assms, of node_name]
    arg_cong [OF assms, of lb_addr]
  by (simp_all add: bare_node_def)

lemma bare_udp_eq:
  assumes "bare_udp sk' = bare_udp sk"
  shows "us_bound sk' = us_bound sk" "us_node sk' = us_node sk" "us_intf sk' = us_intf sk"
    "us_local_port sk' = us_local_port sk"
  using arg_cong [OF assms, of us_bound] arg_cong [OF assms, of us_node] arg_cong [OF assms, of us_intf]
    arg_cong [OF assms, of us_local_port]
  by (simp_all add: bare_udp_def)

lemma bare_tcp_eq:
  assumes "bare_tcp sk' = bare_tcp sk"
  shows "ts_bound sk' = ts_bound sk" "ts_listening sk' = ts_listening sk" "ts_node sk' = ts_node sk"
    "ts_intf sk' = ts_intf sk" "ts_local_port sk' = ts_local_port sk" "ts_local_ip sk' = ts_local_ip sk"
  using arg_cong [OF assms, of ts_bound] arg_cong [OF assms, of ts_listening] arg_cong [OF assms, of ts_node]
    arg_cong [OF assms, of ts_intf] arg_cong [OF assms, of ts_local_port] arg_cong [OF assms, of ts_local_ip]
  by (simp_all add: bare_tcp_def)

lemma bare_place: "udp_place (bare_udp sk) = udp_place sk" "tcp_place (bare_tcp ts) = tcp_place ts"
  by (simp_all add: udp_place_def tcp_place_def bare_udp_def bare_tcp_def)

lemma same_configD:
  assumes "same_config w w'"
  shows "w_intfs w' = w_intfs w" "w_links w' = w_links w" "w_graphs w' = w_graphs w"
    "fd_conn_to_sock w' = fd_conn_to_sock w" "ip_forward_enable w' = ip_forward_enable w"
    "udp_fd_to_sock w' = udp_fd_to_sock w" "tcp_fd_to_sock w' = tcp_fd_to_sock w"
    "w_nodes w n = Some nd \<Longrightarrow> \<exists>nd'. w_nodes w' n = Some nd' \<and> bare_node nd' = bare_node nd"
    "w_udp_socks w u = Some us \<Longrightarrow> \<exists>us'. w_udp_socks w' u = Some us' \<and> bare_udp us' = bare_udp us"
    "w_tcp_socks w t = Some ts \<Longrightarrow> \<exists>ts'. w_tcp_socks w' t = Some ts' \<and> bare_tcp ts' = bare_tcp ts"
proof -
  note e = assms [unfolded same_config_def]
  show "w_intfs w' = w_intfs w" "w_links w' = w_links w" "w_graphs w' = w_graphs w"
    "fd_conn_to_sock w' = fd_conn_to_sock w" "ip_forward_enable w' = ip_forward_enable w"
    "udp_fd_to_sock w' = udp_fd_to_sock w" "tcp_fd_to_sock w' = tcp_fd_to_sock w" using e by simp_all
  have n: "map_option bare_node \<circ> w_nodes w = map_option bare_node \<circ> w_nodes w'"
    and u: "map_option bare_udp \<circ> w_udp_socks w = map_option bare_udp \<circ> w_udp_socks w'"
    and t: "map_option bare_tcp \<circ> w_tcp_socks w = map_option bare_tcp \<circ> w_tcp_socks w'" using e by simp_all
  show "w_nodes w n = Some nd \<Longrightarrow> \<exists>nd'. w_nodes w' n = Some nd' \<and> bare_node nd' = bare_node nd"
    using map_option_comp_eq [OF n] by metis
  show "w_udp_socks w u = Some us \<Longrightarrow> \<exists>us'. w_udp_socks w' u = Some us' \<and> bare_udp us' = bare_udp us"
    using map_option_comp_eq [OF u] by metis
  show "w_tcp_socks w t = Some ts \<Longrightarrow> \<exists>ts'. w_tcp_socks w' t = Some ts' \<and> bare_tcp ts' = bare_tcp ts"
    using map_option_comp_eq [OF t] by metis
qed

lemma same_config_live:
  assumes "same_config w w'"
  shows "w_nodes w' n = None \<longleftrightarrow> w_nodes w n = None"
    "w_udp_socks w' u = None \<longleftrightarrow> w_udp_socks w u = None"
    "w_tcp_socks w' t = None \<longleftrightarrow> w_tcp_socks w t = None"
proof -
  note D = same_configD [OF assms] and D' = same_configD [OF same_config_sym [OF assms]]
  show "w_nodes w' n = None \<longleftrightarrow> w_nodes w n = None" using D(8) D'(8) by (cases "w_nodes w n"; cases "w_nodes w' n") force+
  show "w_udp_socks w' u = None \<longleftrightarrow> w_udp_socks w u = None"
    using D(9) D'(9) by (cases "w_udp_socks w u"; cases "w_udp_socks w' u") force+
  show "w_tcp_socks w' t = None \<longleftrightarrow> w_tcp_socks w t = None"
    using D(10) D'(10) by (cases "w_tcp_socks w t"; cases "w_tcp_socks w' t") force+
qed

lemma same_config_maps:
  assumes "same_config w w'"
  shows "slots_map w' = slots_map w" "ports_map w' = ports_map w" "ends_map w' = ends_map w"
proof -
  have "slots_map v = map_option node_intfs \<circ> (map_option bare_node \<circ> w_nodes v)" for v
    by (simp add: fun_eq_iff slots_map_def option.map_comp comp_def bare_node_def)
  then show "slots_map w' = slots_map w" using assms by (simp add: same_config_def)
qed (simp_all add: ports_map_def ends_map_def same_configD [OF assms] fun_eq_iff)

lemma config_ok_same:
  assumes ok: "config_ok w" and s: "same_config w w'"
  shows "config_ok w'"
proof -
  note D = same_configD [OF s] and D' = same_configD [OF same_config_sym [OF s]]
    and L = same_config_live [OF s] and ok = ok [unfolded config_ok_def]
  have nodes: "node_ok w' nd'" if nd': "w_nodes w' n = Some nd'" for n nd'
  proof -
    from D'(8) [OF nd'] obtain nd where nd: "w_nodes w n = Some nd" "bare_node nd = bare_node nd'" by blast
    with ok have "node_ok w nd" by blast
    then show ?thesis using bare_node_eq [OF nd(2)] by (simp add: node_ok_def D)
  qed
  have udps: "udp_sock_ok w' sk'" if sk': "w_udp_socks w' u = Some sk'" for u sk'
  proof -
    from D'(9) [OF sk'] obtain sk where sk: "w_udp_socks w u = Some sk" "bare_udp sk = bare_udp sk'" by blast
    with ok have "udp_sock_ok w sk" by blast
    then show ?thesis using bare_udp_eq [OF sk(2)] L(1) by (simp add: udp_sock_ok_def D)
  qed
  have tcps: "tcp_sock_ok w' sk'" if sk': "w_tcp_socks w' t = Some sk'" for t sk'
  proof -
    from D'(10) [OF sk'] obtain sk where sk: "w_tcp_socks w t = Some sk" "bare_tcp sk = bare_tcp sk'" by blast
    with ok have "tcp_sock_ok w sk" by blast
    then show ?thesis using bare_tcp_eq [OF sk(2)] L(1) by (simp add: tcp_sock_ok_def D)
  qed
  have place: "map_option udp_place \<circ> m = map_option udp_place \<circ> (map_option bare_udp \<circ> m)"
    "map_option tcp_place \<circ> m' = map_option tcp_place \<circ> (map_option bare_tcp \<circ> m')"
    for m :: "sock_id \<Rightarrow> udp_sock option" and m' :: "sock_id \<Rightarrow> tcp_sock option"
    by (simp_all add: fun_eq_iff option.map_comp comp_def bare_place)
  have "map_option udp_place \<circ> w_udp_socks w' = map_option udp_place \<circ> w_udp_socks w"
    "map_option tcp_place \<circ> w_tcp_socks w' = map_option tcp_place \<circ> w_tcp_socks w"
    using s place(1) [of "w_udp_socks w"] place(1) [of "w_udp_socks w'"]
      place(2) [of "w_tcp_socks w"] place(2) [of "w_tcp_socks w'"] by (simp_all add: same_config_def)
  then have registries: "udp_registry w'" "tcp_registry w'"
    using ok by (simp_all add: udp_registry_def tcp_registry_def D)
  have comm: "fd_to_comm_map w' = fd_to_comm_map w" using s by (simp add: same_config_def)
  have fds: "fds_ok MAX_UDP_SOCKS (w_udp_socks w') (udp_fd_to_sock w')"
    "fds_ok MAX_TCP_SOCKS (w_tcp_socks w') (tcp_fd_to_sock w')"
    using ok by (simp_all add: fds_ok_def L D)
  show ?thesis
    using ok fds nodes udps tcps registries
    by (simp add: config_ok_def same_config_maps [OF s] comms_ok_def graph_ok_def D L comm)
qed

end
