(* ===== verification/World_Step.thy ===== *)
theory World_Step
  imports World_Ok
begin

text \<open>
  The primitive updates of the state under the invariant of theory World_Ok: each keeps it, keeps
  the configuration, and leaves alone the packets in flight other than those it names.  The
  handlers are sequences of these updates.
\<close>

section \<open>Steps that keep the invariant\<close>

definition conns_kept :: "world \<Rightarrow> world \<Rightarrow> bool" where
  "conns_kept w w' \<longleftrightarrow> (\<forall>c cn. w_tcp_conns w c = Some cn \<longrightarrow>
     (\<exists>cn'. w_tcp_conns w' c = Some cn' \<and> tc_parent cn' = tc_parent cn \<and> tc_remote_ip cn' = tc_remote_ip cn))"

text \<open>From \<open>w\<close> to \<open>w'\<close>, where the packets of \<open>S\<close> may have been changed, queued or freed.\<close>

definition evolves :: "skb_id set \<Rightarrow> world \<Rightarrow> world \<Rightarrow> bool" where
  "evolves S w w' \<longleftrightarrow> wf_world w' \<and> same_config w w' \<and> w_next w \<le> w_next w' \<and> conns_kept w w' \<and>
     (\<forall>r s. r \<notin> S \<longrightarrow> flying r s w \<longrightarrow> flying r s w')"

lemma conns_kept_refl [simp]: "w_tcp_conns w' = w_tcp_conns w \<Longrightarrow> conns_kept w w'"
  by (simp add: conns_kept_def)

lemma conns_keptD:
  "conns_kept w w' \<Longrightarrow> w_tcp_conns w c = Some cn \<Longrightarrow>
   \<exists>cn'. w_tcp_conns w' c = Some cn' \<and> tc_parent cn' = tc_parent cn \<and> tc_remote_ip cn' = tc_remote_ip cn"
  by (simp add: conns_kept_def)

lemma conns_kept_trans: "conns_kept w w1 \<Longrightarrow> conns_kept w1 w2 \<Longrightarrow> conns_kept w w2"
  unfolding conns_kept_def by metis

lemma evolvesD:
  assumes "evolves S w w'"
  shows "wf_world w'" "same_config w w'" "conns_kept w w'" "w_intfs w' = w_intfs w"
    "r \<notin> S \<Longrightarrow> flying r s w \<Longrightarrow> flying r s w'"
  using assms by (simp_all add: evolves_def same_configD)

lemma evolves_refl [simp]: "evolves S w w \<longleftrightarrow> wf_world w"
  by (simp add: evolves_def)

lemma evolves_trans: "evolves S w w1 \<Longrightarrow> evolves S w1 w2 \<Longrightarrow> evolves S w w2"
  unfolding evolves_def by (meson same_config_trans conns_kept_trans le_trans)

lemma evolves_mono: "evolves S w w' \<Longrightarrow> S \<subseteq> T \<Longrightarrow> evolves T w w'"
  unfolding evolves_def by blast

lemma evolves_weaken: "evolves {} w w' \<Longrightarrow> evolves S w w'"
  by (erule evolves_mono) simp

text \<open>A packet that did not exist before, or was in a queue, is none of the caller's.\<close>

lemma evolves_only: "evolves S w w' \<Longrightarrow> (\<And>p s. p \<in> S \<Longrightarrow> \<not> flying p s w) \<Longrightarrow> evolves {} w w'"
  unfolding evolves_def by blast

lemma evolves_fresh: "evolves S w w' \<Longrightarrow> (\<And>p. p \<in> S \<Longrightarrow> w_skbs w p = None) \<Longrightarrow> evolves {} w w'"
  by (erule evolves_only) (auto simp: flying_def)

lemma evolves_queued: "evolves {p} w w' \<Longrightarrow> p \<in> set (queue q w) \<Longrightarrow> evolves {} w w'"
  by (erule evolves_only) (auto simp: flying_def)

lemma evolves_local:
  "evolves S w w' \<Longrightarrow> is_ip_local n ip w' = is_ip_local n ip w"
proof -
  assume e: "evolves S w w'"
  have "find_node_intf test n w' = find_node_intf test n w" for test
  proof -
    have "map_option node_intfs (w_nodes w' n) = map_option node_intfs (w_nodes w n)"
      using same_config_maps(1) [OF evolvesD(2) [OF e]] by (simp add: slots_map_def fun_eq_iff)
    then show ?thesis
      using find_slot_cong [OF evolvesD(4) [OF e]]
      by (cases "w_nodes w n"; cases "w_nodes w' n") (simp_all add: find_node_intf_def get_node_def)
  qed
  then show ?thesis by (simp add: is_ip_local_def)
qed

section \<open>Changes of the queues\<close>

lemma fits_cong: "w_intfs w' = w_intfs w \<Longrightarrow> fits q w' s = fits q w s"
  by (cases q) simp_all

lemma queues_okD:
  assumes "queues_ok w"
  shows "distinct (queue q w)"
    "p \<in> set (queue q w) \<Longrightarrow> \<exists>s. w_skbs w p = Some s \<and> fits q w s"
    "p \<in> set (queue q w) \<Longrightarrow> p \<in> set (queue q' w) \<Longrightarrow> q = q'"
  using assms unfolding queues_ok_def by blast+

lemma queues_same:
  assumes ok: "queues_ok w" and q: "\<And>q. queue q w' = queue q w" and i: "w_intfs w' = w_intfs w"
    and s: "\<And>p q. p \<in> set (queue q w) \<Longrightarrow> w_skbs w' p = w_skbs w p"
  shows "queues_ok w'"
  unfolding queues_ok_def q fits_cong [OF i]
proof (intro conjI allI ballI impI)
  show "distinct (queue q w)" for q by (rule queues_okD(1) [OF ok])
  show "\<exists>s. w_skbs w' p = Some s \<and> fits q w s" if "p \<in> set (queue q w)" for q p
    using queues_okD(2) [OF ok that] s [OF that] by simp
  show "q = q'" if "p \<in> set (queue q w)" "p \<in> set (queue q' w)" for p q q'
    using queues_okD(3) [OF ok that] .
qed

lemma queues_push:
  assumes ok: "queues_ok w" and p: "flying p s w" and fit: "fits q0 w s"
    and q: "\<And>q. queue q w' = (if q = q0 then p # queue q w else queue q w)"
    and i: "w_intfs w' = w_intfs w" and s: "w_skbs w' = w_skbs w"
  shows "queues_ok w'" and "r \<noteq> p \<Longrightarrow> flying r t w \<Longrightarrow> flying r t w'"
proof -
  have new: "p \<notin> set (queue q w)" "w_skbs w p = Some s" for q using p by (simp_all add: flying_def)
  show "queues_ok w'"
    unfolding queues_ok_def q fits_cong [OF i] s
  proof (intro conjI allI ballI impI)
    fix q
    show "distinct (if q = q0 then p # queue q w else queue q w)"
      using queues_okD(1) [OF ok] new by simp
    fix r
    assume r: "r \<in> set (if q = q0 then p # queue q w else queue q w)"
    then show "\<exists>s. w_skbs w r = Some s \<and> fits q w s"
      using queues_okD(2) [OF ok, of r q] new(2) fit by (cases "r = p") (auto simp: new(1) split: if_splits)
    fix q'
    assume "r \<in> set (if q' = q0 then p # queue q' w else queue q' w)"
    with r show "q = q'"
      using queues_okD(3) [OF ok, of r q q'] new(1) by (cases "r = p") (auto split: if_splits)
  qed
  show "r \<noteq> p \<Longrightarrow> flying r t w \<Longrightarrow> flying r t w'"
    by (simp add: flying_def q s)
qed

lemma queues_pop:
  assumes ok: "queues_ok w" and p: "p \<in> set (queue q0 w)"
    and q: "\<And>q. queue q w' = (if q = q0 then remove1 p (queue q w) else queue q w)"
    and i: "w_intfs w' = w_intfs w" and s: "w_skbs w' = w_skbs w"
  shows "queues_ok w'" and "\<exists>s. flying p s w' \<and> fits q0 w' s" and "flying r t w \<Longrightarrow> flying r t w'"
proof -
  have sub: "set (queue q w') \<subseteq> set (queue q w)" for q
    using set_remove1_subset [of p "queue q0 w"] by (simp add: q)
  show "queues_ok w'"
    unfolding queues_ok_def fits_cong [OF i] s
  proof (intro conjI allI ballI impI)
    show "distinct (queue q w')" for q using queues_okD(1) [OF ok] by (simp add: q)
    show "\<exists>s. w_skbs w r = Some s \<and> fits q w s" if "r \<in> set (queue q w')" for q r
      using queues_okD(2) [OF ok, of r q] sub that by blast
    show "q = q'" if "r \<in> set (queue q w')" "r \<in> set (queue q' w')" for r q q'
      using queues_okD(3) [OF ok, of r q q'] sub that by blast
  qed
  from queues_okD(2) [OF ok p] obtain s where "w_skbs w p = Some s" "fits q0 w s" by blast
  moreover have "p \<notin> set (queue q w')" for q
    using queues_okD(1) [OF ok, of q0] queues_okD(3) [OF ok p, of q] by (auto simp: q)
  ultimately show "\<exists>s. flying p s w' \<and> fits q0 w' s" by (auto simp: flying_def s fits_cong [OF i])
  show "flying r t w \<Longrightarrow> flying r t w'" using sub by (auto simp: flying_def s)
qed

section \<open>Socket buffers\<close>

lemma queue_skbs [simp]: "queue q (w\<lparr>w_skbs := m\<rparr>) = queue q w" "queue q (put_skb p s w) = queue q w"
  "queue q (w\<lparr>w_next := k\<rparr>) = queue q w" "queue q (w\<lparr>trace := es\<rparr>) = queue q w"
  by (cases q; simp add: put_skb_def)+

lemma wf_worldD:
  assumes "wf_world w"
  shows "config_ok w" "conns_ok w" "arp_ok w" "queues_ok w" "fresh_ok w"
  using assms by (simp_all add: wf_world_def)

lemma wf_worldI:
  assumes "wf_world w" and "same_config w w'" and "conns_ok w'" and "arp_ok w'" and "queues_ok w'" and "fresh_ok w'"
  shows "wf_world w'"
  using assms config_ok_same [OF wf_worldD(1) [OF assms(1)] assms(2)] by (simp add: wf_world_def)

text \<open>A change of the socket buffers only, that leaves those in the queues alone.\<close>

lemma evolves_skbs:
  assumes wf: "wf_world w"
    and w': "w_nodes w' = w_nodes w" "w_udp_socks w' = w_udp_socks w" "w_tcp_socks w' = w_tcp_socks w"
      "w_tcp_conns w' = w_tcp_conns w" "same_config w w'" "w_next w \<le> w_next w'"
    and s: "\<And>p. p \<notin> S \<Longrightarrow> w_skbs w' p = w_skbs w p" and S: "\<And>p q. p \<in> S \<Longrightarrow> p \<notin> set (queue q w)"
    and new: "\<And>p. p \<in> S \<Longrightarrow> w_skbs w' p \<noteq> None \<Longrightarrow> p < w_next w'"
  shows "evolves S w w'"
proof -
  note C = same_configD [OF w'(5)]
  have q: "queue q w' = queue q w" for q by (cases q) (simp_all add: w')
  have "queues_ok w'"
    by (rule queues_same [OF wf_worldD(4) [OF wf] q C(1)]) (use S in \<open>blast intro: s\<close>)
  moreover have "conns_ok w'" using wf_worldD(2) [OF wf] by (simp add: conns_ok_def w' C)
  moreover have "arp_ok w'" using wf_worldD(3) [OF wf] by (simp add: arp_ok_def w')
  moreover have "fresh_ok w'"
    unfolding fresh_ok_def w' C
  proof (intro allI impI)
    fix k
    assume k: "w_nodes w k \<noteq> None \<or> w_intfs w k \<noteq> None \<or> w_links w k \<noteq> None \<or> w_skbs w' k \<noteq> None \<or>
      w_udp_socks w k \<noteq> None \<or> w_tcp_socks w k \<noteq> None \<or> w_tcp_conns w k \<noteq> None \<or> w_graphs w k \<noteq> None"
    show "k < w_next w'"
    proof (cases "k \<in> S \<and> w_skbs w' k \<noteq> None")
      case False
      then have "w_skbs w' k \<noteq> None \<Longrightarrow> w_skbs w k \<noteq> None" using s [of k] by auto
      then have "k < w_next w" using k wf_worldD(5) [OF wf] unfolding fresh_ok_def by blast
      with w'(6) show ?thesis by simp
    qed (use new in blast)
  qed
  ultimately have "wf_world w'" using wf_worldI [OF wf w'(5)] by blast
  moreover have "flying r t w \<Longrightarrow> r \<notin> S \<Longrightarrow> flying r t w'" for r t by (simp add: flying_def q s)
  ultimately show ?thesis using w'(5,6) by (simp add: evolves_def w'(4))
qed

lemma flying_live: "wf_world w \<Longrightarrow> flying p s w \<Longrightarrow> p < w_next w"
  using wf_worldD(5) by (auto simp: flying_def fresh_ok_def)

lemma evolves_put_skb:
  assumes "wf_world w" and "flying p s w"
  shows "evolves {p} w (put_skb p s' w)" and "flying p s' (put_skb p s' w)"
proof -
  show "evolves {p} w (put_skb p s' w)"
    by (rule evolves_skbs [OF assms(1)])
      (use assms flying_live [OF assms] in \<open>auto simp: put_skb_def same_config_def flying_def\<close>)
  show "flying p s' (put_skb p s' w)" using assms(2) by (simp add: flying_def put_skb_def)
qed

lemma free_skb_safe:
  assumes "wf_world w" and "flying p s w"
  shows "runs no_fault (evolves {p} w) (free_skb p w)"
proof -
  have "evolves {p} w (w\<lparr>w_skbs := (w_skbs w)(p := None)\<rparr>)"
    by (rule evolves_skbs [OF assms(1)]) (use assms(2) in \<open>auto simp: same_config_def flying_def\<close>)
  then show ?thesis using assms(2) by (simp add: free_skb_def flying_def)
qed

lemma new_skb_safe:
  assumes wf: "wf_world w" and "new_skb s w = (p, w')"
  shows "evolves {} w w'" "flying p s w'" "w_skbs w p = None" "p = w_next w"
proof -
  have p: "p = w_next w" and w': "w' = (put_skb p s w)\<lparr>w_next := Suc p\<rparr>" using assms(2) by (auto simp: new_skb_def)
  then show "p = w_next w" by simp
  show none: "w_skbs w p = None" using wf_worldD(5) [OF wf] p by (auto simp: fresh_ok_def)
  have q: "p \<notin> set (queue q w)" for q using queues_okD(2) [OF wf_worldD(4) [OF wf], of p q] none by auto
  have "evolves {p} w w'"
    by (rule evolves_skbs [OF wf]) (use q in \<open>auto simp: w' p put_skb_def same_config_def\<close>)
  then show "evolves {} w w'" by (rule evolves_fresh) (simp add: none)
  show "flying p s w'" using q by (simp add: w' flying_def) (simp add: put_skb_def)
qed

lemma evolves_trace:
  assumes "wf_world w"
  shows "evolves {} w (w\<lparr>trace := es\<rparr>)"
  by (rule evolves_skbs [OF assms]) (auto simp: same_config_def)


section \<open>Updates that keep the socket buffers\<close>

lemma evolvesI:
  assumes wf: "wf_world w" and c: "same_config w w'" and ok: "conns_ok w'" "arp_ok w'" "queues_ok w'"
    and s: "w_skbs w' = w_skbs w" and k: "conns_kept w w'"
    and n: "w_next w \<le> w_next w'" "\<And>c. w_tcp_conns w' c \<noteq> None \<Longrightarrow> c < w_next w'"
    and fl: "\<And>r t. r \<notin> S \<Longrightarrow> flying r t w \<Longrightarrow> flying r t w'"
  shows "evolves S w w'"
proof -
  have "fresh_ok w'"
    unfolding fresh_ok_def
  proof (intro allI impI)
    fix k
    assume a: "w_nodes w' k \<noteq> None \<or> w_intfs w' k \<noteq> None \<or> w_links w' k \<noteq> None \<or> w_skbs w' k \<noteq> None \<or>
      w_udp_socks w' k \<noteq> None \<or> w_tcp_socks w' k \<noteq> None \<or> w_tcp_conns w' k \<noteq> None \<or> w_graphs w' k \<noteq> None"
    show "k < w_next w'"
    proof (cases "w_tcp_conns w' k = None")
      case True
      with a have "k < w_next w"
        using wf_worldD(5) [OF wf] unfolding fresh_ok_def same_config_live [OF c] same_configD [OF c] s by blast
      with n(1) show ?thesis by simp
    qed (use n(2) in blast)
  qed
  then have "wf_world w'" using wf_worldI [OF wf c ok] by blast
  then show ?thesis using c k n(1) fl by (simp add: evolves_def)
qed

lemma map_option_comp_upd:
  "m k = Some x \<Longrightarrow> f y = f x \<Longrightarrow> map_option f \<circ> m(k \<mapsto> y) = map_option f \<circ> m"
  by (auto simp: fun_eq_iff)

lemma conns_below: "wf_world w \<Longrightarrow> w_tcp_conns w c \<noteq> None \<Longrightarrow> c < w_next w"
  using wf_worldD(5) by (auto simp: fresh_ok_def)

section \<open>ARP tables\<close>

lemma queue_put_node:
  "queue q (put_node n nd w) = (case q of
     Arp_queue m ip \<Rightarrow> if m = n
       then (case arp_table_lookup (arp_table nd) ip of None \<Rightarrow> [] | Some e \<Rightarrow> arp_pending_pkts e) else queue q w
   | _ \<Rightarrow> queue q w)"
  by (cases q) (simp_all add: put_node_def)

lemma same_config_arp: "w_nodes w n = Some nd \<Longrightarrow> same_config w (put_node n (nd\<lparr>arp_table := tbl\<rparr>) w)"
  by (auto simp: same_config_def put_node_def bare_node_def intro!: map_option_comp_upd)

lemma evolves_arp:
  assumes wf: "wf_world w" and nd: "w_nodes w n = Some nd"
    and mac: "\<And>e. e \<in> set tbl \<Longrightarrow> length (arp_mac e) = 6"
    and q: "queues_ok (put_node n (nd\<lparr>arp_table := tbl\<rparr>) w)"
    and fl: "\<And>r t. r \<notin> S \<Longrightarrow> flying r t w \<Longrightarrow> flying r t (put_node n (nd\<lparr>arp_table := tbl\<rparr>) w)"
  shows "evolves S w (put_node n (nd\<lparr>arp_table := tbl\<rparr>) w)"
proof (rule evolvesI [OF wf same_config_arp [OF nd] _ _ q _ _ _ _ fl])
  show "conns_ok (put_node n (nd\<lparr>arp_table := tbl\<rparr>) w)"
    using wf_worldD(2) [OF wf] by (simp add: conns_ok_def put_node_def)
  show "arp_ok (put_node n (nd\<lparr>arp_table := tbl\<rparr>) w)"
    using wf_worldD(3) [OF wf] mac by (simp add: arp_ok_def put_node_def)
qed (use conns_below [OF wf] in \<open>auto simp: put_node_def\<close>)

lemma arp_table_set_in: "e \<in> set (arp_table_set ip f tbl) \<Longrightarrow> e \<in> set tbl \<or> (\<exists>e' \<in> set tbl. e = f e')"
  by (induction tbl) (auto split: if_splits)

lemma arp_mac_length: "wf_world w \<Longrightarrow> w_nodes w n = Some nd \<Longrightarrow> e \<in> set (arp_table nd) \<Longrightarrow> length (arp_mac e) = 6"
  using wf_worldD(3) by (auto simp: arp_ok_def)

lemma set_arp_entry_eq:
  "w_nodes w n = Some nd \<Longrightarrow>
   set_arp_entry n ip f w = Inr (put_node n (nd\<lparr>arp_table := arp_table_set ip f (arp_table nd)\<rparr>) w)"
  by (simp add: set_arp_entry_def get_node_def)

lemma queue_set_arp:
  assumes "w_nodes w n = Some nd" and "\<And>e. arp_ip (f e) = arp_ip e" and "arp_table_lookup (arp_table nd) ip = Some e"
  shows "queue q (put_node n (nd\<lparr>arp_table := arp_table_set ip f (arp_table nd)\<rparr>) w) =
    (if q = Arp_queue n ip then arp_pending_pkts (f e) else queue q w)"
  using assms by (cases q) (auto simp: queue_put_node arp_lookup_set)

text \<open>Queueing a packet behind an entry, taking one out, and resolving the entry.\<close>

lemma arp_push_safe:
  assumes wf: "wf_world w" and nd: "w_nodes w n = Some nd" and e: "arp_table_lookup (arp_table nd) ip = Some e"
    and p: "flying p s w" and room: "frame_room s" "skb_intf s = Some i" "w_intfs w i \<noteq> None"
  shows "runs no_fault (evolves {p} w) (set_arp_entry n ip (\<lambda>e. e\<lparr>arp_pending_pkts := p # arp_pending_pkts e\<rparr>) w)"
proof -
  let ?f = "\<lambda>e. e\<lparr>arp_pending_pkts := p # arp_pending_pkts e\<rparr>"
  let ?w = "put_node n (nd\<lparr>arp_table := arp_table_set ip ?f (arp_table nd)\<rparr>) w"
  have fit: "fits (Arp_queue n ip) w s" using room by simp
  have q: "queue q ?w = (if q = Arp_queue n ip then p # queue q w else queue q w)" for q
    using queue_set_arp [OF nd _ e, of ?f q] nd e by simp
  note push = queues_push [OF wf_worldD(4) [OF wf] p fit q]
  have "evolves {p} w ?w"
  proof (rule evolves_arp [OF wf nd])
    show "length (arp_mac e') = 6" if "e' \<in> set (arp_table_set ip ?f (arp_table nd))" for e'
      using arp_table_set_in [OF that] arp_mac_length [OF wf nd] by auto
  qed (use push in \<open>auto simp: put_node_def\<close>)
  then show ?thesis by (simp add: set_arp_entry_eq [OF nd])
qed

lemma arp_pop_safe:
  assumes wf: "wf_world w" and nd: "w_nodes w n = Some nd" and p: "p \<in> set (queue (Arp_queue n ip) w)"
  shows "runs no_fault
    (\<lambda>w'. evolves {} w w' \<and> (\<exists>s i. flying p s w' \<and> frame_room s \<and> skb_intf s = Some i \<and> w_intfs w' i \<noteq> None) \<and>
      queue (Arp_queue n ip) w' = remove1 p (queue (Arp_queue n ip) w))
    (set_arp_entry n ip (\<lambda>e. e\<lparr>arp_pending_pkts := remove1 p (arp_pending_pkts e)\<rparr>) w)"
proof -
  let ?f = "\<lambda>e. e\<lparr>arp_pending_pkts := remove1 p (arp_pending_pkts e)\<rparr>"
  let ?w = "put_node n (nd\<lparr>arp_table := arp_table_set ip ?f (arp_table nd)\<rparr>) w"
  obtain e where e: "arp_table_lookup (arp_table nd) ip = Some e" using p nd
    by (cases "arp_table_lookup (arp_table nd) ip") auto
  have q: "queue q ?w = (if q = Arp_queue n ip then remove1 p (queue q w) else queue q w)" for q
    using queue_set_arp [OF nd _ e, of ?f q] nd e by simp
  have u: "w_intfs ?w = w_intfs w" "w_skbs ?w = w_skbs w" by (simp_all add: put_node_def)
  note pop = queues_pop [OF wf_worldD(4) [OF wf] p q u]
  have "evolves {} w ?w"
  proof (rule evolves_arp [OF wf nd])
    show "length (arp_mac e') = 6" if "e' \<in> set (arp_table_set ip ?f (arp_table nd))" for e'
      using arp_table_set_in [OF that] arp_mac_length [OF wf nd] by auto
  qed (use pop in auto)
  moreover from pop(2) obtain s where "flying p s ?w" "fits (Arp_queue n ip) ?w s" by blast
  ultimately show ?thesis
    unfolding set_arp_entry_eq [OF nd] runs_simps using q [of "Arp_queue n ip"] by auto
qed

lemma arp_resolve_safe:
  assumes wf: "wf_world w" and nd: "w_nodes w n = Some nd" and mac: "length mac = 6"
    and e: "arp_table_lookup (arp_table nd) ip = Some e"
  shows "runs no_fault (\<lambda>w'. evolves {} w w' \<and> (\<forall>q. queue q w' = queue q w))
    (set_arp_entry n ip (\<lambda>e. e\<lparr>arp_resolved := True, arp_mac := mac\<rparr>) w)"
proof -
  let ?f = "\<lambda>e. e\<lparr>arp_resolved := True, arp_mac := mac\<rparr>"
  let ?w = "put_node n (nd\<lparr>arp_table := arp_table_set ip ?f (arp_table nd)\<rparr>) w"
  have q: "queue q ?w = queue q w" for q
    using queue_set_arp [OF nd _ e, of ?f q] nd e by simp
  have "queues_ok ?w"
    by (rule queues_same [OF wf_worldD(4) [OF wf] q]) (simp_all add: put_node_def)
  have "evolves {} w ?w"
  proof (rule evolves_arp [OF wf nd _ \<open>queues_ok ?w\<close>])
    show "length (arp_mac e') = 6" if "e' \<in> set (arp_table_set ip ?f (arp_table nd))" for e'
      using arp_table_set_in [OF that] arp_mac_length [OF wf nd] mac by auto
    show "flying r t w \<Longrightarrow> flying r t ?w" for r t unfolding flying_def q by (simp add: put_node_def)
  qed
  with q show ?thesis by (simp add: set_arp_entry_eq [OF nd])
qed

lemma arp_add_safe:
  assumes wf: "wf_world w" and nd: "w_nodes w n = Some nd" and none: "arp_table_lookup (arp_table nd) ip = None"
  shows "evolves {} w (put_node n (nd\<lparr>arp_table := snd (arp_table_entry_add (arp_table nd) (init_arp_entry ip i))\<rparr>) w)"
proof -
  let ?w = "put_node n (nd\<lparr>arp_table := snd (arp_table_entry_add (arp_table nd) (init_arp_entry ip i))\<rparr>) w"
  have q: "queue q ?w = queue q w" for q
    using nd none by (cases q) (auto simp: queue_put_node init_arp_entry_def)
  have "queues_ok ?w"
    by (rule queues_same [OF wf_worldD(4) [OF wf] q]) (simp_all add: put_node_def)
  show ?thesis
  proof (rule evolves_arp [OF wf nd _ \<open>queues_ok ?w\<close>])
    show "length (arp_mac e) = 6" if "e \<in> set (snd (arp_table_entry_add (arp_table nd) (init_arp_entry ip i)))" for e
      using that arp_mac_length [OF wf nd] by (auto simp: arp_table_entry_add_def init_arp_entry_def MAC_ADDR_SIZE_def)
    show "flying r t w \<Longrightarrow> flying r t ?w" for r t unfolding flying_def q by (simp add: put_node_def)
  qed
qed


section \<open>UDP sockets\<close>

lemma queue_put_udp: "queue q (put_udp_sock u sk w) = (if q = Udp_queue u then us_rx_skb sk else queue q w)"
  by (cases q) (auto simp: put_udp_sock_def)

lemma evolves_udp:
  assumes wf: "wf_world w" and sk: "w_udp_socks w u = Some sk"
    and q: "queues_ok (put_udp_sock u (sk\<lparr>us_rx_skb := xs\<rparr>) w)"
    and fl: "\<And>r t. r \<notin> S \<Longrightarrow> flying r t w \<Longrightarrow> flying r t (put_udp_sock u (sk\<lparr>us_rx_skb := xs\<rparr>) w)"
  shows "evolves S w (put_udp_sock u (sk\<lparr>us_rx_skb := xs\<rparr>) w)"
proof (rule evolvesI [OF wf _ _ _ q _ _ _ _ fl])
  let ?w = "put_udp_sock u (sk\<lparr>us_rx_skb := xs\<rparr>) w"
  show "same_config w ?w"
    using sk by (auto simp: same_config_def put_udp_sock_def bare_udp_def intro!: map_option_comp_upd)
  show "conns_ok ?w" using wf_worldD(2) [OF wf] by (simp add: conns_ok_def put_udp_sock_def)
  show "arp_ok ?w" using wf_worldD(3) [OF wf] by (simp add: arp_ok_def put_udp_sock_def)
qed (use conns_below [OF wf] in \<open>auto simp: put_udp_sock_def\<close>)

lemma udp_push_safe:
  assumes wf: "wf_world w" and sk: "w_udp_socks w u = Some sk" and p: "flying p s w" and fit: "fits (Udp_queue u) w s"
  shows "evolves {p} w (put_udp_sock u (sk\<lparr>us_rx_skb := p # us_rx_skb sk\<rparr>) w)"
proof -
  let ?w = "put_udp_sock u (sk\<lparr>us_rx_skb := p # us_rx_skb sk\<rparr>) w"
  have q: "queue q ?w = (if q = Udp_queue u then p # queue q w else queue q w)" for q
    by (simp add: queue_put_udp sk)
  note push = queues_push [OF wf_worldD(4) [OF wf] p fit q]
  show ?thesis by (rule evolves_udp [OF wf sk]) (use push in \<open>auto simp: put_udp_sock_def\<close>)
qed

lemma udp_pop_safe:
  assumes wf: "wf_world w" and sk: "w_udp_socks w u = Some sk" and p: "p \<in> set (us_rx_skb sk)"
  shows "evolves {} w (put_udp_sock u (sk\<lparr>us_rx_skb := remove1 p (us_rx_skb sk)\<rparr>) w)"
    and "\<exists>s. flying p s (put_udp_sock u (sk\<lparr>us_rx_skb := remove1 p (us_rx_skb sk)\<rparr>) w)"
proof -
  let ?w = "put_udp_sock u (sk\<lparr>us_rx_skb := remove1 p (us_rx_skb sk)\<rparr>) w"
  have q: "queue q ?w = (if q = Udp_queue u then remove1 p (queue q w) else queue q w)" for q
    by (simp add: queue_put_udp sk)
  have pq: "p \<in> set (queue (Udp_queue u) w)" using sk p by simp
  have u: "w_intfs ?w = w_intfs w" "w_skbs ?w = w_skbs w" by (simp_all add: put_udp_sock_def)
  note pop = queues_pop [OF wf_worldD(4) [OF wf] pq q u]
  show "evolves {} w ?w" by (rule evolves_udp [OF wf sk]) (use pop in auto)
  show "\<exists>s. flying p s ?w" using pop(2) by blast
qed

section \<open>TCP connections\<close>

lemma queue_put_conn: "queue q (put_tcp_conn c cn w) = (if q = Tcp_queue c then tc_rx_skb cn else queue q w)"
  by (cases q) (auto simp: put_tcp_conn_def)

lemma conns_okD:
  assumes "conns_ok w"
  shows "w_tcp_conns w c = Some cn \<Longrightarrow> \<exists>sk. w_tcp_socks w (tc_parent cn) = Some sk \<and> ts_bound sk"
    "w_tcp_socks w t = Some sk \<Longrightarrow> c \<in> set (ts_conns sk) \<Longrightarrow> \<exists>cn. w_tcp_conns w c = Some cn \<and> tc_parent cn = t"
    "length (fd_conn_to_sock w) = MAX_TCP_CONN_SOCKS" "Some c \<in> set (fd_conn_to_sock w) \<Longrightarrow> w_tcp_conns w c \<noteq> None"
  using assms unfolding conns_ok_def by blast+

lemma evolves_conn:
  assumes wf: "wf_world w" and cn: "w_tcp_conns w c = Some cn"
    and k: "tc_parent cn' = tc_parent cn" "tc_remote_ip cn' = tc_remote_ip cn"
    and q: "queues_ok (put_tcp_conn c cn' w)"
    and fl: "\<And>r t. r \<notin> S \<Longrightarrow> flying r t w \<Longrightarrow> flying r t (put_tcp_conn c cn' w)"
  shows "evolves S w (put_tcp_conn c cn' w)"
proof (rule evolvesI [OF wf _ _ _ q _ _ _ _ fl])
  let ?w = "put_tcp_conn c cn' w"
  note C = conns_okD [OF wf_worldD(2) [OF wf]]
  have u: "w_tcp_socks ?w = w_tcp_socks w" "fd_conn_to_sock ?w = fd_conn_to_sock w"
    "w_tcp_conns ?w = (w_tcp_conns w)(c \<mapsto> cn')" by (simp_all add: put_tcp_conn_def)
  show "same_config w ?w" by (simp add: same_config_def put_tcp_conn_def)
  show "conns_ok ?w"
    unfolding conns_ok_def u
  proof (intro conjI allI impI ballI)
    show "\<exists>sk. w_tcp_socks w (tc_parent x) = Some sk \<and> ts_bound sk" if "((w_tcp_conns w)(c \<mapsto> cn')) d = Some x" for d x
      using that C(1) [OF cn] C(1) [of d x] k by (auto split: if_splits)
    show "\<exists>x. ((w_tcp_conns w)(c \<mapsto> cn')) d = Some x \<and> tc_parent x = t"
      if "w_tcp_socks w t = Some sk" "d \<in> set (ts_conns sk)" for t sk d
      using C(2) [OF that] cn k by auto
    show "((w_tcp_conns w)(c \<mapsto> cn')) d \<noteq> None" if "Some d \<in> set (fd_conn_to_sock w)" for d
      using C(4) [OF that] by simp
  qed (rule C(3))
  show "arp_ok ?w" using wf_worldD(3) [OF wf] by (simp add: arp_ok_def put_tcp_conn_def)
  show "conns_kept w ?w" using cn k by (auto simp: conns_kept_def u)
  show "d < w_next ?w" if "w_tcp_conns ?w d \<noteq> None" for d
    using that cn conns_below [OF wf, of d] conns_below [OF wf, of c] by (auto simp: put_tcp_conn_def split: if_splits)
qed (simp_all add: put_tcp_conn_def)

lemma conn_update_safe:
  assumes wf: "wf_world w" and cn: "w_tcp_conns w c = Some cn"
    and k: "tc_parent cn' = tc_parent cn" "tc_remote_ip cn' = tc_remote_ip cn" "tc_rx_skb cn' = tc_rx_skb cn"
  shows "evolves {} w (put_tcp_conn c cn' w)"
proof -
  have q: "queue q (put_tcp_conn c cn' w) = queue q w" for q by (simp add: queue_put_conn cn k)
  have "queues_ok (put_tcp_conn c cn' w)"
    by (rule queues_same [OF wf_worldD(4) [OF wf] q]) (simp_all add: put_tcp_conn_def)
  from evolves_conn [OF wf cn k(1,2) this] show ?thesis
    unfolding flying_def q by (simp add: put_tcp_conn_def)
qed

lemma tcp_push_safe:
  assumes wf: "wf_world w" and cn: "w_tcp_conns w c = Some cn" and p: "flying p s w" and fit: "wf_skb s"
    and k: "tc_parent cn' = tc_parent cn" "tc_remote_ip cn' = tc_remote_ip cn" "tc_rx_skb cn' = p # tc_rx_skb cn"
  shows "evolves {p} w (put_tcp_conn c cn' w)"
proof -
  have q: "queue q (put_tcp_conn c cn' w) = (if q = Tcp_queue c then p # queue q w else queue q w)" for q
    by (simp add: queue_put_conn cn k)
  have fits: "fits (Tcp_queue c) w s" using fit by simp
  note push = queues_push [OF wf_worldD(4) [OF wf] p fits q]
  show ?thesis by (rule evolves_conn [OF wf cn k(1,2)]) (use push in \<open>auto simp: put_tcp_conn_def\<close>)
qed

lemma tcp_pop_safe:
  assumes wf: "wf_world w" and cn: "w_tcp_conns w c = Some cn" and p: "p \<in> set (tc_rx_skb cn)"
  shows "evolves {} w (put_tcp_conn c (cn\<lparr>tc_rx_skb := remove1 p (tc_rx_skb cn)\<rparr>) w)"
    and "\<exists>s. flying p s (put_tcp_conn c (cn\<lparr>tc_rx_skb := remove1 p (tc_rx_skb cn)\<rparr>) w)"
proof -
  let ?w = "put_tcp_conn c (cn\<lparr>tc_rx_skb := remove1 p (tc_rx_skb cn)\<rparr>) w"
  have q: "queue q ?w = (if q = Tcp_queue c then remove1 p (queue q w) else queue q w)" for q
    by (simp add: queue_put_conn cn)
  have pq: "p \<in> set (queue (Tcp_queue c) w)" using cn p by simp
  have u: "w_intfs ?w = w_intfs w" "w_skbs ?w = w_skbs w" by (simp_all add: put_tcp_conn_def)
  note pop = queues_pop [OF wf_worldD(4) [OF wf] pq q u]
  show "evolves {} w ?w" by (rule evolves_conn [OF wf cn]) (use pop in auto)
  show "\<exists>s. flying p s ?w" using pop(2) by blast
qed

section \<open>TCP sockets\<close>

lemma queue_put_tcp [simp]: "queue q (put_tcp_sock t sk w) = queue q w"
  by (cases q) (simp_all add: put_tcp_sock_def)

lemma same_config_tcp:
  "w_tcp_socks w t = Some sk \<Longrightarrow> same_config w (put_tcp_sock t (sk\<lparr>ts_conns := cs, ts_closed_conns := ds\<rparr>) w)"
  by (auto simp: same_config_def put_tcp_sock_def bare_tcp_def intro!: map_option_comp_upd)

text \<open>Closing moves a connection from one list of its socket to the other.\<close>

lemma tcp_close_conn_safe:
  assumes wf: "wf_world w" and sk: "w_tcp_socks w t = Some sk"
  shows "evolves {} w (put_tcp_sock t (sk\<lparr>ts_conns := remove1 c (ts_conns sk), ts_closed_conns := ds\<rparr>) w)"
proof (rule evolvesI [OF wf same_config_tcp [OF sk]])
  let ?w = "put_tcp_sock t (sk\<lparr>ts_conns := remove1 c (ts_conns sk), ts_closed_conns := ds\<rparr>) w"
  note C = conns_okD [OF wf_worldD(2) [OF wf]]
  show "conns_ok ?w"
    unfolding conns_ok_def
  proof (intro conjI allI impI ballI)
    show "\<exists>y. w_tcp_socks ?w (tc_parent x) = Some y \<and> ts_bound y" if "w_tcp_conns ?w d = Some x" for d x
      using C(1) [of d x] that sk by (auto simp: put_tcp_sock_def)
    show "\<exists>x. w_tcp_conns ?w d = Some x \<and> tc_parent x = u"
      if u: "w_tcp_socks ?w u = Some y" and d: "d \<in> set (ts_conns y)" for u y d
    proof (cases "u = t")
      case True
      then have "d \<in> set (ts_conns sk)" using u d set_remove1_subset [of c "ts_conns sk"] by (auto simp: put_tcp_sock_def)
      from C(2) [OF sk this] True show ?thesis by (simp add: put_tcp_sock_def)
    next
      case False
      with u d C(2) [of u y d] show ?thesis by (simp add: put_tcp_sock_def)
    qed
  qed (use C(3,4) in \<open>simp_all add: put_tcp_sock_def\<close>)
  show "arp_ok ?w" using wf_worldD(3) [OF wf] by (simp add: arp_ok_def put_tcp_sock_def)
  show "queues_ok ?w" by (rule queues_same [OF wf_worldD(4) [OF wf] queue_put_tcp]) (simp_all add: put_tcp_sock_def)
  show "flying r x w \<Longrightarrow> flying r x ?w" for r x by (simp add: flying_def) (simp add: put_tcp_sock_def)
qed (use conns_below [OF wf] in \<open>auto simp: put_tcp_sock_def\<close>)

text \<open>A new connection at the address nothing else has, at the head of its bound socket.\<close>

lemma tcp_new_conn_safe:
  assumes wf: "wf_world w" and sk: "w_tcp_socks w t = Some sk" and b: "ts_bound sk"
    and cn: "tc_parent cn = t" "tc_rx_skb cn = []" and c: "c = w_next w"
  shows "evolves {} w (put_tcp_sock t (sk\<lparr>ts_conns := c # ts_conns sk\<rparr>) ((put_tcp_conn c cn w)\<lparr>w_next := Suc c\<rparr>))"
proof -
  let ?v = "(put_tcp_conn c cn w)\<lparr>w_next := Suc c\<rparr>"
  let ?w = "put_tcp_sock t (sk\<lparr>ts_conns := c # ts_conns sk\<rparr>) ?v"
  note C = conns_okD [OF wf_worldD(2) [OF wf]]
  have new: "w_tcp_conns w c = None" using conns_below [OF wf, of c] c by (cases "w_tcp_conns w c") auto
  have u: "w_tcp_socks ?w = (w_tcp_socks w)(t \<mapsto> sk\<lparr>ts_conns := c # ts_conns sk\<rparr>)"
    "w_tcp_conns ?w = (w_tcp_conns w)(c \<mapsto> cn)" "fd_conn_to_sock ?w = fd_conn_to_sock w" "w_next ?w = Suc c"
    "w_skbs ?w = w_skbs w" "w_intfs ?w = w_intfs w" "w_nodes ?w = w_nodes w"
    by (simp_all add: put_tcp_sock_def put_tcp_conn_def)
  have q: "queue q ?w = queue q w" for q using cn(2) new by (simp add: queue_put_conn)
  have "same_config w ?v" by (simp add: same_config_def put_tcp_conn_def)
  moreover have "same_config ?v ?w"
    using same_config_tcp [of ?v t sk "ts_closed_conns sk" "c # ts_conns sk"] sk by (simp add: put_tcp_conn_def)
  ultimately have config: "same_config w ?w" by (rule same_config_trans)
  show ?thesis
  proof (rule evolvesI [OF wf config])
    show "conns_ok ?w"
      unfolding conns_ok_def u
    proof (intro conjI allI impI ballI)
      show "\<exists>y. ((w_tcp_socks w)(t \<mapsto> sk\<lparr>ts_conns := c # ts_conns sk\<rparr>)) (tc_parent x) = Some y \<and> ts_bound y"
        if "((w_tcp_conns w)(c \<mapsto> cn)) d = Some x" for d x
        using C(1) [of d x] that sk b cn(1) by (auto split: if_splits)
      show "\<exists>x. ((w_tcp_conns w)(c \<mapsto> cn)) d = Some x \<and> tc_parent x = v"
        if "((w_tcp_socks w)(t \<mapsto> sk\<lparr>ts_conns := c # ts_conns sk\<rparr>)) v = Some y" "d \<in> set (ts_conns y)" for v y d
        using that C(2) [of v y d] C(2) [OF sk, of d] cn(1) new by (cases "d = c") (auto split: if_splits)
      show "((w_tcp_conns w)(c \<mapsto> cn)) d \<noteq> None" if "Some d \<in> set (fd_conn_to_sock w)" for d
        using C(4) [OF that] by simp
    qed (rule C(3))
    show "arp_ok ?w" using wf_worldD(3) [OF wf] by (simp add: arp_ok_def u)
    show "queues_ok ?w" by (rule queues_same [OF wf_worldD(4) [OF wf] q]) (simp_all add: u)
    show "conns_kept w ?w" using new by (auto simp: conns_kept_def u)
    show "flying r x w \<Longrightarrow> flying r x ?w" for r x unfolding flying_def q u .
    show "d < w_next ?w" if "w_tcp_conns ?w d \<noteq> None" for d
    proof (cases "d = c")
      case False
      with that have "w_tcp_conns w d \<noteq> None" unfolding u by simp
      from conns_below [OF wf this] show ?thesis unfolding u using c by simp
    qed (simp add: u(4))
    show "w_next w \<le> w_next ?w" unfolding u using c by simp
    show "w_skbs ?w = w_skbs w" by (rule u(5))
  qed
qed

declare queue.simps [simp del]

end
