(* ===== verification/Transmit.thy ===== *)
theory Transmit
  imports Arp
begin

text \<open>
  What sending amounts to on an interface that is up: the frame goes out as one event and the
  buffer is freed.  From this follow the frames of ARP requests and replies, the answer to a
  request, and the release of the packets that wait for a reply.
\<close>

section \<open>An interface that is up\<close>

text \<open>
  The event a frame becomes on an interface: a datagram to the port of the far end of the link,
  or a write to the TAP descriptor.
\<close>

definition wire :: "intf_id \<Rightarrow> world \<Rightarrow> (u8 list \<Rightarrow> event) option" where
  "wire i w =
    (case w_intfs w i of
       None \<Rightarrow> None
     | Some x \<Rightarrow>
         (case comm_ops (if_comm x) of
            None \<Rightarrow> None
          | Some Tuntap_comm_ops \<Rightarrow> Some (Ev_write (comm_fd (if_comm x)))
          | Some Udp_comm_ops \<Rightarrow>
              (case get_nbr_if i w of
                 Inr (Some j) \<Rightarrow>
                   (case w_intfs w j of
                      None \<Rightarrow> None
                    | Some y \<Rightarrow>
                        if comm_port (if_comm y) = 0 \<or> comm_fd (if_comm x) = 0 then None
                        else Some (Ev_sendto (comm_fd (if_comm x)) (comm_port (if_comm y))))
               | _ \<Rightarrow> None)))"

text \<open>The operating system takes every frame written to the TAP device.\<close>

definition accepting :: "os \<Rightarrow> intf_id \<Rightarrow> world \<Rightarrow> bool" where
  "accepting os i w \<longleftrightarrow>
    (\<forall>x. w_intfs w i = Some x \<longrightarrow> comm_ops (if_comm x) = Some Tuntap_comm_ops \<longrightarrow>
       (\<forall>tr bytes. 0 \<le> os_write os tr (comm_fd (if_comm x)) bytes))"

definition up :: "os \<Rightarrow> intf_id \<Rightarrow> (u8 list \<Rightarrow> event) \<Rightarrow> world \<Rightarrow> bool" where
  "up os i ev w \<longleftrightarrow> wire i w = Some ev \<and> accepting os i w"

definition sent :: "(u8 list \<Rightarrow> event) \<Rightarrow> intf_id \<Rightarrow> world \<Rightarrow> u8 list \<Rightarrow> event list" where
  "sent ev i w bytes = (if send_callback w then [Ev_send_callback bytes i] else []) @ [ev bytes]"

lemma get_nbr_if_cong:
  assumes "w_intfs w' = w_intfs w" and "w_links w' = w_links w"
  shows "get_nbr_if i w' = get_nbr_if i w"
  unfolding get_nbr_if_def get_intf_def get_link_def assms ..

lemma up_cong:
  assumes "w_intfs w' = w_intfs w" and "w_links w' = w_links w"
  shows "up os i ev w' = up os i ev w"
  unfolding up_def wire_def accepting_def get_nbr_if_cong [OF assms] assms ..

lemma up_intf: "up os i ev w \<Longrightarrow> \<exists>x. get_intf i w = Inr x"
  by (auto simp: up_def wire_def get_intf_def split: option.splits)

lemma send_bytes_out_up:
  assumes "up os i ev w"
  shows "\<exists>r \<ge> 0. send_bytes_out os bytes i w = Inr (r, w\<lparr>trace := trace w @ sent ev i w bytes\<rparr>)"
proof -
  let ?w1 = "if send_callback w then emit (Ev_send_callback bytes i) w else w"
  have w1: "w_intfs ?w1 = w_intfs w" "w_links ?w1 = w_links w" by (simp_all add: emit_def)
  from assms obtain x where x: "w_intfs w i = Some x" by (auto simp: up_def wire_def split: option.splits)
  from assms x obtain ops where ops: "comm_ops (if_comm x) = Some ops"
    by (auto simp: up_def wire_def split: option.splits)
  have out: "emit (ev bytes) ?w1 = w\<lparr>trace := trace w @ sent ev i w bytes\<rparr>" by (simp add: emit_def sent_def)
  show ?thesis
  proof (cases ops)
    case Udp_comm_ops
    from assms x ops Udp_comm_ops obtain j y where j: "get_nbr_if i w = Inr (Some j)" "w_intfs w j = Some y"
      "comm_port (if_comm y) \<noteq> 0" "comm_fd (if_comm x) \<noteq> 0"
      "ev = Ev_sendto (comm_fd (if_comm x)) (comm_port (if_comm y))"
      by (auto simp: up_def wire_def split: option.splits sum.splits if_splits)
    have "get_nbr_if i ?w1 = Inr (Some j)" using j(1) get_nbr_if_cong [OF w1, of i] by simp
    then show ?thesis
      using x ops Udp_comm_ops j(2-5) out w1
      by (auto simp: send_bytes_out_def udp_send_bytes_def get_intf_def Let_def)
  next
    case Tuntap_comm_ops
    with assms x ops have "ev = Ev_write (comm_fd (if_comm x))" "0 \<le> os_write os (trace ?w1) (comm_fd (if_comm x)) bytes"
      by (auto simp: up_def wire_def accepting_def)
    then show ?thesis
      using x ops Tuntap_comm_ops out w1 by (auto simp: send_bytes_out_def tuntap_send_bytes_def get_intf_def Let_def)
  qed
qed

text \<open>On an interface that is up \<open>ethernet_output\<close> sends one frame and frees the buffer.\<close>

lemma ethernet_output_up:
  assumes p: "get_skb p w = Inr s" and room: "frame_room s" and up: "up os i ev w" and i: "get_intf i w = Inr x"
    and macs: "length mac = 6" "length (if_mac x) = 6"
  shows "ethernet_output os i mac proto p w =
    Inr (True, w\<lparr>trace := trace w @ sent ev i w (frame_of x mac proto s), w_skbs := (w_skbs w)(p := None)\<rparr>)"
proof -
  from ethernet_output_frame [OF p room i macs, of os proto] obtain s' where
    e: "ethernet_output os i mac proto p w =
      bindE (send_bytes_out os (frame_of x mac proto s) i (put_skb p s' w)) (\<lambda>(result, w).
        if result \<ge> 0 then bindE (free_skb p w) (\<lambda>w. Inr (True, w)) else Inr (False, w))" by blast
  have "up os i ev (put_skb p s' w)" using up up_cong [of "put_skb p s' w" w os i ev] by (simp add: put_skb_def)
  from send_bytes_out_up [OF this, of "frame_of x mac proto s"] show ?thesis
    unfolding e by (auto simp: free_skb_def put_skb_def sent_def)
qed

section \<open>ARP messages on the wire\<close>

definition arp_frame :: "intf \<Rightarrow> mac_addr \<Rightarrow> arp_hdr \<Rightarrow> u8 list" where
  "arp_frame x mac h = mac @ if_mac x @ bytes16 (HTONS ETH_PROTO_ARP) @ enc_arp h @ replicate 18 0"

lemma arp_skb_ok:
  assumes "valid_arp h"
  shows "\<exists>s. arp_skb h = Inr s \<and> frame_room s \<and> frame_of x mac ETH_PROTO_ARP s = arp_frame x mac h"
proof -
  define s0 where "s0 = (alloc_skb 134)\<lparr>data_off := 32, tail_off := 60, skb_len := 28\<rparr>"
  define s where "s = s0\<lparr>buf := write_at 32 (enc_arp h) (replicate 134 0)\<rparr>"
  have len: "length (enc_arp h) = 28" using arp.length_enc [OF assms] by (simp add: ARP_HDR_SIZE_def)
  have "arp_skb h = wr_hdr enc_arp 32 h s0"
    by (simp add: arp_skb_def skb_reserve_def skb_push_def s0_def alloc_skb_def BUFF_HEADROOM_def
        BUFF_TAILROOM_def ARP_HDR_SIZE_def Let_def)
  also have "\<dots> = Inr s"
    using arp.wr_ok [OF assms, of 32 s0] by (simp add: s_def s0_def alloc_skb_def ARP_HDR_SIZE_def)
  finally have 1: "arp_skb h = Inr s" .
  have 2: "frame_room s"
    using len by (simp add: frame_room_def wf_skb_def s_def s0_def alloc_skb_def skb_tailroom_def ETH_HDR_SIZE_def)
  have 3: "payload s = enc_arp h"
    using len by (simp add: payload_def s_def s0_def alloc_skb_def)
  have "slice 60 18 (write_at 32 (enc_arp h) (replicate 134 0)) = (replicate 18 0 :: u8 list)"
    using len slice_write_disjoint [of 32 "enc_arp h" "replicate 134 0" 60 18] by (simp add: slice_def)
  then have 4: "slice (tail_off s) (46 - skb_len s) (buf s) = replicate 18 0"
    by (simp add: s_def s0_def alloc_skb_def)
  from 1 2 3 4 show ?thesis by (auto simp: frame_of_def arp_frame_def)
qed

lemma valid_arp_message: "length (if_mac x) = 6 \<Longrightarrow> length tmac = 6 \<Longrightarrow> valid_arp (arp_message op x tmac tip)"
  by (simp add: valid_arp_def arp_message_def)

text \<open>The buffer of a message lives from its allocation to its transmission.\<close>

definition after_send :: "event list \<Rightarrow> world \<Rightarrow> world" where
  "after_send evs w = w\<lparr>trace := trace w @ evs, w_next := Suc (w_next w), w_skbs := (w_skbs w)(w_next w := None)\<rparr>"

lemma send_arp_message:
  assumes up: "up os i ev w" and x: "get_intf i w = Inr x" and macs: "length mac = 6" "length (if_mac x) = 6"
    and h: "valid_arp h"
  shows "\<exists>s. arp_skb h = Inr s \<and> ethernet_output os i mac ETH_PROTO_ARP (w_next w) (snd (new_skb s w)) =
    Inr (True, after_send (sent ev i w (arp_frame x mac h)) w)"
proof -
  from arp_skb_ok [OF h, of x mac] obtain s where s: "arp_skb h = Inr s" "frame_room s"
    "frame_of x mac ETH_PROTO_ARP s = arp_frame x mac h" by blast
  let ?w1 = "snd (new_skb s w)"
  have "get_skb (w_next w) ?w1 = Inr s" "up os i ev ?w1" "get_intf i ?w1 = Inr x"
    using up x up_cong [of ?w1 w os i ev] by (simp_all add: world_access)
  from ethernet_output_up [OF this(1) s(2) this(2,3) macs] s show ?thesis
    by (simp add: new_skb_def put_skb_def after_send_def sent_def)
qed

lemma send_arp_broadcast_request_up:
  assumes "up os i ev w" and "get_intf i w = Inr x" and "length (if_mac x) = 6"
  shows "send_arp_broadcast_request os i ip w =
    Inr (after_send (sent ev i w (arp_frame x layer2_fill_with_broadcast_mac
      (arp_message ARP_OP_REQUEST x (replicate 6 0) ip))) w)"
proof -
  have "valid_arp (arp_message ARP_OP_REQUEST x (replicate 6 0) ip)" using assms(3) by (simp add: valid_arp_message)
  from send_arp_message [OF assms(1,2) length_broadcast assms(3) this] show ?thesis
    using assms(2) by (auto simp: send_arp_broadcast_request_def MAC_ADDR_SIZE_def new_skb_def)
qed

lemma send_arp_reply_msg_up:
  assumes "up os i ev w" and "get_intf i w = Inr x" and "length (if_mac x) = 6" and "length (sender_hw_addr q) = 6"
  shows "send_arp_reply_msg os i q w =
    Inr (after_send (sent ev i w (arp_frame x (sender_hw_addr q)
      (arp_message ARP_OP_REPLY x (sender_hw_addr q) (sender_proto_addr q)))) w)"
proof -
  have "valid_arp (arp_message ARP_OP_REPLY x (sender_hw_addr q) (sender_proto_addr q))"
    using assms(3,4) by (simp add: valid_arp_message)
  from send_arp_message [OF assms(1,2,4,3) this] show ?thesis
    using assms(2) by (auto simp: send_arp_reply_msg_def new_skb_def)
qed

section \<open>Answering a request\<close>

text \<open>The message at the start of a received buffer.\<close>

definition has_arp :: "skb_id \<Rightarrow> intf_id \<Rightarrow> arp_hdr \<Rightarrow> world \<Rightarrow> bool" where
  "has_arp p i h w \<longleftrightarrow> (\<exists>s. get_skb p w = Inr s \<and> skb_intf s = Some i \<and> ARP_HDR_SIZE \<le> skb_len s \<and>
     rd_hdr ARP_HDR_SIZE dec_arp (data_off s) s = Inr h)"

lemma opcodes_distinct: "HTONS ARP_OP_REPLY \<noteq> HTONS ARP_OP_REQUEST"
  by (simp add: ARP_OP_REPLY_def ARP_OP_REQUEST_def HTONS_def)

lemma arp_input_request:
  assumes m: "has_arp p i h w" and op: "opcode h = HTONS ARP_OP_REQUEST"
    and up: "up os i ev w" and x: "get_intf i w = Inr x" and mac: "length (if_mac x) = 6"
    and p: "p < w_next w"
  shows "arp_input os p w =
    (if if_ip x = target_proto_addr h
     then Inr (True, (after_send (sent ev i w (arp_frame x (sender_hw_addr h)
            (arp_message ARP_OP_REPLY x (sender_hw_addr h) (sender_proto_addr h)))) w)
            \<lparr>w_skbs := (w_skbs w)(w_next w := None, p := None)\<rparr>)
     else Inr (False, w))"
proof -
  from m obtain s where s: "get_skb p w = Inr s" "skb_intf s = Some i" "ARP_HDR_SIZE \<le> skb_len s"
    "rd_hdr ARP_HDR_SIZE dec_arp (data_off s) s = Inr h" by (auto simp: has_arp_def)
  have live: "w_skbs w p = Some s" using s(1) by (simp add: skb_table.get_Inr_iff)
  have "length (sender_hw_addr h) = 6" using arp.rd_valid [OF s(4)] by (simp add: valid_arp_def)
  from send_arp_reply_msg_up [OF up x mac this] s op x p live show ?thesis
    by (simp add: arp_input_def process_arp_broadcast_request_def free_skb_def after_send_def)
qed

lemma arp_input_other:
  assumes m: "has_arp p i h w" and op: "opcode h \<noteq> HTONS ARP_OP_REQUEST" "opcode h \<noteq> HTONS ARP_OP_REPLY"
  shows "arp_input os p w = Inr (False, w)"
  using assms by (auto simp: has_arp_def arp_input_def)

section \<open>A reply releases the packets that wait\<close>

text \<open>A queued packet that can be sent, with the events its transmission causes.\<close>

definition ready :: "os \<Rightarrow> mac_addr \<Rightarrow> world \<Rightarrow> skb_id \<Rightarrow> event list \<Rightarrow> bool" where
  "ready os mac w p evs \<longleftrightarrow>
    (\<exists>s i x ev. get_skb p w = Inr s \<and> frame_room s \<and> skb_intf s = Some i \<and> up os i ev w \<and>
       get_intf i w = Inr x \<and> length (if_mac x) = 6 \<and>
       evs = sent ev i w (frame_of x mac ETH_PROTO_IP s))"

lemma ready_frame:
  assumes "ready os mac w p evs" and "w_skbs w' p = w_skbs w p" and "w_intfs w' = w_intfs w"
    and "w_links w' = w_links w" and "send_callback w' = send_callback w"
  shows "ready os mac w' p evs"
  using assms up_cong [OF assms(3,4)] by (auto simp: ready_def get_skb_def get_intf_def sent_def)

definition unqueue :: "skb_id \<Rightarrow> arp_entry \<Rightarrow> arp_entry" where
  "unqueue p e = e\<lparr>arp_pending_pkts := remove1 p (arp_pending_pkts e)\<rparr>"

lemma fold_unqueue: "fold unqueue ps e = e\<lparr>arp_pending_pkts := fold remove1 ps (arp_pending_pkts e)\<rparr>"
  by (induction ps arbitrary: e) (simp_all add: unqueue_def)

lemma fold_remove1_self: "fold remove1 ps ps = []"
  by (induction ps) simp_all

lemma lookup_fold_unqueue:
  "arp_table_lookup (fold (\<lambda>p. arp_table_set ip (unqueue p)) ps table) ip =
     map_option (fold unqueue ps) (arp_table_lookup table ip)"
proof (induction ps arbitrary: table)
  case (Cons p ps)
  have "arp_ip (unqueue p e) = arp_ip e" for e by (simp add: unqueue_def)
  then show ?case using Cons by (simp add: arp_tbl.lookup_set option.map_comp comp_def)
qed (simp add: option.map_id)

lemma flush_pending_up:
  assumes "list_all2 (ready os mac w) ps evss" and "distinct ps" and "length mac = 6" and "get_node n w = Inr nd"
  shows "\<exists>w'. flush_pending os n ip mac ps w = Inr w' \<and> trace w' = trace w @ concat evss \<and>
    w_skbs w' = w_skbs w |` (- set ps) \<and>
    get_node n w' = Inr (nd\<lparr>arp_table := fold (\<lambda>p. arp_table_set ip (unqueue p)) ps (arp_table nd)\<rparr>)"
  using assms
proof (induction ps arbitrary: w evss nd)
  case Nil
  then show ?case by simp
next
  case (Cons p ps)
  from Cons.prems(1) obtain evs rest where e: "evss = evs # rest" "ready os mac w p evs"
    "list_all2 (ready os mac w) ps rest" by (auto simp: list_all2_Cons1)
  from e(2) obtain s i x ev where s: "get_skb p w = Inr s" "frame_room s" "skb_intf s = Some i" "up os i ev w"
    "get_intf i w = Inr x" "length (if_mac x) = 6" "evs = sent ev i w (frame_of x mac ETH_PROTO_IP s)"
    by (auto simp: ready_def)
  let ?nd = "nd\<lparr>arp_table := arp_table_set ip (unqueue p) (arp_table nd)\<rparr>"
  let ?w1 = "put_node n ?nd w"
  let ?w2 = "?w1\<lparr>trace := trace w @ evs, w_skbs := (w_skbs w)(p := None)\<rparr>"
  have "get_skb p ?w1 = Inr s" "up os i ev ?w1" "get_intf i ?w1 = Inr x"
    using s up_cong [of ?w1 w os i ev] by (simp_all add: put_node_def get_skb_def get_intf_def)
  from ethernet_output_up [OF this(1) s(2) this(2,3) Cons.prems(3) s(6), of ETH_PROTO_IP]
  have out: "ethernet_output os i mac ETH_PROTO_IP p ?w1 = Inr (True, ?w2)"
    using s(7) by (simp add: sent_def put_node_def)
  have l2: "list_all2 (ready os mac ?w2) ps rest"
    using Cons.prems(2)
    by (intro list.rel_mono_strong [OF e(3)]) (auto simp: put_node_def intro: ready_frame [of os mac w])
  have n2: "get_node n ?w2 = Inr ?nd" by (simp add: put_node_def get_node_def)
  have d: "distinct ps" using Cons.prems(2) by simp
  from Cons.IH [OF l2 d Cons.prems(3) n2] obtain w' where w': "flush_pending os n ip mac ps ?w2 = Inr w'" "trace w' = trace ?w2 @ concat rest"
    "w_skbs w' = w_skbs ?w2 |` (- set ps)"
    "get_node n w' = Inr (?nd\<lparr>arp_table := fold (\<lambda>p. arp_table_set ip (unqueue p)) ps (arp_table ?nd)\<rparr>)"
    by blast
  have "set_arp_entry n ip (\<lambda>e. e\<lparr>arp_pending_pkts := remove1 p (arp_pending_pkts e)\<rparr>) w = Inr ?w1"
    using Cons.prems(4) by (simp add: set_arp_entry_def unqueue_def [abs_def])
  with \<open>get_skb p ?w1 = Inr s\<close> s(3) out w' show ?case
    by (auto simp: e(1) restrict_map_def fun_eq_iff)
qed

lemma arp_input_reply:
  assumes m: "has_arp p i h w" and op: "opcode h = HTONS ARP_OP_REPLY" and x: "get_intf i w = Inr x"
    and nd: "get_node (if_node x) w = Inr nd"
    and e: "arp_table_lookup (arp_table nd) (sender_proto_addr h) = Some e"
    and ready: "list_all2 (ready os (sender_hw_addr h) w) (arp_pending_pkts e) evss"
    and dist: "distinct (p # arp_pending_pkts e)"
  shows "\<exists>w' nd'. arp_input os p w = Inr (True, w') \<and> trace w' = trace w @ concat evss \<and>
    w_skbs w' = w_skbs w |` (- set (p # arp_pending_pkts e)) \<and> get_node (if_node x) w' = Inr nd' \<and>
    arp_table_lookup (arp_table nd') (sender_proto_addr h) =
      Some (e\<lparr>arp_resolved := True, arp_mac := sender_hw_addr h, arp_pending_pkts := []\<rparr>)"
proof -
  let ?ip = "sender_proto_addr h" and ?mac = "sender_hw_addr h" and ?ps = "arp_pending_pkts e"
  from m obtain s where s: "get_skb p w = Inr s" "skb_intf s = Some i" "ARP_HDR_SIZE \<le> skb_len s"
    "rd_hdr ARP_HDR_SIZE dec_arp (data_off s) s = Inr h" by (auto simp: has_arp_def)
  have mac: "length ?mac = 6" using arp.rd_valid [OF s(4)] by (simp add: valid_arp_def)
  let ?f = "\<lambda>e. e\<lparr>arp_resolved := True, arp_mac := ?mac\<rparr>"
  let ?nd1 = "nd\<lparr>arp_table := arp_table_set ?ip ?f (arp_table nd)\<rparr>"
  let ?w1 = "put_node (if_node x) ?nd1 w"
  have "list_all2 (ready os ?mac ?w1) ?ps evss"
    by (rule list.rel_mono_strong [OF ready]) (auto simp: put_node_def intro: ready_frame)
  from flush_pending_up [OF this _ mac, of "if_node x" ?nd1 ?ip] dist obtain w2 where
    w2: "flush_pending os (if_node x) ?ip ?mac ?ps ?w1 = Inr w2" "trace w2 = trace w @ concat evss"
      "w_skbs w2 = w_skbs w |` (- set ?ps)"
      "get_node (if_node x) w2 = Inr (?nd1\<lparr>arp_table := fold (\<lambda>p. arp_table_set ?ip (unqueue p)) ?ps (arp_table ?nd1)\<rparr>)"
    by (auto simp: put_node_def get_node_def)
  have upd: "arp_table_update_from_arp_reply os (if_node x) h w = Inr w2"
    using nd e w2(1) by (simp add: arp_table_update_from_arp_reply_def set_arp_entry_def)
  have live: "w_skbs w2 p = Some s"
    using s(1) dist w2(3) by (simp add: skb_table.get_Inr_iff)
  let ?w' = "w2\<lparr>w_skbs := (w_skbs w2)(p := None)\<rparr>"
  have "arp_input os p w = Inr (True, ?w')"
    using s op opcodes_distinct x upd live
    by (simp add: arp_input_def process_arp_reply_msg_def free_skb_def)
  moreover have "(w_skbs w2)(p := None) = w_skbs w |` (- set (p # ?ps))"
    by (auto simp: w2(3) restrict_map_def fun_eq_iff)
  moreover have "get_node (if_node x) ?w' = get_node (if_node x) w2" by (simp add: get_node_def)
  moreover have "arp_table_lookup (fold (\<lambda>p. arp_table_set ?ip (unqueue p)) ?ps (arp_table ?nd1)) ?ip =
      Some (e\<lparr>arp_resolved := True, arp_mac := ?mac, arp_pending_pkts := []\<rparr>)"
    using arp_tbl.lookup_set_same [of ?f "arp_table nd" ?ip e] e
    by (simp add: lookup_fold_unqueue fold_unqueue fold_remove1_self)
  ultimately show ?thesis using w2(2,4) by auto
qed

end
