(* ===== verification/Ip_Path.thy ===== *)
theory Ip_Path
  imports Ip_Output Transmit
begin

text \<open>
  The path of an outgoing packet through \<open>ip.c\<close>: the header a node writes, the choice between
  local delivery, a queue that waits for ARP, and transmission; what forwarding does to a packet.
\<close>

section \<open>The header on the way out\<close>

definition sealed :: "ip_hdr \<Rightarrow> ip_hdr" where
  "sealed h = h\<lparr>ip_hcksum := HTONS (calc_checksum_16 (enc_ip h))\<rparr>"

lemma sealed_fields [simp]: "ip_hlen (sealed h) = ip_hlen h" "dst_ip (sealed h) = dst_ip h"
  "src_ip (sealed h) = src_ip h" "ip_ttl (sealed h) = ip_ttl h" "ip_proto (sealed h) = ip_proto h"
  by (simp_all add: sealed_def)

text \<open>Sealing makes the checksum right exactly when the field held a zero before.\<close>

lemma sealed_checksum:
  assumes "ip_hlen h = 5"
  shows "calc_checksum_16 (enc_ip (sealed h)) = 0 \<longleftrightarrow> unat (HTONS (ip_hcksum h)) mod 65535 = 0"
proof -
  define s where "s = (alloc_skb 20)\<lparr>buf := enc_ip h\<rparr>"
  have len: "length (enc_ip h) = 20" using ip.length_enc [of h] by (simp add: IP_HDR_SIZE_def)
  have rd: "rd_hdr IP_HDR_SIZE dec_ip 0 s = Inr h"
    using ip.rd_ok [of 0 s] ip.dec_enc [of h] len by (simp add: s_def IP_HDR_SIZE_def)
  obtain t where t: "fill_ip_hcksum 0 s = Inr t" "wr_hdr enc_ip 0 (sealed h) s = Inr t"
    using fill_ip_hcksum_eq [OF rd assms] ip.wr_ok [where off = 0 and h = "sealed h" and s = s] len
    by (simp add: sealed_def s_def IP_HDR_SIZE_def)
  have "rd_hdr IP_HDR_SIZE dec_ip 0 t = Inr (sealed h)" by (rule ip.rd_wr [OF _ t(2)]) simp
  from calc_ip_hcksum_eq [OF this] fill_then_check [OF rd t(1)] assms show ?thesis
    by (simp add: check_ip_hcksum_def)
qed

section \<open>Routing a packet\<close>

text \<open>An IP packet in a buffer: its header, the interface it is tied to, the rest of the bytes.\<close>

definition has_ip :: "skb_id \<Rightarrow> intf_id option \<Rightarrow> ip_hdr \<Rightarrow> u8 list \<Rightarrow> skb \<Rightarrow> world \<Rightarrow> bool" where
  "has_ip p i h rest s w \<longleftrightarrow> get_skb p w = Inr s \<and> wf_skb s \<and> skb_intf s = i \<and> payload s = enc_ip h @ rest"

lemma has_ip_len: "has_ip p i h rest s w \<Longrightarrow> skb_len s = 20 + length rest"
  using ip.rd_front(2) [of s h rest] by (simp add: has_ip_def IP_HDR_SIZE_def)

lemma has_ip_rd: "has_ip p i h rest s w \<Longrightarrow> rd_hdr IP_HDR_SIZE dec_ip (data_off s) s = Inr h"
  using ip.rd_front(1) [of s h rest] by (simp add: has_ip_def)

lemma has_ip_wr:
  assumes "has_ip p i h rest s w"
  shows "\<exists>t. wr_hdr enc_ip (data_off s) h' (s\<lparr>skb_intf := j\<rparr>) = Inr t \<and> data_off t = data_off s \<and>
    tail_off t = tail_off s \<and> length (buf t) = length (buf s) \<and> ip_hdr_off t = ip_hdr_off s \<and>
    has_ip p j h' rest t (put_skb p t w)"
proof -
  let ?s = "s\<lparr>skb_intf := j\<rparr>"
  have s: "wf_skb ?s" "IP_HDR_SIZE \<le> skb_len ?s" "payload ?s = enc_ip h @ rest"
    using assms has_ip_len [OF assms] by (simp_all add: has_ip_def wf_skb_def IP_HDR_SIZE_def payload_def)
  from ip.wr_front [OF s(1,2), of h'] obtain t where t: "wr_hdr enc_ip (data_off s) h' ?s = Inr t" "wf_skb t"
    "payload t = enc_ip h' @ drop IP_HDR_SIZE (payload ?s)"
    "t = ?s\<lparr>buf := write_at (data_off s) (enc_ip h') (buf s)\<rparr>" by auto
  have "length (buf t) = length (buf s)"
    using s(1,2) ip.length_enc [of h'] by (auto simp: t(4) wf_skb_def intro!: length_write_at)
  with t s(3) ip.length_enc [of h] show ?thesis by (auto simp: has_ip_def)
qed

definition same_place :: "skb \<Rightarrow> skb \<Rightarrow> bool" where
  "same_place s t \<longleftrightarrow> data_off t = data_off s \<and> tail_off t = tail_off s \<and> length (buf t) = length (buf s) \<and>
     ip_hdr_off t = ip_hdr_off s"

lemma same_place_room: "same_place s t \<Longrightarrow> wf_skb t \<Longrightarrow> frame_room s \<Longrightarrow> frame_room t"
  by (auto simp: same_place_def frame_room_def skb_tailroom_def wf_skb_def)

lemma ip_postroute_routed:
  assumes s: "has_ip p i h rest s w" and hl: "ip_hlen h = 5" and nd: "get_node n w = Inr nd"
    and rt: "rt_lookup_lpm (rt_table nd) (dst_ip h) = Inr (Some rt)" and i: "i = None \<or> i = Some (rt_intf rt)"
    and x: "get_intf (rt_intf rt) w = Inr x" and local: "is_ip_local n (dst_ip h) w = Inr local"
  shows "\<exists>t. same_place s t \<and>
    has_ip p (Some (rt_intf rt)) (sealed (h\<lparr>src_ip := if_ip x\<rparr>)) rest t (put_skb p t w) \<and>
    ip_postroute os deliver n p w =
      (if local then deliver p (put_skb p t w)
       else ip_finish os n (rt_intf rt) (arp_target rt (dst_ip h)) p (put_skb p t w))"
proof -
  from has_ip_wr [OF s, of "h\<lparr>src_ip := if_ip x\<rparr>" "Some (rt_intf rt)"] obtain t1 where
    t1: "wr_hdr enc_ip (data_off s) (h\<lparr>src_ip := if_ip x\<rparr>) (s\<lparr>skb_intf := Some (rt_intf rt)\<rparr>) = Inr t1"
      "data_off t1 = data_off s" "tail_off t1 = tail_off s" "length (buf t1) = length (buf s)" "ip_hdr_off t1 = ip_hdr_off s"
      "has_ip p (Some (rt_intf rt)) (h\<lparr>src_ip := if_ip x\<rparr>) rest t1 (put_skb p t1 w)" by blast
  from has_ip_wr [OF t1(6), of "sealed (h\<lparr>src_ip := if_ip x\<rparr>)" "Some (rt_intf rt)"] obtain t where
    t: "wr_hdr enc_ip (data_off t1) (sealed (h\<lparr>src_ip := if_ip x\<rparr>)) (t1\<lparr>skb_intf := Some (rt_intf rt)\<rparr>) = Inr t"
      "data_off t = data_off t1" "tail_off t = tail_off t1" "length (buf t) = length (buf t1)" "ip_hdr_off t = ip_hdr_off t1"
      "has_ip p (Some (rt_intf rt)) (sealed (h\<lparr>src_ip := if_ip x\<rparr>)) rest t (put_skb p t (put_skb p t1 w))" by blast
  have t1i: "t1\<lparr>skb_intf := Some (rt_intf rt)\<rparr> = t1" using t1(6) by (simp add: has_ip_def)
  have fill: "fill_ip_hcksum (data_off t1) t1 = Inr t"
    using fill_ip_hcksum_eq [OF has_ip_rd [OF t1(6)]] hl t(1) by (simp add: sealed_def t1i)
  have "is_ip_local n (dst_ip h) (put_skb p t w) = Inr local"
    using local is_ip_local_cong [of "put_skb p t w" w] by (simp add: put_skb_def)
  moreover have "get_skb p w = Inr s" "skb_intf s = i" using s by (simp_all add: has_ip_def)
  ultimately have "ip_postroute os deliver n p w =
      (if local then deliver p (put_skb p t w)
       else ip_finish os n (rt_intf rt) (arp_target rt (dst_ip h)) p (put_skb p t w))"
    using nd rt i x t1(1) fill has_ip_rd [OF s] by (auto simp: ip_postroute_def)
  moreover have "has_ip p (Some (rt_intf rt)) (sealed (h\<lparr>src_ip := if_ip x\<rparr>)) rest t (put_skb p t w)"
    using t(6) by (simp add: has_ip_def)
  moreover have "same_place s t" using t t1 by (simp add: same_place_def)
  ultimately show ?thesis by blast
qed

lemma ip_postroute_unroutable:
  assumes s: "has_ip p i h rest s w" and nd: "get_node n w = Inr nd"
    and rt: "rt_lookup_lpm (rt_table nd) (dst_ip h) = Inr r"
    and none: "case r of None \<Rightarrow> True | Some rt \<Rightarrow> i \<noteq> None \<and> i \<noteq> Some (rt_intf rt)"
  shows "ip_postroute os deliver n p w = Inr (False, w)"
  using assms has_ip_rd [OF s] by (auto simp: ip_postroute_def has_ip_def split: option.splits)

section \<open>Resolution of the next hop\<close>

lemma ip_finish_resolved:
  assumes "get_node n w = Inr nd" and "arp_table_lookup (arp_table nd) target = Some e" and "arp_resolved e"
  shows "ip_finish os n i target p w = ethernet_output os i (arp_mac e) ETH_PROTO_IP p w"
  using assms by (simp add: ip_finish_def)

definition arp_entry_for :: "arp_entry list \<Rightarrow> ip_addr \<Rightarrow> intf_id \<Rightarrow> arp_entry" where
  "arp_entry_for table target i =
    (case arp_table_lookup table target of Some e \<Rightarrow> e | None \<Rightarrow> init_arp_entry target i)"

text \<open>An unresolved next hop: the packet is queued in front, a request is broadcast.\<close>

lemma ip_finish_wait:
  assumes nd: "get_node n w = Inr nd" and un: "\<not> arp_resolved (arp_entry_for (arp_table nd) target i)"
    and up: "up os i ev w" and x: "get_intf i w = Inr x" and mac: "length (if_mac x) = 6"
  shows "\<exists>w' nd'. ip_finish os n i target p w = Inr (True, w') \<and>
    trace w' = trace w @ sent ev i w (arp_frame x layer2_fill_with_broadcast_mac
      (arp_message ARP_OP_REQUEST x (replicate 6 0) target)) \<and>
    w_skbs w' = (w_skbs w)(w_next w := None) \<and> w_next w' = Suc (w_next w) \<and> w_intfs w' = w_intfs w \<and>
    w_links w' = w_links w \<and> send_callback w' = send_callback w \<and> get_node n w' = Inr nd' \<and>
    arp_table_lookup (arp_table nd') target =
      Some ((arp_entry_for (arp_table nd) target i)
              \<lparr>arp_pending_pkts := p # arp_pending_pkts (arp_entry_for (arp_table nd) target i)\<rparr>)"
proof -
  let ?e = "arp_entry_for (arp_table nd) target i"
  let ?f = "\<lambda>e. e\<lparr>arp_pending_pkts := p # arp_pending_pkts e\<rparr>"
  define table where "table = (case arp_table_lookup (arp_table nd) target of
      Some e \<Rightarrow> arp_table nd | None \<Rightarrow> snd (arp_table_entry_add (arp_table nd) ?e))"
  define w1 where "w1 = (case arp_table_lookup (arp_table nd) target of
      Some e \<Rightarrow> w | None \<Rightarrow> put_node n (nd\<lparr>arp_table := table\<rparr>) w)"
  have look: "arp_table_lookup table target = Some ?e"
    by (simp add: table_def arp_entry_for_def init_arp_entry_def split: option.split)
  let ?nd' = "nd\<lparr>arp_table := arp_table_set target ?f table\<rparr>"
  have n1: "get_node n w1 = Inr (nd\<lparr>arp_table := table\<rparr>)"
    using nd by (auto simp: w1_def table_def split: option.split)
  have other: "w_intfs w1 = w_intfs w" "w_links w1 = w_links w" "trace w1 = trace w" "w_next w1 = w_next w"
    "w_skbs w1 = w_skbs w" "send_callback w1 = send_callback w"
    by (simp_all add: w1_def put_node_def split: option.split)
  let ?w2 = "put_node n ?nd' w1"
  have "up os i ev ?w2" "get_intf i ?w2 = Inr x"
    using up x other up_cong [of ?w2 w os i ev] by (simp_all add: put_node_def get_intf_def)
  from send_arp_broadcast_request_up [OF this mac, of target]
  have req: "send_arp_broadcast_request os i target ?w2 =
    Inr (after_send (sent ev i w (arp_frame x layer2_fill_with_broadcast_mac
      (arp_message ARP_OP_REQUEST x (replicate 6 0) target))) ?w2)"
    using other by (simp add: sent_def put_node_def)
  have "set_arp_entry n target ?f w1 = Inr ?w2" using n1 by (simp add: set_arp_entry_def)
  with req have "ip_finish os n i target p w =
      Inr (True, after_send (sent ev i w (arp_frame x layer2_fill_with_broadcast_mac
        (arp_message ARP_OP_REQUEST x (replicate 6 0) target))) ?w2)"
    using nd un by (auto simp: ip_finish_def Let_def w1_def table_def arp_entry_for_def split: option.splits)
  moreover have "arp_table_lookup (arp_table ?nd') target = Some (?f ?e)"
    using arp_tbl.lookup_set_same [of ?f table target ?e] look by simp
  ultimately show ?thesis
    using other by (auto simp: after_send_def put_node_def get_node_def)
qed

section \<open>Local packets\<close>

text \<open>The header of a packet that starts at a node.\<close>

definition ip_out_hdr :: "ip_addr \<Rightarrow> ip_addr \<Rightarrow> u8 \<Rightarrow> nat \<Rightarrow> ip_hdr" where
  "ip_out_hdr src dst prot len = sealed (init_ip_hdr\<lparr>dst_ip := dst, ip_proto := prot,
     ip_total_len := ucast (HTONS (of_nat len :: u64)), src_ip := src\<rparr>)"

lemma ip_out_hdr_checksum: "calc_checksum_16 (enc_ip (ip_out_hdr src dst prot len)) = 0"
proof -
  have "ip_hlen init_ip_hdr = 5" "ip_hcksum init_ip_hdr = 0"
    by (simp_all add: init_ip_hdr_def dec_ip_def IP_HDR_SIZE_def le16_def)
  then show ?thesis unfolding ip_out_hdr_def by (subst sealed_checksum) (simp_all add: HTONS_def)
qed

lemma ip_output_routed:
  assumes s: "get_skb p w = Inr s" "wf_skb s" "IP_HDR_SIZE \<le> data_off s"
    and nd: "get_node n w = Inr nd"
    and rt: "rt_lookup_lpm (rt_table nd) dst = Inr (Some rt)" and i: "skb_intf s = None \<or> skb_intf s = Some (rt_intf rt)"
    and x: "get_intf (rt_intf rt) w = Inr x" and local: "is_ip_local n dst w = Inr local"
  shows "\<exists>t. data_off t = data_off s - IP_HDR_SIZE \<and> tail_off t = tail_off s \<and> length (buf t) = length (buf s) \<and>
    ip_hdr_off t = ip_hdr_off s \<and>
    has_ip p (Some (rt_intf rt)) (ip_out_hdr (if_ip x) dst prot (skb_len s + IP_HDR_SIZE)) (payload s) t (put_skb p t w) \<and>
    ip_output os deliver n dst prot p w =
      (if local then deliver p (put_skb p t w)
       else ip_finish os n (rt_intf rt) (arp_target rt dst) p (put_skb p t w))"
proof -
  let ?s1 = "s\<lparr>data_off := data_off s - IP_HDR_SIZE, skb_len := skb_len s + IP_HDR_SIZE\<rparr>"
  let ?h = "init_ip_hdr\<lparr>dst_ip := dst, ip_proto := prot,
     ip_total_len := ucast (HTONS (of_nat (skb_len s + IP_HDR_SIZE) :: u64))\<rparr>"
  have s1: "skb_push IP_HDR_SIZE s = Inr ?s1" using skb_push_ok [OF s(3,2)] .
  have wf1: "wf_skb ?s1" using wf_skb_push [OF s(2) s1] .
  from ip.wr_front [OF wf1, of ?h] obtain s2 where s2: "wr_hdr enc_ip (data_off ?s1) ?h ?s1 = Inr s2" "wf_skb s2"
    "payload s2 = enc_ip ?h @ drop IP_HDR_SIZE (payload ?s1)"
    "s2 = ?s1\<lparr>buf := write_at (data_off ?s1) (enc_ip ?h) (buf ?s1)\<rparr>" by auto
  have l2: "length (buf s2) = length (buf s)"
    using s(2,3) ip.length_enc [of ?h] by (auto simp: s2(4) wf_skb_def intro!: length_write_at)
  have "length (slice (data_off s - IP_HDR_SIZE) IP_HDR_SIZE (buf s)) = IP_HDR_SIZE"
    using s(2,3) by (intro length_slice) (simp add: wf_skb_def)
  then have "payload s2 = enc_ip ?h @ payload s" using payload_push [OF s(2) s1] s2(3) by simp
  then have ip: "has_ip p (skb_intf s) ?h (payload s) s2 (put_skb p s2 w)"
    using s2 by (simp add: has_ip_def)
  have "ip_hlen ?h = 5" by (simp add: init_ip_hdr_def)
  moreover have "is_ip_local n (dst_ip ?h) (put_skb p s2 w) = Inr local"
    using local is_ip_local_cong [of "put_skb p s2 w" w] by (simp add: put_skb_def)
  moreover have "get_node n (put_skb p s2 w) = Inr nd" "get_intf (rt_intf rt) (put_skb p s2 w) = Inr x"
    using nd x by (simp_all add: put_skb_def get_node_def get_intf_def)
  ultimately obtain t where t: "same_place s2 t"
    "has_ip p (Some (rt_intf rt)) (sealed (?h\<lparr>src_ip := if_ip x\<rparr>)) (payload s) t (put_skb p t (put_skb p s2 w))"
    "ip_postroute os deliver n p (put_skb p s2 w) =
      (if local then deliver p (put_skb p t (put_skb p s2 w))
       else ip_finish os n (rt_intf rt) (arp_target rt dst) p (put_skb p t (put_skb p s2 w)))"
    using ip_postroute_routed [OF ip, of n nd rt x local os deliver] rt i by auto
  have pp: "put_skb p t (put_skb p s2 w) = put_skb p t w" by (simp add: put_skb_def)
  have "ip_output os deliver n dst prot p w = ip_postroute os deliver n p (put_skb p s2 w)"
    using s(1) s1 s2(1) by (simp add: ip_output_def)
  with t l2 show ?thesis
    unfolding pp by (auto simp: same_place_def s2(4) ip_out_hdr_def intro!: exI [of _ t])
qed

section \<open>Forwarding\<close>

lemma ip_forward_drop:
  assumes s: "has_ip p (Some i) h rest s w" and ttl: "\<not> ip_forward_enable w \<or> ip_ttl h = 0 \<or> ip_ttl h = 1"
  shows "\<exists>s'. ip_forward os deliver p w = Inr (False, put_skb p s' w) \<and> payload s' = enc_ip (h\<lparr>ip_ttl := 0\<rparr>) @ rest
    \<or> ip_forward os deliver p w = Inr (False, w)"
proof -
  from has_ip_wr [OF s, of "h\<lparr>ip_ttl := ip_ttl h - 1\<rparr>" "Some i"] obtain t where
    t: "wr_hdr enc_ip (data_off s) (h\<lparr>ip_ttl := ip_ttl h - 1\<rparr>) (s\<lparr>skb_intf := Some i\<rparr>) = Inr t"
      "has_ip p (Some i) (h\<lparr>ip_ttl := ip_ttl h - 1\<rparr>) rest t (put_skb p t w)" by blast
  have "s\<lparr>skb_intf := Some i\<rparr> = s" using s by (simp add: has_ip_def)
  with t has_ip_rd [OF s] s ttl show ?thesis
    by (auto simp: ip_forward_def has_ip_def)
qed

text \<open>
  A packet that is forwarded to a resolved next hop: one frame, with the time to live
  decremented, the source address replaced by the address of the outgoing interface, and the
  checksum computed over the old one.
\<close>

definition forwarded :: "ip_addr \<Rightarrow> ip_hdr \<Rightarrow> ip_hdr" where
  "forwarded src h = sealed (h\<lparr>ip_ttl := ip_ttl h - 1, src_ip := src\<rparr>)"

definition ip_frame :: "intf \<Rightarrow> mac_addr \<Rightarrow> ip_hdr \<Rightarrow> u8 list \<Rightarrow> u8 list" where
  "ip_frame x mac h rest = mac @ if_mac x @ bytes16 (HTONS ETH_PROTO_IP) @ enc_ip h @ rest"

lemma transmit_ip:
  assumes t: "has_ip p (Some i) h rest t w" and room: "frame_room t" and up: "up os i ev w"
    and x: "get_intf i w = Inr x" and macs: "length mac = 6" "length (if_mac x) = 6"
  shows "\<exists>pad. length pad = 26 - length rest \<and> ethernet_output os i mac ETH_PROTO_IP p w =
    Inr (True, w\<lparr>trace := trace w @ sent ev i w (ip_frame x mac h rest @ pad), w_skbs := (w_skbs w)(p := None)\<rparr>)"
proof -
  let ?pad = "slice (tail_off t) (46 - skb_len t) (buf t)"
  have "length ?pad = 46 - skb_len t"
    using room by (intro length_slice) (auto simp: frame_room_def skb_tailroom_def wf_skb_def)
  moreover have "frame_of x mac ETH_PROTO_IP t = ip_frame x mac h rest @ ?pad"
    using t by (simp add: frame_of_def ip_frame_def has_ip_def)
  moreover have "get_skb p w = Inr t" using t by (simp add: has_ip_def)
  ultimately show ?thesis
    using ethernet_output_up [OF _ room up x macs, of p ETH_PROTO_IP] has_ip_len [OF t] by auto
qed

lemma ip_forward_eq:
  assumes s: "has_ip p (Some i) h rest s w" and en: "ip_forward_enable w" and ttl: "ip_ttl h \<noteq> 0" "ip_ttl h \<noteq> 1"
    and y: "get_intf i w = Inr y"
  shows "\<exists>t. same_place s t \<and> has_ip p None (h\<lparr>ip_ttl := ip_ttl h - 1\<rparr>) rest t (put_skb p t w) \<and>
    ip_forward os deliver p w = ip_postroute os deliver (if_node y) p (put_skb p t w)"
proof -
  from has_ip_wr [OF s, of "h\<lparr>ip_ttl := ip_ttl h - 1\<rparr>" "Some i"] obtain t where
    t: "wr_hdr enc_ip (data_off s) (h\<lparr>ip_ttl := ip_ttl h - 1\<rparr>) (s\<lparr>skb_intf := Some i\<rparr>) = Inr t"
      "data_off t = data_off s" "tail_off t = tail_off s" "length (buf t) = length (buf s)" "ip_hdr_off t = ip_hdr_off s"
      "has_ip p (Some i) (h\<lparr>ip_ttl := ip_ttl h - 1\<rparr>) rest t (put_skb p t w)" by blast
  have "s\<lparr>skb_intf := Some i\<rparr> = s" using s by (simp add: has_ip_def)
  then have "ip_forward os deliver p w = ip_postroute os deliver (if_node y) p (put_skb p (t\<lparr>skb_intf := None\<rparr>) w)"
    using t(1,6) has_ip_rd [OF s] s en ttl y by (auto simp: ip_forward_def has_ip_def)
  moreover have "has_ip p None (h\<lparr>ip_ttl := ip_ttl h - 1\<rparr>) rest (t\<lparr>skb_intf := None\<rparr>) (put_skb p (t\<lparr>skb_intf := None\<rparr>) w)"
    using t(6) by (simp add: has_ip_def wf_skb_def payload_def)
  moreover have "same_place s (t\<lparr>skb_intf := None\<rparr>)" using t by (simp add: same_place_def)
  ultimately show ?thesis by blast
qed

text \<open>What a node knows of the way to \<open>dst\<close>: the route and the interface it leads through, which is up.\<close>

definition routed :: "os \<Rightarrow> node_id \<Rightarrow> ip_addr \<Rightarrow> node \<Rightarrow> rt_entry \<Rightarrow> intf \<Rightarrow> (u8 list \<Rightarrow> event) \<Rightarrow> world \<Rightarrow> bool" where
  "routed os n dst nd rt x ev w \<longleftrightarrow>
    get_node n w = Inr nd \<and> rt_lookup_lpm (rt_table nd) dst = Inr (Some rt) \<and> is_ip_local n dst w = Inr False \<and>
    get_intf (rt_intf rt) w = Inr x \<and> up os (rt_intf rt) ev w \<and> length (if_mac x) = 6"

lemma routed_cong:
  assumes "routed os n dst nd rt x ev w" and "w_intfs w' = w_intfs w" and "w_nodes w' = w_nodes w" and "w_links w' = w_links w"
  shows "routed os n dst nd rt x ev w'"
  using assms up_cong [OF assms(2,4)] is_ip_local_cong [OF assms(2,3)]
  by (simp add: routed_def get_node_def get_intf_def)

lemma ip_forward_routed:
  assumes s: "has_ip p (Some i) h rest s w" and room: "frame_room s" and hl: "ip_hlen h = 5"
    and en: "ip_forward_enable w" and ttl: "ip_ttl h \<noteq> 0" "ip_ttl h \<noteq> 1"
    and y: "get_intf i w = Inr y" and r: "routed os (if_node y) (dst_ip h) nd rt x ev w"
  shows "\<exists>u. frame_room u \<and> has_ip p (Some (rt_intf rt)) (forwarded (if_ip x) h) rest u (put_skb p u w) \<and>
    ip_forward os deliver p w = ip_finish os (if_node y) (rt_intf rt) (arp_target rt (dst_ip h)) p (put_skb p u w)"
proof -
  let ?h = "h\<lparr>ip_ttl := ip_ttl h - 1\<rparr>"
  from ip_forward_eq [OF s en ttl y, of os deliver] obtain t where t: "same_place s t"
    "has_ip p None ?h rest t (put_skb p t w)"
    "ip_forward os deliver p w = ip_postroute os deliver (if_node y) p (put_skb p t w)" by blast
  let ?w1 = "put_skb p t w"
  have "routed os (if_node y) (dst_ip h) nd rt x ev ?w1" by (rule routed_cong [OF r]) (simp_all add: put_skb_def)
  then have f: "get_node (if_node y) ?w1 = Inr nd" "rt_lookup_lpm (rt_table nd) (dst_ip ?h) = Inr (Some rt)"
    "get_intf (rt_intf rt) ?w1 = Inr x" "is_ip_local (if_node y) (dst_ip ?h) ?w1 = Inr False" by (simp_all add: routed_def)
  have "ip_hlen ?h = 5" using hl by simp
  from ip_postroute_routed [OF t(2) this f(1,2) disjI1 f(3,4), of os deliver] obtain u where
    u: "same_place t u"
      "has_ip p (Some (rt_intf rt)) (forwarded (if_ip x) h) rest u (put_skb p u ?w1)"
      "ip_postroute os deliver (if_node y) p ?w1 =
        ip_finish os (if_node y) (rt_intf rt) (arp_target rt (dst_ip h)) p (put_skb p u ?w1)"
    by (auto simp: forwarded_def)
  have "frame_room u" using u(1,2) t(1,2) room by (auto simp: has_ip_def dest!: same_place_room)
  moreover have "put_skb p u ?w1 = put_skb p u w" by (simp add: put_skb_def)
  ultimately show ?thesis using u(2,3) t(3) by auto
qed

text \<open>The packet leaves when the hardware address of the next hop is known, and waits for it otherwise.\<close>

lemma ip_forward_hop:
  assumes s: "has_ip p (Some i) h rest s w" and room: "frame_room s" and hl: "ip_hlen h = 5"
    and en: "ip_forward_enable w" and ttl: "ip_ttl h \<noteq> 0" "ip_ttl h \<noteq> 1" and lt: "p < w_next w"
    and y: "get_intf i w = Inr y" and r: "routed os (if_node y) (dst_ip h) nd rt x ev w"
    and e: "arp_entry_for (arp_table nd) (arp_target rt (dst_ip h)) (rt_intf rt) = e" "arp_resolved e \<Longrightarrow> length (arp_mac e) = 6"
  shows "\<exists>w'. ip_forward os deliver p w = Inr (True, w') \<and>
    (if arp_resolved e
     then \<exists>pad. length pad = 26 - length rest \<and> w_skbs w' = (w_skbs w)(p := None) \<and>
       trace w' = trace w @ sent ev (rt_intf rt) w (ip_frame x (arp_mac e) (forwarded (if_ip x) h) rest @ pad)
     else \<exists>u nd'. has_ip p (Some (rt_intf rt)) (forwarded (if_ip x) h) rest u w' \<and> get_node (if_node y) w' = Inr nd' \<and>
       arp_table_lookup (arp_table nd') (arp_target rt (dst_ip h)) = Some (e\<lparr>arp_pending_pkts := p # arp_pending_pkts e\<rparr>) \<and>
       trace w' = trace w @ sent ev (rt_intf rt) w (arp_frame x layer2_fill_with_broadcast_mac
         (arp_message ARP_OP_REQUEST x (replicate 6 0) (arp_target rt (dst_ip h)))))"
proof -
  let ?hop = "arp_target rt (dst_ip h)"
  from ip_forward_routed [OF s room hl en ttl y r, of deliver] obtain u where u: "frame_room u"
    "has_ip p (Some (rt_intf rt)) (forwarded (if_ip x) h) rest u (put_skb p u w)"
    "ip_forward os deliver p w = ip_finish os (if_node y) (rt_intf rt) ?hop p (put_skb p u w)" by blast
  let ?w2 = "put_skb p u w"
  have "routed os (if_node y) (dst_ip h) nd rt x ev ?w2" by (rule routed_cong [OF r]) (simp_all add: put_skb_def)
  then have f: "get_node (if_node y) ?w2 = Inr nd" "get_intf (rt_intf rt) ?w2 = Inr x" "up os (rt_intf rt) ev ?w2"
    "length (if_mac x) = 6" by (simp_all add: routed_def)
  show ?thesis
  proof (cases "arp_resolved e")
    case True
    then have look: "arp_table_lookup (arp_table nd) ?hop = Some e"
      using e(1) by (auto simp: arp_entry_for_def init_arp_entry_def split: option.splits)
    from transmit_ip [OF u(2,1) f(3,2) e(2) [OF True] f(4)] ip_finish_resolved [OF f(1) look True] u(3) True show ?thesis
      by (auto simp: put_skb_def sent_def)
  next
    case False
    have "\<not> arp_resolved (arp_entry_for (arp_table nd) ?hop (rt_intf rt))" using False e(1) by simp
    from ip_finish_wait [OF f(1) this f(3,2,4), of p] obtain w' nd' where
      w': "ip_finish os (if_node y) (rt_intf rt) ?hop p ?w2 = Inr (True, w')"
        "trace w' = trace ?w2 @ sent ev (rt_intf rt) ?w2 (arp_frame x layer2_fill_with_broadcast_mac
          (arp_message ARP_OP_REQUEST x (replicate 6 0) ?hop))"
        "w_skbs w' = (w_skbs ?w2)(w_next ?w2 := None)" "get_node (if_node y) w' = Inr nd'"
        "arp_table_lookup (arp_table nd') ?hop = Some (e\<lparr>arp_pending_pkts := p # arp_pending_pkts e\<rparr>)"
      using e(1) by blast
    have "has_ip p (Some (rt_intf rt)) (forwarded (if_ip x) h) rest u w'"
      using u(2) w'(3) lt by (simp add: has_ip_def get_skb_def put_skb_def)
    with w' u(3) False show ?thesis by (auto simp: put_skb_def sent_def)
  qed
qed

section \<open>A local packet to a resolved next hop\<close>

text \<open>The node can reach \<open>dst\<close> through its interface \<open>i\<close>, and knows the hardware address of the next hop.\<close>

definition reaches :: "os \<Rightarrow> node_id \<Rightarrow> ip_addr \<Rightarrow> intf_id \<Rightarrow> intf \<Rightarrow> mac_addr \<Rightarrow> (u8 list \<Rightarrow> event) \<Rightarrow> world \<Rightarrow> bool" where
  "reaches os n dst i x mac ev w \<longleftrightarrow>
    (\<exists>nd rt e. get_node n w = Inr nd \<and> rt_lookup_lpm (rt_table nd) dst = Inr (Some rt) \<and> rt_intf rt = i \<and>
       is_ip_local n dst w = Inr False \<and>
       arp_table_lookup (arp_table nd) (arp_target rt dst) = Some e \<and> arp_resolved e \<and> arp_mac e = mac \<and>
       get_intf i w = Inr x \<and> up os i ev w \<and> length mac = 6 \<and> length (if_mac x) = 6)"

lemma reaches_cong:
  assumes "reaches os n dst i x mac ev w" and "w_intfs w' = w_intfs w" and "w_nodes w' = w_nodes w"
    and "w_links w' = w_links w"
  shows "reaches os n dst i x mac ev w'"
  using assms up_cong [OF assms(2,4)] is_ip_local_cong [OF assms(2,3)]
  by (simp add: reaches_def get_node_def get_intf_def)

lemma ip_output_sent:
  assumes s: "get_skb p w = Inr s" "wf_skb s" "34 \<le> data_off s" "46 \<le> skb_tailroom s"
    and i: "skb_intf s = None \<or> skb_intf s = Some i" and r: "reaches os n dst i x mac ev w"
  shows "\<exists>pad. length pad = 26 - skb_len s \<and> ip_output os deliver n dst prot p w =
    Inr (True, w\<lparr>trace := trace w @ sent ev i w (ip_frame x mac
      (ip_out_hdr (if_ip x) dst prot (skb_len s + IP_HDR_SIZE)) (payload s) @ pad), w_skbs := (w_skbs w)(p := None)\<rparr>)"
proof -
  from r obtain nd rt e where nd: "get_node n w = Inr nd" and rt: "rt_lookup_lpm (rt_table nd) dst = Inr (Some rt)" "rt_intf rt = i"
    and remote: "is_ip_local n dst w = Inr False"
    and e: "arp_table_lookup (arp_table nd) (arp_target rt dst) = Some e" "arp_resolved e" "arp_mac e = mac"
    and x: "get_intf i w = Inr x" and up: "up os i ev w" and macs: "length mac = 6" "length (if_mac x) = 6"
    by (auto simp: reaches_def)
  have "IP_HDR_SIZE \<le> data_off s" "skb_intf s = None \<or> skb_intf s = Some (rt_intf rt)" "get_intf (rt_intf rt) w = Inr x"
    using s(3) i rt(2) x by (simp_all add: IP_HDR_SIZE_def)
  from ip_output_routed [OF s(1,2) this(1) nd rt(1) this(2,3) remote, of prot os deliver] obtain t where
    t: "data_off t = data_off s - IP_HDR_SIZE" "tail_off t = tail_off s" "length (buf t) = length (buf s)"
      "has_ip p (Some i) (ip_out_hdr (if_ip x) dst prot (skb_len s + IP_HDR_SIZE)) (payload s) t (put_skb p t w)"
      "ip_output os deliver n dst prot p w = ip_finish os n i (arp_target rt dst) p (put_skb p t w)"
    using rt(2) by auto
  let ?w2 = "put_skb p t w"
  have f2: "get_node n ?w2 = Inr nd" "get_intf i ?w2 = Inr x" "up os i ev ?w2"
    using nd x up up_cong [of ?w2 w os i ev] by (simp_all add: world_access)
  have room: "frame_room t"
    using t(1-4) s by (auto simp: frame_room_def skb_tailroom_def has_ip_def ETH_HDR_SIZE_def IP_HDR_SIZE_def)
  have "length (payload s) = skb_len s" using length_payload [OF s(2)] .
  with transmit_ip [OF t(4) room f2(3,2) macs] ip_finish_resolved [OF f2(1) e(1,2)] t(5) e(3) show ?thesis
    by (auto simp: put_skb_def sent_def)
qed

end
