(* ===== verification/Rx_Queue.thy ===== *)
theory Rx_Queue
  imports State
begin

text \<open>
  The receive queue of a UDP socket and of a TCP connection is a list of socket buffers, newest
  first.  Seen from the reader it is a queue of byte strings, oldest first: a packet is added at
  the end, a read takes bytes from the front string and drops it once it is empty.
\<close>

definition rx_data :: "skb_id list \<Rightarrow> world \<Rightarrow> u8 list list" where
  "rx_data ps w = map (\<lambda>p. payload (the (w_skbs w p))) (rev ps)"

definition rx_ok :: "skb_id list \<Rightarrow> world \<Rightarrow> bool" where
  "rx_ok ps w \<longleftrightarrow> distinct ps \<and> (\<forall>p \<in> set ps. \<exists>s. w_skbs w p = Some s \<and> wf_skb s)"

lemma rx_data_frame: "(\<And>p. p \<in> set ps \<Longrightarrow> w_skbs w' p = w_skbs w p) \<Longrightarrow> rx_data ps w' = rx_data ps w"
  by (simp add: rx_data_def)

lemma rx_ok_frame: "rx_ok ps w \<Longrightarrow> (\<And>p. p \<in> set ps \<Longrightarrow> w_skbs w' p = w_skbs w p) \<Longrightarrow> rx_ok ps w'"
  by (simp add: rx_ok_def)

lemma rx_push:
  assumes "rx_ok ps w" and "p \<notin> set ps" and "wf_skb s"
  shows "rx_data (p # ps) (put_skb p s w) = rx_data ps w @ [payload s]" "rx_ok (p # ps) (put_skb p s w)"
  using assms by (auto simp: rx_data_def rx_ok_def put_skb_def)

lemma rx_last:
  assumes "rx_ok ps w" and "ps \<noteq> []"
  shows "\<exists>s. get_skb (last ps) w = Inr s \<and> wf_skb s \<and> hd (rx_data ps w) = payload s \<and> rx_data ps w \<noteq> []"
  using assms last_in_set [OF assms(2)]
  by (fastforce simp: rx_ok_def rx_data_def skb_table.get_Inr_iff hd_map hd_rev)

text \<open>Reading part of the oldest packet, and taking it out when nothing is left.\<close>

lemma rx_shorten:
  assumes "rx_ok ps w" and "ps \<noteq> []" and "wf_skb s"
  shows "rx_data ps (put_skb (last ps) s w) = payload s # tl (rx_data ps w)" "rx_ok ps (put_skb (last ps) s w)"
proof -
  obtain qs p where ps: "ps = qs @ [p]" using assms(2) by (metis append_butlast_last_id)
  with assms have "p \<notin> set qs" by (simp add: rx_ok_def)
  with ps assms show "rx_data ps (put_skb (last ps) s w) = payload s # tl (rx_data ps w)"
    by (auto simp: rx_data_def put_skb_def)
  show "rx_ok ps (put_skb (last ps) s w)" using assms by (auto simp: rx_ok_def put_skb_def)
qed

lemma rx_drop:
  assumes "rx_ok ps w" and "ps \<noteq> []"
  shows "rx_data (remove1 (last ps) ps) (w\<lparr>w_skbs := (w_skbs w)(last ps := None)\<rparr>) = tl (rx_data ps w)"
    "rx_ok (remove1 (last ps) ps) (w\<lparr>w_skbs := (w_skbs w)(last ps := None)\<rparr>)"
proof -
  obtain qs p where ps: "ps = qs @ [p]" using assms(2) by (metis append_butlast_last_id)
  with assms have "p \<notin> set qs" "distinct qs" by (simp_all add: rx_ok_def)
  with ps have r: "remove1 (last ps) ps = qs" by (simp add: remove1_append)
  with ps \<open>p \<notin> set qs\<close> show "rx_data (remove1 (last ps) ps) (w\<lparr>w_skbs := (w_skbs w)(last ps := None)\<rparr>) = tl (rx_data ps w)"
    by (auto simp: rx_data_def)
  show "rx_ok (remove1 (last ps) ps) (w\<lparr>w_skbs := (w_skbs w)(last ps := None)\<rparr>)"
    using assms(1) ps \<open>p \<notin> set qs\<close> unfolding r by (auto simp: rx_ok_def)
qed

text \<open>The bytes a read of \<open>n\<close> returns, and what is left of the buffer.\<close>

lemma read_front:
  assumes "wf_skb s" and k_def: "k = min (skb_len s) n"
  shows "rd_bytes (data_off s) k s = Inr (take n (payload s))"
    and "\<exists>t. skb_pull k s = Inr t \<and> wf_skb t \<and> payload t = drop n (payload s) \<and> skb_len t = skb_len s - n \<and>
      ip_hdr_off t = ip_hdr_off s \<and> udp_hdr_off t = udp_hdr_off s \<and> buf t = buf s"
proof -
  have k: "k \<le> skb_len s" by (simp add: k_def)
  have l: "length (payload s) = skb_len s" using length_payload [OF assms(1)] .
  have "rd_bytes (data_off s) k s = Inr (slice (data_off s) k (buf s))"
    using assms(1) k by (auto simp: rd_bytes_def wf_skb_def)
  moreover have "slice (data_off s) k (buf s) = take k (payload s)"
    using assms(1) k by (auto simp: payload_def slice_def wf_skb_def min_def)
  moreover have "take k (payload s) = take n (payload s)" using l by (simp add: k_def min_def)
  ultimately show "rd_bytes (data_off s) k s = Inr (take n (payload s))" by simp
  let ?t = "s\<lparr>data_off := data_off s + k, skb_len := skb_len s - k\<rparr>"
  have t: "skb_pull k s = Inr ?t" using skb_pull_ok [OF k assms(1)] .
  have "payload ?t = drop k (payload s)" by (rule payload_pull [OF assms(1) t])
  also have "\<dots> = drop n (payload s)" using l by (simp add: k_def min_def)
  finally show "\<exists>t. skb_pull k s = Inr t \<and> wf_skb t \<and> payload t = drop n (payload s) \<and> skb_len t = skb_len s - n \<and>
      ip_hdr_off t = ip_hdr_off s \<and> udp_hdr_off t = udp_hdr_off s \<and> buf t = buf s"
    using t wf_skb_pull [OF assms(1) t] by (auto simp: k_def)
qed

text \<open>The queue after a read of \<open>n\<close> bytes.\<close>

fun after_read :: "nat \<Rightarrow> u8 list list \<Rightarrow> u8 list list" where
  "after_read n [] = []"
| "after_read n (d # ds) = (if length d \<le> n then ds else drop n d # ds)"

section \<open>Owners of a queue\<close>

text \<open>
  A UDP socket and a TCP connection own such a queue.  Both add a packet at the head, and both read
  from the last buffer, which leaves the list when nothing is left of it; the buffers and the
  owners are in different tables.
\<close>

locale rx_owner = object_table table get put
  for table :: "world \<Rightarrow> nat \<Rightarrow> 'o option" and get and put +
  fixes queue :: "'o \<Rightarrow> skb_id list"
    and set_queue :: "skb_id list \<Rightarrow> 'o \<Rightarrow> 'o"
  assumes queue_set: "queue (set_queue ps x) = ps"
    and put_skbs: "w_skbs (put i x w) = w_skbs w"
    and table_skbs: "table (w\<lparr>w_skbs := m\<rparr>) = table w"
begin

lemma get_put_skb: "get i (put_skb p s w) = get i w"
  by (simp add: get_table put_skb_def table_skbs)

lemma push_newest:
  assumes "rx_ok (queue x) w" and "p \<notin> set (queue x)" and "wf_skb t" and "queue y = p # queue x"
  shows "rx_data (queue y) (put i y (put_skb p t w)) = rx_data (queue x) w @ [payload t]"
    and "rx_ok (queue y) (put i y (put_skb p t w))"
  using rx_push [OF assms(1-3)] assms(4) by (simp_all add: rx_data_def rx_ok_def put_skbs)

lemma read_oldest:
  assumes x: "get i w = Inr x" and ok: "rx_ok (queue x) w" and ne: "rx_data (queue x) w = d # ds"
  shows "\<exists>s t w' y. get_skb (last (queue x)) w = Inr s \<and> wf_skb s \<and>
    rd_bytes (data_off s) (min (skb_len s) n) s = Inr (take n d) \<and> skb_pull (min (skb_len s) n) s = Inr t \<and>
    ip_hdr_off t = ip_hdr_off s \<and> udp_hdr_off t = udp_hdr_off s \<and> buf t = buf s \<and>
    (if skb_len t = 0
     then free_skb (last (queue x))
       (put i (set_queue (remove1 (last (queue x)) (queue x)) x) (put_skb (last (queue x)) t w))
     else Inr (put_skb (last (queue x)) t w)) = Inr w' \<and>
    get i w' = Inr y \<and> rx_ok (queue y) w' \<and> rx_data (queue y) w' = after_read n (d # ds)"
proof -
  let ?ps = "queue x" and ?p = "last (queue x)"
  have nemp: "?ps \<noteq> []" using ne by (auto simp: rx_data_def)
  from rx_last [OF ok nemp] ne obtain s where s: "get_skb ?p w = Inr s" "wf_skb s" "payload s = d" by auto
  from read_front [OF s(2) refl, of n] s(3) obtain t where rd: "rd_bytes (data_off s) (min (skb_len s) n) s = Inr (take n d)"
    and t: "skb_pull (min (skb_len s) n) s = Inr t" "wf_skb t" "payload t = drop n d" "skb_len t = skb_len s - n"
      "ip_hdr_off t = ip_hdr_off s" "udp_hdr_off t = udp_hdr_off s" "buf t = buf s" by auto
  have len: "length d = skb_len s" using length_payload [OF s(2)] s(3) by simp
  let ?w1 = "put_skb ?p t w"
  have data1: "rx_data ?ps ?w1 = drop n d # ds" "rx_ok ?ps ?w1"
    using rx_shorten [OF ok nemp t(2)] t(3) ne by simp_all
  have "\<exists>w' y. (if skb_len t = 0 then free_skb ?p (put i (set_queue (remove1 ?p ?ps) x) ?w1) else Inr ?w1) = Inr w' \<and>
    get i w' = Inr y \<and> rx_ok (queue y) w' \<and> rx_data (queue y) w' = after_read n (d # ds)"
  proof (cases "length d \<le> n")
    case True
    let ?w2 = "put i (set_queue (remove1 ?p ?ps) x) ?w1"
    let ?w3 = "?w2\<lparr>w_skbs := (w_skbs ?w2)(?p := None)\<rparr>"
    have "free_skb ?p ?w2 = Inr ?w3" "get i ?w3 = Inr (set_queue (remove1 ?p ?ps) x)"
      by (simp_all add: free_skb_def put_skbs put_skb_def get_table table_skbs put_table)
    moreover have "rx_data (remove1 ?p ?ps) ?w3 = ds" "rx_ok (remove1 ?p ?ps) ?w3"
      using rx_drop [OF data1(2) nemp] data1(1) by (simp_all add: rx_data_def rx_ok_def put_skbs)
    ultimately show ?thesis using True t(4) len by (auto simp: queue_set)
  next
    case False
    with t(4) len data1 x show ?thesis by (auto simp: get_put_skb)
  qed
  with s(1,2) rd t(1,5-7) show ?thesis by blast
qed

end

end
