(* ===== verification/Tcp_Path.thy ===== *)
theory Tcp_Path
  imports Tcp Ip_Path Rx_Queue
begin

text \<open>
  TCP: the checksum over the pseudo header, the segments a connection sends and the window test,
  what a received segment does to a connection, and the byte stream the reader sees.
\<close>

section \<open>Checksum\<close>

definition pseudo_for :: "nat \<Rightarrow> ip_addr \<Rightarrow> ip_addr \<Rightarrow> pseudo_ip_hdr" where
  "pseudo_for n src dst = \<lparr>ps_src_ip = src, ps_dst_ip = dst, ps_rsrv = 0, ps_proto = IP_PROTO_TCP,
     ps_len = ucast (HTONS (of_nat n :: u64))\<rparr>"

lemma write_at_twice:
  "length a = length b \<Longrightarrow> off + length b \<le> length xs \<Longrightarrow> write_at off a (write_at off b xs) = write_at off a xs"
  by (rule nth_equalityI) (auto simp: nth_write_at)

text \<open>
  The computation leaves the buffer as it was: the pseudo header is written over the twelve bytes
  before the segment and those bytes are restored.
\<close>

lemma calc_tcp_cksum_eq:
  assumes off: "PSEUDO_IP_HDR_SIZE \<le> off" and n: "off + n \<le> length (buf s)"
  shows "calc_tcp_cksum off n src dst s =
    Inr (calc_checksum_16 (enc_pseudo (pseudo_for n src dst) @ slice off n (buf s)), s)"
proof -
  let ?po = "off - 12" and ?ps = "enc_pseudo (pseudo_for n src dst)"
  have o: "12 \<le> off" using off by (simp add: PSEUDO_IP_HDR_SIZE_def)
  have l: "length ?ps = 12" using pseudo.length_enc [of "pseudo_for n src dst"] by (simp add: PSEUDO_IP_HDR_SIZE_def)
  let ?b1 = "write_at ?po ?ps (buf s)"
  have b1: "length ?b1 = length (buf s)" using o n l by simp
  have "slice ?po (12 + n) ?b1 = slice ?po 12 ?b1 @ slice (?po + 12) n ?b1" by (rule slice_append_split)
  also have "slice ?po 12 ?b1 = ?ps" using o n l by simp
  also have "slice (?po + 12) n ?b1 = slice off n (buf s)"
    using o n l slice_write_disjoint [of ?po ?ps "buf s" off n] by simp
  finally have bs: "slice ?po (n + 12) ?b1 = ?ps @ slice off n (buf s)" by (simp add: add.commute)
  have restored: "write_at ?po (slice ?po 12 (buf s)) ?b1 = buf s"
    using o n l by (subst write_at_twice) simp_all
  have w: "wr_hdr enc_pseudo ?po (pseudo_for n src dst) s = Inr (s\<lparr>buf := ?b1\<rparr>)"
    using pseudo.wr_ok [where off = ?po and s = s] o n by (simp add: PSEUDO_IP_HDR_SIZE_def)
  have "wr_bytes ?po (slice ?po 12 (buf s)) (s\<lparr>buf := ?b1\<rparr>) = Inr s"
    using o n b1 restored by (simp add: wr_bytes_def)
  then show ?thesis
    using o n w bs b1
    by (simp add: calc_tcp_cksum_def PSEUDO_IP_HDR_SIZE_def rd_bytes_def pseudo_for_def [symmetric] Let_def)
qed

definition tcp_sealed :: "ip_addr \<Rightarrow> ip_addr \<Rightarrow> tcp_hdr \<Rightarrow> u8 list \<Rightarrow> tcp_hdr" where
  "tcp_sealed src dst h data = h\<lparr>tcp_cksum :=
     HTONS (calc_checksum_16 (enc_pseudo (pseudo_for (20 + length data) src dst) @ enc_tcp h @ data))\<rparr>"

definition tcp_pre :: "tcp_hdr \<Rightarrow> u8 list" where "tcp_pre h = take 16 (enc_tcp h)"
definition tcp_post :: "tcp_hdr \<Rightarrow> u8 list" where "tcp_post h = drop 18 (enc_tcp h)"

lemma enc_tcp_split:
  "enc_tcp h = tcp_pre h @ bytes16 (tcp_cksum h) @ tcp_post h"
  "tcp_pre (h\<lparr>tcp_cksum := c\<rparr>) = tcp_pre h" "tcp_post (h\<lparr>tcp_cksum := c\<rparr>) = tcp_post h"
  "length (tcp_pre h) = 16" "length (tcp_post h) = 2"
  by (simp_all add: tcp_pre_def tcp_post_def enc_tcp_def bytes_defs)

text \<open>A receiver that checks a sealed segment finds a zero sum.\<close>

lemma tcp_sealed_checksum:
  assumes "tcp_cksum h = 0" and "length data \<le> 65000"
  shows "calc_checksum_16 (enc_pseudo (pseudo_for (20 + length data) src dst) @
    enc_tcp (tcp_sealed src dst h data) @ data) = 0"
proof -
  let ?ps = "enc_pseudo (pseudo_for (20 + length data) src dst)"
  define c where "c = calc_checksum_16 (?ps @ enc_tcp h @ data)"
  let ?A = "?ps @ tcp_pre h" and ?B = "tcp_post h @ data"
  have l: "length ?ps = 12" using pseudo.length_enc [of "pseudo_for (20 + length data) src dst"]
    by (simp add: PSEUDO_IP_HDR_SIZE_def)
  have e: "?ps @ enc_tcp (tcp_sealed src dst h data) @ data = ?A @ bytes16 (HTONS c) @ ?B"
    unfolding tcp_sealed_def c_def [symmetric]
    using enc_tcp_split(1) [of "h\<lparr>tcp_cksum := HTONS c\<rparr>"] by (simp add: enc_tcp_split(2,3))
  have c: "c = calc_checksum_16 (?A @ bytes16 (tcp_cksum h) @ ?B)"
    unfolding c_def using enc_tcp_split(1) [of h] by simp
  have "calc_checksum_16 (?A @ bytes16 (HTONS c) @ ?B) = 0 \<longleftrightarrow>
    be_sum (bytes16 (tcp_cksum h)) mod 65535 = 0 \<and>
      (be_sum ?A + be_sum ?B \<noteq> 0 \<or> be_sum (bytes16 (tcp_cksum h)) = 0)"
    using assms(2) l enc_tcp_split(4,5) [of h] by (intro checksum_fill [OF _ _ _ c]) auto
  moreover have "be_sum (bytes16 (tcp_cksum h)) = 0" by (simp add: assms(1) bytes16_def)
  ultimately show ?thesis unfolding e by simp
qed

lemma fill_tcp_front:
  assumes "wf_skb s" and p: "payload s = enc_tcp h @ data" and off: "PSEUDO_IP_HDR_SIZE \<le> data_off s"
  shows "\<exists>t. fill_tcp_cksum (data_off s) (skb_len s) src dst s = Inr t \<and> wf_skb t \<and>
    payload t = enc_tcp (tcp_sealed src dst h data) @ data \<and> same_place s t \<and> skb_intf t = skb_intf s"
proof -
  note rd = tcp.rd_front [OF assms(1) p]
  have n: "skb_len s = 20 + length data" using rd(2) by (simp add: TCP_HDR_SIZE_def)
  have b: "data_off s + skb_len s \<le> length (buf s)" "slice (data_off s) (skb_len s) (buf s) = payload s"
    using assms(1) by (auto simp: wf_skb_def payload_def)
  let ?h = "tcp_sealed src dst h data"
  from tcp.wr_front [OF assms(1), of ?h] obtain t where t: "wr_hdr enc_tcp (data_off s) ?h s = Inr t" "wf_skb t"
    "payload t = enc_tcp ?h @ drop TCP_HDR_SIZE (payload s)"
    "t = s\<lparr>buf := write_at (data_off s) (enc_tcp ?h) (buf s)\<rparr>" using rd(2) by auto
  have "length (buf t) = length (buf s)"
    using b(1) n tcp.length_enc [of ?h] by (simp add: t(4) TCP_HDR_SIZE_def)
  moreover have "fill_tcp_cksum (data_off s) (skb_len s) src dst s = Inr t"
    using calc_tcp_cksum_eq [OF off b(1), of src dst] b(2) p n rd(1) t(1)
    by (simp add: fill_tcp_cksum_def tcp_sealed_def)
  ultimately show ?thesis
    using t p tcp.length_enc [of h] by (auto simp: same_place_def t(4))
qed

section \<open>Segments that are sent\<close>

definition tcp_out_hdr :: "tcp_sock \<Rightarrow> tcp_connection_sock \<Rightarrow> u8 \<Rightarrow> tcp_hdr" where
  "tcp_out_hdr sk cn fl = \<lparr>tcp_src_port = HTONS (ts_local_port sk), tcp_dst_port = HTONS (tc_remote_port cn),
     tcp_seq = HTONL (snt_nxt cn), tcp_ack = HTONL (rcv_nxt cn), tcp_rsrv1 = 0, tcp_hlen = 5, tcp_flags = fl,
     tcp_wnd_sz = HTONS (rcv_wnd cn), tcp_cksum = 0, tcp_urgp = 0\<rparr>"

text \<open>The buffer before the header is written: 60 bytes in front, 46 behind, all zero.\<close>

definition tcp_blank :: "tcp_sock \<Rightarrow> nat \<Rightarrow> skb" where
  "tcp_blank sk n = (alloc_skb (126 + n))\<lparr>skb_intf := ts_intf sk, data_off := 60, tail_off := 80, skb_len := 20\<rparr>"

definition tcp_fresh :: "tcp_sock \<Rightarrow> nat \<Rightarrow> skb" where
  "tcp_fresh sk n = (alloc_skb (126 + n))\<lparr>skb_intf := ts_intf sk, data_off := 60, tail_off := 60\<rparr>"

lemma tcp_blank_ok:
  assumes "n < 2000"
  shows "skb_reserve BUFF_HEADROOM ((alloc_skb (BUFF_HEADROOM + BUFF_TAILROOM + TCP_HDR_SIZE + n))\<lparr>skb_intf := ts_intf sk\<rparr>) =
      Inr (tcp_fresh sk n)" "tail_off (tcp_fresh sk n) = 60"
    and "skb_put TCP_HDR_SIZE (tcp_fresh sk n) = Inr (tcp_blank sk n)"
    and "wf_skb (tcp_blank sk n)" and "rd_hdr TCP_HDR_SIZE dec_tcp 60 (tcp_blank sk n) = Inr (dec_tcp (replicate 20 0))"
proof -
  show "skb_reserve BUFF_HEADROOM ((alloc_skb (BUFF_HEADROOM + BUFF_TAILROOM + TCP_HDR_SIZE + n))\<lparr>skb_intf := ts_intf sk\<rparr>) =
      Inr (tcp_fresh sk n)" "tail_off (tcp_fresh sk n) = 60" "skb_put TCP_HDR_SIZE (tcp_fresh sk n) = Inr (tcp_blank sk n)"
    by (simp_all add: skb_reserve_def skb_put_def tcp_blank_def tcp_fresh_def alloc_skb_def BUFF_HEADROOM_def
        BUFF_TAILROOM_def TCP_HDR_SIZE_def Let_def)
  show "wf_skb (tcp_blank sk n)" using assms by (simp add: wf_skb_def tcp_blank_def alloc_skb_def)
  show "rd_hdr TCP_HDR_SIZE dec_tcp 60 (tcp_blank sk n) = Inr (dec_tcp (replicate 20 0))"
    using tcp.rd_ok [of 60 "tcp_blank sk n"] by (simp add: tcp_blank_def alloc_skb_def TCP_HDR_SIZE_def slice_def)
qed

lemma put_data_ok:
  assumes "wf_skb s" and "length data \<le> skb_tailroom s"
  shows "\<exists>t. (if data \<noteq> [] then bindE (skb_put (length data) s) (wr_bytes (tail_off s) data) else Inr s) = Inr t \<and>
    wf_skb t \<and> payload t = payload s @ data \<and> data_off t = data_off s \<and> tail_off t = tail_off s + length data \<and>
    length (buf t) = length (buf s) \<and> skb_intf t = skb_intf s \<and> ip_hdr_off t = ip_hdr_off s"
proof (cases "data = []")
  case True
  with assms show ?thesis by simp
next
  case False
  let ?s = "s\<lparr>tail_off := tail_off s + length data, skb_len := skb_len s + length data\<rparr>"
  let ?t = "?s\<lparr>buf := write_at (tail_off s) data (buf s)\<rparr>"
  have put: "skb_put (length data) s = Inr ?s" using skb_put_ok [OF assms(2,1)] .
  have r: "tail_off s + length data \<le> length (buf s)" using assms by (auto simp: skb_tailroom_def wf_skb_def)
  then have wr: "wr_bytes (tail_off s) data ?s = Inr ?t" by (simp add: wr_bytes_def)
  have o: "data_off s \<le> tail_off s" using assms(1) by (simp add: wf_skb_def)
  let ?b = "write_at (tail_off s) data (buf s)"
  have "payload ?t = slice (data_off s) ((tail_off s - data_off s) + length data) ?b" using o by (simp add: payload_def)
  also have "\<dots> = slice (data_off s) (tail_off s - data_off s) ?b @ slice (tail_off s) (length data) ?b"
    using o slice_append_split [of "data_off s" "tail_off s - data_off s" "length data" ?b] by simp
  also have "slice (data_off s) (tail_off s - data_off s) ?b = payload s"
    using r o slice_write_disjoint [of "tail_off s" data "buf s" "data_off s" "tail_off s - data_off s"]
    by (simp add: payload_def)
  also have "slice (tail_off s) (length data) ?b = data" using r by simp
  finally have "payload ?t = payload s @ data" .
  with False put wr r wf_wr_bytes [OF wf_skb_put [OF assms(1) put] wr] show ?thesis by simp
qed

text \<open>The segment \<open>tcp_out\<close> builds when it fits the window.\<close>

definition tcp_segment :: "tcp_sock \<Rightarrow> tcp_connection_sock \<Rightarrow> u8 list \<Rightarrow> u8 \<Rightarrow> u8 list" where
  "tcp_segment sk cn data fl =
     enc_tcp (tcp_sealed (ts_local_ip sk) (tc_remote_ip cn) (tcp_out_hdr sk cn fl) data) @ data"

lemma tcp_out_in_window:
  assumes cn: "get_tcp_conn c w = Inr cn" and sk: "get_tcp_sock (tc_parent cn) w = Inr sk"
    and win: "\<not> outside_window cn (length data)" and n: "length data \<le> MAX_TCP_PAYLOAD"
    and i: "ts_intf sk = Some i" "get_intf i w = Inr x"
    and w1_def: "w1 = put_tcp_conn c (tcp_advance cn (length data) fl) w"
  shows "\<exists>s. wf_skb s \<and> data_off s = 60 \<and> skb_tailroom s = 46 \<and> skb_intf s = Some i \<and> ip_hdr_off s = None \<and>
    payload s = tcp_segment sk cn data fl \<and>
    tcp_out os deliver c data fl w =
      ip_output os deliver (if_node x) (tc_remote_ip cn) IP_PROTO_TCP (w_next w) (snd (new_skb s w1))"
proof -
  let ?n = "length data" and ?H = "tcp_out_hdr sk cn fl"
  have n': "?n < 2000" using n by (simp add: MAX_TCP_PAYLOAD_def)
  note blank = tcp_blank_ok [OF n', where sk = sk]
  let ?s1 = "tcp_blank sk ?n"
  have h: "(dec_tcp (replicate 20 0))\<lparr>tcp_src_port := HTONS (ts_local_port sk), tcp_dst_port := HTONS (tc_remote_port cn),
      tcp_seq := HTONL (snt_nxt cn), tcp_ack := HTONL (rcv_nxt cn), tcp_flags := fl, tcp_wnd_sz := HTONS (rcv_wnd cn),
      tcp_hlen := 5\<rparr> = ?H"
    by (simp add: dec_tcp_def tcp_out_hdr_def le16_def)
  have o1: "data_off ?s1 = 60" "tail_off ?s1 = 80" "skb_len ?s1 = 20" "length (buf ?s1) = 126 + ?n"
    "skb_intf ?s1 = Some i" "ip_hdr_off ?s1 = None"
    by (simp_all add: tcp_blank_def alloc_skb_def i)
  have "length (payload ?s1) = 20" using length_payload [OF blank(4)] o1 by simp
  with tcp.wr_front [OF blank(4), of ?H] obtain s2 where s2: "wr_hdr enc_tcp 60 ?H ?s1 = Inr s2" "wf_skb s2"
    "payload s2 = enc_tcp ?H" "s2 = ?s1\<lparr>buf := write_at 60 (enc_tcp ?H) (buf ?s1)\<rparr>"
    using o1 by (auto simp: TCP_HDR_SIZE_def)
  have o2: "data_off s2 = 60" "tail_off s2 = 80" "length (buf s2) = 126 + ?n" "skb_intf s2 = Some i" "ip_hdr_off s2 = None"
    using o1 tcp.length_enc [of ?H] by (simp_all add: s2(4) TCP_HDR_SIZE_def)
  then have "?n \<le> skb_tailroom s2" by (simp add: skb_tailroom_def)
  from put_data_ok [OF s2(2) this] s2(3) o2 obtain s3 where
    s3: "(if data \<noteq> [] then bindE (skb_put ?n s2) (wr_bytes (tail_off s2) data) else Inr s2) = Inr s3"
      "wf_skb s3" "payload s3 = enc_tcp ?H @ data" "data_off s3 = 60" "tail_off s3 = 80 + ?n"
      "length (buf s3) = 126 + ?n" "skb_intf s3 = Some i" "ip_hdr_off s3 = None" by auto
  from fill_tcp_front [OF s3(2,3), of "ts_local_ip sk" "tc_remote_ip cn"] s3 obtain s4 where
    s4: "fill_tcp_cksum 60 (skb_len s3) (ts_local_ip sk) (tc_remote_ip cn) s3 = Inr s4" "wf_skb s4"
      "payload s4 = tcp_segment sk cn data fl" "same_place s3 s4" "skb_intf s4 = Some i"
    by (auto simp: PSEUDO_IP_HDR_SIZE_def tcp_segment_def)
  have g: "get_intf i (snd (new_skb s4 w1)) = Inr x"
    using i(2) by (simp add: w1_def new_skb_def put_skb_def put_tcp_conn_def get_intf_def)
  have nx: "w_next w1 = w_next w" by (simp add: w1_def put_tcp_conn_def)
  have "tcp_out os deliver c data fl w =
      ip_output os deliver (if_node x) (tc_remote_ip cn) IP_PROTO_TCP (w_next w) (snd (new_skb s4 w1))"
    unfolding tcp_out_def
    using cn sk win s2(1) s3(1) s4(1) i g nx blank(1)
    by (simp add: blank(2,3,5) h Let_def new_skb_def w1_def [symmetric] split: prod.split)
  moreover have "data_off s4 = 60" "skb_tailroom s4 = 46" "ip_hdr_off s4 = None"
    using s4(4) s3 by (simp_all add: same_place_def skb_tailroom_def)
  ultimately show ?thesis using s4 by blast
qed

lemma length_tcp_segment: "length (tcp_segment sk cn data fl) = 20 + length data"
  using tcp.length_enc [of "tcp_sealed (ts_local_ip sk) (tc_remote_ip cn) (tcp_out_hdr sk cn fl) data"]
  by (simp add: tcp_segment_def TCP_HDR_SIZE_def)

lemma tcp_out_sent:
  assumes cn: "get_tcp_conn c w = Inr cn" and sk: "get_tcp_sock (tc_parent cn) w = Inr sk"
    and win: "\<not> outside_window cn (length data)" and n: "length data \<le> MAX_TCP_PAYLOAD"
    and i: "ts_intf sk = Some i" and r: "reaches os (if_node x) (tc_remote_ip cn) i x mac ev w"
  shows "\<exists>pad. length pad = 6 - length data \<and> tcp_out os deliver c data fl w =
    Inr (True, (put_tcp_conn c (tcp_advance cn (length data) fl) w)
      \<lparr>trace := trace w @ sent ev i w (ip_frame x mac
         (ip_out_hdr (if_ip x) (tc_remote_ip cn) IP_PROTO_TCP (length data + 40)) (tcp_segment sk cn data fl) @ pad),
       w_next := Suc (w_next w), w_skbs := (w_skbs w)(w_next w := None)\<rparr>)"
proof -
  have x: "get_intf i w = Inr x" using r by (auto simp: reaches_def)
  define w1 where "w1 = put_tcp_conn c (tcp_advance cn (length data) fl) w"
  from tcp_out_in_window [OF cn sk win n i x w1_def, of os deliver] obtain s where
    s: "wf_skb s" "data_off s = 60" "skb_tailroom s = 46" "skb_intf s = Some i" "payload s = tcp_segment sk cn data fl"
    and out: "tcp_out os deliver c data fl w =
      ip_output os deliver (if_node x) (tc_remote_ip cn) IP_PROTO_TCP (w_next w) (snd (new_skb s w1))" by blast
  let ?w2 = "snd (new_skb s w1)"
  have g: "get_skb (w_next w) ?w2 = Inr s" by (simp add: w1_def new_skb_def put_tcp_conn_def put_skb_def get_skb_def)
  have len: "skb_len s = 20 + length data" using length_payload [OF s(1)] s(5) by (simp add: length_tcp_segment)
  have "reaches os (if_node x) (tc_remote_ip cn) i x mac ev ?w2"
    by (rule reaches_cong [OF r]) (simp_all add: w1_def new_skb_def put_skb_def put_tcp_conn_def)
  from ip_output_sent [OF g s(1) _ _ _ this, of deliver IP_PROTO_TCP] s len show ?thesis
    unfolding out by (auto simp: IP_HDR_SIZE_def w1_def new_skb_def put_skb_def put_tcp_conn_def sent_def add.commute [of 40])
qed

text \<open>
  Outside the window nothing is sent, yet the result is true, and the buffer stays allocated.
\<close>

lemma tcp_out_outside_window:
  assumes cn: "get_tcp_conn c w = Inr cn" and sk: "get_tcp_sock (tc_parent cn) w = Inr sk"
    and win: "outside_window cn (length data)" and n: "length data \<le> MAX_TCP_PAYLOAD"
  shows "\<exists>s. tcp_out os deliver c data fl w = Inr (True, snd (new_skb s w))"
proof -
  have n': "length data < 2000" using n by (simp add: MAX_TCP_PAYLOAD_def)
  note blank = tcp_blank_ok [OF n', where sk = sk]
  let ?h = "(dec_tcp (replicate 20 0))\<lparr>tcp_src_port := HTONS (ts_local_port sk), tcp_dst_port := HTONS (tc_remote_port cn)\<rparr>"
  obtain t where "wr_hdr enc_tcp 60 ?h (tcp_blank sk (length data)) = Inr t"
    using tcp.wr_front [OF blank(4), of ?h] by (auto simp: tcp_blank_def TCP_HDR_SIZE_def)
  with cn sk win have "tcp_out os deliver c data fl w = Inr (True, snd (new_skb t w))"
    by (simp add: tcp_out_def blank(1,2,3,5) Let_def)
  then show ?thesis by blast
qed

end
