(* ===== verification/Fuel.thy ===== *)
theory Fuel
  imports Stack
begin

text \<open>
  The depth of local delivery.  A packet that a node sends to itself goes up through \<open>ip_input\<close>
  again, but without a header pointer (\<open>skb->ip_hdr\<close> is set for received frames only), and then no
  protocol answers it: two levels are enough, and more fuel changes nothing.
\<close>

section \<open>Steps that do not run out of fuel\<close>

named_theorems fuel_intros \<open>operations that do not run out of fuel\<close>

definition fuelled :: "'a res \<Rightarrow> bool" where
  "fuelled r \<longleftrightarrow> r \<noteq> Inl Out_of_fuel"

lemma fuelled_bind [fuel_intros]: "fuelled r \<Longrightarrow> (\<And>x. r = Inr x \<Longrightarrow> fuelled (f x)) \<Longrightarrow> fuelled (bindE r f)"
  by (cases r) (auto simp: fuelled_def)

lemma fuelled_basic [fuel_intros]:
  "fuelled (Inr x)" "e \<noteq> Out_of_fuel \<Longrightarrow> fuelled (Inl e)" "e \<noteq> Out_of_fuel \<Longrightarrow> fuelled (of_option e o')"
  "e \<noteq> Out_of_fuel \<Longrightarrow> fuelled r \<Longrightarrow> fuelled (guardE e b r)"
  by (auto simp: fuelled_def guardE_def of_option_def split: option.splits)

lemma fuelled_cases [fuel_intros]:
  "(b \<Longrightarrow> fuelled r) \<Longrightarrow> (\<not> b \<Longrightarrow> fuelled r') \<Longrightarrow> fuelled (if b then r else r')"
  "(opt = None \<Longrightarrow> fuelled r) \<Longrightarrow> (\<And>x. opt = Some x \<Longrightarrow> fuelled (g x)) \<Longrightarrow> fuelled (case opt of None \<Rightarrow> r | Some x \<Rightarrow> g x)"
  "(\<And>a b. ab = (a, b) \<Longrightarrow> fuelled (h a b)) \<Longrightarrow> fuelled (case ab of (a, b) \<Rightarrow> h a b)"
  by (auto split: option.splits prod.splits)

lemma fuelled_skb [fuel_intros]:
  "fuelled (skb_reserve n s)" "fuelled (skb_push n s)" "fuelled (skb_pull n s)" "fuelled (skb_put n s)"
  "fuelled (rd_bytes off n s)" "fuelled (wr_bytes off bs s)" "fuelled (wr_hdr enc off h s)"
  by (simp_all add: skb_reserve_def skb_push_def skb_pull_def skb_put_def rd_bytes_def wr_bytes_def wr_hdr_def
      Let_def fuel_intros)

lemma fuelled_rd_hdr [fuel_intros]: "fuelled (rd_hdr n dec off s)"
  unfolding rd_hdr_def by (intro fuel_intros)

lemma fuelled_access [fuel_intros]:
  "fuelled (get_skb p w)" "fuelled (get_intf i w)" "fuelled (get_node n w)" "fuelled (get_link l w)"
  "fuelled (get_udp_sock u w)" "fuelled (get_tcp_sock t w)" "fuelled (get_tcp_conn c w)" "fuelled (free_skb p w)"
  by (simp_all add: get_skb_def get_intf_def get_node_def get_link_def get_udp_sock_def get_tcp_sock_def
      get_tcp_conn_def free_skb_def fuel_intros)

lemma fuelled_on_skb [fuel_intros]: "(\<And>s. fuelled (f s)) \<Longrightarrow> fuelled (on_skb p f w)"
  unfolding on_skb_def by (intro fuel_intros)

lemma fuelled_masks [fuel_intros]: "fuelled (prefix_mask m)" "fuelled (INT_IP_MASKED ip m)" "fuelled (IP_NET_EQ a b m)"
  by (auto simp: prefix_mask_def INT_IP_MASKED_def IP_NET_EQ_def intro!: fuel_intros)

lemma fuelled_route [fuel_intros]: "fuelled (rt_lookup_from entries ip mx best dflt)"
  by (induction entries arbitrary: mx best dflt) (auto intro!: fuel_intros)

lemma fuelled_lpm [fuel_intros]: "fuelled (rt_lookup_lpm table ip)"
  unfolding rt_lookup_lpm_def by (auto intro!: fuel_intros)

lemma fuelled_find_slot [fuel_intros]: "(\<And>x. fuelled (test x)) \<Longrightarrow> fuelled (find_slot test slots w)"
  by (induction test slots w rule: find_slot.induct) (auto intro!: fuel_intros)

lemma fuelled_local [fuel_intros]: "fuelled (is_ip_local n ip w)"
  unfolding is_ip_local_def find_node_intf_def by (intro fuel_intros)

lemma fuelled_send [fuel_intros]: "fuelled (send_bytes_out os bytes i w)"
  unfolding send_bytes_out_def udp_send_bytes_def tuntap_send_bytes_def get_nbr_if_def Let_def
  by (auto intro!: fuel_intros split: comm_ops.splits)

lemma fuelled_ethernet [fuel_intros]: "fuelled (ethernet_output os i mac proto p w)"
  unfolding ethernet_output_def send_pkt_out_def by (auto intro!: fuel_intros)

lemma fuelled_arp_send [fuel_intros]:
  "fuelled (send_arp_broadcast_request os i ip w)" "fuelled (send_arp_reply_msg os i h w)"
  unfolding send_arp_broadcast_request_def send_arp_reply_msg_def arp_skb_def Let_def by (auto intro!: fuel_intros)

lemma fuelled_set_arp [fuel_intros]: "fuelled (set_arp_entry n ip f w)"
  unfolding set_arp_entry_def by (intro fuel_intros)

lemma fuelled_cksum [fuel_intros]: "fuelled (fill_ip_hcksum off s)"
  unfolding fill_ip_hcksum_def calc_ip_hcksum_def by (intro fuel_intros)

lemma fuelled_finish [fuel_intros]: "fuelled (ip_finish os n i target p w)"
  unfolding ip_finish_def Let_def by (auto intro!: fuel_intros)

section \<open>Packets without a header pointer\<close>

definition headerless :: "skb_id \<Rightarrow> world \<Rightarrow> bool" where
  "headerless p w \<longleftrightarrow> (\<exists>s. get_skb p w = Inr s \<and> ip_hdr_off s = None)"

lemma wr_hdr_off: "wr_hdr enc off h s = Inr t \<Longrightarrow> ip_hdr_off t = ip_hdr_off s"
  by (auto simp: wr_hdr_def wr_bytes_def)

lemma wr_bytes_off: "wr_bytes off bs s = Inr t \<Longrightarrow> ip_hdr_off t = ip_hdr_off s"
  by (auto simp: wr_bytes_def)

lemma skb_ops_off:
  "skb_push n s = Inr t \<Longrightarrow> ip_hdr_off t = ip_hdr_off s"
  "skb_put n s = Inr t \<Longrightarrow> ip_hdr_off t = ip_hdr_off s"
  "skb_reserve n s = Inr t \<Longrightarrow> ip_hdr_off t = ip_hdr_off s"
  "skb_pull n s = Inr t \<Longrightarrow> ip_hdr_off t = ip_hdr_off s"
  by (auto simp: skb_push_def skb_put_def skb_reserve_def skb_pull_def Let_def)

lemma fill_ip_off: "fill_ip_hcksum off s = Inr t \<Longrightarrow> ip_hdr_off t = ip_hdr_off s"
  by (auto simp: fill_ip_hcksum_def res_simps dest: wr_hdr_off)

lemmas off_dests = wr_hdr_off wr_bytes_off skb_ops_off fill_ip_off

text \<open>Two ways to deliver that agree on packets without a header pointer make no difference.\<close>

definition agree :: "deliver \<Rightarrow> deliver \<Rightarrow> bool" where
  "agree d d' \<longleftrightarrow> (\<forall>p w. headerless p w \<longrightarrow> d p w = d' p w)"

definition fuelled_on :: "deliver \<Rightarrow> bool" where
  "fuelled_on d \<longleftrightarrow> (\<forall>p w. headerless p w \<longrightarrow> fuelled (d p w))"

lemma headerless_put: "headerless p (put_skb p s w) \<longleftrightarrow> ip_hdr_off s = None"
  by (simp add: headerless_def)

lemma ip_postroute_agree:
  assumes "agree d d'" and "headerless p w"
  shows "ip_postroute os d n p w = ip_postroute os d' n p w"
proof -
  from assms(2) obtain s where s: "get_skb p w = Inr s" "ip_hdr_off s = None" by (auto simp: headerless_def)
  have "d p (put_skb p t w) = d' p (put_skb p t w)" if "ip_hdr_off t = None" for t
    using that assms(1) headerless_put by (simp add: agree_def)
  then show ?thesis
    unfolding ip_postroute_def Let_def using s
    by (auto intro!: bindE_cong split: option.split dest!: off_dests)
qed

lemma ip_postroute_fuelled:
  assumes "fuelled_on d" and "headerless p w"
  shows "fuelled (ip_postroute os d n p w)"
proof -
  from assms(2) obtain s where s: "get_skb p w = Inr s" "ip_hdr_off s = None" by (auto simp: headerless_def)
  have "fuelled (d p (put_skb p t w))" if "ip_hdr_off t = None" for t
    using that assms(1) headerless_put by (simp add: fuelled_on_def)
  then show ?thesis
    unfolding ip_postroute_def Let_def using s
    by (auto intro!: fuel_intros dest!: off_dests)
qed

lemma ip_output_agree:
  assumes "agree d d'" and "headerless p w"
  shows "ip_output os d n ip prot p w = ip_output os d' n ip prot p w"
  using assms unfolding ip_output_def
  by (auto simp: headerless_def intro!: bindE_cong ip_postroute_agree dest!: off_dests)

lemma ip_output_fuelled:
  assumes "fuelled_on d" and "headerless p w"
  shows "fuelled (ip_output os d n ip prot p w)"
  using assms unfolding ip_output_def
  by (auto simp: headerless_def intro!: fuel_intros ip_postroute_fuelled dest!: off_dests)

section \<open>The protocols\<close>

lemma headerless_new: "headerless (w_next w) (snd (new_skb s w)) \<longleftrightarrow> ip_hdr_off s = None"
  by (simp add: headerless_def new_skb_def put_skb_def get_skb_def)

lemma fill_icmp_off: "fill_icmp_cksum off n s = Inr t \<Longrightarrow> ip_hdr_off t = ip_hdr_off s"
  by (auto simp: fill_icmp_cksum_def res_simps dest: wr_hdr_off)

lemma icmp_skb_off: "icmp_skb ty code bytes = Inr s \<Longrightarrow> ip_hdr_off s = None"
  by (auto simp: icmp_skb_def res_simps Let_def alloc_skb_def split: if_splits dest!: off_dests fill_icmp_off)

lemma fill_tcp_off: "fill_tcp_cksum off n src dst s = Inr t \<Longrightarrow> ip_hdr_off t = ip_hdr_off s"
  by (auto simp: fill_tcp_cksum_def calc_tcp_cksum_def res_simps Let_def dest!: off_dests)

lemma put_wr_off: "bindE (skb_put n s) (wr_bytes off bs) = Inr t \<Longrightarrow> ip_hdr_off t = ip_hdr_off s"
  by (auto simp: res_simps dest!: off_dests)

lemma fuelled_fill [fuel_intros]: "fuelled (fill_icmp_cksum off n s)" "fuelled (fill_tcp_cksum off n src dst s)"
  unfolding fill_icmp_cksum_def calc_icmp_cksum_def fill_tcp_cksum_def calc_tcp_cksum_def Let_def
  by (auto intro!: fuel_intros)

lemma fuelled_icmp_skb [fuel_intros]: "fuelled (icmp_skb ty code bytes)"
  unfolding icmp_skb_def Let_def by (auto intro!: fuel_intros)

lemma icmp_out_agree:
  assumes "agree d d'"
  shows "icmp_out os d n ip ty code bytes w = icmp_out os d' n ip ty code bytes w"
  unfolding icmp_out_def
proof (rule bindE_cong [OF refl])
  fix s assume "icmp_skb ty code bytes = Inr s"
  then have "headerless (w_next w) (snd (new_skb s w))" using icmp_skb_off headerless_new by blast
  from ip_output_agree [OF assms this, of os n ip IP_PROTO_ICMP]
  show "(let (p, w) = new_skb s w
      in bindE (ip_output os d n ip IP_PROTO_ICMP p w) (\<lambda>(result, w).
         bindE (if \<not> result then free_skb p w else Inr w) (\<lambda>w. Inr (result, w)))) =
    (let (p, w) = new_skb s w
      in bindE (ip_output os d' n ip IP_PROTO_ICMP p w) (\<lambda>(result, w).
         bindE (if \<not> result then free_skb p w else Inr w) (\<lambda>w. Inr (result, w))))"
    by (simp add: new_skb_def)
qed

lemma icmp_out_fuelled:
  assumes "fuelled_on d"
  shows "fuelled (icmp_out os d n ip ty code bytes w)"
  unfolding icmp_out_def
proof (rule fuelled_bind [OF fuelled_icmp_skb])
  fix s assume "icmp_skb ty code bytes = Inr s"
  then have "headerless (w_next w) (snd (new_skb s w))" using icmp_skb_off headerless_new by blast
  from ip_output_fuelled [OF assms this, of os n ip IP_PROTO_ICMP]
  show "fuelled (let (p, w) = new_skb s w
      in bindE (ip_output os d n ip IP_PROTO_ICMP p w) (\<lambda>(result, w).
         bindE (if \<not> result then free_skb p w else Inr w) (\<lambda>w. Inr (result, w))))"
    by (auto simp: new_skb_def intro!: fuel_intros)
qed

lemma icmp_input_agree: "agree d d' \<Longrightarrow> icmp_input os d p w = icmp_input os d' p w"
  unfolding icmp_input_def by (simp add: icmp_out_agree [of d d'] cong: if_cong)

lemma icmp_input_fuelled: "fuelled_on d \<Longrightarrow> fuelled (icmp_input os d p w)"
  unfolding icmp_input_def by (auto intro!: fuel_intros icmp_out_fuelled)

lemma tcp_out_agree:
  assumes "agree d d'"
  shows "tcp_out os d c bytes fl w = tcp_out os d' c bytes fl w"
proof -
  have "ip_output os d n ip prot (w_next w') (put_skb (w_next w') s w'\<lparr>w_next := Suc (w_next w')\<rparr>) =
        ip_output os d' n ip prot (w_next w') (put_skb (w_next w') s w'\<lparr>w_next := Suc (w_next w')\<rparr>)"
    if "ip_hdr_off s = None" for n ip prot s w'
    using ip_output_agree [OF assms, of "w_next w'" "snd (new_skb s w')"] headerless_new [of w' s] that
    by (simp add: new_skb_def)
  then show ?thesis
    unfolding tcp_out_def Let_def
    by (auto simp: alloc_skb_def new_skb_def intro!: bindE_cong dest!: off_dests put_wr_off fill_tcp_off split: if_splits)
qed

lemma tcp_out_fuelled:
  assumes "fuelled_on d"
  shows "fuelled (tcp_out os d c bytes fl w)"
proof -
  have "fuelled (ip_output os d n ip prot (w_next w') (put_skb (w_next w') s w'\<lparr>w_next := Suc (w_next w')\<rparr>))"
    if "ip_hdr_off s = None" for n ip prot s w'
    using ip_output_fuelled [OF assms, of "w_next w'" "snd (new_skb s w')"] headerless_new [of w' s] that
    by (simp add: new_skb_def)
  then show ?thesis
    unfolding tcp_out_def Let_def
    by (auto simp: alloc_skb_def new_skb_def intro!: fuel_intros dest!: off_dests put_wr_off fill_tcp_off split: if_splits)
qed

lemma fuelled_find_sock [fuel_intros]: "fuelled (tcp_socks_manager_find ts port w)"
  by (induction ts) (auto intro!: fuel_intros)

lemma fuelled_find_conn [fuel_intros]: "fuelled (find_matching_connection cs ip port w)"
  by (induction cs) (auto intro!: fuel_intros)

lemma fuelled_find_udp [fuel_intros]: "fuelled (udp_socks_manager_find us port w)"
  by (induction us) (auto intro!: fuel_intros)

lemma fuelled_udp_input [fuel_intros]: "fuelled (udp_input p w)"
  unfolding udp_input_def Let_def by (auto intro!: fuel_intros)

lemma tcp_input_agree:
  assumes "agree d d'"
  shows "tcp_input os d p w = tcp_input os d' p w"
proof -
  note out = tcp_out_agree [OF assms]
  have e1: "handle_estab os d c p w = handle_estab os d' c p w" for c
    unfolding handle_estab_def close_connection_def out ..
  have e2: "handle_new_connection os d t p w = handle_new_connection os d' t p w" for t
    unfolding handle_new_connection_def out ..
  show ?thesis unfolding tcp_input_def e1 e2 ..
qed

lemma tcp_input_fuelled: "fuelled_on d \<Longrightarrow> fuelled (tcp_input os d p w)"
  unfolding tcp_input_def handle_estab_def close_connection_def handle_syn_sent_def handle_new_connection_def Let_def
  by (auto intro!: fuel_intros tcp_out_fuelled split: tcp_handle.splits)

text \<open>A packet without a header pointer is never passed on.\<close>

lemma icmp_input_headerless:
  assumes "headerless p w"
  shows "icmp_input os d p w = icmp_input os d' p w" "fuelled (icmp_input os d p w)"
proof -
  from assms obtain s where s: "get_skb p w = Inr s" "ip_hdr_off s = None" by (auto simp: headerless_def)
  show "icmp_input os d p w = icmp_input os d' p w"
    unfolding icmp_input_def s(1) bindE_simps s(2) of_option_simps ..
  show "fuelled (icmp_input os d p w)"
    unfolding icmp_input_def s(1) bindE_simps s(2) of_option_simps by (auto intro!: fuel_intros)
qed

lemma tcp_input_headerless:
  assumes "headerless p w"
  shows "tcp_input os d p w = tcp_input os d' p w" "fuelled (tcp_input os d p w)"
proof -
  from assms obtain s where s: "get_skb p w = Inr s" "ip_hdr_off s = None" by (auto simp: headerless_def)
  show "tcp_input os d p w = tcp_input os d' p w"
    unfolding tcp_input_def s(1) bindE_simps s(2) of_option_simps ..
  show "fuelled (tcp_input os d p w)"
    unfolding tcp_input_def s(1) bindE_simps s(2) of_option_simps by (auto intro!: fuel_intros)
qed

section \<open>Two levels are enough\<close>

text \<open>The body of \<open>ip_input\<close> with the handlers it calls as parameters.\<close>

definition demux :: "(skb_id \<Rightarrow> world \<Rightarrow> bool step) \<Rightarrow> (skb_id \<Rightarrow> world \<Rightarrow> bool step) \<Rightarrow> skb_id \<Rightarrow> world \<Rightarrow> bool step" where
  "demux icmp tcp p w =
    bindE (get_skb p w) (\<lambda>s.
    bindE (rd_hdr IP_HDR_SIZE dec_ip (data_off s) s) (\<lambda>hdr.
      if ip_proto hdr = IP_PROTO_ICMP
      then bindE (on_skb p (skb_pull IP_HDR_SIZE) w) (\<lambda>w. icmp p w)
      else if ip_proto hdr = IP_PROTO_TCP
      then bindE (on_skb p (\<lambda>s. bindE (skb_pull IP_HDR_SIZE s) (\<lambda>s. Inr (s\<lparr>tcp_hdr_off := Some (data_off s)\<rparr>))) w)
             (\<lambda>w. tcp p w)
      else if ip_proto hdr = IP_PROTO_UDP
      then bindE (on_skb p (\<lambda>s. bindE (skb_pull IP_HDR_SIZE s) (\<lambda>s. Inr (s\<lparr>udp_hdr_off := Some (data_off s)\<rparr>))) w)
             (\<lambda>w. udp_input p w)
      else Inr (False, w)))"

lemma ip_input_demux:
  "ip_input (Suc k) os p w = demux (icmp_input os (ip_input k os)) (tcp_input os (ip_input k os)) p w"
  by (simp add: demux_def)

lemma on_skb_headerless:
  assumes "headerless p w" and "\<And>s t. f s = Inr t \<Longrightarrow> ip_hdr_off t = ip_hdr_off s" and "on_skb p f w = Inr w'"
  shows "headerless p w'"
  using assms by (auto simp: on_skb_def headerless_def res_simps)

lemma demux_headerless:
  assumes "headerless p w"
    and "\<And>w. headerless p w \<Longrightarrow> icmp p w = icmp' p w \<and> fuelled (icmp p w)"
    and "\<And>w. headerless p w \<Longrightarrow> tcp p w = tcp' p w \<and> fuelled (tcp p w)"
  shows "demux icmp tcp p w = demux icmp' tcp' p w \<and> fuelled (demux icmp tcp p w)"
proof -
  have h1: "headerless p w1" if "on_skb p (skb_pull IP_HDR_SIZE) w = Inr w1" for w1
    by (rule on_skb_headerless [OF assms(1) _ that]) (auto dest: skb_ops_off)
  have h2: "headerless p w1" if "on_skb p (\<lambda>s. bindE (skb_pull IP_HDR_SIZE s)
      (\<lambda>s. Inr (s\<lparr>tcp_hdr_off := Some (data_off s)\<rparr>))) w = Inr w1" for w1
    by (rule on_skb_headerless [OF assms(1) _ that]) (auto simp: res_simps dest!: skb_ops_off)
  have "demux icmp tcp p w = demux icmp' tcp' p w"
    unfolding demux_def using h1 h2 assms(2,3) by (auto intro!: bindE_cong)
  moreover have "fuelled (demux icmp tcp p w)"
    unfolding demux_def using h1 h2 assms(2,3) by (auto intro!: fuel_intros)
  ultimately show ?thesis by blast
qed

lemma ip_input_headerless:
  assumes "headerless p w"
  shows "ip_input (Suc k) os p w = ip_input (Suc k') os p w" "fuelled (ip_input (Suc k) os p w)"
  unfolding ip_input_demux
  using demux_headerless [OF assms, of "icmp_input os (ip_input k os)" "icmp_input os (ip_input k' os)"
      "tcp_input os (ip_input k os)" "tcp_input os (ip_input k' os)"]
    icmp_input_headerless tcp_input_headerless by blast+

lemma ip_input_enough:
  "ip_input (Suc (Suc k)) os p w = ip_input (Suc (Suc k')) os p w" "fuelled (ip_input (Suc (Suc k)) os p w)"
proof -
  let ?d = "ip_input (Suc k) os" and ?d' = "ip_input (Suc k') os"
  have a: "agree ?d ?d'" unfolding agree_def using ip_input_headerless(1) by blast
  have f: "fuelled_on ?d" unfolding fuelled_on_def using ip_input_headerless(2) by blast
  show "ip_input (Suc (Suc k)) os p w = ip_input (Suc (Suc k')) os p w"
    unfolding ip_input_demux [of "Suc k"] ip_input_demux [of "Suc k'"] demux_def
      icmp_input_agree [OF a] tcp_input_agree [OF a] ..
  show "fuelled (ip_input (Suc (Suc k)) os p w)"
    unfolding ip_input_demux [of "Suc k"] demux_def
    by (auto intro!: fuel_intros icmp_input_fuelled [OF f] tcp_input_fuelled [OF f])
qed

section \<open>A received frame\<close>

lemma fuelled_flush [fuel_intros]: "fuelled (flush_pending os n ip mac ps w)"
  by (induction ps arbitrary: w) (auto intro!: fuel_intros)

lemma fuelled_arp_input [fuel_intros]: "fuelled (arp_input os p w)"
  unfolding arp_input_def process_arp_broadcast_request_def process_arp_reply_msg_def
    arp_table_update_from_arp_reply_def by (auto intro!: fuel_intros)

lemma ip_forward_fuelled:
  assumes "\<And>p w. fuelled (d p w)"
  shows "fuelled (ip_forward os d p w)"
  unfolding ip_forward_def ip_postroute_def Let_def by (auto intro!: fuel_intros assms)

lemma pkt_receive_enough:
  "pkt_receive (Suc (Suc k)) os p w = pkt_receive (Suc (Suc k')) os p w" "fuelled (pkt_receive (Suc (Suc k)) os p w)"
proof -
  have e: "ip_input (Suc (Suc k)) os = ip_input (Suc (Suc k')) os"
    using ip_input_enough(1) by (intro ext)
  show "pkt_receive (Suc (Suc k)) os p w = pkt_receive (Suc (Suc k')) os p w"
    unfolding pkt_receive_def ethernet_input_def ip_preroute_def e ..
  show "fuelled (pkt_receive (Suc (Suc k)) os p w)"
    unfolding pkt_receive_def ethernet_input_def ip_preroute_def switch_input_def Let_def
    by (auto intro!: fuel_intros ip_input_enough(2) ip_forward_fuelled simp del: ip_input.simps)
qed

lemma recv_bytes_fuelled: "fuelled (recv_bytes c f n)"
  by (simp add: recv_bytes_def fuelled_def split: option.split comm_ops.split)

lemma recv_frame_enough:
  "recv_frame (Suc (Suc k)) os i f w = recv_frame (Suc (Suc k')) os i f w" "fuelled (recv_frame (Suc (Suc k)) os i f w)"
proof -
  have e: "pkt_receive (Suc (Suc k)) os = pkt_receive (Suc (Suc k')) os"
    using pkt_receive_enough(1) by (intro ext)
  show "recv_frame (Suc (Suc k)) os i f w = recv_frame (Suc (Suc k')) os i f w"
    unfolding recv_frame_def e ..
  show "fuelled (recv_frame (Suc (Suc k)) os i f w)"
    unfolding recv_frame_def Let_def by (auto intro!: fuel_intros recv_bytes_fuelled pkt_receive_enough(2) split: prod.splits)
qed

end
