(* ===== verification/Udp_Path.thy ===== *)
theory Udp_Path
  imports Udp Ip_Path Rx_Queue
begin

text \<open>
  UDP from end to end: a datagram for a bound port joins the queue of its socket, reads empty the
  queue in order, and a datagram that is sent leaves as one frame.
\<close>

section \<open>Bound sockets\<close>

text \<open>The sockets of an interface are searched from the most recently bound one.\<close>

lemma udp_find_Some:
  "udp_socks_manager_find us port w = Inr (Some u) \<Longrightarrow>
   u \<in> set us \<and> (\<exists>sk. get_udp_sock u w = Inr sk \<and> us_local_port sk = port)"
  by (induction us) (auto simp: res_simps split: if_splits)

lemma udp_find_None:
  "udp_socks_manager_find us port w = Inr None \<Longrightarrow> u \<in> set us \<Longrightarrow>
   \<exists>sk. get_udp_sock u w = Inr sk \<and> us_local_port sk \<noteq> port"
  by (induction us) (auto simp: res_simps split: if_splits)

text \<open>
  C19: After a successful udp_bind the lookup that delivers datagrams finds the socket under its
  port, at the interface that owns the address.
\<close>

lemma udp_bind_find:
  assumes r: "udp_bind fd ip port w = Inr (0, w')"
  shows "\<exists>u i x sk. udp_sock_of_fd fd w = Some u \<and> get_intf i w' = Inr x \<and> is_ip_addr_config x \<and> if_ip x = ip \<and>
    udp_socks_manager_find (udp_socks_manager x) port w' = Inr (Some u) \<and>
    get_udp_sock u w' = Inr sk \<and> us_bound sk \<and> us_intf sk = Some i \<and> us_local_port sk = port"
proof -
  from r obtain u where u: "udp_sock_of_fd fd w = Some u"
    by (auto simp: udp_bind_def split: option.splits)
  from r u obtain sk i where sk: "get_udp_sock u w = Inr sk" "get_matching_interface (us_node sk) ip w = Inr (Some i)"
    by (auto simp: udp_bind_def res_simps split: option.splits if_splits)
  from sk(2) obtain slots where "find_slot (\<lambda>x. Inr (is_ip_addr_config x \<and> ip = if_ip x)) slots w = Inr (Some i)"
    by (auto simp: get_matching_interface_def find_node_intf_def res_simps)
  from find_slot_Some [OF this] obtain x where x: "get_intf i w = Inr x" "is_ip_addr_config x" "ip = if_ip x" by auto
  let ?sk = "sk\<lparr>us_bound := True, us_intf := Some i, us_local_port := port\<rparr>"
  let ?x = "x\<lparr>udp_socks_manager := u # udp_socks_manager x\<rparr>"
  have w': "w' = put_intf i ?x (put_udp_sock u ?sk w)"
    using r u sk x(1) by (auto simp: udp_bind_def Let_def put_udp_sock_def get_intf_def split: if_splits)
  have "get_intf i w' = Inr ?x" "get_udp_sock u w' = Inr ?sk"
    by (simp_all add: w' put_intf_def put_udp_sock_def get_intf_def get_udp_sock_def)
  with u x show ?thesis by fastforce
qed

section \<open>Receiving\<close>

interpretation udp_rx: rx_owner w_udp_socks get_udp_sock put_udp_sock us_rx_skb "\<lambda>ps sk. sk\<lparr>us_rx_skb := ps\<rparr>"
  by unfold_locales (simp_all add: put_udp_sock_def)

definition has_udp :: "skb_id \<Rightarrow> intf_id \<Rightarrow> udp_hdr \<Rightarrow> u8 list \<Rightarrow> world \<Rightarrow> bool" where
  "has_udp p i h data w \<longleftrightarrow>
    (\<exists>s. get_skb p w = Inr s \<and> wf_skb s \<and> skb_intf s = Some i \<and> payload s = enc_udp h @ data)"

lemma rd_udp:
  assumes "wf_skb s" and "payload s = enc_udp h @ data"
  shows "rd_hdr UDP_HDR_SIZE dec_udp (data_off s) s = Inr h" "skb_len s = 8 + length data"
  using udp.rd_front [OF assms] by (simp_all add: UDP_HDR_SIZE_def)

lemma udp_input_queued:
  assumes d: "has_udp p i h data w" and x: "get_intf i w = Inr x"
    and u: "udp_socks_manager_find (udp_socks_manager x) (NTOHS (udp_dst_port h)) w = Inr (Some u)"
    and sk: "get_udp_sock u w = Inr sk" and ok: "rx_ok (us_rx_skb sk) w" and p: "p \<notin> set (us_rx_skb sk)"
  shows "\<exists>w'. udp_input p w = Inr (True, w') \<and> get_udp_sock u w' = Inr (sk\<lparr>us_rx_skb := p # us_rx_skb sk\<rparr>) \<and>
    rx_data (p # us_rx_skb sk) w' = rx_data (us_rx_skb sk) w @ [data] \<and> rx_ok (p # us_rx_skb sk) w' \<and> trace w' = trace w \<and>
    udp_fd_to_sock w' = udp_fd_to_sock w \<and>
    (\<exists>s t. get_skb p w = Inr s \<and> w_skbs w' p = Some t \<and> buf t = buf s \<and> ip_hdr_off t = ip_hdr_off s \<and>
       udp_hdr_off t = Some (data_off s))"
proof -
  from d obtain s where s: "get_skb p w = Inr s" "wf_skb s" "skb_intf s = Some i" "payload s = enc_udp h @ data"
    by (auto simp: has_udp_def)
  let ?s = "s\<lparr>udp_hdr_off := Some (data_off s)\<rparr>"
  have s': "wf_skb ?s" "payload ?s = enc_udp h @ data" "UDP_HDR_SIZE \<le> skb_len ?s"
    using s rd_udp(2) [OF s(2,4)] by (simp_all add: wf_skb_def payload_def UDP_HDR_SIZE_def)
  from skb_pull_ok [OF s'(3,1)] obtain t where t: "skb_pull UDP_HDR_SIZE ?s = Inr t"
    "buf t = buf s" "ip_hdr_off t = ip_hdr_off s" "udp_hdr_off t = Some (data_off s)" by fastforce
  have pt: "wf_skb t" "payload t = data"
    using wf_skb_pull [OF s'(1) t(1)] payload_pull [OF s'(1) t(1)] s'(2) udp.length_enc [of h] by simp_all
  let ?w' = "put_udp_sock u (sk\<lparr>us_rx_skb := p # us_rx_skb sk\<rparr>) (put_skb p t w)"
  have "udp_input p w = Inr (True, ?w')"
    using s(1,3) rd_udp(1) [OF s(2,4)] x u t(1) sk by (simp add: udp_input_def Let_def)
  moreover have "rx_data (p # us_rx_skb sk) ?w' = rx_data (us_rx_skb sk) w @ [data]" "rx_ok (p # us_rx_skb sk) ?w'"
    using udp_rx.push_newest [OF ok p pt(1), of "sk\<lparr>us_rx_skb := p # us_rx_skb sk\<rparr>" u] pt(2) by simp_all
  ultimately show ?thesis using s(1) t(2-4) by (auto simp: put_udp_sock_def put_skb_def get_udp_sock_def)
qed

text \<open>No socket: the datagram is not taken.\<close>

lemma udp_input_unbound:
  assumes d: "has_udp p i h data w" and x: "get_intf i w = Inr x"
    and u: "udp_socks_manager_find (udp_socks_manager x) (NTOHS (udp_dst_port h)) w = Inr None"
  shows "\<exists>s. udp_input p w = Inr (False, put_skb p s w)"
  using assms rd_udp(1) by (auto simp: has_udp_def udp_input_def Let_def)

text \<open>The sender of a queued datagram, as the headers in its buffer tell it.\<close>

definition sent_by :: "ip_addr \<Rightarrow> u16 \<Rightarrow> skb \<Rightarrow> bool" where
  "sent_by src port s \<longleftrightarrow>
    (\<exists>io uo ih uh. ip_hdr_off s = Some io \<and> udp_hdr_off s = Some uo \<and> rd_hdr IP_HDR_SIZE dec_ip io s = Inr ih \<and>
       rd_hdr UDP_HDR_SIZE dec_udp uo s = Inr uh \<and> src_ip ih = src \<and> NTOHS (udp_src_port uh) = port)"

lemma sent_by_cong:
  "buf t = buf s \<Longrightarrow> ip_hdr_off t = ip_hdr_off s \<Longrightarrow> udp_hdr_off t = udp_hdr_off s \<Longrightarrow> sent_by src port t \<longleftrightarrow> sent_by src port s"
  by (simp add: sent_by_def rd_hdr_def rd_bytes_def)

text \<open>
  Reading takes the oldest datagram, as much of it as the caller has room for; the caller may ask
  for the address and the port of the sender.
\<close>

lemma udp_recvfrom_oldest:
  assumes fd: "udp_sock_of_fd fd w = Some u" and sk: "get_udp_sock u w = Inr sk" "us_bound sk"
    and ok: "rx_ok (us_rx_skb sk) w" and ne: "rx_data (us_rx_skb sk) w = d # ds"
    and whom: "want_ip \<or> want_port \<Longrightarrow> sent_by src port (the (w_skbs w (last (us_rx_skb sk))))"
  shows "\<exists>w' sk'. udp_recvfrom fd n want_ip want_port w =
      Inr (Some (take n d, if want_ip then Some src else None, if want_port then Some port else None), w') \<and>
    get_udp_sock u w' = Inr sk' \<and> rx_ok (us_rx_skb sk') w' \<and>
    rx_data (us_rx_skb sk') w' = after_read n (d # ds)"
proof -
  let ?p = "last (us_rx_skb sk)"
  let ?r = "Some (take n d, if want_ip then Some src else None, if want_port then Some port else None)"
  from udp_rx.read_oldest [OF sk(1) ok ne, of n] obtain s t w' sk' where
    s: "get_skb ?p w = Inr s" "rd_bytes (data_off s) (min (skb_len s) n) s = Inr (take n d)"
      "skb_pull (min (skb_len s) n) s = Inr t"
    and t: "ip_hdr_off t = ip_hdr_off s" "udp_hdr_off t = udp_hdr_off s" "buf t = buf s"
    and w': "(if skb_len t = 0 then free_skb ?p (put_udp_sock u (sk\<lparr>us_rx_skb := remove1 ?p (us_rx_skb sk)\<rparr>) (put_skb ?p t w))
        else Inr (put_skb ?p t w)) = Inr w'" "get_udp_sock u w' = Inr sk'" "rx_ok (us_rx_skb sk') w'"
      "rx_data (us_rx_skb sk') w' = after_read n (d # ds)" by blast
  have "the (w_skbs w ?p) = s" using s(1) by (simp add: skb_table.get_Inr_iff)
  with whom sent_by_cong [OF t(3,1,2)] have f: "want_ip \<or> want_port \<Longrightarrow> sent_by src port t" by simp
  have ip: "(if want_ip then bindE (of_option Null_deref (ip_hdr_off t)) (\<lambda>off.
      bindE (rd_hdr IP_HDR_SIZE dec_ip off t) (\<lambda>h. Inr (Some (src_ip h)))) else Inr None) =
      Inr (if want_ip then Some src else None)"
    using f by (auto simp: sent_by_def of_option_def)
  have pt: "(if want_port then bindE (of_option Null_deref (udp_hdr_off t)) (\<lambda>off.
      bindE (rd_hdr UDP_HDR_SIZE dec_udp off t) (\<lambda>h. Inr (Some (NTOHS (udp_src_port h))))) else Inr None) =
      Inr (if want_port then Some port else None)"
    using f by (auto simp: sent_by_def of_option_def)
  have "us_rx_skb sk \<noteq> []" using ne by (auto simp: rx_data_def)
  then have "udp_recvfrom fd n want_ip want_port w = Inr (?r, w')"
    using fd sk s w'(1) unfolding udp_recvfrom_def by (simp add: Let_def ip pt)
  with w' show ?thesis by blast
qed

text \<open>
  C18: udp_recvfrom fails on an empty queue; otherwise it returns the first bytes of the oldest
  datagram, at most as many as asked for, with the address and the port of its sender as the
  headers in its buffer give them if the caller wants them, and leaves the rest of that datagram
  and the later ones in the queue.
\<close>

lemma udp_recvfrom_read:
  assumes "udp_sock_of_fd fd w = Some u" and "get_udp_sock u w = Inr sk" and "us_bound sk" and "rx_ok (us_rx_skb sk) w"
  shows "case rx_data (us_rx_skb sk) w of
      [] \<Rightarrow> udp_recvfrom fd n want_ip want_port w = Inr (None, w)
    | d # ds \<Rightarrow> (want_ip \<or> want_port \<longrightarrow> sent_by src port (the (w_skbs w (last (us_rx_skb sk))))) \<longrightarrow>
        (\<exists>w' sk'. udp_recvfrom fd n want_ip want_port w =
            Inr (Some (take n d, if want_ip then Some src else None, if want_port then Some port else None), w') \<and>
          get_udp_sock u w' = Inr sk' \<and> rx_ok (us_rx_skb sk') w' \<and> rx_data (us_rx_skb sk') w' = after_read n (d # ds))"
proof (cases "rx_data (us_rx_skb sk) w")
  case Nil
  then have "us_rx_skb sk = []" by (simp add: rx_data_def)
  with Nil assms show ?thesis by (simp add: udp_recvfrom_def)
next
  case (Cons d ds)
  with udp_recvfrom_oldest [OF assms Cons, of want_ip want_port src port n] show ?thesis by auto
qed

section \<open>Sending\<close>

definition udp_out_hdr :: "udp_sock \<Rightarrow> u16 \<Rightarrow> nat \<Rightarrow> udp_hdr" where
  "udp_out_hdr sk port n = \<lparr>udp_src_port = HTONS (us_local_port sk), udp_dst_port = HTONS port,
     udp_total_len = ucast (HTONS (of_nat (n + 8) :: u64)), udp_cksum = 0\<rparr>"

lemma udp_skb_ok:
  assumes "length bytes \<le> MAX_UDP_PAYLOAD"
  shows "\<exists>s. udp_skb sk bytes port = Inr s \<and> wf_skb s \<and> data_off s = 60 \<and> skb_tailroom s = 46 \<and>
    skb_len s = length bytes + 8 \<and> skb_intf s = us_intf sk \<and> ip_hdr_off s = None \<and>
    payload s = enc_udp (udp_out_hdr sk port (length bytes)) @ bytes"
proof -
  let ?n = "length bytes"
  have n: "?n < 2000" using assms by (simp add: MAX_UDP_PAYLOAD_def)
  define b0 :: "u8 list" where "b0 = replicate (114 + ?n) 0"
  define s1 where "s1 = (alloc_skb (114 + ?n))\<lparr>data_off := 60, tail_off := 68 + ?n, skb_len := 8 + ?n\<rparr>"
  define s2 where "s2 = s1\<lparr>buf := write_at 68 bytes b0\<rparr>"
  have b1: "length (buf s2) = 114 + ?n" by (simp add: s2_def b0_def)
  have "slice 60 8 (write_at 68 bytes b0) = replicate 8 0"
    using slice_write_disjoint [of 68 bytes b0 60 8] by (simp add: b0_def slice_def)
  then have rd: "rd_hdr UDP_HDR_SIZE dec_udp 60 s2 = Inr (dec_udp (replicate 8 0))"
    using udp.rd_ok [of 60 s2] b1 by (simp add: s2_def UDP_HDR_SIZE_def)
  have h: "(dec_udp (replicate 8 0))\<lparr>udp_src_port := HTONS (us_local_port sk), udp_dst_port := HTONS port,
      udp_total_len := ucast (HTONS (of_nat (skb_len s2) :: u64))\<rparr> = udp_out_hdr sk port ?n"
    by (simp add: dec_udp_def udp_out_hdr_def s2_def s1_def le16_def add.commute)
  have wf2: "wf_skb s2" using n b1 by (simp add: wf_skb_def s2_def s1_def alloc_skb_def)
  have p2: "drop 8 (payload s2) = bytes"
    using slice_write_same [of 68 bytes b0 ?n]
    by (simp add: payload_def s2_def s1_def alloc_skb_def slice_def drop_take b0_def)
  from udp.wr_front [OF wf2, of "udp_out_hdr sk port ?n"] obtain s3 where
    s3: "wr_hdr enc_udp 60 (udp_out_hdr sk port ?n) s2 = Inr s3" "wf_skb s3"
      "payload s3 = enc_udp (udp_out_hdr sk port ?n) @ bytes"
      "s3 = s2\<lparr>buf := write_at 60 (enc_udp (udp_out_hdr sk port ?n)) (buf s2)\<rparr>"
    using p2 by (auto simp: s2_def s1_def UDP_HDR_SIZE_def)
  have l3: "length (buf s3) = 114 + ?n"
    using b1 udp.length_enc [of "udp_out_hdr sk port ?n"] by (simp add: s3(4) UDP_HDR_SIZE_def)
  have "udp_skb sk bytes port = Inr (s3\<lparr>skb_intf := us_intf sk\<rparr>)"
    using n rd h s3(1) unfolding s2_def s1_def b0_def
    by (simp add: udp_skb_def skb_reserve_def skb_put_def wr_bytes_def alloc_skb_def BUFF_HEADROOM_def
        BUFF_TAILROOM_def UDP_HDR_SIZE_def Let_def)
  moreover have "wf_skb (s3\<lparr>skb_intf := us_intf sk\<rparr>)" "payload (s3\<lparr>skb_intf := us_intf sk\<rparr>) = payload s3"
    using s3(2) by (simp_all add: wf_skb_def payload_def)
  ultimately show ?thesis
    using s3(3) l3 by (auto simp: s3(4) s2_def s1_def alloc_skb_def skb_tailroom_def)
qed

text \<open>A datagram to an address the node reaches through the interface of the socket.\<close>

lemma udp_sendto_sent:
  assumes fd: "udp_sock_of_fd fd w = Some u" and sk: "get_udp_sock u w = Inr sk" "us_bound sk" "us_intf sk = Some i"
    and r: "reaches os (if_node x) dst i x mac ev w" and data_def: "data = take MAX_UDP_PAYLOAD buff"
  shows "\<exists>pad. length pad = 18 - length data \<and> udp_sendto os deliver fd buff dst port w =
    Inr (int (length data), after_send (sent ev i w (ip_frame x mac
      (ip_out_hdr (if_ip x) dst IP_PROTO_UDP (length data + 28)) (enc_udp (udp_out_hdr sk port (length data)) @ data) @ pad)) w)"
proof -
  have data: "length data \<le> MAX_UDP_PAYLOAD" "take (min (length buff) MAX_UDP_PAYLOAD) buff = data"
    "min (length buff) MAX_UDP_PAYLOAD = length data"
    by (auto simp: data_def min_def)
  let ?uh = "udp_out_hdr sk port (length data)"
  from udp_skb_ok [OF data(1), of sk port] obtain s where s: "udp_skb sk data port = Inr s" "wf_skb s" "data_off s = 60"
    "skb_tailroom s = 46" "skb_len s = length data + 8" "skb_intf s = Some i" "payload s = enc_udp ?uh @ data"
    using sk(3) by auto
  let ?p = "w_next w" and ?w1 = "snd (new_skb s w)"
  have f: "get_skb ?p ?w1 = Inr s" "get_intf i ?w1 = Inr x" using r by (auto simp: world_access reaches_def)
  have "reaches os (if_node x) dst i x mac ev ?w1"
    by (rule reaches_cong [OF r]) (simp_all add: new_skb_def put_skb_def)
  from ip_output_sent [OF f(1) s(2) _ _ _ this, of deliver IP_PROTO_UDP] s obtain pad where
    pad: "length pad = 18 - length data" "ip_output os deliver (if_node x) dst IP_PROTO_UDP ?p ?w1 =
      Inr (True, ?w1\<lparr>trace := trace ?w1 @ sent ev i ?w1 (ip_frame x mac
        (ip_out_hdr (if_ip x) dst IP_PROTO_UDP (length data + 28)) (enc_udp ?uh @ data) @ pad), w_skbs := (w_skbs ?w1)(?p := None)\<rparr>)"
    by (auto simp: IP_HDR_SIZE_def add.commute [of 28])
  have "udp_out os deliver u data dst port w = ip_output os deliver (if_node x) dst IP_PROTO_UDP ?p ?w1"
    using sk s(1) f(2) by (simp add: udp_out_def new_skb_def)
  with pad fd sk data show ?thesis
    by (auto simp: udp_sendto_def Let_def new_skb_def put_skb_def sent_def after_send_def)
qed

end
