(* ===== verification/Tcp_Receive.thy ===== *)
theory Tcp_Receive
  imports Tcp_Path "HOL-Library.Sublist"
begin

text \<open>
  The receiving side of TCP as an abstract machine, a state, the next sequence number expected
  and the data not yet read, and the refinement of \<open>tcp_input\<close> and \<open>tcp_recv\<close> to it; the opening
  and the closing of a connection.
\<close>

section \<open>The abstract receiver\<close>

record receiver =
  r_state :: tcp_handle
  r_nxt :: u32
  r_data :: "u8 list list"

definition accepts :: "tcp_hdr \<Rightarrow> receiver \<Rightarrow> bool" where
  "accepts h r \<longleftrightarrow> r_state r = Handle_estab \<and> NTOHL (tcp_seq h) = r_nxt r"

definition rcv_segment :: "tcp_hdr \<times> u8 list \<Rightarrow> receiver \<Rightarrow> receiver" where
  "rcv_segment = (\<lambda>(h, data) r.
     if NTOHL (tcp_seq h) \<noteq> r_nxt r then r
     else (case r_state r of
             Handle_syn_sent \<Rightarrow>
               if fl_ack (tcp_flags h) \<and> \<not> fl_syn (tcp_flags h) then r\<lparr>r_state := Handle_estab\<rparr> else r
           | Handle_estab \<Rightarrow> r\<lparr>r_nxt := r_nxt r + of_nat (length data), r_data := r_data r @ [data]\<rparr>))"

text \<open>Segments that follow each other without a gap.\<close>

fun contiguous :: "u32 \<Rightarrow> (tcp_hdr \<times> u8 list) list \<Rightarrow> bool" where
  "contiguous n [] \<longleftrightarrow> True"
| "contiguous n ((h, data) # segs) \<longleftrightarrow> NTOHL (tcp_seq h) = n \<and> contiguous (n + of_nat (length data)) segs"

text \<open>
  Whatever arrives, the data of an established connection grows by a gapless selection of the
  segments, in order.
\<close>

lemma rcv_stream:
  assumes "r_state r = Handle_estab"
  shows "\<exists>acc. subseq acc segs \<and> contiguous (r_nxt r) acc \<and>
    r_data (fold rcv_segment segs r) = r_data r @ map snd acc \<and>
    r_nxt (fold rcv_segment segs r) = r_nxt r + of_nat (length (concat (map snd acc))) \<and>
    r_state (fold rcv_segment segs r) = Handle_estab \<and> (contiguous (r_nxt r) segs \<longrightarrow> acc = segs)"
  using assms
proof (induction segs arbitrary: r)
  case Nil
  then show ?case by simp
next
  case (Cons seg segs)
  obtain h data where seg: "seg = (h, data)" by (cases seg)
  let ?r = "rcv_segment seg r"
  have "r_state ?r = Handle_estab" using Cons.prems by (simp add: seg rcv_segment_def)
  from Cons.IH [OF this] obtain acc where acc: "subseq acc segs" "contiguous (r_nxt ?r) acc"
    "r_data (fold rcv_segment segs ?r) = r_data ?r @ map snd acc"
    "r_nxt (fold rcv_segment segs ?r) = r_nxt ?r + of_nat (length (concat (map snd acc)))"
    "r_state (fold rcv_segment segs ?r) = Handle_estab" "contiguous (r_nxt ?r) segs \<longrightarrow> acc = segs" by blast
  show ?case
  proof (cases "NTOHL (tcp_seq h) = r_nxt r")
    case True
    with Cons.prems acc show ?thesis
      by (intro exI [of _ "seg # acc"]) (auto simp: seg rcv_segment_def)
  next
    case False
    with acc show ?thesis by (intro exI [of _ acc]) (auto simp: seg rcv_segment_def)
  qed
qed

section \<open>Finding the connection of a segment\<close>

definition has_tcp :: "skb_id \<Rightarrow> intf_id \<Rightarrow> ip_addr \<Rightarrow> tcp_hdr \<Rightarrow> u8 list \<Rightarrow> world \<Rightarrow> bool" where
  "has_tcp p i src h data w \<longleftrightarrow>
    (\<exists>s off iph. get_skb p w = Inr s \<and> wf_skb s \<and> skb_intf s = Some i \<and> payload s = enc_tcp h @ data \<and>
       ip_hdr_off s = Some off \<and> rd_hdr IP_HDR_SIZE dec_ip off s = Inr iph \<and> src_ip iph = src)"

text \<open>The socket a segment is for, and the connection of that socket it belongs to, if any.\<close>

definition for_sock :: "intf_id \<Rightarrow> tcp_hdr \<Rightarrow> sock_id \<Rightarrow> tcp_sock \<Rightarrow> world \<Rightarrow> bool" where
  "for_sock i h t sk w \<longleftrightarrow>
    (\<exists>x. get_intf i w = Inr x \<and> tcp_socks_manager_find (tcp_socks_manager x) (NTOHS (tcp_dst_port h)) w = Inr (Some t) \<and>
       get_tcp_sock t w = Inr sk)"

definition for_conn :: "ip_addr \<Rightarrow> tcp_hdr \<Rightarrow> tcp_sock \<Rightarrow> conn_id \<Rightarrow> tcp_connection_sock \<Rightarrow> world \<Rightarrow> bool" where
  "for_conn src h sk c cn w \<longleftrightarrow>
    find_matching_connection (ts_conns sk) src (NTOHS (tcp_src_port h)) w = Inr (Some c) \<and> get_tcp_conn c w = Inr cn"

lemma find_conn_Some:
  "find_matching_connection cs ip port w = Inr (Some c) \<Longrightarrow>
   c \<in> set cs \<and> (\<exists>cn. get_tcp_conn c w = Inr cn \<and> tc_remote_ip cn = ip \<and> tc_remote_port cn = port)"
  by (induction cs) (auto simp: res_simps split: if_splits)

lemma tcp_input_conn:
  assumes s: "has_tcp p i src h data w" and t: "for_sock i h t sk w" and c: "for_conn src h sk c cn w"
  shows "tcp_input os deliver p w =
    (case tc_state cn of Handle_estab \<Rightarrow> handle_estab os deliver c p w | Handle_syn_sent \<Rightarrow> handle_syn_sent c p w)"
  using assms tcp.rd_front(1)
  by (auto simp: has_tcp_def for_sock_def for_conn_def tcp_input_def)

section \<open>Refinement\<close>

interpretation tcp_rx: rx_owner w_tcp_conns get_tcp_conn put_tcp_conn tc_rx_skb "\<lambda>ps cn. cn\<lparr>tc_rx_skb := ps\<rparr>"
  by unfold_locales (simp_all add: put_tcp_conn_def)

definition receiver_of :: "tcp_connection_sock \<Rightarrow> world \<Rightarrow> receiver" where
  "receiver_of cn w = \<lparr>r_state = tc_state cn, r_nxt = rcv_nxt cn, r_data = rx_data (tc_rx_skb cn) w\<rparr>"

text \<open>What a segment for a connection leaves alone.\<close>

definition conn_frame :: "skb_id \<Rightarrow> conn_id \<Rightarrow> world \<Rightarrow> world \<Rightarrow> bool" where
  "conn_frame p c w w' \<longleftrightarrow> (\<forall>q. q \<noteq> p \<longrightarrow> w_skbs w' q = w_skbs w q) \<and> w_intfs w' = w_intfs w \<and>
     w_tcp_socks w' = w_tcp_socks w \<and> (\<forall>d. d \<noteq> c \<longrightarrow> w_tcp_conns w' d = w_tcp_conns w d) \<and>
     tcp_fd_to_sock w' = tcp_fd_to_sock w \<and> fd_conn_to_sock w' = fd_conn_to_sock w"

definition same_peer :: "tcp_connection_sock \<Rightarrow> tcp_connection_sock \<Rightarrow> bool" where
  "same_peer cn cn' \<longleftrightarrow> tc_remote_ip cn' = tc_remote_ip cn \<and> tc_remote_port cn' = tc_remote_port cn"

lemma tcp_input_refines:
  assumes s: "has_tcp p i src h data w" and t: "for_sock i h t sk w" and c: "for_conn src h sk c cn w"
    and ok: "rx_ok (tc_rx_skb cn) w" and p: "p \<notin> set (tc_rx_skb cn)"
    and plain: "\<not> fl_rst (tcp_flags h)" "\<not> fl_fin (tcp_flags h)"
  shows "\<exists>w' cn'. tcp_input os deliver p w = Inr (accepts h (receiver_of cn w), w') \<and>
    get_tcp_conn c w' = Inr cn' \<and> receiver_of cn' w' = rcv_segment (h, data) (receiver_of cn w) \<and>
    rx_ok (tc_rx_skb cn') w' \<and> trace w' = trace w \<and> conn_frame p c w w' \<and> same_peer cn cn' \<and>
    tc_rx_skb cn' = (if accepts h (receiver_of cn w) then [p] else []) @ tc_rx_skb cn \<and> w_skbs w' p \<noteq> None"
proof -
  from s obtain sb where sb: "get_skb p w = Inr sb" "wf_skb sb" "payload sb = enc_tcp h @ data"
    by (auto simp: has_tcp_def)
  note rd = tcp.rd_front [OF sb(2,3)]
  have cn: "get_tcp_conn c w = Inr cn" using c by (simp add: for_conn_def)
  have len: "skb_len sb = 20 + length data" using rd(2) by (simp add: TCP_HDR_SIZE_def)
  show ?thesis
  proof (cases "tc_state cn")
    case Handle_syn_sent
    let ?cn = "if fl_ack (tcp_flags h) \<and> \<not> fl_syn (tcp_flags h) \<and> NTOHL (tcp_seq h) = rcv_nxt cn
               then cn\<lparr>tc_state := Handle_estab\<rparr> else cn"
    have "tcp_input os deliver p w = Inr (False, if fl_ack (tcp_flags h) \<and> \<not> fl_syn (tcp_flags h) \<and>
        NTOHL (tcp_seq h) = rcv_nxt cn then put_tcp_conn c (cn\<lparr>tc_state := Handle_estab\<rparr>) w else w)"
      using tcp_input_conn [OF s t c] Handle_syn_sent sb(1) rd(1) cn by (simp add: handle_syn_sent_def)
    with Handle_syn_sent cn ok sb(1) show ?thesis
      by (auto simp: accepts_def receiver_of_def rcv_segment_def put_tcp_conn_def get_tcp_conn_def rx_data_def rx_ok_def
          conn_frame_def same_peer_def skb_table.get_Inr_iff)
  next
    case Handle_estab
    from skb_pull_ok [of TCP_HDR_SIZE sb] sb(2) len obtain u where u: "skb_pull TCP_HDR_SIZE sb = Inr u"
      "skb_len u = length data" by (auto simp: TCP_HDR_SIZE_def)
    have pu: "wf_skb u" "payload u = data"
      using wf_skb_pull [OF sb(2) u(1)] payload_pull [OF sb(2) u(1)] sb(3) tcp.length_enc [of h] by simp_all
    let ?cn = "cn\<lparr>rcv_nxt := rcv_nxt cn + of_nat (length data), tc_rx_skb := p # tc_rx_skb cn\<rparr>"
    let ?w' = "put_tcp_conn c ?cn (put_skb p u w)"
    have in_eq: "tcp_input os deliver p w = (if NTOHL (tcp_seq h) = rcv_nxt cn then Inr (True, ?w') else Inr (False, w))"
      using tcp_input_conn [OF s t c] Handle_estab sb(1) rd(1) cn plain u by (simp add: handle_estab_def)
    have "rx_data (p # tc_rx_skb cn) ?w' = rx_data (tc_rx_skb cn) w @ [data]" "rx_ok (p # tc_rx_skb cn) ?w'"
      using tcp_rx.push_newest [OF ok p pu(1), of ?cn c] pu(2) by simp_all
    moreover have "get_tcp_conn c ?w' = Inr ?cn" "trace ?w' = trace w"
      by (simp_all add: put_tcp_conn_def put_skb_def get_tcp_conn_def)
    moreover have "conn_frame p c w ?w'" by (simp add: conn_frame_def put_tcp_conn_def put_skb_def)
    moreover have "conn_frame p c w w" by (simp add: conn_frame_def)
    moreover have "w_skbs ?w' p \<noteq> None" "w_skbs w p \<noteq> None"
      using sb(1) by (simp_all add: put_tcp_conn_def put_skb_def skb_table.get_Inr_iff)
    ultimately show ?thesis
      using in_eq Handle_estab cn ok by (auto simp: accepts_def receiver_of_def rcv_segment_def same_peer_def)
  qed
qed

text \<open>Reading from a connection takes bytes from the front of the stream.\<close>

lemma tcp_recv_read:
  assumes fd: "tcp_conn_of_fd fd w = Some c" and cn: "get_tcp_conn c w = Inr cn" "tc_state cn = Handle_estab"
    and ok: "rx_ok (tc_rx_skb cn) w" and ne: "rx_data (tc_rx_skb cn) w = d # ds"
  shows "\<exists>w' cn'. tcp_recv fd n w = Inr (Some (take n d), w') \<and> get_tcp_conn c w' = Inr cn' \<and>
    rx_ok (tc_rx_skb cn') w' \<and> rx_data (tc_rx_skb cn') w' = after_read n (d # ds)"
proof -
  let ?p = "last (tc_rx_skb cn)"
  from tcp_rx.read_oldest [OF cn(1) ok ne, of n] obtain s t w' cn' where
    s: "get_skb ?p w = Inr s" "rd_bytes (data_off s) (min (skb_len s) n) s = Inr (take n d)"
      "skb_pull (min (skb_len s) n) s = Inr t"
    and w': "(if skb_len t = 0 then free_skb ?p (put_tcp_conn c (cn\<lparr>tc_rx_skb := remove1 ?p (tc_rx_skb cn)\<rparr>) (put_skb ?p t w))
        else Inr (put_skb ?p t w)) = Inr w'" "get_tcp_conn c w' = Inr cn'" "rx_ok (tc_rx_skb cn') w'"
      "rx_data (tc_rx_skb cn') w' = after_read n (d # ds)" by blast
  have "tc_rx_skb cn \<noteq> []" using ne by (auto simp: rx_data_def)
  then have "tcp_recv fd n w = Inr (Some (take n d), w')"
    using fd cn s w'(1) by (simp add: tcp_recv_def Let_def)
  with w' show ?thesis by blast
qed

section \<open>Opening a connection\<close>

text \<open>The connection a SYN creates, after the SYN of the answer has used up one sequence number.\<close>

definition new_conn :: "sock_id \<Rightarrow> ip_addr \<Rightarrow> tcp_hdr \<Rightarrow> tcp_connection_sock" where
  "new_conn t src h = \<lparr>tc_parent = t, tc_state = Handle_syn_sent, tc_remote_ip = src,
     tc_remote_port = NTOHS (tcp_src_port h), snt_una = 0, snt_nxt = 0, snt_wnd = NTOHS (tcp_wnd_sz h), snt_iss = 0,
     rcv_nxt = NTOHL (tcp_seq h) + 1, rcv_wnd = TCP_WINDOW_SIZE, rcv_irs = tcp_seq h, tc_rx_skb = [], tc_tx_skb = []\<rparr>"

lemma flags_bits:
  "fl_syn flags_syn_ack" "fl_ack flags_syn_ack" "\<not> fl_fin flags_syn_ack" "\<not> fl_rst flags_syn_ack"
  "fl_ack flags_ack" "\<not> fl_syn flags_ack" "\<not> fl_fin flags_ack" "\<not> fl_rst flags_ack"
  "fl_rst flags_ack_rst" "fl_ack flags_ack_rst" "\<not> fl_syn flags_ack_rst" "\<not> fl_fin flags_ack_rst"
  by (simp_all add: flags_syn_ack_def flags_ack_def flags_ack_rst_def fl_syn_def fl_ack_def fl_fin_def fl_rst_def
      bit_numeral_rec)

lemma tcp_syn_world:
  assumes s: "has_tcp p i src h data w" and t: "for_sock i h t sk w"
    and new: "find_matching_connection (ts_conns sk) src (NTOHS (tcp_src_port h)) w = Inr None"
    and syn: "ts_listening sk" "fl_syn (tcp_flags h)" "\<not> fl_ack (tcp_flags h)"
    and j: "ts_intf sk = Some j" and r: "reaches os (if_node x) src j x mac ev w"
  shows "\<exists>w' pad. tcp_input os deliver p w = Inr (False, w') \<and> length pad = 6 \<and>
    get_tcp_conn (w_next w) w' = Inr ((new_conn t src h)\<lparr>snt_nxt := 1\<rparr>) \<and>
    get_tcp_sock t w' = Inr (sk\<lparr>ts_conns := w_next w # ts_conns sk\<rparr>) \<and>
    trace w' = trace w @ sent ev j w (ip_frame x mac (ip_out_hdr (if_ip x) src IP_PROTO_TCP 40)
      (tcp_segment sk (new_conn t src h) [] flags_syn_ack) @ pad) \<and>
    w_skbs w' = (w_skbs w)(Suc (w_next w) := None) \<and> w_intfs w' = w_intfs w \<and>
    w_tcp_socks w' = (w_tcp_socks w)(t \<mapsto> sk\<lparr>ts_conns := w_next w # ts_conns sk\<rparr>) \<and>
    w_tcp_conns w' = (w_tcp_conns w)(w_next w \<mapsto> (new_conn t src h)\<lparr>snt_nxt := 1\<rparr>) \<and>
    tcp_fd_to_sock w' = tcp_fd_to_sock w \<and> fd_conn_to_sock w' = fd_conn_to_sock w"
proof -
  from s obtain sb off iph where sb: "get_skb p w = Inr sb" "wf_skb sb" "skb_intf sb = Some i" "payload sb = enc_tcp h @ data"
    "ip_hdr_off sb = Some off" "rd_hdr IP_HDR_SIZE dec_ip off sb = Inr iph" "src_ip iph = src"
    by (auto simp: has_tcp_def)
  note rd = tcp.rd_front [OF sb(2,4)]
  let ?c = "w_next w" and ?sk = "sk\<lparr>ts_conns := w_next w # ts_conns sk\<rparr>"
  define w1 where "w1 = put_tcp_sock t ?sk ((put_tcp_conn ?c (new_conn t src h) w)\<lparr>w_next := Suc ?c\<rparr>)"
  have sk: "get_tcp_sock t w = Inr sk" using t by (auto simp: for_sock_def)
  have w1: "get_tcp_conn ?c w1 = Inr (new_conn t src h)" "get_tcp_sock (tc_parent (new_conn t src h)) w1 = Inr ?sk"
    by (simp_all add: w1_def put_tcp_sock_def put_tcp_conn_def get_tcp_conn_def get_tcp_sock_def new_conn_def)
  have "reaches os (if_node x) src j x mac ev w1"
    by (rule reaches_cong [OF r]) (simp_all add: w1_def put_tcp_sock_def put_tcp_conn_def)
  then have r1: "reaches os (if_node x) (tc_remote_ip (new_conn t src h)) j x mac ev w1" by (simp add: new_conn_def)
  have win: "\<not> outside_window (new_conn t src h) (length [])" by (simp add: outside_window_def new_conn_def)
  have j1: "ts_intf ?sk = Some j" using j by simp
  from tcp_out_sent [OF w1 win _ j1 r1, where deliver = deliver and fl = flags_syn_ack] obtain pad where
    pad: "length pad = 6" "tcp_out os deliver ?c [] flags_syn_ack w1 =
      Inr (True, (put_tcp_conn ?c (tcp_advance (new_conn t src h) 0 flags_syn_ack) w1)
        \<lparr>trace := trace w1 @ sent ev j w1 (ip_frame x mac (ip_out_hdr (if_ip x) src IP_PROTO_TCP 40)
           (tcp_segment ?sk (new_conn t src h) [] flags_syn_ack) @ pad),
         w_next := Suc (w_next w1), w_skbs := (w_skbs w1)(w_next w1 := None)\<rparr>)"
    by (auto simp: new_conn_def)
  have seg: "tcp_segment ?sk (new_conn t src h) [] flags_syn_ack = tcp_segment sk (new_conn t src h) [] flags_syn_ack"
    by (simp add: tcp_segment_def tcp_out_hdr_def)
  have adv: "tcp_advance (new_conn t src h) 0 flags_syn_ack = (new_conn t src h)\<lparr>snt_nxt := 1\<rparr>"
    by (simp add: tcp_advance_def flags_bits new_conn_def)
  from t obtain y where y: "get_intf i w = Inr y"
    "tcp_socks_manager_find (tcp_socks_manager y) (NTOHS (tcp_dst_port h)) w = Inr (Some t)" by (auto simp: for_sock_def)
  have "tcp_input os deliver p w = handle_new_connection os deliver t p w"
    using sb rd(1) y new sk syn by (simp add: tcp_input_def)
  also have "\<dots> = bindE (tcp_out os deliver ?c [] flags_syn_ack w1) (\<lambda>(_, w). Inr (False, w))"
    using sb rd(1) sk by (simp add: handle_new_connection_def w1_def new_conn_def Let_def)
  finally show ?thesis
    using pad seg adv
    by (auto simp: w1_def put_tcp_sock_def put_tcp_conn_def get_tcp_conn_def get_tcp_sock_def sent_def)
qed

text \<open>
  C11: A connection request to a listening socket, from a peer whose next hop is resolved, creates
  one connection for the peer, at the head of the socket's connections, and answers with a SYN-ACK
  segment; the buffer of the request is left to the caller.
\<close>

lemma tcp_input_syn:
  assumes s: "has_tcp p i src h data w" and t: "for_sock i h t sk w"
    and new: "find_matching_connection (ts_conns sk) src (NTOHS (tcp_src_port h)) w = Inr None"
    and syn: "ts_listening sk" "fl_syn (tcp_flags h)" "\<not> fl_ack (tcp_flags h)"
    and j: "ts_intf sk = Some j" and r: "reaches os (if_node x) src j x mac ev w"
  shows "\<exists>w' pad. tcp_input os deliver p w = Inr (False, w') \<and> length pad = 6 \<and>
    get_tcp_conn (w_next w) w' = Inr ((new_conn t src h)\<lparr>snt_nxt := 1\<rparr>) \<and>
    get_tcp_sock t w' = Inr (sk\<lparr>ts_conns := w_next w # ts_conns sk\<rparr>) \<and>
    trace w' = trace w @ sent ev j w (ip_frame x mac (ip_out_hdr (if_ip x) src IP_PROTO_TCP 40)
      (tcp_segment sk (new_conn t src h) [] flags_syn_ack) @ pad)"
  using tcp_syn_world [OF assms] by fast

section \<open>Closing\<close>




section \<open>Accepting\<close>

text \<open>
  A successful accept gives a fresh descriptor for an established connection of the socket.  It
  does not take the connection off the list: with a descriptor left, a second accept returns the
  same connection under another number.
\<close>

text \<open>
  C15: A descriptor tcp_accept returns was free and now names an established connection of the
  listening socket, whose peer is reported; the connection stays the first established one, so the
  next call finds the same one again.
\<close>

lemma tcp_accept_spec:
  assumes r: "tcp_accept fd w = Inr (Some (k, ip, port), w')" and len: "length (fd_conn_to_sock w) = MAX_TCP_CONN_SOCKS"
  shows "\<exists>t sk c cn. tcp_sock_of_fd fd w = Some t \<and> get_tcp_sock t w = Inr sk \<and> c \<in> set (ts_conns sk) \<and>
    get_tcp_conn c w = Inr cn \<and> tc_state cn = Handle_estab \<and> ip = tc_remote_ip cn \<and> port = tc_remote_port cn \<and>
    tcp_conn_of_fd k w = None \<and> tcp_conn_of_fd k w' = Some c \<and> first_estab (ts_conns sk) w' = Inr (Some c) \<and>
    get_tcp_sock t w' = Inr sk \<and> tcp_sock_of_fd fd w' = Some t"
proof -
  from r obtain t sk c j cn where t: "tcp_sock_of_fd fd w = Some t" "get_tcp_sock t w = Inr sk"
    "first_estab (ts_conns sk) w = Inr (Some c)" "first_free (fd_conn_to_sock w) 0 = Some j"
    "get_tcp_conn c w = Inr cn" "k = int j" "ip = tc_remote_ip cn" "port = tc_remote_port cn"
    "w' = w\<lparr>fd_conn_to_sock := (fd_conn_to_sock w)[j := Some c]\<rparr>"
  proof -
    from r obtain t where t: "tcp_sock_of_fd fd w = Some t" by (auto simp: tcp_accept_def split: option.splits)
    with r obtain sk where sk: "get_tcp_sock t w = Inr sk" "ts_listening sk"
      by (auto simp: tcp_accept_def res_simps split: if_splits)
    with r t obtain c where c: "first_estab (ts_conns sk) w = Inr (Some c)"
      by (auto simp: tcp_accept_def bindE_Inr_iff [of "first_estab (ts_conns sk) w"] split: option.splits)
    with r t sk obtain j where j: "first_free (fd_conn_to_sock w) 0 = Some j"
      by (auto simp: tcp_accept_def split: option.splits)
    with r t sk c obtain cn where "get_tcp_conn c w = Inr cn" by (auto simp: tcp_accept_def res_simps)
    with r t sk c j that show thesis by (auto simp: tcp_accept_def)
  qed
  have c: "c \<in> set cs \<and> tc_state cn = Handle_estab" if "first_estab cs w = Inr (Some c)" for cs
    using that t(5) by (induction cs) (auto simp: res_simps split: if_splits)
  have same: "first_estab cs w' = first_estab cs w" for cs
  proof (induction cs)
    case (Cons a cs)
    then have "first_estab (a # cs) w' = bindE (get_tcp_conn a w') (\<lambda>cn.
        if tc_state cn = Handle_estab then Inr (Some a) else first_estab cs w)" by (simp only: first_estab.simps)
    then show ?case by (simp add: t(9) get_tcp_conn_def)
  qed simp
  show ?thesis
    using t c [OF t(3)] first_free_Some [OF t(4)] len same [of "ts_conns sk"]
    by (intro exI [of _ t] exI [of _ sk] exI [of _ c] exI [of _ cn])
      (simp add: tcp_conn_of_fd_def tcp_sock_of_fd_def get_tcp_sock_def split: if_splits)
qed

end
