(* ===== verification/Reception.thy ===== *)
theory Reception
  imports Fuel Udp_Path Tcp_Receive
begin

text \<open>
  What a received frame does, from the descriptor up: the buffer \<open>recv_task\<close> fills, the frames the
  node does not take, the answer to an ARP request, the delivery of a datagram to a socket.
\<close>

section \<open>The buffer of a received frame\<close>

definition callback_events :: "intf_id \<Rightarrow> world \<Rightarrow> u8 list \<Rightarrow> event list" where
  "callback_events i w bytes = (if receive_callback w then [Ev_receive_callback bytes i] else [])"

definition called_back :: "intf_id \<Rightarrow> u8 list \<Rightarrow> world \<Rightarrow> world" where
  "called_back i bytes w = w\<lparr>trace := trace w @ callback_events i w bytes\<rparr>"

text \<open>A buffer that holds received bytes, \<open>off\<close> bytes behind the reserved head room.\<close>

definition rx_skb :: "intf_id \<Rightarrow> u8 list \<Rightarrow> skb \<Rightarrow> bool" where
  "rx_skb i bytes s \<longleftrightarrow> wf_skb s \<and> payload s = bytes \<and> data_off s + length bytes \<le> RECV_BUFFER_SIZE \<and>
     RECV_RESERVED_HEAD_ROOM \<le> data_off s \<and> length (buf s) = RECV_BUFFER_SIZE \<and> skb_intf s = Some i"

lemma recv_skb_ok:
  assumes "frame \<noteq> []" and "length frame \<le> 2044"
  shows "\<exists>s s1 s2. skb_reserve RECV_RESERVED_HEAD_ROOM (alloc_skb RECV_BUFFER_SIZE) = Inr s \<and>
    take (skb_tailroom (s\<lparr>skb_intf := Some i\<rparr>)) frame = frame \<and>
    wr_bytes (data_off (s\<lparr>skb_intf := Some i\<rparr>)) frame (s\<lparr>skb_intf := Some i\<rparr>) = Inr s1 \<and>
    skb_put (length frame) s1 = Inr s2 \<and> rx_skb i frame s2 \<and> data_off s2 = 4"
proof -
  let ?b = "write_at 4 frame (replicate 2048 0)"
  let ?s = "(alloc_skb 2048)\<lparr>data_off := 4, tail_off := 4\<rparr>"
  let ?s1 = "?s\<lparr>skb_intf := Some i, buf := ?b\<rparr>"
  let ?s2 = "?s1\<lparr>tail_off := 4 + length frame, skb_len := length frame\<rparr>"
  have "skb_reserve RECV_RESERVED_HEAD_ROOM (alloc_skb RECV_BUFFER_SIZE) = Inr ?s"
    by (simp add: skb_reserve_def RECV_RESERVED_HEAD_ROOM_def RECV_BUFFER_SIZE_def alloc_skb_def Let_def)
  moreover have "take (skb_tailroom (?s\<lparr>skb_intf := Some i\<rparr>)) frame = frame"
    using assms(2) by (simp add: skb_tailroom_def alloc_skb_def)
  moreover have "wr_bytes (data_off (?s\<lparr>skb_intf := Some i\<rparr>)) frame (?s\<lparr>skb_intf := Some i\<rparr>) = Inr ?s1"
    using assms(2) by (simp add: wr_bytes_def alloc_skb_def)
  moreover have "skb_put (length frame) ?s1 = Inr ?s2"
    using assms(2) by (simp add: skb_put_def alloc_skb_def Let_def)
  moreover have "rx_skb i frame ?s2"
    using assms(2) slice_write_same [of 4 frame "replicate 2048 0" "length frame"]
    by (simp add: rx_skb_def wf_skb_def payload_def alloc_skb_def RECV_BUFFER_SIZE_def RECV_RESERVED_HEAD_ROOM_def)
  moreover have "data_off ?s2 = 4" by simp
  ultimately show ?thesis by blast
qed

text \<open>An interface that receives IP: in layer 3 mode, with its transport initialised.\<close>

definition l3_open :: "intf \<Rightarrow> bool" where
  "l3_open x \<longleftrightarrow> is_ip_addr_config x \<and> comm_ops (if_comm x) \<noteq> None"

lemma recv_frame_L3:
  assumes f: "frame \<noteq> []" "length frame \<le> 2044" and x: "get_intf i w = Inr x" "l3_open x"
  shows "\<exists>s. rx_skb i frame s \<and> data_off s = 4 \<and> recv_frame k os i (Some frame) w =
    bindE (ethernet_input k os (w_next w) (called_back i frame (snd (new_skb s w)))) (\<lambda>(ok, w1).
      if \<not> ok then free_skb (w_next w) w1 else Inr w1)"
proof -
  from recv_skb_ok [OF f, of i] obtain s s1 s2 where
    s: "skb_reserve RECV_RESERVED_HEAD_ROOM (alloc_skb RECV_BUFFER_SIZE) = Inr s"
      "take (skb_tailroom (s\<lparr>skb_intf := Some i\<rparr>)) frame = frame"
      "wr_bytes (data_off (s\<lparr>skb_intf := Some i\<rparr>)) frame (s\<lparr>skb_intf := Some i\<rparr>) = Inr s1"
      "skb_put (length frame) s1 = Inr s2" "rx_skb i frame s2" "data_off s2 = 4" by blast
  let ?p = "w_next w" and ?w1 = "snd (new_skb s2 w)"
  have g: "get_skb ?p ?w1 = Inr s2" "get_intf i ?w1 = Inr x" using x(1) by (simp_all add: world_access)
  have rd: "rd_bytes (data_off s2) (skb_len s2) s2 = Inr frame" "skb_intf s2 = Some i"
    using s(5) rd_payload [of s2] by (simp_all add: rx_skb_def)
  have "pkt_receive k os ?p ?w1 = ethernet_input k os ?p (called_back i frame ?w1)"
  proof (cases "receive_callback ?w1")
    case True
    then have "called_back i frame ?w1 = emit (Ev_receive_callback frame i) ?w1"
      by (simp add: called_back_def callback_events_def emit_def)
    with True g rd x(2) show ?thesis by (simp add: l3_open_def pkt_receive_def emit_def get_intf_def)
  next
    case False
    with g rd x(2) show ?thesis by (simp add: l3_open_def pkt_receive_def called_back_def callback_events_def)
  qed
  moreover have room: "skb_tailroom (s\<lparr>skb_intf := Some i\<rparr>) \<noteq> 0" using s(2) f(1) by (metis take_0)
  ultimately have "recv_frame k os i (Some frame) w =
    bindE (ethernet_input k os ?p (called_back i frame ?w1)) (\<lambda>(ok, w1).
      if \<not> ok then free_skb ?p w1 else Inr w1)"
    using s room f(1) x by (simp add: l3_open_def recv_bytes_open recv_frame_def Let_def new_skb_def)
  with s(5,6) show ?thesis by blast
qed

section \<open>Demultiplexing\<close>

lemma rx_skb_eth:
  assumes s: "rx_skb i (enc_eth h @ rest) s" and h: "valid_eth h"
  shows "\<exists>t. skb_pull ETH_HDR_SIZE (s\<lparr>ethernet_hdr_off := Some (data_off s)\<rparr>) = Inr t \<and> rx_skb i rest t \<and>
      data_off t = data_off s + 14 \<and> ip_hdr_off t = ip_hdr_off s"
    and "rd_hdr ETH_HDR_SIZE dec_eth (data_off s) (s\<lparr>ethernet_hdr_off := Some (data_off s)\<rparr>) = Inr h"
    and "\<not> skb_len s < ETH_HDR_SIZE"
proof -
  let ?s = "s\<lparr>ethernet_hdr_off := Some (data_off s)\<rparr>"
  have s': "wf_skb ?s" "payload ?s = enc_eth h @ rest" using s by (simp_all add: rx_skb_def wf_skb_def payload_def)
  note rd = eth.rd_front [OF s' h]
  show "rd_hdr ETH_HDR_SIZE dec_eth (data_off s) ?s = Inr h" using rd(1) by simp
  show len: "\<not> skb_len s < ETH_HDR_SIZE" using rd(2) by simp
  have pull: "skb_pull ETH_HDR_SIZE ?s = Inr (?s\<lparr>data_off := data_off s + 14, skb_len := skb_len s - 14\<rparr>)" (is "_ = Inr ?t")
    using skb_pull_ok [of ETH_HDR_SIZE ?s] s'(1) len by (simp add: ETH_HDR_SIZE_def)
  have "wf_skb ?t" "payload ?t = rest"
    using wf_skb_pull [OF s'(1) pull] payload_pull [OF s'(1) pull] s'(2) eth.length_enc [OF h] by simp_all
  then have "rx_skb i rest ?t"
    using s eth.length_enc [OF h] by (auto simp: rx_skb_def ETH_HDR_SIZE_def)
  with pull show "\<exists>t. skb_pull ETH_HDR_SIZE ?s = Inr t \<and> rx_skb i rest t \<and> data_off t = data_off s + 14 \<and>
      ip_hdr_off t = ip_hdr_off s" by auto
qed

text \<open>The frames the stack does not take: too short, for another station, of another type.\<close>

definition not_taken :: "intf \<Rightarrow> u8 list \<Rightarrow> bool" where
  "not_taken x frame \<longleftrightarrow> length frame < ETH_HDR_SIZE \<or>
    \<not> ethernet_input_qualify x (dec_eth (take 14 frame)) \<or>
    eth_type (dec_eth (take 14 frame)) \<notin> {HTONS ETH_PROTO_ARP, HTONS ETH_PROTO_IP}"

lemma frame_header:
  assumes "ETH_HDR_SIZE \<le> length frame"
  shows "frame = enc_eth (dec_eth (take 14 frame)) @ drop 14 frame" "valid_eth (dec_eth (take 14 frame))"
  using eth.enc_dec [of "take 14 frame"] eth.valid_dec [of "take 14 frame"] assms by (simp_all add: ETH_HDR_SIZE_def)

lemma ethernet_input_not_taken:
  assumes p: "get_skb p w = Inr s" and s: "rx_skb i frame s" and x: "get_intf i w = Inr x" and n: "not_taken x frame"
  shows "ethernet_input k os p w = Inr (False, put_skb p (s\<lparr>ethernet_hdr_off := Some (data_off s)\<rparr>) w)"
proof (cases "length frame < ETH_HDR_SIZE")
  case True
  have "skb_len s = length frame" using s length_payload [of s] by (simp add: rx_skb_def)
  with True p show ?thesis by (simp add: ethernet_input_def Let_def)
next
  case False
  then have h: "rx_skb i (enc_eth (dec_eth (take 14 frame)) @ drop 14 frame) s" "valid_eth (dec_eth (take 14 frame))"
    using frame_header [of frame] s by simp_all
  note E = rx_skb_eth [OF h]
  have "skb_intf s = Some i" using s by (simp add: rx_skb_def)
  moreover have "get_intf i (put_skb p (s\<lparr>ethernet_hdr_off := Some (data_off s)\<rparr>) w) = Inr x"
    using x by (simp add: put_skb_def get_intf_def)
  ultimately show ?thesis
    using p E(2,3) n False by (auto simp: ethernet_input_def Let_def not_taken_def)
qed

text \<open>A frame that is not taken leaves nothing behind: no event but the callback, no buffer.\<close>

lemma recv_frame_not_taken:
  assumes f: "frame \<noteq> []" "length frame \<le> 2044" and x: "get_intf i w = Inr x" "l3_open x"
    and n: "not_taken x frame"
  shows "recv_frame k os i (Some frame) w =
    Inr (w\<lparr>trace := trace w @ callback_events i w frame, w_next := Suc (w_next w), w_skbs := (w_skbs w)(w_next w := None)\<rparr>)"
proof -
  from recv_frame_L3 [OF f x, of k os] obtain s where s: "rx_skb i frame s"
    "recv_frame k os i (Some frame) w =
      bindE (ethernet_input k os (w_next w) (called_back i frame (snd (new_skb s w)))) (\<lambda>(ok, w1).
        if \<not> ok then free_skb (w_next w) w1 else Inr w1)" by blast
  let ?w1 = "called_back i frame (snd (new_skb s w))"
  have "get_skb (w_next w) ?w1 = Inr s" "get_intf i ?w1 = Inr x"
    using x(1) by (simp_all add: called_back_def world_access)
  from ethernet_input_not_taken [OF this(1) s(1) this(2) n, of k os] s(2) show ?thesis
    by (simp add: free_skb_def called_back_def callback_events_def world_access)
qed

text \<open>An ARP message and an IP packet reach their handler behind the Ethernet header.\<close>

lemma ethernet_input_arp:
  assumes p: "get_skb p w = Inr s" and s: "rx_skb i (enc_eth h @ rest) s" and h: "valid_eth h"
    and x: "get_intf i w = Inr x" "ethernet_input_qualify x h" and ty: "eth_type h = HTONS ETH_PROTO_ARP"
  shows "\<exists>t. rx_skb i rest t \<and> ethernet_input k os p w = arp_input os p (put_skb p t w)"
proof -
  note E = rx_skb_eth [OF s h]
  from E(1) obtain t where t: "skb_pull ETH_HDR_SIZE (s\<lparr>ethernet_hdr_off := Some (data_off s)\<rparr>) = Inr t" "rx_skb i rest t"
    by blast
  have "skb_intf s = Some i" using s by (simp add: rx_skb_def)
  moreover have "get_intf i (put_skb p (s\<lparr>ethernet_hdr_off := Some (data_off s)\<rparr>) w) = Inr x"
    using x(1) by (simp add: put_skb_def get_intf_def)
  ultimately have "ethernet_input k os p w =
      arp_input os p (put_skb p t (put_skb p (s\<lparr>ethernet_hdr_off := Some (data_off s)\<rparr>) w))"
    using p E(2,3) t(1) x(2) ty by (simp add: ethernet_input_def Let_def on_skb_def)
  with t(2) show ?thesis by (auto simp: put_skb_def)
qed

lemma proto_distinct: "HTONS ETH_PROTO_IP \<noteq> HTONS ETH_PROTO_ARP"
  by (simp add: ETH_PROTO_IP_def ETH_PROTO_ARP_def HTONS_def)

lemma ethernet_input_ip:
  assumes p: "get_skb p w = Inr s" and s: "rx_skb i (enc_eth h @ rest) s" and h: "valid_eth h"
    and x: "get_intf i w = Inr x" "ethernet_input_qualify x h" and ty: "eth_type h = HTONS ETH_PROTO_IP"
  shows "\<exists>t. rx_skb i rest t \<and> ip_hdr_off t = Some (data_off t) \<and>
    data_off t = data_off s + 14 \<and> ethernet_input k os p w = ip_preroute k os p (put_skb p t w)"
proof -
  note E = rx_skb_eth [OF s h]
  from E(1) obtain t where t: "skb_pull ETH_HDR_SIZE (s\<lparr>ethernet_hdr_off := Some (data_off s)\<rparr>) = Inr t" "rx_skb i rest t"
    "data_off t = data_off s + 14" by blast
  let ?t = "t\<lparr>ip_hdr_off := Some (data_off t)\<rparr>"
  have "skb_intf s = Some i" using s by (simp add: rx_skb_def)
  moreover have "get_intf i (put_skb p (s\<lparr>ethernet_hdr_off := Some (data_off s)\<rparr>) w) = Inr x"
    using x(1) by (simp add: put_skb_def get_intf_def)
  ultimately have "ethernet_input k os p w =
      ip_preroute k os p (put_skb p ?t (put_skb p (s\<lparr>ethernet_hdr_off := Some (data_off s)\<rparr>) w))"
    using p E(2,3) t(1) x(2) ty proto_distinct by (simp add: ethernet_input_def Let_def on_skb_def)
  moreover have "rx_skb i rest ?t" using t(2) by (simp add: rx_skb_def wf_skb_def payload_def)
  ultimately show ?thesis using t(3) by (intro exI [of _ ?t]) (simp add: put_skb_def)
qed

section \<open>ARP requests\<close>

lemma rx_arp:
  assumes "rx_skb i (enc_arp h @ pad) t" and "valid_arp h"
  shows "has_arp p i h (put_skb p t w)"
  using assms arp.rd_front [of t h pad] by (auto simp: has_arp_def rx_skb_def)

text \<open>
  C17: An ARP request for the address of the interface is answered with one reply to its sender
  that carries the hardware address of the interface; a request for another address is not
  answered.
\<close>

lemma recv_arp_request:
  assumes eh: "valid_eth eh" "eth_type eh = HTONS ETH_PROTO_ARP" and h: "valid_arp h" "opcode h = HTONS ARP_OP_REQUEST"
    and len: "length pad \<le> 2000" and x: "get_intf i w = Inr x" "l3_open x" "ethernet_input_qualify x eh"
    and up: "up os i ev w" and mac: "length (if_mac x) = 6" and frame: "frame = enc_eth eh @ enc_arp h @ pad"
    and fresh: "w_skbs w (Suc (w_next w)) = None"
  shows "\<exists>w'. recv_frame k os i (Some frame) w = Inr w' \<and> w_skbs w' = (w_skbs w)(w_next w := None) \<and>
    trace w' = trace w @ callback_events i w frame @
      (if if_ip x = target_proto_addr h
       then sent ev i w (arp_frame x (sender_hw_addr h)
              (arp_message ARP_OP_REPLY x (sender_hw_addr h) (sender_proto_addr h)))
       else [])"
proof -
  have "length frame \<le> 2044" "frame \<noteq> []"
    using frame len eth.length_enc [OF eh(1)] arp.length_enc [OF h(1)] by (auto simp: ETH_HDR_SIZE_def ARP_HDR_SIZE_def)
  from recv_frame_L3 [OF this(2,1) x(1,2), of k os] obtain s where s: "rx_skb i frame s"
    "recv_frame k os i (Some frame) w =
      bindE (ethernet_input k os (w_next w) (called_back i frame (snd (new_skb s w)))) (\<lambda>(ok, w1).
        if \<not> ok then free_skb (w_next w) w1 else Inr w1)" by blast
  let ?p = "w_next w" and ?w1 = "called_back i frame (snd (new_skb s w))"
  have w1: "get_skb ?p ?w1 = Inr s" "get_intf i ?w1 = Inr x"
    using x(1) by (simp_all add: called_back_def world_access)
  from ethernet_input_arp [OF w1(1) _ eh(1) w1(2) x(3) eh(2), of "enc_arp h @ pad" k os] s(1) frame obtain t where
    t: "rx_skb i (enc_arp h @ pad) t" "ethernet_input k os ?p ?w1 = arp_input os ?p (put_skb ?p t ?w1)" by auto
  let ?w2 = "put_skb ?p t ?w1"
  have "up os i ev ?w2" "get_intf i ?w2 = Inr x" "?p < w_next ?w2"
    using up x(1) up_cong [of ?w2 w os i ev] by (simp_all add: called_back_def world_access)
  from arp_input_request [OF rx_arp [OF t(1) h(1)] h(2) this(1,2) mac this(3)] s(2) t(2) fresh show ?thesis
    by (auto simp: free_skb_def called_back_def callback_events_def world_access after_send_def sent_def fun_upd_twist fun_upd_idem)
qed

section \<open>Datagrams for the node\<close>

lemma ip_input_udp:
  assumes p: "get_skb p w = Inr t" and t: "rx_skb i (enc_ip ih @ rest) t" and pr: "ip_proto ih = IP_PROTO_UDP"
  shows "\<exists>u. rx_skb i rest u \<and> data_off u = data_off t + 20 \<and> buf u = buf t \<and> ip_hdr_off u = ip_hdr_off t \<and>
    ip_input (Suc k) os p w = udp_input p (put_skb p u w)"
proof -
  have wf: "wf_skb t" "payload t = enc_ip ih @ rest" using t by (simp_all add: rx_skb_def)
  note rd = ip.rd_front [OF wf]
  let ?u = "t\<lparr>data_off := data_off t + 20, skb_len := skb_len t - 20\<rparr>"
  have pull: "skb_pull IP_HDR_SIZE t = Inr ?u"
    using skb_pull_ok [of IP_HDR_SIZE t] wf(1) rd(2) by (simp add: IP_HDR_SIZE_def)
  let ?v = "?u\<lparr>udp_hdr_off := Some (data_off ?u)\<rparr>"
  have "wf_skb ?u" "payload ?u = rest"
    using wf_skb_pull [OF wf(1) pull] payload_pull [OF wf(1) pull] wf(2) ip.length_enc [of ih] by simp_all
  then have "rx_skb i rest ?v" using t ip.length_enc [of ih] by (auto simp: rx_skb_def wf_skb_def payload_def IP_HDR_SIZE_def)
  moreover have "ip_input (Suc k) os p w = udp_input p (put_skb p ?v w)"
    using p rd(1) pr pull by (simp add: on_skb_def IP_PROTO_UDP_def IP_PROTO_ICMP_def IP_PROTO_TCP_def)
  ultimately show ?thesis by (intro exI [of _ ?v]) simp
qed

text \<open>An IP packet on its way up: behind the Ethernet header, with the header pointer set.\<close>

lemma recv_ip:
  assumes eh: "valid_eth eh" "eth_type eh = HTONS ETH_PROTO_IP" and len: "length rest \<le> 2000"
    and x: "get_intf i w = Inr x" "l3_open x" "ethernet_input_qualify x eh"
    and frame: "frame = enc_eth eh @ enc_ip ih @ rest"
  shows "\<exists>t. rx_skb i (enc_ip ih @ rest) t \<and> data_off t = 18 \<and> ip_hdr_off t = Some 18 \<and>
    recv_frame k os i (Some frame) w =
      bindE (ip_preroute k os (w_next w) (called_back i frame (snd (new_skb t w)))) (\<lambda>(ok, w1).
        if \<not> ok then free_skb (w_next w) w1 else Inr w1)"
proof -
  have "length frame \<le> 2044" "frame \<noteq> []"
    using frame len eth.length_enc [OF eh(1)] ip.length_enc [of ih] by (auto simp: ETH_HDR_SIZE_def IP_HDR_SIZE_def)
  from recv_frame_L3 [OF this(2,1) x(1,2), of k os] obtain s where s: "rx_skb i frame s" "data_off s = 4"
    "recv_frame k os i (Some frame) w =
      bindE (ethernet_input k os (w_next w) (called_back i frame (snd (new_skb s w)))) (\<lambda>(ok, w1).
        if \<not> ok then free_skb (w_next w) w1 else Inr w1)" by blast
  let ?p = "w_next w" and ?w1 = "called_back i frame (snd (new_skb s w))"
  have w1: "get_skb ?p ?w1 = Inr s" "get_intf i ?w1 = Inr x"
    using x(1) by (simp_all add: called_back_def world_access)
  from ethernet_input_ip [OF w1(1) _ eh(1) w1(2) x(3) eh(2), of "enc_ip ih @ rest" k os] s(1,2) frame obtain t where
    t: "rx_skb i (enc_ip ih @ rest) t" "data_off t = 18" "ip_hdr_off t = Some 18"
      "ethernet_input k os ?p ?w1 = ip_preroute k os ?p (put_skb ?p t ?w1)" by auto
  have "put_skb ?p t ?w1 = called_back i frame (snd (new_skb t w))"
    by (simp add: called_back_def callback_events_def new_skb_def put_skb_def)
  with t s(3) show ?thesis by auto
qed

lemma ip_preroute_eq:
  assumes p: "get_skb p w = Inr t" and t: "rx_skb i (enc_ip ih @ rest) t" and x: "get_intf i w = Inr x"
    and loc: "is_ip_local (if_node x) (dst_ip ih) w = Inr local"
  shows "ip_preroute k os p w = (if local then ip_input k os p w else ip_forward os (ip_input k os) p w)"
  using assms ip.rd_front(1) [of t ih rest] by (auto simp: ip_preroute_def rx_skb_def)

lemma udp_find_cong:
  assumes "w_udp_socks w' = w_udp_socks w"
  shows "udp_socks_manager_find us port w' = udp_socks_manager_find us port w"
proof (induction us)
  case (Cons a us)
  have "get_udp_sock a w' = get_udp_sock a w" using assms by (simp add: get_udp_sock_def)
  with Cons show ?case by (simp only: udp_socks_manager_find.simps)
qed simp

text \<open>
  A datagram for a bound port of the node is queued.  The data are all bytes behind the UDP
  header, whatever the length fields say: the padding of a short frame is part of them.
\<close>

lemma recv_udp:
  assumes eh: "valid_eth eh" "eth_type eh = HTONS ETH_PROTO_IP" and len: "length data \<le> 1900"
    and x: "get_intf i w = Inr x" "l3_open x" "ethernet_input_qualify x eh"
    and loc: "is_ip_local (if_node x) (dst_ip ih) w = Inr True" and pr: "ip_proto ih = IP_PROTO_UDP"
    and u: "udp_socks_manager_find (udp_socks_manager x) (NTOHS (udp_dst_port uh)) w = Inr (Some u)"
    and sk: "get_udp_sock u w = Inr sk" and ok: "rx_ok (us_rx_skb sk) w" and fresh: "w_next w \<notin> set (us_rx_skb sk)"
    and frame: "frame = enc_eth eh @ enc_ip ih @ enc_udp uh @ data"
  shows "\<exists>w'. recv_frame (Suc k) os i (Some frame) w = Inr w' \<and>
    get_udp_sock u w' = Inr (sk\<lparr>us_rx_skb := w_next w # us_rx_skb sk\<rparr>) \<and>
    rx_data (w_next w # us_rx_skb sk) w' = rx_data (us_rx_skb sk) w @ [data] \<and>
    rx_ok (w_next w # us_rx_skb sk) w' \<and> trace w' = trace w @ callback_events i w frame \<and>
    udp_fd_to_sock w' = udp_fd_to_sock w \<and>
    sent_by (src_ip ih) (NTOHS (udp_src_port uh)) (the (w_skbs w' (w_next w)))"
proof -
  let ?p = "w_next w"
  have "length (enc_udp uh @ data) \<le> 2000" using len udp.length_enc [of uh] by (simp add: UDP_HDR_SIZE_def)
  from recv_ip [OF eh this x frame, of "Suc k" os] obtain t where t: "rx_skb i (enc_ip ih @ enc_udp uh @ data) t"
    "recv_frame (Suc k) os i (Some frame) w =
      bindE (ip_preroute (Suc k) os ?p (called_back i frame (snd (new_skb t w)))) (\<lambda>(ok, w1).
        if \<not> ok then free_skb ?p w1 else Inr w1)" "data_off t = 18" "ip_hdr_off t = Some 18" by blast
  let ?w1 = "called_back i frame (snd (new_skb t w))"
  have w1: "get_skb ?p ?w1 = Inr t" "get_intf i ?w1 = Inr x" "is_ip_local (if_node x) (dst_ip ih) ?w1 = Inr True"
    using x(1) loc is_ip_local_cong [of ?w1 w] by (simp_all add: called_back_def world_access)
  from ip_input_udp [OF w1(1) t(1) pr, of k os] obtain v where v: "rx_skb i (enc_udp uh @ data) v"
    "ip_input (Suc k) os ?p ?w1 = udp_input ?p (put_skb ?p v ?w1)" "buf v = buf t" "ip_hdr_off v = Some 18"
    using t(4) by auto
  let ?w2 = "put_skb ?p v ?w1"
  have same: "udp_socks_manager_find us port ?w2 = udp_socks_manager_find us port w" for us port
    by (rule udp_find_cong) (simp add: called_back_def world_access)
  have w2: "has_udp ?p i uh data ?w2" "get_intf i ?w2 = Inr x" "get_udp_sock u ?w2 = Inr sk"
    using v(1) x(1) sk by (auto simp: has_udp_def rx_skb_def called_back_def world_access)
  have ps: "w_skbs ?w2 q = w_skbs w q" if "q \<in> set (us_rx_skb sk)" for q
    using that fresh by (auto simp: called_back_def world_access)
  have "rx_ok (us_rx_skb sk) ?w2" by (rule rx_ok_frame [OF ok ps])
  from udp_input_queued [OF w2(1,2) _ w2(3) this fresh] u same obtain w3 where
    w3: "udp_input ?p ?w2 = Inr (True, w3)" "get_udp_sock u w3 = Inr (sk\<lparr>us_rx_skb := ?p # us_rx_skb sk\<rparr>)"
      "rx_data (?p # us_rx_skb sk) w3 = rx_data (us_rx_skb sk) ?w2 @ [data]" "rx_ok (?p # us_rx_skb sk) w3"
      "trace w3 = trace ?w2" "udp_fd_to_sock w3 = udp_fd_to_sock ?w2"
      "\<exists>s t. get_skb ?p ?w2 = Inr s \<and> w_skbs w3 ?p = Some t \<and> buf t = buf s \<and> ip_hdr_off t = ip_hdr_off s \<and>
         udp_hdr_off t = Some (data_off s)" by auto
  have rdi: "rd_hdr IP_HDR_SIZE dec_ip 18 v = Inr ih"
    using ip.rd_front(1) [of t ih "enc_udp uh @ data"] t(1,3) v(3) by (simp add: rx_skb_def rd_hdr_def rd_bytes_def)
  have rdu: "rd_hdr UDP_HDR_SIZE dec_udp (data_off v) v = Inr uh"
    using rd_udp(1) [of v uh data] v(1) by (simp add: rx_skb_def)
  have "sent_by (src_ip ih) (NTOHS (udp_src_port uh)) (the (w_skbs w3 ?p))"
    using w3(7) rdi rdu v(4) by (auto simp: sent_by_def rd_hdr_def rd_bytes_def)
  moreover have "rx_data (us_rx_skb sk) ?w2 = rx_data (us_rx_skb sk) w" by (rule rx_data_frame [OF ps])
  moreover have "trace ?w2 = trace w @ callback_events i w frame" "udp_fd_to_sock ?w2 = udp_fd_to_sock w"
    by (simp_all add: called_back_def callback_events_def world_access)
  ultimately show ?thesis
    using t(2) ip_preroute_eq [OF w1(1) t(1) w1(2,3), of "Suc k" os] v(2) w3 by auto
qed

text \<open>A datagram shorter than its header, for a bound port, stops the process.\<close>

text \<open>
  C36: A received UDP packet whose header is cut short after 4 to 7 of its 8 bytes, so that the
  port is there, and for a bound port, stops the program at the assertion of skb_pull.
\<close>

lemma recv_udp_short:
  assumes eh: "valid_eth eh" "eth_type eh = HTONS ETH_PROTO_IP" and len: "4 \<le> length rest" "length rest < 8"
    and x: "get_intf i w = Inr x" "l3_open x" "ethernet_input_qualify x eh"
    and loc: "is_ip_local (if_node x) (dst_ip ih) w = Inr True" and pr: "ip_proto ih = IP_PROTO_UDP"
    and u: "udp_socks_manager_find (udp_socks_manager x) (NTOHS (le16 (rest ! 2) (rest ! 3))) w = Inr (Some u)"
    and frame: "frame = enc_eth eh @ enc_ip ih @ rest"
  shows "recv_frame (Suc k) os i (Some frame) w = Inl Assert_failed"
proof -
  let ?p = "w_next w"
  have "length rest \<le> 2000" using len by simp
  from recv_ip [OF eh this x frame, of "Suc k" os] obtain t where t: "rx_skb i (enc_ip ih @ rest) t" "data_off t = 18"
    "recv_frame (Suc k) os i (Some frame) w =
      bindE (ip_preroute (Suc k) os ?p (called_back i frame (snd (new_skb t w)))) (\<lambda>(ok, w1).
        if \<not> ok then free_skb ?p w1 else Inr w1)" by blast
  let ?w1 = "called_back i frame (snd (new_skb t w))"
  have w1: "get_skb ?p ?w1 = Inr t" "get_intf i ?w1 = Inr x" "is_ip_local (if_node x) (dst_ip ih) ?w1 = Inr True"
    using x(1) loc is_ip_local_cong [of ?w1 w] by (simp_all add: called_back_def world_access)
  from ip_input_udp [OF w1(1) t(1) pr, of k os] obtain v where v: "rx_skb i rest v" "data_off v = 38"
    "ip_input (Suc k) os ?p ?w1 = udp_input ?p (put_skb ?p v ?w1)" using t(2) by auto
  have b: "wf_skb v" "length (buf v) = 2048" "payload v = rest" "skb_intf v = Some i"
    using v(1) by (simp_all add: rx_skb_def RECV_BUFFER_SIZE_def)
  have sl: "skb_len v = length rest" using length_payload [OF b(1)] b(3) by simp
  let ?h = "dec_udp (slice 38 8 (buf v))"
  have rd: "rd_hdr UDP_HDR_SIZE dec_udp (data_off v) v = Inr ?h"
    using udp.rd_ok [of 38 v] b(2) v(2) by (simp add: UDP_HDR_SIZE_def)
  have "rest ! j = buf v ! (38 + j)" if "j < 4" for j
    using b(1,3) v(2) that len(1) sl nth_slice [of 38 "tail_off v - 38" "buf v" j] by (auto simp: payload_def wf_skb_def)
  then have port: "udp_dst_port ?h = le16 (rest ! 2) (rest ! 3)"
    using b(2) by (simp add: dec_udp_def nth_slice)
  let ?w2 = "put_skb ?p v ?w1"
  have "udp_socks_manager_find us port ?w2 = udp_socks_manager_find us port w" for us port
    by (rule udp_find_cong) (simp add: called_back_def world_access)
  moreover have "skb_pull UDP_HDR_SIZE (v\<lparr>udp_hdr_off := Some (data_off v)\<rparr>) = Inl Assert_failed"
    using b(1) sl len(2) by (intro skb_pull_short) (simp_all add: UDP_HDR_SIZE_def wf_skb_def)
  ultimately have "udp_input ?p ?w2 = Inl Assert_failed"
    using rd b(4) port u w1(2) x(1)
    by (simp add: udp_input_def Let_def called_back_def world_access)
  then show ?thesis
    using t(3) ip_preroute_eq [OF w1(1) t(1) w1(2,3), of "Suc k" os] v(3) by simp
qed

section \<open>Forwarding\<close>

text \<open>
  C7: A router forwards: an IP packet with a header of 20 bytes (hlen 5) and at most 1900 bytes
  behind it, received at an interface in layer 3 mode and addressed to its station, for a remote
  address that has a route through an interface that is up, with forwarding enabled and a time to
  live above one, gets its time to live lowered by one and the header that ip_postroute rewrites,
  and keeps its payload.  When the hardware address of the next hop is in the ARP table it leaves
  once through the interface of the route and its buffer is released; otherwise it is parked,
  first among the packets that wait for that hop, and one broadcast ARP request for the hop goes
  out instead.
\<close>

lemma recv_forward:
  assumes eh: "valid_eth eh" "eth_type eh = HTONS ETH_PROTO_IP" and len: "length rest \<le> 1900"
    and y: "get_intf i w = Inr y" "l3_open y" "ethernet_input_qualify y eh"
    and hl: "ip_hlen ih = 5" and en: "ip_forward_enable w" and ttl: "ip_ttl ih \<noteq> 0" "ip_ttl ih \<noteq> 1"
    and r: "routed os (if_node y) (dst_ip ih) nd rt x ev w" and frame: "frame = enc_eth eh @ enc_ip ih @ rest"
    and hop: "hop = arp_target rt (dst_ip ih)" and e: "e = arp_entry_for (arp_table nd) hop (rt_intf rt)"
    and mac: "arp_resolved e \<Longrightarrow> length (arp_mac e) = 6"
  shows "\<exists>w'. recv_frame k os i (Some frame) w = Inr w' \<and>
    (if arp_resolved e
     then \<exists>pad. length pad = 26 - length rest \<and> w_skbs w' = (w_skbs w)(w_next w := None) \<and>
       trace w' = trace w @ callback_events i w frame @
         sent ev (rt_intf rt) w (ip_frame x (arp_mac e) (forwarded (if_ip x) ih) rest @ pad)
     else \<exists>s nd'. has_ip (w_next w) (Some (rt_intf rt)) (forwarded (if_ip x) ih) rest s w' \<and>
       get_node (if_node y) w' = Inr nd' \<and>
       arp_table_lookup (arp_table nd') hop = Some (e\<lparr>arp_pending_pkts := w_next w # arp_pending_pkts e\<rparr>) \<and>
       trace w' = trace w @ callback_events i w frame @
         sent ev (rt_intf rt) w (arp_frame x layer2_fill_with_broadcast_mac
           (arp_message ARP_OP_REQUEST x (replicate 6 0) hop)))"
proof -
  let ?p = "w_next w"
  have "length rest \<le> 2000" using len by simp
  from recv_ip [OF eh this y frame, of k os] obtain t where t: "rx_skb i (enc_ip ih @ rest) t" "data_off t = 18"
    "recv_frame k os i (Some frame) w =
      bindE (ip_preroute k os ?p (called_back i frame (snd (new_skb t w)))) (\<lambda>(ok, w1).
        if \<not> ok then free_skb ?p w1 else Inr w1)" by blast
  let ?w1 = "called_back i frame (snd (new_skb t w))"
  have r1: "routed os (if_node y) (dst_ip ih) nd rt x ev ?w1"
    by (rule routed_cong [OF r]) (simp_all add: called_back_def world_access)
  then have loc: "is_ip_local (if_node y) (dst_ip ih) ?w1 = Inr False" by (simp add: routed_def)
  have w1: "get_skb ?p ?w1 = Inr t" "get_intf i ?w1 = Inr y" "ip_forward_enable ?w1" "?p < w_next ?w1"
    using y(1) en by (simp_all add: called_back_def world_access)
  have ip: "has_ip ?p (Some i) ih rest t ?w1" using t(1) w1(1) by (simp add: rx_skb_def has_ip_def)
  have "length (buf t) = 2048" "wf_skb t" using t(1) by (simp_all add: rx_skb_def RECV_BUFFER_SIZE_def)
  then have room: "frame_room t"
    using t(2) has_ip_len [OF ip] len by (auto simp: frame_room_def skb_tailroom_def wf_skb_def ETH_HDR_SIZE_def)
  have same: "trace ?w1 = trace w @ callback_events i w frame" "(w_skbs ?w1)(?p := None) = (w_skbs w)(?p := None)"
    "sent ev j ?w1 g = sent ev j w g" for j g
    by (simp_all add: called_back_def callback_events_def world_access sent_def)
  show ?thesis
    using ip_forward_hop [OF ip room hl w1(3) ttl w1(4,2) r1 e [unfolded hop, symmetric] mac, of "ip_input k os"]
      t(3) ip_preroute_eq [OF w1(1) t(1) w1(2) loc, of k os]
    unfolding same hop [symmetric] by auto
qed

end
