(* ===== verification/Icmp_Path.thy ===== *)
theory Icmp_Path
  imports Reception
begin

text \<open>
  ICMP echo from end to end: the message \<open>ping\<close> sends, the answer to a received request, and what
  happens when a node pings one of its own addresses.
\<close>

section \<open>Messages\<close>

definition icmp_blank :: "u8 \<Rightarrow> u8 \<Rightarrow> icmp_hdr" where
  "icmp_blank ty code = \<lparr>icmp_type = ty, icmp_code = code, icmp_cksum = 0\<rparr>"

definition icmp_message :: "u8 \<Rightarrow> u8 \<Rightarrow> u8 list \<Rightarrow> u8 list" where
  "icmp_message ty code data =
     enc_icmp ((icmp_blank ty code)\<lparr>icmp_cksum := HTONS (calc_checksum_16 (enc_icmp (icmp_blank ty code) @ data))\<rparr>) @ data"

lemma length_icmp_message [simp]: "length (icmp_message ty code data) = 4 + length data"
  using icmp.length_enc by (simp add: icmp_message_def ICMP_HDR_SIZE_def)

lemma icmp_message_checksum:
  assumes "length data \<le> 65000"
  shows "calc_checksum_16 (icmp_message ty code data) = 0"
proof -
  define c where "c = calc_checksum_16 ([ty, code] @ bytes16 0 @ data)"
  have "icmp_message ty code data = [ty, code] @ bytes16 (HTONS c) @ data"
    by (simp add: icmp_message_def icmp_blank_def enc_icmp_def c_def)
  moreover have "calc_checksum_16 ([ty, code] @ bytes16 (HTONS c) @ data) = 0 \<longleftrightarrow>
      be_sum (bytes16 0) mod 65535 = 0 \<and> (be_sum [ty, code] + be_sum data \<noteq> 0 \<or> be_sum (bytes16 0) = 0)"
    by (rule checksum_fill [OF _ _ _ c_def]) (use assms in simp_all)
  moreover have "be_sum (bytes16 0) = 0" by (simp add: bytes16_def)
  ultimately show ?thesis by simp
qed

lemma rd_hdr_buf: "buf u = buf t \<Longrightarrow> rd_hdr n dec off u = rd_hdr n dec off t"
  by (simp add: rd_hdr_def rd_bytes_def)

lemma icmp_skb_ok:
  assumes n: "length data \<le> 2044"
  shows "\<exists>s. icmp_skb ty code data = Inr s \<and> wf_skb s \<and> data_off s = 60 \<and> skb_tailroom s = 46 \<and>
    skb_len s = 4 + length data \<and> skb_intf s = None \<and> ip_hdr_off s = None \<and> payload s = icmp_message ty code data"
proof -
  let ?n = "length data" and ?h = "icmp_blank ty code"
  define s1 where "s1 = (alloc_skb (110 + ?n))\<lparr>data_off := 60, tail_off := 64 + ?n, skb_len := 4 + ?n\<rparr>"
  have o1: "data_off s1 = 60" "skb_len s1 = 4 + ?n" "buf s1 = replicate (110 + ?n) 0" "tail_off s1 = 64 + ?n"
    "skb_intf s1 = None" "ip_hdr_off s1 = None"
    by (simp_all add: s1_def alloc_skb_def)
  have wf1: "wf_skb s1" using n by (simp add: wf_skb_def o1)
  define s0 where "s0 = (alloc_skb (110 + ?n))\<lparr>data_off := 60, tail_off := 60\<rparr>"
  have start: "skb_reserve BUFF_HEADROOM (alloc_skb (BUFF_HEADROOM + BUFF_TAILROOM + ICMP_HDR_SIZE + ?n)) =
      Inr s0" "skb_put (ICMP_HDR_SIZE + ?n) s0 = Inr s1" "tail_off s0 = 60"
    using n by (simp_all add: skb_reserve_def skb_put_def s0_def s1_def alloc_skb_def BUFF_HEADROOM_def BUFF_TAILROOM_def
        ICMP_HDR_SIZE_def Let_def)
  have rd: "rd_hdr ICMP_HDR_SIZE dec_icmp 60 s1 = Inr (dec_icmp (replicate 4 0))"
    using icmp.rd_ok [of 60 s1] by (simp add: o1 ICMP_HDR_SIZE_def slice_def)
  have h: "(dec_icmp (replicate 4 0))\<lparr>icmp_type := ty, icmp_code := code\<rparr> = ?h"
    by (simp add: dec_icmp_def icmp_blank_def le16_def)
  from icmp.wr_front [OF wf1, of ?h] obtain s2 where s2: "wr_hdr enc_icmp 60 ?h s1 = Inr s2" "wf_skb s2"
    "s2 = s1\<lparr>buf := write_at 60 (enc_icmp ?h) (buf s1)\<rparr>" using o1 by (auto simp: ICMP_HDR_SIZE_def)
  have lh: "length (enc_icmp h') = 4" for h' using icmp.length_enc by (simp add: ICMP_HDR_SIZE_def)
  have b2: "length (buf s2) = 110 + ?n" using lh by (simp add: s2(3) o1)
  define s3 where "s3 = s2\<lparr>buf := write_at 64 data (buf s2)\<rparr>"
  have b3: "length (buf s3) = 110 + ?n" using b2 by (simp add: s3_def)
  have wr: "(if data \<noteq> [] then wr_bytes (60 + ICMP_HDR_SIZE) data s2 else Inr s2) = Inr s3"
    using b2 by (auto simp: wr_bytes_def s3_def ICMP_HDR_SIZE_def write_at_def)
  have wf3: "wf_skb s3" using s2(2) b3 b2 by (simp add: wf_skb_def s3_def)
  have "slice 60 4 (buf s3) = enc_icmp ?h"
    using b2 lh slice_write_disjoint [of 64 data "buf s2" 60 4] by (simp add: s3_def s2(3) o1)
  moreover have "slice 64 ?n (buf s3) = data" using b2 by (simp add: s3_def)
  ultimately have p3: "payload s3 = enc_icmp ?h @ data"
    using slice_append_split [of 60 4 ?n "buf s3"] by (simp add: payload_def s3_def s2(3) o1)
  have o3: "data_off s3 = 60" "skb_len s3 = 4 + ?n" "tail_off s3 = 64 + ?n" "skb_intf s3 = None" "ip_hdr_off s3 = None"
    by (simp_all add: s3_def s2(3) o1)
  let ?h' = "?h\<lparr>icmp_cksum := HTONS (calc_checksum_16 (enc_icmp ?h @ data))\<rparr>"
  from icmp.wr_front [OF wf3, of ?h'] p3 lh obtain s4 where s4: "wr_hdr enc_icmp 60 ?h' s3 = Inr s4" "wf_skb s4"
    "payload s4 = enc_icmp ?h' @ data" "s4 = s3\<lparr>buf := write_at 60 (enc_icmp ?h') (buf s3)\<rparr>"
    using o3 by (auto simp: ICMP_HDR_SIZE_def)
  have "rd_bytes 60 (skb_len s3) s3 = Inr (enc_icmp ?h @ data)"
    using rd_payload [OF wf3] p3 o3 by simp
  then have fill: "fill_icmp_cksum 60 (skb_len s3) s3 = Inr s4"
    using icmp.rd_front(1) [OF wf3 p3] s4(1) o3 by (simp add: fill_icmp_cksum_def calc_icmp_cksum_def)
  have "icmp_skb ty code data = Inr s4"
    using start rd h s2(1) wr fill by (auto simp: icmp_skb_def Let_def split: if_splits)
  moreover have "length (buf s4) = 110 + ?n" using b3 lh by (simp add: s4(4))
  ultimately show ?thesis
    using s4(2,3) o3 by (auto simp: s4(4) skb_tailroom_def icmp_message_def)
qed

lemma icmp_out_sent:
  assumes n: "length data \<le> 2044" and r: "reaches os nn dst i x mac ev w"
  shows "\<exists>pad. length pad = 22 - length data \<and> icmp_out os deliver nn dst ty code data w =
    Inr (True, after_send (sent ev i w (ip_frame x mac
      (ip_out_hdr (if_ip x) dst IP_PROTO_ICMP (length data + 24)) (icmp_message ty code data) @ pad)) w)"
proof -
  from icmp_skb_ok [OF n, of ty code] obtain s where s: "icmp_skb ty code data = Inr s" "wf_skb s" "data_off s = 60"
    "skb_tailroom s = 46" "skb_len s = 4 + length data" "skb_intf s = None" "payload s = icmp_message ty code data" by blast
  let ?p = "w_next w" and ?w1 = "snd (new_skb s w)"
  have g: "get_skb ?p ?w1 = Inr s" by (simp add: world_access)
  have "reaches os nn dst i x mac ev ?w1"
    by (rule reaches_cong [OF r]) (simp_all add: world_access)
  from ip_output_sent [OF g s(2) _ _ _ this, of deliver IP_PROTO_ICMP] s obtain pad where
    "length pad = 22 - length data" "ip_output os deliver nn dst IP_PROTO_ICMP ?p ?w1 =
      Inr (True, ?w1\<lparr>trace := trace ?w1 @ sent ev i ?w1 (ip_frame x mac
        (ip_out_hdr (if_ip x) dst IP_PROTO_ICMP (length data + 24)) (icmp_message ty code data) @ pad), w_skbs := (w_skbs ?w1)(?p := None)\<rparr>)"
    by (auto simp: IP_HDR_SIZE_def add.commute [of 24])
  with s(1) show ?thesis
    by (auto simp: icmp_out_def new_skb_def put_skb_def sent_def after_send_def)
qed

section \<open>Answering a request\<close>

lemma ip_input_echo:
  assumes p: "get_skb p w = Inr t" and t: "rx_skb i (enc_ip ih @ enc_icmp ch @ data) t" and off: "ip_hdr_off t = Some (data_off t)"
    and pr: "ip_proto ih = IP_PROTO_ICMP" and x: "get_intf i w = Inr x" and n: "length data \<le> 2044"
    and req: "icmp_type ch = ICMP_ECHO_REQUEST_TYPE" "icmp_code ch = ICMP_ECHO_REQUEST_CODE"
    and r: "reaches os (if_node x) (src_ip ih) j y mac ev w" and lt: "p < w_next w"
  shows "\<exists>w' pad. ip_input (Suc k) os p w = Inr (True, w') \<and> length pad = 22 - length data \<and>
    trace w' = trace w @ sent ev j w (ip_frame y mac (ip_out_hdr (if_ip y) (src_ip ih) IP_PROTO_ICMP (length data + 24))
      (icmp_message ICMP_ECHO_REPLY_TYPE ICMP_ECHO_REPLY_CODE data) @ pad) \<and>
    w_skbs w' = (w_skbs w)(w_next w := None, p := None)"
proof -
  have wf: "wf_skb t" "payload t = enc_ip ih @ enc_icmp ch @ data" using t by (simp_all add: rx_skb_def)
  note rd = ip.rd_front [OF wf]
  let ?u = "t\<lparr>data_off := data_off t + 20, skb_len := skb_len t - 20\<rparr>"
  have pull: "skb_pull IP_HDR_SIZE t = Inr ?u"
    using skb_pull_ok [of IP_HDR_SIZE t] wf(1) rd(2) by (simp add: IP_HDR_SIZE_def)
  have u: "wf_skb ?u" "payload ?u = enc_icmp ch @ data"
    using wf_skb_pull [OF wf(1) pull] payload_pull [OF wf(1) pull] wf(2) ip.length_enc [of ih] by simp_all
  note ru = icmp.rd_front [OF u]
  let ?w1 = "put_skb p ?u w"
  have iph: "rd_hdr IP_HDR_SIZE dec_ip (data_off t) ?u = Inr ih" using rd(1) by (simp add: rd_hdr_buf [of ?u t])
  have len: "skb_len ?u = 4 + length data" using ru(2) by (simp add: ICMP_HDR_SIZE_def)
  have rest: "rd_bytes (data_off ?u + ICMP_HDR_SIZE) (skb_len ?u - ICMP_HDR_SIZE) ?u = Inr data"
  proof -
    from skb_pull_ok [of ICMP_HDR_SIZE ?u] u(1) len obtain v where v: "skb_pull ICMP_HDR_SIZE ?u = Inr v"
      "data_off v = data_off ?u + ICMP_HDR_SIZE" "skb_len v = skb_len ?u - ICMP_HDR_SIZE" "buf v = buf ?u"
      by (auto simp: ICMP_HDR_SIZE_def)
    have "wf_skb v" "payload v = data"
      using wf_skb_pull [OF u(1) v(1)] payload_pull [OF u(1) v(1)] u(2) icmp.length_enc [of ch] by simp_all
    with rd_payload [of v] v show ?thesis by (simp add: rd_bytes_def)
  qed
  have r1: "reaches os (if_node x) (src_ip ih) j y mac ev ?w1"
    by (rule reaches_cong [OF r]) (simp_all add: put_skb_def)
  from icmp_out_sent [OF n r1, of "ip_input k os" ICMP_ECHO_REPLY_TYPE ICMP_ECHO_REQUEST_CODE] obtain pad where
    pad: "length pad = 22 - length data" "icmp_out os (ip_input k os) (if_node x) (src_ip ih) ICMP_ECHO_REPLY_TYPE
        ICMP_ECHO_REQUEST_CODE data ?w1 = Inr (True, after_send (sent ev j ?w1 (ip_frame y mac
        (ip_out_hdr (if_ip y) (src_ip ih) IP_PROTO_ICMP (length data + 24))
        (icmp_message ICMP_ECHO_REPLY_TYPE ICMP_ECHO_REQUEST_CODE data) @ pad)) ?w1)" by blast
  let ?w2 = "after_send (sent ev j ?w1 (ip_frame y mac (ip_out_hdr (if_ip y) (src_ip ih) IP_PROTO_ICMP (length data + 24))
        (icmp_message ICMP_ECHO_REPLY_TYPE ICMP_ECHO_REQUEST_CODE data) @ pad)) ?w1"
  from r1 obtain nd where nd: "get_node (if_node x) ?w1 = Inr nd" by (auto simp: reaches_def)
  have "icmp_input os (ip_input k os) p ?w1 = bindE (free_skb p ?w2) (\<lambda>w. Inr (True, w))"
    using ru(1) len req x t off iph rest pad(2) nd
    by (simp add: icmp_input_def rx_skb_def ICMP_HDR_SIZE_def put_skb_def get_intf_def get_skb_def)
  moreover have "ip_input (Suc k) os p w = icmp_input os (ip_input k os) p ?w1"
    using p rd(1) pr pull by (simp add: on_skb_def)
  ultimately show ?thesis
    using pad(1) lt by (auto simp: free_skb_def after_send_def put_skb_def sent_def fun_upd_twist
        ICMP_ECHO_REQUEST_CODE_def ICMP_ECHO_REPLY_CODE_def)
qed

lemma recv_echo:
  assumes eh: "valid_eth eh" "eth_type eh = HTONS ETH_PROTO_IP" and n: "length data \<le> 1900"
    and x: "get_intf i w = Inr x" "l3_open x" "ethernet_input_qualify x eh"
    and loc: "is_ip_local (if_node x) (dst_ip ih) w = Inr True" and pr: "ip_proto ih = IP_PROTO_ICMP"
    and req: "icmp_type ch = ICMP_ECHO_REQUEST_TYPE" "icmp_code ch = ICMP_ECHO_REQUEST_CODE"
    and r: "reaches os (if_node x) (src_ip ih) j y mac ev w" and fresh: "w_skbs w (Suc (w_next w)) = None"
    and frame: "frame = enc_eth eh @ enc_ip ih @ enc_icmp ch @ data"
  shows "\<exists>w' pad. recv_frame (Suc k) os i (Some frame) w = Inr w' \<and> length pad = 22 - length data \<and>
    trace w' = trace w @ callback_events i w frame @
      sent ev j w (ip_frame y mac (ip_out_hdr (if_ip y) (src_ip ih) IP_PROTO_ICMP (length data + 24))
        (icmp_message ICMP_ECHO_REPLY_TYPE ICMP_ECHO_REPLY_CODE data) @ pad) \<and>
    w_skbs w' = (w_skbs w)(w_next w := None)"
proof -
  let ?p = "w_next w"
  have "length (enc_icmp ch @ data) \<le> 2000" using n icmp.length_enc [of ch] by (simp add: ICMP_HDR_SIZE_def)
  from recv_ip [OF eh this x frame, of "Suc k" os] obtain t where t: "rx_skb i (enc_ip ih @ enc_icmp ch @ data) t"
    "data_off t = 18" "ip_hdr_off t = Some 18"
    "recv_frame (Suc k) os i (Some frame) w =
      bindE (ip_preroute (Suc k) os ?p (called_back i frame (snd (new_skb t w)))) (\<lambda>(ok, w1).
        if \<not> ok then free_skb ?p w1 else Inr w1)" by blast
  let ?w1 = "called_back i frame (snd (new_skb t w))"
  have w1: "get_skb ?p ?w1 = Inr t" "get_intf i ?w1 = Inr x" "is_ip_local (if_node x) (dst_ip ih) ?w1 = Inr True"
    using x(1) loc is_ip_local_cong [of ?w1 w] by (simp_all add: called_back_def world_access)
  have r1: "reaches os (if_node x) (src_ip ih) j y mac ev ?w1"
    by (rule reaches_cong [OF r]) (simp_all add: called_back_def world_access)
  have "ip_hdr_off t = Some (data_off t)" "length data \<le> 2044" "?p < w_next ?w1"
    using t(2,3) n by (simp_all add: called_back_def new_skb_def)
  from ip_input_echo [OF w1(1) t(1) this(1) pr w1(2) this(2) req r1 this(3), of k] obtain w2 pad where
    w2: "ip_input (Suc k) os ?p ?w1 = Inr (True, w2)" "length pad = 22 - length data"
      "trace w2 = trace ?w1 @ sent ev j ?w1 (ip_frame y mac (ip_out_hdr (if_ip y) (src_ip ih) IP_PROTO_ICMP (length data + 24))
        (icmp_message ICMP_ECHO_REPLY_TYPE ICMP_ECHO_REPLY_CODE data) @ pad)"
      "w_skbs w2 = (w_skbs ?w1)(w_next ?w1 := None, ?p := None)" by blast
  have "recv_frame (Suc k) os i (Some frame) w = Inr w2"
    using t(4) ip_preroute_eq [OF w1(1) t(1) w1(2,3), of "Suc k" os] w2(1) by simp
  moreover have "w_skbs w2 = (w_skbs w)(?p := None)"
    using fresh unfolding w2(4) by (auto simp: called_back_def world_access)
  ultimately show ?thesis
    using w2(2,3) by (auto simp: called_back_def callback_events_def world_access sent_def)
qed

section \<open>Pinging oneself\<close>

text \<open>
  A request for an address of the node is delivered locally, without the header pointer that the
  answer is addressed from: the handler dereferences a null pointer.
\<close>

text \<open>
  C33: A node that pings an address of its own for which it has a route, as setting the address of
  an interface adds one, dereferences a null pointer: local delivery does not set the IP header
  pointer that icmp_input reads.
\<close>

lemma ping_self:
  assumes nd: "get_node n w = Inr nd" and ip: "convert_ip_from_str_to_int str = dst"
    and rt: "rt_lookup_lpm (rt_table nd) dst = Inr (Some rt)" and x: "get_intf (rt_intf rt) w = Inr x"
    and own: "if_node x = n" and loc: "is_ip_local n dst w = Inr True"
  shows "ping os (ip_input (Suc k) os) n str w = Inl Null_deref"
proof -
  from icmp_skb_ok [of "[]" ICMP_ECHO_REQUEST_TYPE ICMP_ECHO_REQUEST_CODE] obtain s where
    s: "icmp_skb ICMP_ECHO_REQUEST_TYPE ICMP_ECHO_REQUEST_CODE [] = Inr s" "wf_skb s" "data_off s = 60"
      "skb_len s = 4" "skb_intf s = None" "ip_hdr_off s = None"
      "payload s = icmp_message ICMP_ECHO_REQUEST_TYPE ICMP_ECHO_REQUEST_CODE []" by auto
  let ?p = "w_next w" and ?w1 = "snd (new_skb s w)" and ?d = "ip_input (Suc k) os"
  have f: "get_skb ?p ?w1 = Inr s" "get_node n ?w1 = Inr nd" "get_intf (rt_intf rt) ?w1 = Inr x" "is_ip_local n dst ?w1 = Inr True"
    using nd x loc is_ip_local_cong [of ?w1 w] by (simp_all add: world_access)
  have "IP_HDR_SIZE \<le> data_off s" "skb_intf s = None \<or> skb_intf s = Some (rt_intf rt)"
    using s by (simp_all add: IP_HDR_SIZE_def)
  from ip_output_routed [OF f(1) s(2) this(1) f(2) rt this(2) f(3,4), of IP_PROTO_ICMP os ?d] obtain t where
    t: "ip_hdr_off t = None"
      "has_ip ?p (Some (rt_intf rt)) (ip_out_hdr (if_ip x) dst IP_PROTO_ICMP (skb_len s + IP_HDR_SIZE)) (payload s) t (put_skb ?p t ?w1)"
      "ip_output os ?d n dst IP_PROTO_ICMP ?p ?w1 = ?d ?p (put_skb ?p t ?w1)"
    using s(6) by auto
  let ?w2 = "put_skb ?p t ?w1"
  have pr: "ip_proto (ip_out_hdr (if_ip x) dst IP_PROTO_ICMP (skb_len s + IP_HDR_SIZE)) = IP_PROTO_ICMP"
    by (simp add: ip_out_hdr_def)
  have wf: "wf_skb t" "payload t = enc_ip (ip_out_hdr (if_ip x) dst IP_PROTO_ICMP (skb_len s + IP_HDR_SIZE)) @ payload s"
    "skb_intf t = Some (rt_intf rt)" using t(2) by (simp_all add: has_ip_def)
  note rd = ip.rd_front [OF wf(1,2)]
  let ?u = "t\<lparr>data_off := data_off t + 20, skb_len := skb_len t - 20\<rparr>"
  have pull: "skb_pull IP_HDR_SIZE t = Inr ?u"
    using skb_pull_ok [of IP_HDR_SIZE t] wf(1) rd(2) by (simp add: IP_HDR_SIZE_def)
  have u: "wf_skb ?u" "payload ?u = payload s"
    using wf_skb_pull [OF wf(1) pull] payload_pull [OF wf(1) pull] wf(2)
      ip.length_enc [of "ip_out_hdr (if_ip x) dst IP_PROTO_ICMP (skb_len s + IP_HDR_SIZE)"] by simp_all
  define ch where "ch = (icmp_blank ICMP_ECHO_REQUEST_TYPE ICMP_ECHO_REQUEST_CODE)\<lparr>icmp_cksum :=
    HTONS (calc_checksum_16 (enc_icmp (icmp_blank ICMP_ECHO_REQUEST_TYPE ICMP_ECHO_REQUEST_CODE)))\<rparr>"
  have pu: "payload ?u = enc_icmp ch @ []" using u(2) s(7) by (simp add: icmp_message_def ch_def)
  note ru = icmp.rd_front [OF u(1) pu]
  have req: "icmp_type ch = ICMP_ECHO_REQUEST_TYPE" "icmp_code ch = ICMP_ECHO_REQUEST_CODE"
    by (simp_all add: ch_def icmp_blank_def)
  have "get_intf (rt_intf rt) (put_skb ?p ?u ?w2) = Inr x" "get_node n (put_skb ?p ?u ?w2) = Inr nd"
    using nd x by (simp_all add: world_access)
  then have "icmp_input os (ip_input k os) ?p (put_skb ?p ?u ?w2) = Inl Null_deref"
    using ru req wf(3) t(1) own by (simp add: icmp_input_def)
  moreover have "?d ?p ?w2 = icmp_input os (ip_input k os) ?p (put_skb ?p ?u ?w2)"
    using rd(1) pr pull by (simp add: on_skb_def)
  ultimately show ?thesis
    using s(1) t(3) ip by (simp add: ping_def icmp_out_def new_skb_def)
qed

end
