(* ===== verification/Safe_Output.thy ===== *)
theory Safe_Output
  imports World_Step Tcp_Path Icmp_Path Udp_Path
begin

text \<open>
  The sending half of the stack keeps the invariant and meets no fault: transmission, Ethernet,
  ARP, and the output side of IP up to local delivery.  A packet handed over is the callee's
  when the call returns true and the caller's again when it returns false.
\<close>

definition hands_over :: "(fault \<Rightarrow> bool) \<Rightarrow> skb_id \<Rightarrow> world \<Rightarrow> bool step \<Rightarrow> bool" where
  "hands_over F p w r \<longleftrightarrow> runs F (\<lambda>(ok, w'). evolves {p} w w' \<and> (\<not> ok \<longrightarrow> (\<exists>s. flying p s w'))) r"

lemma hands_over_simps [simp]:
  "hands_over F p w (Inr (ok, w')) \<longleftrightarrow> evolves {p} w w' \<and> (\<not> ok \<longrightarrow> (\<exists>s. flying p s w'))"
  "hands_over F p w (Inl e) \<longleftrightarrow> F e"
  by (simp_all add: hands_over_def)

lemma hands_over_weaken: "hands_over F p w r \<Longrightarrow> (\<And>e. F e \<Longrightarrow> G e) \<Longrightarrow> hands_over G p w r"
  unfolding hands_over_def by (erule runs_weaken)

text \<open>A step before the hand-over, and the caller that frees what comes back.\<close>

lemma hands_over_after:
  assumes "evolves {p} w w1" and "hands_over F p w1 r"
  shows "hands_over F p w r"
  using assms(2) evolves_trans [OF assms(1)] unfolding hands_over_def by (auto elim!: runs_weaken)

lemma hands_over_back:
  "wf_world w \<Longrightarrow> flying p s w \<Longrightarrow> hands_over F p w (Inr (False, w))"
  by auto

lemma free_skb_after:
  assumes e: "evolves {p} w w1" and p: "flying p s w1"
  shows "hands_over F p w (bindE (free_skb p w1) (\<lambda>w. Inr (True, w)))"
  unfolding hands_over_def
  by (rule runs_map [OF free_skb_safe [OF evolvesD(1) [OF e] p]]) (simp add: evolves_trans [OF e])

lemma hands_over_free:
  assumes "hands_over F p w r"
  shows "runs F (evolves {p} w) (bindE r (\<lambda>(ok, w). if \<not> ok then free_skb p w else Inr w))"
proof (rule runs_bind [OF assms [unfolded hands_over_def]], clarify)
  fix ok w'
  assume e: "evolves {p} w w'" and f: "\<not> ok \<longrightarrow> (\<exists>s. flying p s w')"
  show "runs F (evolves {p} w) (if \<not> ok then free_skb p w' else Inr w')"
  proof (rule runs_if)
    assume "\<not> ok"
    with f obtain s where s: "flying p s w'" by blast
    show "runs F (evolves {p} w) (free_skb p w')"
      by (rule runs_value [OF free_skb_safe [OF evolvesD(1) [OF e] s]]) (rule evolves_trans [OF e])
  qed (use e in simp)
qed

section \<open>Transmission\<close>

lemma wf_world_topo: "wf_world w \<Longrightarrow> wf_topo w"
  using wf_worldD [of w]
  by (auto simp: wf_topo_def config_ok_def below_def fresh_ok_def slots_map_def ports_map_def ends_map_def)

lemma live_intf:
  assumes "wf_world w" and "w_intfs w i = Some x"
  shows "comm_ops (if_comm x) \<noteq> None" "\<exists>nd. w_nodes w (if_node x) = Some nd" "intf_ok x"
proof -
  have p: "ports_map w i = Some (port_of x)" using assms(2) by (simp add: ports_map_def)
  have s: "ports_ok (slots_map w) (ports_map w) (ends_map w)"
    using wf_world_topo [OF assms(1)] by (simp add: wf_topo_def wf_shape_def)
  from ports_okD(1) [OF s p] show "comm_ops (if_comm x) \<noteq> None"
    by (auto simp: port_comm_def port_of_def split: if_splits)
  from ports_okD(2) [OF s p] show "\<exists>nd. w_nodes w (if_node x) = Some nd"
    by (auto simp: port_of_def slots_map_def)
  show "intf_ok x" using wf_worldD(1) [OF assms(1)] assms(2) by (simp add: config_ok_def)
qed

lemma get_nbr_if_safe:
  assumes "wf_world w" and "w_intfs w i = Some x"
  shows "runs no_fault (\<lambda>r. \<forall>j. r = Some j \<longrightarrow> w_intfs w j \<noteq> None) (get_nbr_if i w)"
proof (cases "if_link x")
  case None
  then show ?thesis using assms(2) by (simp add: get_nbr_if_def get_intf_def)
next
  case (Some l)
  have x: "get_intf i w = Inr x" using assms(2) by (simp add: get_intf_def)
  from wf_neighbour [OF wf_world_topo [OF assms(1)] x Some] show ?thesis by (auto simp: get_intf_def)
qed

lemma send_bytes_out_safe:
  assumes wf: "wf_world w" and x: "w_intfs w i = Some x"
  shows "runs no_fault (\<lambda>(n, w'). \<exists>es. w' = w\<lparr>trace := es\<rparr>) (send_bytes_out os bytes i w)"
proof -
  define w1 where "w1 = (if send_callback w then emit (Ev_send_callback bytes i) w else w)"
  have w1: "\<exists>es. w1 = w\<lparr>trace := es\<rparr>" by (cases "send_callback w") (auto simp: w1_def emit_def intro: exI [of _ "trace w"])
  have g: "w_intfs w1 = w_intfs w" "get_nbr_if j w1 = get_nbr_if j w" for j
    using get_nbr_if_cong [of w1 w] by (simp_all add: w1_def emit_def)
  have tr: "\<exists>es. emit e w1 = w\<lparr>trace := es\<rparr>" for e using w1 by (auto simp: emit_def)
  from live_intf(1) [OF wf x] obtain ops where ops: "comm_ops (if_comm x) = Some ops" by blast
  from get_nbr_if_safe [OF wf x] obtain r where r: "get_nbr_if i w = Inr r" "\<And>j. r = Some j \<Longrightarrow> w_intfs w j \<noteq> None"
    by (auto simp: runs_no_fault)
  have "runs no_fault (\<lambda>(n, w'). \<exists>es. w' = w\<lparr>trace := es\<rparr>) (udp_send_bytes os i bytes w1)"
  proof (cases r)
    case None
    then show ?thesis using x r w1 by (simp add: udp_send_bytes_def g get_intf_def)
  next
    case (Some j)
    with r(2) obtain y where "w_intfs w j = Some y" by blast
    then show ?thesis using x r(1) Some w1 tr by (simp add: udp_send_bytes_def g get_intf_def Let_def)
  qed
  moreover have "runs no_fault (\<lambda>(n, w'). \<exists>es. w' = w\<lparr>trace := es\<rparr>) (tuntap_send_bytes os i bytes w1)"
    using x tr by (simp add: tuntap_send_bytes_def g get_intf_def Let_def)
  ultimately show ?thesis
    using x ops unfolding send_bytes_out_def Let_def w1_def [symmetric] by (cases ops) (simp_all add: get_intf_def g)
qed

lemma send_and_free_safe:
  assumes wf: "wf_world w" and p: "flying p s w" and x: "w_intfs w i = Some x"
  shows "hands_over F p w (bindE (send_bytes_out os bytes i w) (\<lambda>(result, w).
    if result \<ge> 0 then bindE (free_skb p w) (\<lambda>w. Inr (True, w)) else Inr (False, w)))"
  unfolding hands_over_def
proof (rule runs_bind_value [OF send_bytes_out_safe [OF wf x]], clarify)
  fix n es
  let ?w = "w\<lparr>trace := es\<rparr>"
  have e: "evolves {p} w ?w" using evolves_weaken [OF evolves_trace [OF wf]] .
  have p': "flying p s ?w" using p by (simp add: flying_def)
  show "runs F (\<lambda>(ok, w'). evolves {p} w w' \<and> (\<not> ok \<longrightarrow> (\<exists>s. flying p s w')))
    (if 0 \<le> n then bindE (free_skb p ?w) (\<lambda>w. Inr (True, w)) else Inr (False, ?w))"
    using free_skb_after [OF e p', of F] e p' by (auto simp: hands_over_def)
qed

text \<open>The sockets an interface lists are bound to it, and a bound socket has an interface.\<close>

lemma listed_sockets:
  assumes wf: "wf_world w" and x: "w_intfs w i = Some x"
  shows "u \<in> set (udp_socks_manager x) \<Longrightarrow> \<exists>sk. w_udp_socks w u = Some sk \<and> us_bound sk \<and> us_intf sk = Some i"
    and "t \<in> set (tcp_socks_manager x) \<Longrightarrow> \<exists>sk. w_tcp_socks w t = Some sk \<and> ts_bound sk \<and> ts_intf sk = Some i"
proof -
  have r: "udp_registry w" "tcp_registry w" using wf_worldD(1) [OF wf] by (simp_all add: config_ok_def)
  show "u \<in> set (udp_socks_manager x) \<Longrightarrow> \<exists>sk. w_udp_socks w u = Some sk \<and> us_bound sk \<and> us_intf sk = Some i"
    using registry_okD(2) [OF r(1) [unfolded udp_registry_def], of i "udp_socks_manager x" u] x
    by (auto simp: udp_place_def split: if_splits)
  show "t \<in> set (tcp_socks_manager x) \<Longrightarrow> \<exists>sk. w_tcp_socks w t = Some sk \<and> ts_bound sk \<and> ts_intf sk = Some i"
    using registry_okD(2) [OF r(2) [unfolded tcp_registry_def], of i "tcp_socks_manager x" t] x
    by (auto simp: tcp_place_def split: if_splits)
qed

lemma bound_sockets:
  assumes wf: "wf_world w"
  shows "w_udp_socks w u = Some us \<Longrightarrow> us_bound us \<Longrightarrow>
      \<exists>i x. us_intf us = Some i \<and> w_intfs w i = Some x \<and> u \<in> set (udp_socks_manager x)"
    and "w_tcp_socks w t = Some ts \<Longrightarrow> ts_bound ts \<Longrightarrow>
      \<exists>i x. ts_intf ts = Some i \<and> w_intfs w i = Some x \<and> t \<in> set (tcp_socks_manager x)"
proof -
  have c: "udp_registry w" "tcp_registry w" "\<And>u sk. w_udp_socks w u = Some sk \<Longrightarrow> udp_sock_ok w sk"
    "\<And>t sk. w_tcp_socks w t = Some sk \<Longrightarrow> tcp_sock_ok w sk"
    using wf_worldD(1) [OF wf] by (simp_all add: config_ok_def)
  show "\<exists>i x. us_intf us = Some i \<and> w_intfs w i = Some x \<and> u \<in> set (udp_socks_manager x)"
    if us: "w_udp_socks w u = Some us" "us_bound us"
  proof -
    from c(3) [OF us(1)] us(2) obtain i where i: "us_intf us = Some i" by (auto simp: udp_sock_ok_def)
    from registry_okD(3) [OF c(1) [unfolded udp_registry_def], of u i] us i show ?thesis by (auto simp: udp_place_def)
  qed
  show "\<exists>i x. ts_intf ts = Some i \<and> w_intfs w i = Some x \<and> t \<in> set (tcp_socks_manager x)"
    if ts: "w_tcp_socks w t = Some ts" "ts_bound ts"
  proof -
    from c(4) [OF ts(1)] ts(2) obtain i where i: "ts_intf ts = Some i" by (auto simp: tcp_sock_ok_def)
    from registry_okD(3) [OF c(2) [unfolded tcp_registry_def], of t i] ts i show ?thesis by (auto simp: tcp_place_def)
  qed
qed

section \<open>Ethernet\<close>

lemma ethernet_output_safe:
  assumes wf: "wf_world w" and p: "flying p s w" and room: "frame_room s" and x: "w_intfs w i = Some x"
    and mac: "length mac = 6"
  shows "hands_over F p w (ethernet_output os i mac proto p w)"
proof -
  have g: "get_intf i w = Inr x" using x by (simp add: get_intf_def)
  have l: "length (if_mac x) = 6" using live_intf(3) [OF wf x] by (simp add: intf_ok_def)
  from ethernet_output_frame [OF flying_get [OF p] room g mac l] obtain s' where
    e: "ethernet_output os i mac proto p w =
      bindE (send_bytes_out os (frame_of x mac proto s) i (put_skb p s' w)) (\<lambda>(result, w).
        if result \<ge> 0 then bindE (free_skb p w) (\<lambda>w. Inr (True, w)) else Inr (False, w))" by blast
  note put = evolves_put_skb [OF wf p, of s']
  have "w_intfs (put_skb p s' w) i = Some x" using x by (simp add: put_skb_def)
  from hands_over_after [OF put(1) send_and_free_safe [OF evolvesD(1) [OF put(1)] put(2) this]]
  show ?thesis unfolding e .
qed

section \<open>ARP\<close>

text \<open>A message of the node's own: allocated, sent, and lost to nobody.\<close>

lemma send_arp_safe:
  assumes wf: "wf_world w" and x: "w_intfs w i = Some x" and mac: "length mac = 6" "length tmac = 6"
  shows "runs no_fault (\<lambda>s. \<exists>p w1. new_skb s w = (p, w1) \<and> evolves {} w w1 \<and> w_skbs w p = None \<and>
      (\<forall>F. hands_over F p w1 (ethernet_output os i mac ETH_PROTO_ARP p w1))) (arp_skb (arp_message op x tmac tip))"
proof -
  have "length (if_mac x) = 6" using live_intf(3) [OF wf x] by (simp add: intf_ok_def)
  from arp_skb_ok [OF valid_arp_message [OF this mac(2)], of op tip x mac] obtain s where
    s: "arp_skb (arp_message op x tmac tip) = Inr s" "frame_room s" by blast
  obtain p w1 where n: "new_skb s w = (p, w1)" by fastforce
  note new = new_skb_safe [OF wf n]
  have "w_intfs w1 i = Some x" using x evolvesD(4) [OF new(1)] by simp
  from ethernet_output_safe [OF evolvesD(1) [OF new(1)] new(2) s(2) this mac(1)] s(1) n new show ?thesis by simp
qed

lemma send_arp_broadcast_request_safe:
  assumes wf: "wf_world w" and x: "w_intfs w i = Some x"
  shows "runs no_fault (evolves {} w) (send_arp_broadcast_request os i ip w)"
proof -
  have macs: "length layer2_fill_with_broadcast_mac = 6" "length (replicate MAC_ADDR_SIZE (0 :: u8)) = 6"
    by (simp_all add: layer2_fill_with_broadcast_mac_def MAC_ADDR_SIZE_def)
  have "runs no_fault (evolves {} w)
    (bindE (arp_skb (arp_message ARP_OP_REQUEST x (replicate MAC_ADDR_SIZE 0) ip)) (\<lambda>s.
      let (p, w) = new_skb s w
      in bindE (ethernet_output os i layer2_fill_with_broadcast_mac ETH_PROTO_ARP p w) (\<lambda>(ok, w).
           if \<not> ok then free_skb p w else Inr w)))"
  proof (rule runs_bind [OF send_arp_safe [OF wf x macs, of os]], clarsimp)
    fix s p w1
    assume e: "evolves {} w w1" and none: "w_skbs w p = None"
      and h: "\<forall>F. hands_over F p w1 (ethernet_output os i layer2_fill_with_broadcast_mac ETH_PROTO_ARP p w1)"
    show "runs no_fault (evolves {} w)
      (bindE (ethernet_output os i layer2_fill_with_broadcast_mac ETH_PROTO_ARP p w1) (\<lambda>(ok, w).
         if \<not> ok then free_skb p w else Inr w))"
    proof (rule runs_post [OF hands_over_free [OF spec [OF h]]])
      fix w2
      assume "evolves {p} w1 w2"
      from evolves_trans [OF evolves_weaken [OF e] this] show "evolves {} w w2"
        by (rule evolves_fresh) (simp add: none)
    qed
  qed
  then show ?thesis using x by (simp add: send_arp_broadcast_request_def get_intf_def)
qed

lemma send_arp_reply_msg_safe:
  assumes wf: "wf_world w" and x: "w_intfs w i = Some x" and mac: "length (sender_hw_addr h) = 6"
  shows "runs no_fault (evolves {} w) (send_arp_reply_msg os i h w)"
proof -
  have "runs no_fault (evolves {} w)
    (bindE (arp_skb (arp_message ARP_OP_REPLY x (sender_hw_addr h) (sender_proto_addr h))) (\<lambda>s.
      let (p, w) = new_skb s w
      in bindE (ethernet_output os i (sender_hw_addr h) ETH_PROTO_ARP p w) (\<lambda>(ok, w). Inr w)))"
  proof (rule runs_bind [OF send_arp_safe [OF wf x mac mac, of os]], clarsimp)
    fix s p w1
    assume e: "evolves {} w w1" and none: "w_skbs w p = None"
      and h: "\<forall>F. hands_over F p w1 (ethernet_output os i (sender_hw_addr h) ETH_PROTO_ARP p w1)"
    show "runs no_fault (evolves {} w)
      (bindE (ethernet_output os i (sender_hw_addr h) ETH_PROTO_ARP p w1) (\<lambda>(ok, w). Inr w))"
    proof (rule runs_bind [OF spec [OF h, unfolded hands_over_def]], clarsimp)
      fix w2
      assume "evolves {p} w1 w2"
      from evolves_trans [OF evolves_weaken [OF e] this] show "evolves {} w w2"
        by (rule evolves_fresh) (simp add: none)
    qed
  qed
  then show ?thesis using x by (simp add: send_arp_reply_msg_def get_intf_def)
qed

text \<open>The packets of an entry leave one by one; each is unlinked before it is sent or freed.\<close>

lemma send_bytes_nodes:
  "udp_send_bytes os i bytes w = Inr (n, w') \<Longrightarrow> w_nodes w' = w_nodes w"
  "tuntap_send_bytes os i bytes w = Inr (n, w') \<Longrightarrow> w_nodes w' = w_nodes w"
  by (auto simp: udp_send_bytes_def tuntap_send_bytes_def emit_def Let_def res_simps split: option.splits if_splits)

lemma send_bytes_out_nodes:
  assumes "send_bytes_out os bytes i w = Inr (n, w')"
  shows "w_nodes w' = w_nodes w"
proof -
  let ?w = "if send_callback w then emit (Ev_send_callback bytes i) w else w"
  have "w_nodes ?w = w_nodes w" by (simp add: emit_def)
  moreover from assms obtain x :: intf where
    "(case comm_ops (if_comm x) of None \<Rightarrow> Inl Null_deref | Some Udp_comm_ops \<Rightarrow> udp_send_bytes os i bytes ?w
      | Some Tuntap_comm_ops \<Rightarrow> tuntap_send_bytes os i bytes ?w) = Inr (n, w')"
    unfolding send_bytes_out_def Let_def bindE_Inr_iff by - (elim exE conjE, rule that)
  ultimately show ?thesis
    using send_bytes_nodes [of os i bytes ?w n w']
    by (cases "comm_ops (if_comm x)") (auto split: comm_ops.splits)
qed

lemma ethernet_output_nodes: "ethernet_output os i mac proto p w = Inr (ok, w') \<Longrightarrow> w_nodes w' = w_nodes w"
  by (auto simp: ethernet_output_def send_pkt_out_def free_skb_def put_skb_def res_simps
      split: if_splits dest: send_bytes_out_nodes)

lemma send_pending_nodes:
  "bindE (ethernet_output os i mac proto p w) (\<lambda>(ok, w). if \<not> ok then free_skb p w else Inr w) = Inr w' \<Longrightarrow>
   w_nodes w' = w_nodes w"
  by (auto simp: res_simps free_skb_def split: if_splits dest: ethernet_output_nodes)

lemma flush_pending_safe:
  assumes "wf_world w" and "w_nodes w n \<noteq> None" and "distinct ps" and "set ps \<subseteq> set (queue (Arp_queue n ip) w)"
    and mac: "length mac = 6"
  shows "runs no_fault (evolves {} w) (flush_pending os n ip mac ps w)"
  using assms(1-4)
proof (induction ps arbitrary: w)
  case (Cons p ps)
  from Cons.prems(2) obtain nd where nd: "w_nodes w n = Some nd" by blast
  have p: "p \<in> set (queue (Arp_queue n ip) w)" using Cons.prems(4) by simp
  show ?case
    unfolding flush_pending.simps
  proof (rule runs_bind [OF arp_pop_safe [OF Cons.prems(1) nd p]], clarify)
    fix w1 s i y
    assume e1: "evolves {} w w1" and q: "queue (Arp_queue n ip) w1 = remove1 p (queue (Arp_queue n ip) w)"
      and s: "flying p s w1" "frame_room s" "skb_intf s = Some i" and y: "w_intfs w1 i = Some y"
    note wf1 = evolvesD(1) [OF e1]
    let ?send = "bindE (ethernet_output os i mac ETH_PROTO_IP p w1) (\<lambda>(ok, w). if \<not> ok then free_skb p w else Inr w)"
    have "runs no_fault (evolves {} w) (bindE ?send (flush_pending os n ip mac ps))"
    proof (rule runs_bind_eq [OF hands_over_free [OF ethernet_output_safe [OF wf1 s(1,2) y mac]]])
      fix w2
      assume r: "?send = Inr w2" and e2: "evolves {p} w1 w2"
      have "w_nodes w2 n \<noteq> None" and "queue (Arp_queue n ip) w2 = queue (Arp_queue n ip) w1"
        using send_pending_nodes [OF r] Cons.prems(2) same_config_live(1) [OF evolvesD(2) [OF e1]]
        by (simp_all add: queue.simps)
      moreover have "set ps \<subseteq> set (remove1 p (queue (Arp_queue n ip) w))"
        using Cons.prems(3,4) queues_okD(1) [OF wf_worldD(4) [OF Cons.prems(1)], of "Arp_queue n ip"]
        by (auto simp: set_remove1_eq)
      ultimately have rest: "runs no_fault (evolves {} w2) (flush_pending os n ip mac ps w2)"
        using Cons.IH [OF evolvesD(1) [OF e2]] Cons.prems(3) q by simp
      have e02: "evolves {} w w2" by (rule evolves_queued [OF evolves_trans [OF evolves_weaken [OF e1] e2] p])
      show "runs no_fault (evolves {} w) (flush_pending os n ip mac ps w2)"
        by (rule runs_post [OF rest]) (rule evolves_trans [OF e02])
    qed
    then show "runs no_fault (evolves {} w)
       (bindE (get_skb p w1) (\<lambda>s.
        bindE (of_option Null_deref (skb_intf s)) (\<lambda>i.
        bindE (ethernet_output os i mac ETH_PROTO_IP p w1) (\<lambda>(result, w).
        bindE (if \<not> result then free_skb p w else Inr w) (flush_pending os n ip mac ps)))))"
      using flying_get [OF s(1)] s(3) by (simp add: bindE_assoc split_def)
  qed
qed simp

text \<open>Received messages: the packet is freed once it is answered or used.\<close>

lemma process_arp_broadcast_request_safe:
  assumes wf: "wf_world w" and x: "w_intfs w i = Some x" and mac: "length (sender_hw_addr h) = 6"
  shows "runs no_fault (\<lambda>(ok, w'). evolves {} w w') (process_arp_broadcast_request os i h w)"
  using x wf by (auto simp: process_arp_broadcast_request_def get_intf_def
      intro!: runs_map [OF send_arp_reply_msg_safe [OF wf x mac]])

lemma arp_table_update_safe:
  assumes wf: "wf_world w" and nd: "w_nodes w n = Some nd" and mac: "length (sender_hw_addr h) = 6"
  shows "runs no_fault (evolves {} w) (arp_table_update_from_arp_reply os n h w)"
proof (cases "arp_table_lookup (arp_table nd) (sender_proto_addr h)")
  case None
  then show ?thesis using wf nd by (simp add: arp_table_update_from_arp_reply_def get_node_def)
next
  case (Some e)
  let ?ip = "sender_proto_addr h" and ?mac = "sender_hw_addr h"
  have q: "queue (Arp_queue n ?ip) w = arp_pending_pkts e" using nd Some by (simp add: queue.simps)
  have "runs no_fault (evolves {} w)
    (bindE (set_arp_entry n ?ip (\<lambda>e. e\<lparr>arp_resolved := True, arp_mac := ?mac\<rparr>) w)
      (flush_pending os n ?ip ?mac (arp_pending_pkts e)))"
  proof (rule runs_bind [OF arp_resolve_safe [OF wf nd mac Some]], clarify)
    fix w1
    assume e1: "evolves {} w w1" and q1: "\<forall>q. queue q w1 = queue q w"
    have "w_nodes w1 n \<noteq> None" using same_config_live(1) [OF evolvesD(2) [OF e1]] nd by simp
    moreover have "distinct (arp_pending_pkts e)" using queues_okD(1) [OF wf_worldD(4) [OF wf]] q by metis
    ultimately have "runs no_fault (evolves {} w1) (flush_pending os n ?ip ?mac (arp_pending_pkts e) w1)"
      using flush_pending_safe [OF evolvesD(1) [OF e1] _ _ _ mac] q q1 by simp
    then show "runs no_fault (evolves {} w) (flush_pending os n ?ip ?mac (arp_pending_pkts e) w1)"
      by (rule runs_post) (rule evolves_trans [OF e1])
  qed
  then show ?thesis using nd Some by (simp add: arp_table_update_from_arp_reply_def get_node_def)
qed

lemma process_arp_reply_msg_safe:
  assumes wf: "wf_world w" and x: "w_intfs w i = Some x" and mac: "length (sender_hw_addr h) = 6"
  shows "runs no_fault (\<lambda>(ok, w'). evolves {} w w') (process_arp_reply_msg os i h w)"
proof -
  from live_intf(2) [OF wf x] obtain nd where nd: "w_nodes w (if_node x) = Some nd" by blast
  show ?thesis
    using x by (auto simp: process_arp_reply_msg_def get_intf_def intro!: runs_map [OF arp_table_update_safe [OF wf nd mac]])
qed

lemma arp_input_safe:
  assumes wf: "wf_world w" and p: "flying p s w" and s: "wf_skb s" and i: "skb_intf s = Some i" and x: "w_intfs w i = Some x"
  shows "hands_over F p w (arp_input os p w)"
proof (cases "skb_len s < ARP_HDR_SIZE")
  case True
  then show ?thesis using wf p by (auto simp: arp_input_def flying_get)
next
  case False
  then have "data_off s + ARP_HDR_SIZE \<le> length (buf s)" using s by (auto simp: wf_skb_def)
  from arp.rd_ok [OF this] obtain h where h: "rd_hdr ARP_HDR_SIZE dec_arp (data_off s) s = Inr h" by blast
  have mac: "length (sender_hw_addr h) = 6" using arp.rd_valid [OF h] by (simp add: valid_arp_def)
  have "hands_over F p w (bindE
    (if opcode h = HTONS ARP_OP_REQUEST then process_arp_broadcast_request os i h w
     else if opcode h = HTONS ARP_OP_REPLY then process_arp_reply_msg os i h w else Inr (False, w))
    (\<lambda>(ok, w). if ok then bindE (free_skb p w) (\<lambda>w. Inr (True, w)) else Inr (False, w)))"
    unfolding hands_over_def
  proof (rule runs_bind_value)
    show "runs no_fault (\<lambda>(ok, w'). evolves {} w w')
      (if opcode h = HTONS ARP_OP_REQUEST then process_arp_broadcast_request os i h w
       else if opcode h = HTONS ARP_OP_REPLY then process_arp_reply_msg os i h w else Inr (False, w))"
      using process_arp_broadcast_request_safe [OF wf x mac] process_arp_reply_msg_safe [OF wf x mac] wf by simp
  next
    fix r :: "bool \<times> world"
    assume "case r of (ok, w') \<Rightarrow> evolves {} w w'"
    then obtain ok w1 where r: "r = (ok, w1)" and e: "evolves {} w w1" by (cases r) simp
    have p1: "flying p s w1" using evolvesD(5) [OF e _ p] by simp
    show "runs F (\<lambda>(ok, w'). evolves {p} w w' \<and> (\<not> ok \<longrightarrow> (\<exists>s. flying p s w')))
      (case r of (ok, w) \<Rightarrow> if ok then bindE (free_skb p w) (\<lambda>w. Inr (True, w)) else Inr (False, w))"
      using free_skb_after [OF evolves_weaken [OF e] p1, of F] evolves_weaken [OF e] p1
      by (auto simp: r hands_over_def)
  qed
  then show ?thesis using False flying_get [OF p] h i by (simp add: arp_input_def split: if_splits)
qed

section \<open>IP output\<close>

lemma ip_finish_safe:
  assumes wf: "wf_world w" and p: "flying p s w" and room: "frame_room s" and i: "skb_intf s = Some i"
    and x: "w_intfs w i = Some x" and nd: "w_nodes w n = Some nd"
  shows "hands_over F p w (ip_finish os n i target p w)"
proof -
  have wait: "hands_over F p v
      (bindE (set_arp_entry n target (\<lambda>e. e\<lparr>arp_pending_pkts := p # arp_pending_pkts e\<rparr>) v) (\<lambda>w.
        bindE (send_arp_broadcast_request os i target w) (\<lambda>w. Inr (True, w))))"
    if v: "evolves {} w v" "w_nodes v n = Some nd'" "arp_table_lookup (arp_table nd') target = Some e" for v nd' e
  proof -
    have x': "w_intfs v i = Some x" and p': "flying p s v" using x evolvesD(4,5) [OF v(1)] p by simp_all
    show ?thesis
      unfolding hands_over_def
    proof (rule runs_bind_value [OF arp_push_safe [OF evolvesD(1) [OF v(1)] v(2,3) p' room i]])
      show "w_intfs v i \<noteq> None" using x' by simp
      fix w1
      assume e1: "evolves {p} v w1"
      have "w_intfs w1 i = Some x" using x' evolvesD(4) [OF e1] by simp
      from send_arp_broadcast_request_safe [OF evolvesD(1) [OF e1] this]
      show "runs F (\<lambda>(ok, w'). evolves {p} v w' \<and> (\<not> ok \<longrightarrow> (\<exists>s. flying p s w')))
        (bindE (send_arp_broadcast_request os i target w1) (\<lambda>w. Inr (True, w)))"
        by (rule runs_bind_value) (use evolves_trans [OF e1] evolves_weaken in auto)
    qed
  qed
  show ?thesis
  proof (cases "arp_table_lookup (arp_table nd) target")
    case None
    let ?nd = "nd\<lparr>arp_table := snd (arp_table_entry_add (arp_table nd) (init_arp_entry target i))\<rparr>"
    note add = arp_add_safe [OF wf nd None, of i]
    have "w_nodes (put_node n ?nd w) n = Some ?nd"
      "arp_table_lookup (arp_table ?nd) target = Some (init_arp_entry target i)"
      by (simp_all add: put_node_def init_arp_entry_def)
    from hands_over_after [OF evolves_weaken [OF add] wait [OF add this]] show ?thesis
      using nd None by (simp add: ip_finish_def get_node_def Let_def init_arp_entry_def)
  next
    case (Some e)
    have "length (arp_mac e) = 6" using arp_lookup_Some_ip [OF Some] arp_mac_length [OF wf nd] by blast
    from ethernet_output_safe [OF wf p room x this] wait [OF _ nd Some] wf show ?thesis
      using nd Some by (simp add: ip_finish_def get_node_def)
  qed
qed

text \<open>What routing relies on: room for a frame, for the longest header, and for the header it came with.\<close>

definition ip_room :: "skb \<Rightarrow> bool" where
  "ip_room s \<longleftrightarrow> frame_room s \<and> data_off s + 60 \<le> length (buf s) \<and>
    (case ip_hdr_off s of None \<Rightarrow> True | Some k \<Rightarrow> k + IP_HDR_SIZE \<le> length (buf s) \<and> length (buf s) \<le> 2048)"

definition icmp_at :: "skb \<Rightarrow> icmp_hdr res" where
  "icmp_at s = rd_hdr ICMP_HDR_SIZE dec_icmp (data_off s + IP_HDR_SIZE) s"

definition ip_at :: "skb \<Rightarrow> ip_hdr res" where
  "ip_at s = rd_hdr IP_HDR_SIZE dec_ip (data_off s) s"

text \<open>A packet whose IP header was rewritten in place: the same protocol, and the bytes behind it.\<close>

definition rerouted :: "skb \<Rightarrow> skb \<Rightarrow> bool" where
  "rerouted s t \<longleftrightarrow> same_place s t \<and> wf_skb t \<and> skb_len t = skb_len s \<and> icmp_at t = icmp_at s \<and>
    (\<exists>h h'. ip_at s = Inr h \<and> ip_at t = Inr h' \<and> ip_proto h' = ip_proto h)"

lemma rerouted_trans: "rerouted s t \<Longrightarrow> rerouted t u \<Longrightarrow> rerouted s u"
  by (auto simp: rerouted_def same_place_def)

lemma rerouted_room: "rerouted s t \<Longrightarrow> ip_room s \<Longrightarrow> ip_room t"
  using same_place_room [of s t] by (auto simp: ip_room_def rerouted_def same_place_def split: option.splits)

lemma rewrite_header:
  assumes room: "ip_room s" and h: "ip_at s = Inr h" and pr: "ip_proto h' = ip_proto h"
  shows "\<exists>t. wr_hdr enc_ip (data_off s) h' (s\<lparr>skb_intf := j\<rparr>) = Inr t \<and> rerouted s t \<and> skb_intf t = j \<and>
    ip_at t = Inr h'"
proof -
  let ?t = "s\<lparr>skb_intf := j, buf := write_at (data_off s) (enc_ip h') (buf s)\<rparr>"
  have b: "data_off s + IP_HDR_SIZE \<le> length (buf s)" "data_off s + 24 \<le> length (buf s)" and wf: "wf_skb s"
    using room by (auto simp: ip_room_def frame_room_def IP_HDR_SIZE_def)
  have len: "length (enc_ip h') = 20" using ip.length_enc [of h'] by (simp add: IP_HDR_SIZE_def)
  have wr: "wr_hdr enc_ip (data_off s) h' (s\<lparr>skb_intf := j\<rparr>) = Inr ?t"
    using ip.wr_ok [where h = h' and off = "data_off s" and s = "s\<lparr>skb_intf := j\<rparr>"] b by simp
  have hd: "ip_at ?t = Inr h'" using ip.rd_wr [OF _ wr] by (simp add: ip_at_def)
  have "length (buf ?t) = length (buf s)" using b len by simp
  moreover have "icmp_at ?t = icmp_at s"
    using b len slice_write_disjoint [of "data_off s" "enc_ip h'" "buf s" "data_off s + 20" 4]
    by (simp add: icmp_at_def rd_hdr_def rd_bytes_def ICMP_HDR_SIZE_def IP_HDR_SIZE_def)
  moreover have "wf_skb ?t" using wf b len by (simp add: wf_skb_def)
  ultimately have "rerouted s ?t" using hd h pr by (simp add: rerouted_def same_place_def)
  with wr hd show ?thesis by auto
qed

lemma fill_header:
  assumes room: "ip_room s" and h: "ip_at s = Inr h"
  shows "\<exists>t. fill_ip_hcksum (data_off s) s = Inr t \<and> rerouted s t \<and> skb_intf t = skb_intf s"
proof -
  have "unat (ip_hlen h) < 16" using unsigned_less [of "ip_hlen h", where ?'a = nat] by simp
  then have b: "data_off s + unat (ip_hlen h) * 4 \<le> length (buf s)" using room by (simp add: ip_room_def)
  then obtain c where c: "calc_ip_hcksum (data_off s) s = Inr c"
    using h by (simp add: calc_ip_hcksum_def ip_at_def rd_bytes_def)
  from rewrite_header [OF room h, of "h\<lparr>ip_hcksum := HTONS c\<rparr>" "skb_intf s"] obtain t where
    "wr_hdr enc_ip (data_off s) (h\<lparr>ip_hcksum := HTONS c\<rparr>) s = Inr t" "rerouted s t" "skb_intf t = skb_intf s" by auto
  with c h show ?thesis by (auto simp: fill_ip_hcksum_def ip_at_def)
qed

lemma find_node_intf_total:
  assumes wf: "wf_world w" and nd: "w_nodes w n = Some nd"
  shows "\<exists>r. find_node_intf (\<lambda>x. Inr (test x)) n w = Inr r \<and> (\<forall>i. r = Some i \<longrightarrow> w_intfs w i \<noteq> None)"
proof -
  have s: "slots_ok (slots_map w) (ports_map w)" using wf_world_topo [OF wf] by (simp add: wf_topo_def wf_shape_def)
  have "\<exists>x. get_intf i w = Inr x" if "Some i \<in> set (node_intfs nd)" for i
    using slots_okD(2) [OF s, of n "node_intfs nd" i] that nd
    by (auto simp: slots_map_def ports_map_def get_intf_def)
  from find_slot_total [OF this, of "node_intfs nd" test] obtain r
    where r: "find_slot (\<lambda>x. Inr (test x)) (node_intfs nd) w = Inr r" by blast
  moreover have "w_intfs w i \<noteq> None" if "r = Some i" for i
    using find_slot_Some [of "\<lambda>x. Inr (test x)" "node_intfs nd" w i] r that by (auto simp: get_intf_def split: option.splits)
  ultimately show ?thesis using nd by (auto simp: find_node_intf_def get_node_def)
qed

lemma is_ip_local_total:
  assumes "wf_world w" and "w_nodes w n = Some nd"
  shows "\<exists>b. is_ip_local n ip w = Inr b"
  using find_node_intf_total [OF assms, of "\<lambda>x. if_ip x = ip"] by (auto simp: is_ip_local_def)

lemma get_matching_interface_total:
  assumes "wf_world w" and "w_nodes w n \<noteq> None"
  shows "\<exists>r. get_matching_interface n ip w = Inr r \<and> (\<forall>i. r = Some i \<longrightarrow> w_intfs w i \<noteq> None)"
  using find_node_intf_total [OF assms(1), of n _ "\<lambda>x. is_ip_addr_config x \<and> ip = if_ip x"] assms(2)
  by (auto simp: get_matching_interface_def)

lemma node_route:
  assumes wf: "wf_world w" and nd: "w_nodes w n = Some nd"
  shows "\<exists>r. rt_lookup_lpm (rt_table nd) ip = Inr r \<and> (\<forall>e. r = Some e \<longrightarrow> w_intfs w (rt_intf e) \<noteq> None)"
proof -
  have ok: "node_ok w nd" using wf_worldD(1) [OF wf] nd by (simp add: config_ok_def)
  then obtain r where r: "rt_lookup_lpm (rt_table nd) ip = Inr r" using rt_lookup_lpm_eq [of "rt_table nd" ip] by (simp add: node_ok_def)
  have "w_intfs w (rt_intf e) \<noteq> None" if "r = Some e" for e
    using ok rt_lookup_lpm_mem [of "rt_table nd" ip e] r that by (auto simp: node_ok_def)
  with r show ?thesis by blast
qed

lemma ip_postroute_safe:
  assumes wf: "wf_world w" and p: "flying p s w" and room: "ip_room s" and h: "ip_at s = Inr h"
    and nd: "w_nodes w n = Some nd"
    and D: "\<And>t j. is_ip_local n (dst_ip h) w = Inr True \<Longrightarrow> rerouted s t \<Longrightarrow> skb_intf t = Some j \<Longrightarrow> w_intfs w j \<noteq> None \<Longrightarrow>
      flying p t (put_skb p t w) \<Longrightarrow> wf_world (put_skb p t w) \<Longrightarrow>
      hands_over F p (put_skb p t w) (deliver p (put_skb p t w))"
  shows "hands_over F p w (ip_postroute os deliver n p w)"
proof -
  from node_route [OF wf nd, of "dst_ip h"] obtain r where
    r: "rt_lookup_lpm (rt_table nd) (dst_ip h) = Inr r" "\<And>e. r = Some e \<Longrightarrow> w_intfs w (rt_intf e) \<noteq> None" by blast
  have start: "get_skb p w = Inr s" "rd_hdr IP_HDR_SIZE dec_ip (data_off s) s = Inr h" "get_node n w = Inr nd"
    using flying_get [OF p] h nd by (simp_all add: ip_at_def get_node_def)
  have refused: "hands_over F p w (Inr (False, w))" using wf p by auto
  show ?thesis
  proof (cases r)
    case None
    with start r(1) refused show ?thesis by (simp add: ip_postroute_def)
  next
    case (Some e)
    with r(2) obtain x where x: "w_intfs w (rt_intf e) = Some x" by blast
    from rewrite_header [OF room h, of "h\<lparr>src_ip := if_ip x\<rparr>" "Some (rt_intf e)"] obtain t1 where
      t1: "wr_hdr enc_ip (data_off s) (h\<lparr>src_ip := if_ip x\<rparr>) (s\<lparr>skb_intf := Some (rt_intf e)\<rparr>) = Inr t1"
        "rerouted s t1" "skb_intf t1 = Some (rt_intf e)" "ip_at t1 = Inr (h\<lparr>src_ip := if_ip x\<rparr>)" by auto
    from fill_header [OF rerouted_room [OF t1(2) room] t1(4)] obtain t where
      t: "fill_ip_hcksum (data_off t1) t1 = Inr t" "rerouted t1 t" "skb_intf t = Some (rt_intf e)" using t1(3) by auto
    have st: "rerouted s t" by (rule rerouted_trans [OF t1(2) t(2)])
    have d: "data_off t1 = data_off s" using t1(2) by (simp add: rerouted_def same_place_def)
    note put = evolves_put_skb [OF wf p, of t]
    let ?w = "put_skb p t w"
    from is_ip_local_total [OF wf nd] obtain local where local: "is_ip_local n (dst_ip h) w = Inr local" by blast
    then have local': "is_ip_local n (dst_ip h) ?w = Inr local" using evolves_local [OF put(1)] by simp
    have u: "w_intfs ?w = w_intfs w" "w_nodes ?w = w_nodes w" by (simp_all add: put_skb_def)
    have "hands_over F p ?w
      (if local then deliver p ?w else ip_finish os n (rt_intf e) (arp_target e (dst_ip h)) p ?w)"
    proof (cases local)
      case True
      with local D [OF _ st t(3) _ put(2) evolvesD(1) [OF put(1)]] x show ?thesis by simp
    next
      case False
      have "frame_room t" using rerouted_room [OF st room] by (simp add: ip_room_def)
      from ip_finish_safe [OF evolvesD(1) [OF put(1)] put(2) this t(3), of x n nd F os "arp_target e (dst_ip h)"] False x nd
      show ?thesis by (simp add: u)
    qed
    from hands_over_after [OF put(1) this] show ?thesis
      using start r(1) Some refused x t1(1) t(1) local' by (simp add: ip_postroute_def get_intf_def d Let_def)
  qed
qed

text \<open>Sending: the buffer of a message the node built, with room for the headers in front.\<close>

definition out_room :: "nat \<Rightarrow> skb \<Rightarrow> bool" where
  "out_room n s \<longleftrightarrow> wf_skb s \<and> data_off s = 60 \<and> skb_tailroom s = 46 \<and> ip_hdr_off s = None \<and> n \<le> skb_len s"

lemma ip_output_safe:
  assumes wf: "wf_world w" and p: "flying p s w" and room: "out_room m s" and nd: "w_nodes w n = Some nd"
    and D: "\<And>t j h. is_ip_local n ip w = Inr True \<Longrightarrow> ip_room t \<Longrightarrow> skb_intf t = Some j \<Longrightarrow> w_intfs w j \<noteq> None \<Longrightarrow>
      ip_at t = Inr h \<Longrightarrow> ip_proto h = prot \<Longrightarrow> skb_len t = skb_len s + 20 \<Longrightarrow> ip_hdr_off t = None \<Longrightarrow>
      icmp_at t = rd_hdr ICMP_HDR_SIZE dec_icmp (data_off s) s \<Longrightarrow>
      flying p t (put_skb p t w) \<Longrightarrow> wf_world (put_skb p t w) \<Longrightarrow>
      hands_over F p (put_skb p t w) (deliver p (put_skb p t w))"
  shows "hands_over F p w (ip_output os deliver n ip prot p w)"
proof -
  have wf_s: "wf_skb s" and d: "data_off s = 60" and tr: "skb_tailroom s = 46" and none: "ip_hdr_off s = None"
    using room by (simp_all add: out_room_def)
  define s1 where "s1 = s\<lparr>data_off := 40, skb_len := skb_len s + 20\<rparr>"
  have s1: "skb_push IP_HDR_SIZE s = Inr s1" using skb_push_ok [of IP_HDR_SIZE s] wf_s d by (simp add: s1_def IP_HDR_SIZE_def)
  have wf1: "wf_skb s1" by (rule wf_skb_push [OF wf_s s1])
  have b: "60 \<le> tail_off s" "length (buf s) = tail_off s + 46" using wf_s d tr by (auto simp: wf_skb_def skb_tailroom_def)
  define h where "h = init_ip_hdr\<lparr>dst_ip := ip, ip_proto := prot, ip_total_len := ucast (HTONS (of_nat (skb_len s1) :: u64))\<rparr>"
  define s2 where "s2 = s1\<lparr>buf := write_at 40 (enc_ip h) (buf s)\<rparr>"
  have len: "length (enc_ip h) = 20" using ip.length_enc [of h] by (simp add: IP_HDR_SIZE_def)
  have s2: "wr_hdr enc_ip (data_off s1) h s1 = Inr s2"
    using ip.wr_ok [where h = h and off = 40 and s = s1] b by (simp add: s1_def s2_def IP_HDR_SIZE_def)
  have l2: "length (buf s2) = tail_off s + 46" using b len by (simp add: s2_def)
  have o2: "data_off s2 = 40" "tail_off s2 = tail_off s" "skb_len s2 = skb_len s + 20" "ip_hdr_off s2 = None"
    by (simp_all add: s2_def s1_def none)
  have hd: "ip_at s2 = Inr h" using ip.rd_wr [OF _ s2] by (simp add: ip_at_def s2_def s1_def)
  have "wf_skb s2" by (rule wf_wr_hdr [OF wf1 s2])
  then have room2: "ip_room s2"
    using b l2 o2 by (simp add: ip_room_def frame_room_def ETH_HDR_SIZE_def skb_tailroom_def)
  have icmp: "icmp_at s2 = rd_hdr ICMP_HDR_SIZE dec_icmp (data_off s) s"
    using b len slice_write_disjoint [of 40 "enc_ip h" "buf s" 60 4] l2
    by (simp add: icmp_at_def rd_hdr_def rd_bytes_def ICMP_HDR_SIZE_def IP_HDR_SIZE_def d s2_def s1_def)
  note put = evolves_put_skb [OF wf p, of s2]
  let ?w = "put_skb p s2 w"
  have "hands_over F p ?w (ip_postroute os deliver n p ?w)"
  proof (rule ip_postroute_safe [OF evolvesD(1) [OF put(1)] put(2) room2 hd])
    show "w_nodes ?w n = Some nd" using nd by (simp add: put_skb_def)
    fix t j
    assume l: "is_ip_local n (dst_ip h) ?w = Inr True" and t: "rerouted s2 t" and j: "skb_intf t = Some j"
      "w_intfs ?w j \<noteq> None" and f: "flying p t (put_skb p t ?w)" "wf_world (put_skb p t ?w)"
    have tw: "put_skb p t ?w = put_skb p t w" by (simp add: put_skb_def)
    from t hd obtain h' where h': "ip_at t = Inr h'" "ip_proto h' = prot" by (auto simp: rerouted_def h_def)
    have "is_ip_local n ip w = Inr True" using l evolves_local [OF put(1)] by (simp add: h_def)
    moreover have "w_intfs w j \<noteq> None" using j(2) by (simp add: put_skb_def)
    ultimately show "hands_over F p (put_skb p t ?w) (deliver p (put_skb p t ?w))"
      using D [OF _ rerouted_room [OF t room2] j(1) _ h'] t o2 icmp f
      unfolding tw by (simp add: rerouted_def same_place_def)
  qed
  from hands_over_after [OF put(1) this] show ?thesis
    using flying_get [OF p] s1 s2 by (simp add: ip_output_def h_def)
qed

text \<open>Forwarding: the receiving node is not the destination, so nothing is delivered locally.\<close>

lemma ip_forward_safe:
  assumes wf: "wf_world w" and p: "flying p s w" and room: "ip_room s" and h: "ip_at s = Inr h"
    and i: "skb_intf s = Some i" and x: "w_intfs w i = Some x" and far: "is_ip_local (if_node x) (dst_ip h) w = Inr False"
  shows "hands_over F p w (ip_forward os deliver p w)"
proof -
  have refused: "hands_over F p w (Inr (False, w))" using wf p by auto
  have "s\<lparr>skb_intf := Some i\<rparr> = s" using i by simp
  with rewrite_header [OF room h, of "h\<lparr>ip_ttl := ip_ttl h - 1\<rparr>" "Some i"] obtain t where
    t: "wr_hdr enc_ip (data_off s) (h\<lparr>ip_ttl := ip_ttl h - 1\<rparr>) s = Inr t" "rerouted s t" "skb_intf t = Some i"
      "ip_at t = Inr (h\<lparr>ip_ttl := ip_ttl h - 1\<rparr>)" by auto
  note dead = evolves_put_skb [OF wf p, of t]
  let ?t = "t\<lparr>skb_intf := None\<rparr>"
  note put = evolves_put_skb [OF wf p, of ?t]
  let ?w = "put_skb p ?t w"
  have room': "ip_room ?t" using rerouted_room [OF t(2) room]
    by (auto simp: ip_room_def frame_room_def wf_skb_def skb_tailroom_def split: option.splits)
  have hd: "ip_at ?t = Inr (h\<lparr>ip_ttl := ip_ttl h - 1\<rparr>)" using t(4) by (simp add: ip_at_def rd_hdr_def rd_bytes_def)
  from live_intf(2) [OF wf x] obtain nd where nd: "w_nodes w (if_node x) = Some nd" by blast
  have "hands_over F p ?w (ip_postroute os deliver (if_node x) p ?w)"
  proof (rule ip_postroute_safe [OF evolvesD(1) [OF put(1)] put(2) room' hd])
    show "w_nodes ?w (if_node x) = Some nd" using nd by (simp add: put_skb_def)
  qed (use far evolves_local [OF put(1)] in simp)
  from hands_over_after [OF put(1) this] show ?thesis
    using refused dead flying_get [OF p] h t x by (auto simp: ip_forward_def ip_at_def get_intf_def)
qed

end
