(* ===== verification/Safe_Input.thy ===== *)
theory Safe_Input
  imports Safe_Output Fuel
begin

text \<open>
  The receiving half of the stack under the invariant: the protocols, local delivery, and the
  path of a frame from the operating system.  The faults that remain are named exactly: the
  assertion of \<open>skb_pull\<close> on a packet cut short, and the null IP header pointer of packets a
  node delivers to itself.
\<close>

section \<open>The faults of a delivered packet\<close>

text \<open>How many bytes behind its IP header the handler of a protocol takes for granted.\<close>

definition need :: "u8 \<Rightarrow> nat" where
  "need prot = (if prot = IP_PROTO_TCP then TCP_HDR_SIZE else if prot = IP_PROTO_UDP then UDP_HDR_SIZE else 0)"

definition truncated :: "skb \<Rightarrow> bool" where
  "truncated s \<longleftrightarrow> (\<exists>h. ip_at s = Inr h \<and> skb_len s < IP_HDR_SIZE + need (ip_proto h))"

definition is_request :: "icmp_hdr \<Rightarrow> bool" where
  "is_request h \<longleftrightarrow> icmp_type h = ICMP_ECHO_REQUEST_TYPE \<and> icmp_code h = ICMP_ECHO_REQUEST_CODE"

text \<open>A packet of the node's own whose handler would read the IP header pointer nobody set.\<close>

definition unmarked :: "skb \<Rightarrow> bool" where
  "unmarked s \<longleftrightarrow> ip_hdr_off s = None \<and> (\<exists>h. ip_at s = Inr h \<and>
     (ip_proto h = IP_PROTO_TCP \<or> ip_proto h = IP_PROTO_ICMP \<and> (\<exists>m. icmp_at s = Inr m \<and> is_request m)))"

text \<open>A TCP segment that claims to come from the node that receives it.\<close>

definition from_itself :: "skb \<Rightarrow> world \<Rightarrow> bool" where
  "from_itself s w \<longleftrightarrow> (\<exists>k h i x. ip_hdr_off s = Some k \<and> rd_hdr IP_HDR_SIZE dec_ip k s = Inr h \<and>
     skb_intf s = Some i \<and> w_intfs w i = Some x \<and> is_ip_local (if_node x) (src_ip h) w = Inr True)"

definition spoofed :: "skb \<Rightarrow> world \<Rightarrow> bool" where
  "spoofed s w \<longleftrightarrow> from_itself s w \<and> (\<exists>h. ip_at s = Inr h \<and> ip_proto h = IP_PROTO_TCP)"

definition risk :: "skb \<Rightarrow> world \<Rightarrow> fault \<Rightarrow> bool" where
  "risk s w e \<longleftrightarrow> e = Out_of_fuel \<or> (e = Assert_failed \<and> truncated s) \<or>
     (e = Null_deref \<and> IP_HDR_SIZE \<le> skb_len s \<and> (unmarked s \<or> spoofed s w))"

definition deliver_ok :: "deliver \<Rightarrow> bool" where
  "deliver_ok d \<longleftrightarrow> (\<forall>w p s i. wf_world w \<longrightarrow> flying p s w \<longrightarrow> ip_room s \<longrightarrow> skb_intf s = Some i \<longrightarrow>
     w_intfs w i \<noteq> None \<longrightarrow> hands_over (risk s w) p w (d p w))"

section \<open>UDP\<close>

lemma udp_find_total:
  assumes "\<And>u. u \<in> set us \<Longrightarrow> w_udp_socks w u \<noteq> None"
  shows "\<exists>r. udp_socks_manager_find us port w = Inr r \<and> (\<forall>u. r = Some u \<longrightarrow> u \<in> set us)"
  using assms
proof (induction us)
  case (Cons v us)
  from Cons.prems [of v] obtain sk where sk: "w_udp_socks w v = Some sk" by auto
  from Cons.IH Cons.prems obtain r where "udp_socks_manager_find us port w = Inr r" "\<forall>u. r = Some u \<longrightarrow> u \<in> set us"
    by auto
  with sk show ?case by (auto simp: get_udp_sock_def)
qed simp

lemma udp_input_safe:
  assumes wf: "wf_world w" and p: "flying p s w" and s: "wf_skb s" and r: "data_off s + UDP_HDR_SIZE \<le> length (buf s)"
    and ip: "hdr_within (ip_hdr_off s) IP_HDR_SIZE s" and i: "skb_intf s = Some i" and x: "w_intfs w i = Some x"
  shows "hands_over (\<lambda>e. e = Assert_failed \<and> skb_len s < UDP_HDR_SIZE) p w (udp_input p w)"
proof -
  from udp.rd_ok [OF r] obtain h where h: "rd_hdr UDP_HDR_SIZE dec_udp (data_off s) s = Inr h" by blast
  have socks: "\<exists>sk. w_udp_socks w u = Some sk" if "u \<in> set (udp_socks_manager x)" for u
    using listed_sockets(1) [OF wf x that] by blast
  then have "w_udp_socks w u \<noteq> None" if "u \<in> set (udp_socks_manager x)" for u using that by blast
  from udp_find_total [OF this] obtain r where r: "udp_socks_manager_find (udp_socks_manager x) (NTOHS (udp_dst_port h)) w = Inr r"
    "\<And>u. r = Some u \<Longrightarrow> u \<in> set (udp_socks_manager x)" by blast
  let ?s = "s\<lparr>udp_hdr_off := Some (data_off s)\<rparr>"
  have wf': "wf_skb ?s" using s by (simp add: wf_skb_def)
  note start = flying_get [OF p] h i x r(1)
  show ?thesis
  proof (cases r)
    case None
    with start evolves_put_skb [OF wf p, of ?s] show ?thesis by (auto simp: udp_input_def get_intf_def Let_def)
  next
    case (Some u)
    with r(2) socks obtain sk where sk: "w_udp_socks w u = Some sk" by blast
    show ?thesis
    proof (cases "UDP_HDR_SIZE \<le> skb_len s")
      case False
      then have "skb_pull UDP_HDR_SIZE ?s = Inl Assert_failed" using skb_pull_short [of ?s UDP_HDR_SIZE] wf' by simp
      with False Some start show ?thesis by (simp add: udp_input_def get_intf_def Let_def)
    next
      case True
      let ?t = "?s\<lparr>data_off := data_off s + UDP_HDR_SIZE, skb_len := skb_len s - UDP_HDR_SIZE\<rparr>"
      have t: "skb_pull UDP_HDR_SIZE ?s = Inr ?t" using skb_pull_ok [of UDP_HDR_SIZE ?s] True wf' by simp
      note put = evolves_put_skb [OF wf p, of ?t]
      have sk': "w_udp_socks (put_skb p ?t w) u = Some sk" using sk by (simp add: put_skb_def)
      have "fits (Udp_queue u) (put_skb p ?t w) ?t"
        using wf_skb_pull [OF wf' t] ip assms(4) by (simp add: hdr_within_def split: option.splits)
      from udp_push_safe [OF evolvesD(1) [OF put(1)] sk' put(2) this]
      have "evolves {p} w (put_udp_sock u (sk\<lparr>us_rx_skb := p # us_rx_skb sk\<rparr>) (put_skb p ?t w))"
        by (rule evolves_trans [OF put(1)])
      with start Some t sk show ?thesis by (simp add: udp_input_def get_intf_def get_udp_sock_def Let_def)
    qed
  qed
qed

section \<open>Messages of the node's own\<close>

text \<open>
  The packet is handed to \<open>ip_output\<close>; if it is for the node itself it is delivered there, with
  no IP header pointer.
\<close>

lemma deliver_own:
  assumes d: "deliver_ok d" and wf: "wf_world w" and p: "flying p t w" and room: "ip_room t"
    and j: "skb_intf t = Some j" "w_intfs w j \<noteq> None" and h: "ip_at t = Inr h" and none: "ip_hdr_off t = None"
    and len: "IP_HDR_SIZE + need (ip_proto h) \<le> skb_len t"
  shows "hands_over (\<lambda>e. e = Out_of_fuel \<or> (e = Null_deref \<and> unmarked t)) p w (d p w)"
proof -
  have "hands_over (risk t w) p w (d p w)" using d wf p room j unfolding deliver_ok_def by blast
  then show ?thesis
    by (rule hands_over_weaken) (use h none len in \<open>auto simp: risk_def truncated_def spoofed_def from_itself_def\<close>)
qed

lemma own_message_safe:
  assumes d: "deliver_ok d" and wf: "wf_world w" and p: "flying p s w" and room: "out_room m s"
    and nd: "w_nodes w n = Some nd" and m: "need prot \<le> m"
  shows "hands_over (\<lambda>e. e = Out_of_fuel \<or> (e = Null_deref \<and> is_ip_local n ip w = Inr True \<and>
      (prot = IP_PROTO_TCP \<or> prot = IP_PROTO_ICMP \<and>
         (\<exists>h. rd_hdr ICMP_HDR_SIZE dec_icmp (data_off s) s = Inr h \<and> is_request h)))) p w
    (ip_output os d n ip prot p w)"
proof (rule ip_output_safe [OF wf p room nd])
  fix t j h
  assume local: "is_ip_local n ip w = Inr True" and t: "ip_room t" "skb_intf t = Some j" "w_intfs w j \<noteq> None"
    "ip_at t = Inr h" "ip_proto h = prot" "skb_len t = skb_len s + 20" "ip_hdr_off t = None"
    "icmp_at t = rd_hdr ICMP_HDR_SIZE dec_icmp (data_off s) s" and f: "flying p t (put_skb p t w)" "wf_world (put_skb p t w)"
  have j: "w_intfs (put_skb p t w) j \<noteq> None" using t(3) by (simp add: put_skb_def)
  have "need prot \<le> skb_len s" using room m by (simp add: out_room_def)
  then have "IP_HDR_SIZE + need (ip_proto h) \<le> skb_len t" using t(5,6) by (simp add: IP_HDR_SIZE_def)
  from deliver_own [OF d f(2,1) t(1,2) j t(4,7) this]
  show "hands_over (\<lambda>e. e = Out_of_fuel \<or> (e = Null_deref \<and> is_ip_local n ip w = Inr True \<and>
      (prot = IP_PROTO_TCP \<or> prot = IP_PROTO_ICMP \<and>
         (\<exists>h. rd_hdr ICMP_HDR_SIZE dec_icmp (data_off s) s = Inr h \<and> is_request h)))) p (put_skb p t w)
    (d p (put_skb p t w))"
    by (rule hands_over_weaken) (use local t(4,5,8) in \<open>auto simp: unmarked_def\<close>)
qed

section \<open>ICMP\<close>

lemma icmp_message_hdr:
  assumes "wf_skb s" and "payload s = icmp_message ty code data"
  shows "\<exists>h. rd_hdr ICMP_HDR_SIZE dec_icmp (data_off s) s = Inr h \<and> icmp_type h = ty \<and> icmp_code h = code"
  using icmp.rd_front(1) [OF assms(1) assms(2) [unfolded icmp_message_def]] by (simp add: icmp_blank_def)

lemma icmp_out_safe:
  assumes d: "deliver_ok d" and wf: "wf_world w" and nd: "w_nodes w n = Some nd" and len: "length bytes \<le> 2044"
  shows "runs (\<lambda>e. e = Out_of_fuel \<or> (e = Null_deref \<and> is_ip_local n ip w = Inr True \<and>
      ty = ICMP_ECHO_REQUEST_TYPE \<and> code = ICMP_ECHO_REQUEST_CODE)) (\<lambda>(_, w'). evolves {} w w')
    (icmp_out os d n ip ty code bytes w)"
proof -
  let ?F = "\<lambda>e. e = Out_of_fuel \<or> (e = Null_deref \<and> is_ip_local n ip w = Inr True \<and>
    ty = ICMP_ECHO_REQUEST_TYPE \<and> code = ICMP_ECHO_REQUEST_CODE)"
  from icmp_skb_ok [OF len, of ty code] obtain s where s: "icmp_skb ty code bytes = Inr s" "wf_skb s" "data_off s = 60"
    "skb_tailroom s = 46" "skb_len s = 4 + length bytes" "ip_hdr_off s = None" "payload s = icmp_message ty code bytes"
    by blast
  obtain p w1 where n: "new_skb s w = (p, w1)" by fastforce
  note new = new_skb_safe [OF wf n]
  have room: "out_room 0 s" using s by (simp add: out_room_def)
  have "\<exists>nd'. w_nodes w1 n = Some nd'" using same_config_live(1) [OF evolvesD(2) [OF new(1)], of n] nd by auto
  then obtain nd' where nd': "w_nodes w1 n = Some nd'" by blast
  have "hands_over ?F p w1 (ip_output os d n ip IP_PROTO_ICMP p w1)"
    by (rule hands_over_weaken [OF own_message_safe [OF d evolvesD(1) [OF new(1)] new(2) room nd']])
      (use icmp_message_hdr [OF s(2,7)] evolves_local [OF new(1)] in
        \<open>auto simp: need_def IP_PROTO_ICMP_def IP_PROTO_TCP_def IP_PROTO_UDP_def is_request_def\<close>)
  then have "runs ?F (\<lambda>(_, w'). evolves {} w w')
    (bindE (ip_output os d n ip IP_PROTO_ICMP p w1) (\<lambda>(result, w).
       bindE (if \<not> result then free_skb p w else Inr w) (\<lambda>w. Inr (result, w))))"
    unfolding hands_over_def
  proof (rule runs_bind, clarify)
    fix ok w2
    assume e: "evolves {p} w1 w2" and f: "\<not> ok \<longrightarrow> (\<exists>s. flying p s w2)"
    have own: "evolves {} w w'" if "evolves {p} w1 w'" for w'
      by (rule evolves_fresh [OF evolves_trans [OF evolves_weaken [OF new(1)] that]]) (simp add: new(3))
    show "runs ?F (\<lambda>(_, w'). evolves {} w w') (bindE (if \<not> ok then free_skb p w2 else Inr w2) (\<lambda>w. Inr (ok, w)))"
    proof (cases ok)
      case False
      with f obtain s' where s': "flying p s' w2" by blast
      show ?thesis
        using False by (auto intro!: runs_map [OF free_skb_safe [OF evolvesD(1) [OF e] s']] own evolves_trans [OF e])
    qed (use own [OF e] in simp)
  qed
  then show ?thesis using s(1) n by (simp add: icmp_out_def)
qed

lemma icmp_input_safe:
  assumes d: "deliver_ok d" and wf: "wf_world w" and p: "flying p s w" and s: "wf_skb s"
    and ip: "\<And>k. ip_hdr_off s = Some k \<Longrightarrow> k + IP_HDR_SIZE \<le> length (buf s) \<and> length (buf s) \<le> 2048"
    and i: "skb_intf s = Some i" and x: "w_intfs w i = Some x"
  shows "hands_over (\<lambda>e. e = Out_of_fuel \<or> (e = Null_deref \<and> ip_hdr_off s = None \<and>
      (\<exists>h. rd_hdr ICMP_HDR_SIZE dec_icmp (data_off s) s = Inr h \<and> is_request h))) p w (icmp_input os d p w)"
    (is "hands_over ?F p w _")
proof (cases "skb_len s < ICMP_HDR_SIZE")
  case True
  then show ?thesis using wf p by (auto simp: icmp_input_def flying_get)
next
  case False
  then have b: "data_off s + ICMP_HDR_SIZE \<le> length (buf s)" using s by (auto simp: wf_skb_def)
  from icmp.rd_ok [OF b] obtain h where h: "rd_hdr ICMP_HDR_SIZE dec_icmp (data_off s) s = Inr h" by blast
  from live_intf(2) [OF wf x] obtain nd where nd: "w_nodes w (if_node x) = Some nd" by blast
  have free: "hands_over ?F p w (bindE (free_skb p w') (\<lambda>w. Inr (True, w)))" if e: "evolves {} w w'" for w'
  proof -
    have "flying p s w'" using evolvesD(5) [OF e _ p] by simp
    from free_skb_after [OF evolves_weaken [OF e] this] show ?thesis .
  qed
  have start: "get_skb p w = Inr s" "get_intf i w = Inr x" "get_node (if_node x) w = Inr nd"
    using flying_get [OF p] x nd by (simp_all add: get_intf_def get_node_def)
  show ?thesis
  proof (cases "is_request h")
    case False
    then show ?thesis
      using \<open>\<not> skb_len s < ICMP_HDR_SIZE\<close> start h i free [of w] wf
      by (auto simp: icmp_input_def is_request_def)
  next
    case True
    show ?thesis
    proof (cases "ip_hdr_off s")
      case None
      then show ?thesis
        using True \<open>\<not> skb_len s < ICMP_HDR_SIZE\<close> start h i by (simp add: icmp_input_def is_request_def)
    next
      case (Some k)
      with ip have k: "k + IP_HDR_SIZE \<le> length (buf s)" "length (buf s) \<le> 2048" by auto
      from ip.rd_ok [OF k(1)] obtain iph where iph: "rd_hdr IP_HDR_SIZE dec_ip k s = Inr iph" by blast
      have "data_off s + ICMP_HDR_SIZE + (skb_len s - ICMP_HDR_SIZE) \<le> length (buf s)"
        using s False by (auto simp: wf_skb_def)
      then obtain rest where rest: "rd_bytes (data_off s + ICMP_HDR_SIZE) (skb_len s - ICMP_HDR_SIZE) s = Inr rest"
        "length rest = skb_len s - ICMP_HDR_SIZE"
        by (simp add: rd_bytes_def)
      then have len: "length rest \<le> 2044" using k(2) s by (auto simp: wf_skb_def ICMP_HDR_SIZE_def)
      have "hands_over ?F p w (bindE (icmp_out os d (if_node x) (src_ip iph) ICMP_ECHO_REPLY_TYPE
          ICMP_ECHO_REQUEST_CODE rest w) (\<lambda>(_, w). bindE (free_skb p w) (\<lambda>w. Inr (True, w))))"
        unfolding hands_over_def
      proof (rule runs_bind)
        show "runs ?F (\<lambda>(_, w'). evolves {} w w')
          (icmp_out os d (if_node x) (src_ip iph) ICMP_ECHO_REPLY_TYPE ICMP_ECHO_REQUEST_CODE rest w)"
          by (rule runs_weaken [OF icmp_out_safe [OF d wf nd len]])
            (auto simp: ICMP_ECHO_REPLY_TYPE_def ICMP_ECHO_REQUEST_TYPE_def)
      qed (use free in \<open>auto simp: hands_over_def\<close>)
      then show ?thesis
        using True \<open>\<not> skb_len s < ICMP_HDR_SIZE\<close> start h i Some iph rest(1)
        by (simp add: icmp_input_def is_request_def bindE_assoc split_def)
    qed
  qed
qed

section \<open>TCP\<close>

text \<open>A segment of a connection, whose parent is a bound socket.\<close>

lemma conn_parent:
  assumes wf: "wf_world w" and cn: "w_tcp_conns w c = Some cn"
  shows "\<exists>sk i x. w_tcp_socks w (tc_parent cn) = Some sk \<and> ts_intf sk = Some i \<and> w_intfs w i = Some x"
proof -
  from conns_okD(1) [OF wf_worldD(2) [OF wf] cn] obtain sk where sk: "w_tcp_socks w (tc_parent cn) = Some sk" "ts_bound sk"
    by blast
  from bound_sockets(2) [OF wf sk] sk(1) show ?thesis by blast
qed

definition self_peer :: "tcp_connection_sock \<Rightarrow> world \<Rightarrow> bool" where
  "self_peer cn w \<longleftrightarrow> (\<exists>sk i x. w_tcp_socks w (tc_parent cn) = Some sk \<and> ts_intf sk = Some i \<and> w_intfs w i = Some x \<and>
     is_ip_local (if_node x) (tc_remote_ip cn) w = Inr True)"

lemma self_peer_evolves:
  assumes e: "evolves S w w'" and cn: "tc_parent cn' = tc_parent cn" "tc_remote_ip cn' = tc_remote_ip cn"
  shows "self_peer cn' w' \<Longrightarrow> self_peer cn w"
proof -
  assume "self_peer cn' w'"
  then obtain sk' i x where sk': "w_tcp_socks w' (tc_parent cn) = Some sk'" "ts_intf sk' = Some i" "w_intfs w i = Some x"
    "is_ip_local (if_node x) (tc_remote_ip cn) w = Inr True"
    unfolding self_peer_def cn evolves_local [OF e] evolvesD(4) [OF e] by blast
  from same_configD(10) [OF same_config_sym [OF evolvesD(2) [OF e]] sk'(1)] obtain sk where
    "w_tcp_socks w (tc_parent cn) = Some sk" "bare_tcp sk = bare_tcp sk'" by blast
  with sk' bare_tcp_eq(4) [of sk sk'] show ?thesis by (auto simp: self_peer_def)
qed

definition tcp_risk :: "bool \<Rightarrow> fault \<Rightarrow> bool" where
  "tcp_risk b e \<longleftrightarrow> e = Out_of_fuel \<or> (e = Null_deref \<and> b)"

lemma tcp_out_safe:
  assumes d: "deliver_ok d" and wf: "wf_world w" and cn: "w_tcp_conns w c = Some cn" and len: "length bytes \<le> MAX_TCP_PAYLOAD"
  shows "runs (tcp_risk (self_peer cn w)) (\<lambda>(_, w'). evolves {} w w') (tcp_out os d c bytes fl w)"
proof -
  from conn_parent [OF wf cn] obtain sk i x where sk: "w_tcp_socks w (tc_parent cn) = Some sk" "ts_intf sk = Some i"
    and x: "w_intfs w i = Some x" by blast
  have g: "get_tcp_conn c w = Inr cn" "get_tcp_sock (tc_parent cn) w = Inr sk" "get_intf i w = Inr x"
    using cn sk x by (simp_all add: get_tcp_conn_def get_tcp_sock_def get_intf_def)
  show ?thesis
  proof (cases "outside_window cn (length bytes)")
    case True
    from tcp_out_outside_window [OF g(1,2) this len] obtain s where "tcp_out os d c bytes fl w = Inr (True, snd (new_skb s w))"
      by blast
    moreover obtain p w1 where n: "new_skb s w = (p, w1)" by fastforce
    ultimately show ?thesis using new_skb_safe(1) [OF wf n] by simp
  next
    case False
    define w1 where "w1 = put_tcp_conn c (tcp_advance cn (length bytes) fl) w"
    from tcp_out_in_window [OF g(1,2) False len sk(2) g(3) w1_def, of os d] obtain s where
      s: "wf_skb s" "data_off s = 60" "skb_tailroom s = 46" "ip_hdr_off s = None" "payload s = tcp_segment sk cn bytes fl"
      and out: "tcp_out os d c bytes fl w =
        ip_output os d (if_node x) (tc_remote_ip cn) IP_PROTO_TCP (w_next w) (snd (new_skb s w1))" by blast
    have e1: "evolves {} w w1" unfolding w1_def by (rule conn_update_safe [OF wf cn]) (simp_all add: tcp_advance_def)
    obtain p w2 where n: "new_skb s w1 = (p, w2)" by fastforce
    note new = new_skb_safe [OF evolvesD(1) [OF e1] n]
    have p: "p = w_next w" using new(4) by (simp add: w1_def put_tcp_conn_def)
    have e2: "evolves {} w w2" by (rule evolves_trans [OF e1 new(1)])
    have room: "out_room 20 s" using s length_payload [OF s(1)] by (simp add: out_room_def length_tcp_segment)
    from live_intf(2) [OF wf x] obtain nd where "w_nodes w (if_node x) = Some nd" by blast
    with same_config_live(1) [OF evolvesD(2) [OF e2], of "if_node x"] obtain nd' where nd': "w_nodes w2 (if_node x) = Some nd'"
      by auto
    have "hands_over (tcp_risk (self_peer cn w)) p w2 (ip_output os d (if_node x) (tc_remote_ip cn) IP_PROTO_TCP p w2)"
      by (rule hands_over_weaken [OF own_message_safe [OF d evolvesD(1) [OF e2] new(2) room nd']])
        (use evolves_local [OF e2] sk x in \<open>auto simp: need_def TCP_HDR_SIZE_def tcp_risk_def self_peer_def\<close>)
    moreover have "evolves {} w w'" if "evolves {p} w2 w'" for w'
    proof (rule evolves_fresh [OF evolves_trans [OF evolves_weaken [OF e2] that]])
      show "r \<in> {p} \<Longrightarrow> w_skbs w r = None" for r using new(3) by (simp add: w1_def put_tcp_conn_def)
    qed
    ultimately have "runs (tcp_risk (self_peer cn w)) (\<lambda>(_, w'). evolves {} w w')
        (ip_output os d (if_node x) (tc_remote_ip cn) IP_PROTO_TCP p w2)"
      unfolding hands_over_def by (auto elim!: runs_post)
    then show ?thesis using out n p by simp
  qed
qed

lemma close_connection_safe:
  assumes d: "deliver_ok d" and wf: "wf_world w" and cn: "w_tcp_conns w c = Some cn"
  shows "runs (tcp_risk (self_peer cn w)) (\<lambda>(ok, w'). ok \<and> evolves {} w w') (close_connection os d c w)"
  unfolding close_connection_def
proof (rule runs_bind [OF tcp_out_safe [OF d wf cn]], goal_cases)
  case (2 r)
  then obtain ok w1 where r: "r = (ok, w1)" and e: "evolves {} w w1" by (cases r) simp
  from conns_keptD [OF evolvesD(3) [OF e] cn] obtain cn' where cn': "w_tcp_conns w1 c = Some cn'" by blast
  from conn_parent [OF evolvesD(1) [OF e] cn'] obtain sk where sk: "w_tcp_socks w1 (tc_parent cn') = Some sk" by blast
  from tcp_close_conn_safe [OF evolvesD(1) [OF e] sk]
  show ?case using cn' sk evolves_trans [OF e] by (simp add: r get_tcp_conn_def get_tcp_sock_def)
qed simp

text \<open>The two states of a connection, and a new one.\<close>

lemma handle_estab_safe:
  assumes d: "deliver_ok d" and wf: "wf_world w" and p: "flying p s w" and s: "wf_skb s"
    and b: "data_off s + TCP_HDR_SIZE \<le> length (buf s)" and cn: "w_tcp_conns w c = Some cn"
  shows "hands_over (\<lambda>e. tcp_risk (self_peer cn w) e \<or> (e = Assert_failed \<and> skb_len s < TCP_HDR_SIZE)) p w
    (handle_estab os d c p w)" (is "hands_over ?F p w _")
proof -
  from tcp.rd_ok [OF b] obtain h where h: "rd_hdr TCP_HDR_SIZE dec_tcp (data_off s) s = Inr h" by blast
  have start: "get_skb p w = Inr s" "get_tcp_conn c w = Inr cn" using flying_get [OF p] cn by (simp_all add: get_tcp_conn_def)
  have close: "hands_over ?F p w (close_connection os d c v)"
    if e: "evolves {} w v" and v: "w_tcp_conns v c = Some cn'" "tc_parent cn' = tc_parent cn" "tc_remote_ip cn' = tc_remote_ip cn"
    for v cn'
    unfolding hands_over_def
  proof (rule runs_weaken [OF close_connection_safe [OF d evolvesD(1) [OF e] v(1)]])
    show "tcp_risk (self_peer cn' v) e' \<Longrightarrow> ?F e'" for e'
      using self_peer_evolves [OF e v(2,3)] by (auto simp: tcp_risk_def)
    show "(case r of (ok, w') \<Rightarrow> ok \<and> evolves {} v w') \<Longrightarrow>
      (case r of (ok, w') \<Rightarrow> evolves {p} w w' \<and> (\<not> ok \<longrightarrow> (\<exists>s. flying p s w')))" for r
      using evolves_weaken [OF evolves_trans [OF e]] by (cases r) auto
  qed
  let ?cn = "cn\<lparr>rcv_nxt := rcv_nxt cn + 1\<rparr>"
  have fin: "evolves {} w (put_tcp_conn c ?cn w)" by (rule conn_update_safe [OF wf cn]) simp_all
  have "w_tcp_conns (put_tcp_conn c ?cn w) c = Some ?cn" by (simp add: put_tcp_conn_def)
  note fin = close [OF fin this] and rst = close [of w cn]
  have refused: "hands_over ?F p w (Inr (False, w))" using wf p by auto
  have data: "hands_over ?F p w (bindE (skb_pull TCP_HDR_SIZE s) (\<lambda>s.
      Inr (True, put_tcp_conn c (cn\<lparr>rcv_nxt := rcv_nxt cn + of_nat (skb_len s), tc_rx_skb := p # tc_rx_skb cn\<rparr>)
        (put_skb p s w))))"
  proof (cases "TCP_HDR_SIZE \<le> skb_len s")
    case True
    let ?t = "s\<lparr>data_off := data_off s + TCP_HDR_SIZE, skb_len := skb_len s - TCP_HDR_SIZE\<rparr>"
    have t: "skb_pull TCP_HDR_SIZE s = Inr ?t" using skb_pull_ok [OF True s] .
    note put = evolves_put_skb [OF wf p, of ?t]
    have cn': "w_tcp_conns (put_skb p ?t w) c = Some cn" using cn by (simp add: put_skb_def)
    from tcp_push_safe [OF evolvesD(1) [OF put(1)] cn' put(2) wf_skb_pull [OF s t]]
    show ?thesis unfolding t using evolves_trans [OF put(1)] by simp
  next
    case False
    then show ?thesis using skb_pull_short [of s TCP_HDR_SIZE] s by simp
  qed
  show ?thesis
    using start h refused data fin rst wf cn by (simp add: handle_estab_def)
qed

lemma handle_syn_sent_safe:
  assumes wf: "wf_world w" and p: "flying p s w" and b: "data_off s + TCP_HDR_SIZE \<le> length (buf s)"
    and cn: "w_tcp_conns w c = Some cn"
  shows "hands_over F p w (handle_syn_sent c p w)"
proof -
  from tcp.rd_ok [OF b] obtain h where h: "rd_hdr TCP_HDR_SIZE dec_tcp (data_off s) s = Inr h" by blast
  have e: "evolves {} w (put_tcp_conn c (cn\<lparr>tc_state := Handle_estab\<rparr>) w)"
    by (rule conn_update_safe [OF wf cn]) simp_all
  have "flying p s (put_tcp_conn c (cn\<lparr>tc_state := Handle_estab\<rparr>) w)" using evolvesD(5) [OF e _ p] by simp
  then show ?thesis
    using flying_get [OF p] h cn wf p evolves_weaken [OF e] by (auto simp: handle_syn_sent_def get_tcp_conn_def)
qed

lemma handle_new_connection_safe:
  assumes d: "deliver_ok d" and wf: "wf_world w" and p: "flying p s w" and b: "data_off s + TCP_HDR_SIZE \<le> length (buf s)"
    and k: "ip_hdr_off s = Some k" "rd_hdr IP_HDR_SIZE dec_ip k s = Inr iph"
    and sk: "w_tcp_socks w t = Some sk" "ts_bound sk" "ts_intf sk = Some i" and x: "w_intfs w i = Some x"
  shows "hands_over (tcp_risk (is_ip_local (if_node x) (src_ip iph) w = Inr True)) p w (handle_new_connection os d t p w)"
proof -
  let ?F = "tcp_risk (is_ip_local (if_node x) (src_ip iph) w = Inr True)"
  from tcp.rd_ok [OF b] obtain h where h: "rd_hdr TCP_HDR_SIZE dec_tcp (data_off s) s = Inr h" by blast
  define c where "c = w_next w"
  define cn where "cn = \<lparr>tc_parent = t, tc_state = Handle_syn_sent, tc_remote_ip = src_ip iph,
    tc_remote_port = NTOHS (tcp_src_port h), snt_una = 0, snt_nxt = 0, snt_wnd = NTOHS (tcp_wnd_sz h), snt_iss = 0,
    rcv_nxt = NTOHL (tcp_seq h) + 1, rcv_wnd = TCP_WINDOW_SIZE, rcv_irs = tcp_seq h, tc_rx_skb = [], tc_tx_skb = []\<rparr>"
  define w1 where "w1 = put_tcp_sock t (sk\<lparr>ts_conns := c # ts_conns sk\<rparr>) ((put_tcp_conn c cn w)\<lparr>w_next := Suc c\<rparr>)"
  have e: "evolves {} w w1"
    unfolding w1_def by (rule tcp_new_conn_safe [OF wf sk(1,2)]) (simp_all add: cn_def c_def)
  have cn1: "w_tcp_conns w1 c = Some cn" by (simp add: w1_def put_tcp_sock_def put_tcp_conn_def)
  have peer: "is_ip_local (if_node x) (src_ip iph) w = Inr True" if "self_peer cn w1"
  proof -
    from that obtain sk' j y where "w_tcp_socks w1 t = Some sk'" "ts_intf sk' = Some j" "w_intfs w j = Some y"
      "is_ip_local (if_node y) (src_ip iph) w = Inr True"
      unfolding self_peer_def evolves_local [OF e] evolvesD(4) [OF e] by (auto simp: cn_def)
    then show ?thesis using sk(3) x by (auto simp: w1_def put_tcp_sock_def)
  qed
  have "hands_over ?F p w (bindE (tcp_out os d c [] flags_syn_ack w1) (\<lambda>(_, w). Inr (False, w)))"
    unfolding hands_over_def
  proof (rule runs_bind [where P = "\<lambda>(_, w'). evolves {} w1 w'"])
    show "runs ?F (\<lambda>(_, w'). evolves {} w1 w') (tcp_out os d c [] flags_syn_ack w1)"
      by (rule runs_weaken [OF tcp_out_safe [OF d evolvesD(1) [OF e] cn1]]) (use peer in \<open>auto simp: tcp_risk_def\<close>)
    fix r :: "bool \<times> world"
    assume "case r of (_, w') \<Rightarrow> evolves {} w1 w'"
    then obtain ok w2 where r: "r = (ok, w2)" and "evolves {} w1 w2" by (cases r) simp
    with evolves_trans [OF e] have e2: "evolves {} w w2" by blast
    then show "runs ?F (\<lambda>(ok, w'). evolves {p} w w' \<and> (\<not> ok \<longrightarrow> (\<exists>s. flying p s w')))
      (case r of (_, w) \<Rightarrow> Inr (False, w))"
      using evolves_weaken [OF e2] evolvesD(5) [OF e2 _ p] by (auto simp: r)
  qed
  then show ?thesis
    using flying_get [OF p] h k sk(1)
    by (simp add: handle_new_connection_def get_tcp_sock_def Let_def c_def [symmetric] cn_def [symmetric] w1_def [symmetric])
qed

lemma tcp_find_total:
  assumes "\<And>t. t \<in> set ts \<Longrightarrow> w_tcp_socks w t \<noteq> None"
  shows "\<exists>r. tcp_socks_manager_find ts port w = Inr r \<and> (\<forall>t. r = Some t \<longrightarrow> t \<in> set ts)"
  using assms
proof (induction ts)
  case (Cons v ts)
  from Cons.prems [of v] obtain sk where sk: "w_tcp_socks w v = Some sk" by auto
  from Cons.IH Cons.prems obtain r where "tcp_socks_manager_find ts port w = Inr r" "\<forall>t. r = Some t \<longrightarrow> t \<in> set ts"
    by auto
  with sk show ?case by (auto simp: get_tcp_sock_def)
qed simp

lemma find_conn_total:
  assumes "\<And>c. c \<in> set cs \<Longrightarrow> w_tcp_conns w c \<noteq> None"
  shows "\<exists>r. find_matching_connection cs ip port w = Inr r \<and>
    (\<forall>c. r = Some c \<longrightarrow> c \<in> set cs \<and> (\<exists>cn. w_tcp_conns w c = Some cn \<and> tc_remote_ip cn = ip))"
  using assms
proof (induction cs)
  case (Cons v cs)
  from Cons.prems [of v] obtain cn where cn: "w_tcp_conns w v = Some cn" by auto
  from Cons.IH Cons.prems obtain r where "find_matching_connection cs ip port w = Inr r"
    "\<forall>c. r = Some c \<longrightarrow> c \<in> set cs \<and> (\<exists>cn. w_tcp_conns w c = Some cn \<and> tc_remote_ip cn = ip)"
    by auto
  with cn show ?case by (auto simp: get_tcp_conn_def)
qed simp

lemma tcp_input_safe:
  assumes d: "deliver_ok d" and wf: "wf_world w" and p: "flying p s w" and s: "wf_skb s"
    and b: "data_off s + TCP_HDR_SIZE \<le> length (buf s)" and ip: "hdr_within (ip_hdr_off s) IP_HDR_SIZE s"
    and i: "skb_intf s = Some i" and x: "w_intfs w i = Some x"
  shows "hands_over (\<lambda>e. e = Out_of_fuel \<or> (e = Assert_failed \<and> skb_len s < TCP_HDR_SIZE) \<or>
      (e = Null_deref \<and> (ip_hdr_off s = None \<or> from_itself s w))) p w (tcp_input os d p w)" (is "hands_over ?F p w _")
proof -
  from tcp.rd_ok [OF b] obtain h where h: "rd_hdr TCP_HDR_SIZE dec_tcp (data_off s) s = Inr h" by blast
  have socks: "\<exists>sk. w_tcp_socks w t = Some sk \<and> ts_bound sk \<and> ts_intf sk = Some i" if "t \<in> set (tcp_socks_manager x)" for t
    using listed_sockets(2) [OF wf x that] by blast
  then have "w_tcp_socks w t \<noteq> None" if "t \<in> set (tcp_socks_manager x)" for t using that by blast
  from tcp_find_total [OF this] obtain r where r: "tcp_socks_manager_find (tcp_socks_manager x) (NTOHS (tcp_dst_port h)) w = Inr r"
    "\<And>t. r = Some t \<Longrightarrow> t \<in> set (tcp_socks_manager x)" by blast
  note start = flying_get [OF p] h i x r(1)
  have refused: "hands_over ?F p w (Inr (False, w))" using wf p by auto
  show ?thesis
  proof (cases r)
    case None
    with start refused show ?thesis by (simp add: tcp_input_def get_intf_def)
  next
    case (Some t)
    with r(2) socks obtain sk where sk: "w_tcp_socks w t = Some sk" "ts_bound sk" "ts_intf sk = Some i" by blast
    show ?thesis
    proof (cases "ip_hdr_off s")
      case None
      with Some start sk show ?thesis by (simp add: tcp_input_def get_intf_def get_tcp_sock_def)
    next
      case (Some k)
      with ip have "k + IP_HDR_SIZE \<le> length (buf s)" by (simp add: hdr_within_def)
      from ip.rd_ok [OF this] obtain iph where iph: "rd_hdr IP_HDR_SIZE dec_ip k s = Inr iph" by blast
      have own: "from_itself s w" if "is_ip_local (if_node x) (src_ip iph) w = Inr True"
        unfolding from_itself_def using Some iph i x that by blast
      note C = conns_okD(2) [OF wf_worldD(2) [OF wf] sk(1)]
      have "w_tcp_conns w c \<noteq> None" if "c \<in> set (ts_conns sk)" for c using C [OF that] by auto
      from find_conn_total [OF this] obtain rc where
        rc: "find_matching_connection (ts_conns sk) (src_ip iph) (NTOHS (tcp_src_port h)) w = Inr rc"
          "\<And>c. rc = Some c \<Longrightarrow> c \<in> set (ts_conns sk) \<and> (\<exists>cn. w_tcp_conns w c = Some cn \<and> tc_remote_ip cn = src_ip iph)"
        by blast
      have "hands_over ?F p w
        (case rc of
           Some c \<Rightarrow> bindE (get_tcp_conn c w) (\<lambda>cn.
             case tc_state cn of
               Handle_estab \<Rightarrow> handle_estab os d c p w
             | Handle_syn_sent \<Rightarrow> handle_syn_sent c p w)
         | None \<Rightarrow>
             if ts_listening sk \<and> fl_syn (tcp_flags h) \<and> \<not> fl_ack (tcp_flags h)
             then handle_new_connection os d t p w
             else Inr (False, w))"
      proof (cases rc)
        case None
        have "hands_over ?F p w (handle_new_connection os d t p w)"
          by (rule hands_over_weaken [OF handle_new_connection_safe [OF d wf p b Some iph sk x]])
            (use own in \<open>auto simp: tcp_risk_def\<close>)
        with None refused show ?thesis by simp
      next
        case (Some c)
        with rc(2) obtain cn where c: "c \<in> set (ts_conns sk)" and cn: "w_tcp_conns w c = Some cn" "tc_remote_ip cn = src_ip iph"
          by blast
        from C [OF c] cn have "tc_parent cn = t" by simp
        then have "from_itself s w" if "self_peer cn w" using that sk x cn(2) own by (auto simp: self_peer_def)
        then have "hands_over ?F p w (handle_estab os d c p w)"
          by (intro hands_over_weaken [OF handle_estab_safe [OF d wf p s b cn(1)]]) (auto simp: tcp_risk_def)
        with Some cn handle_syn_sent_safe [OF wf p b cn(1)] show ?thesis
          by (simp add: get_tcp_conn_def split: tcp_handle.split)
      qed
      with Some \<open>r = Some t\<close> start sk iph rc(1) show ?thesis
        by (simp add: tcp_input_def get_intf_def get_tcp_sock_def)
    qed
  qed
qed

section \<open>Local delivery\<close>

text \<open>A handler that runs on the packet behind its IP header, with one header pointer set.\<close>

definition behind :: "nat \<Rightarrow> skb \<Rightarrow> skb \<Rightarrow> bool" where
  "behind n s t \<longleftrightarrow> wf_skb t \<and> data_off t = data_off s + n \<and> skb_len t = skb_len s - n \<and> n \<le> skb_len s \<and>
     buf t = buf s \<and> skb_intf t = skb_intf s \<and> ip_hdr_off t = ip_hdr_off s"

lemma hdr_within_buf: "buf t = buf s \<Longrightarrow> hdr_within off n t = hdr_within off n s"
  by (cases off) (simp_all add: hdr_within_def)

lemma pull_then_safe:
  assumes wf: "wf_world w" and p: "flying p s w" and s: "wf_skb s"
    and short: "skb_len s < n \<Longrightarrow> F Assert_failed"
    and m: "\<And>v. m v = v\<lparr>tcp_hdr_off := g v, udp_hdr_off := g' v\<rparr>"
    and f: "\<And>t. behind n s t \<Longrightarrow> evolves {p} w (put_skb p t w) \<Longrightarrow> flying p t (put_skb p t w) \<Longrightarrow>
      hands_over F p (put_skb p t w) (f (put_skb p t w))"
  shows "hands_over F p w (bindE (on_skb p (\<lambda>s. bindE (skb_pull n s) (\<lambda>s. Inr (m s))) w) f)"
proof (cases "skb_len s < n")
  case True
  then show ?thesis using skb_pull_short [OF True s] short by (simp add: on_skb_def flying_get [OF p])
next
  case False
  then have n: "n \<le> skb_len s" by simp
  let ?t = "s\<lparr>data_off := data_off s + n, skb_len := skb_len s - n\<rparr>"
  have t: "skb_pull n s = Inr ?t" by (rule skb_pull_ok [OF n s])
  have "behind n s (m ?t)" using wf_skb_pull [OF s t] n by (simp add: m behind_def wf_skb_def)
  note put = evolves_put_skb [OF wf p, of "m ?t"]
  from hands_over_after [OF put(1) f [OF \<open>behind n s (m ?t)\<close> put]] t show ?thesis
    by (simp add: on_skb_def flying_get [OF p])
qed

lemma from_itself_behind:
  assumes "behind n s t" and e: "evolves {p} w (put_skb p t w)"
  shows "from_itself t (put_skb p t w) \<longleftrightarrow> from_itself s w"
  using evolves_local [OF e] assms(1) by (simp add: from_itself_def behind_def rd_hdr_def rd_bytes_def put_skb_def)

text \<open>The three protocols, for a packet with a header that names them.\<close>

lemma ip_room_within:
  "ip_room s \<Longrightarrow> hdr_within (ip_hdr_off s) IP_HDR_SIZE s"
  "ip_room s \<Longrightarrow> ip_hdr_off s = Some k \<Longrightarrow> k + IP_HDR_SIZE \<le> length (buf s) \<and> length (buf s) \<le> 2048"
  by (auto simp: ip_room_def hdr_within_def split: option.splits)

lemma deliver_icmp:
  assumes d: "deliver_ok d" and t: "behind IP_HDR_SIZE s t" "evolves {p} w (put_skb p t w)" "flying p t (put_skb p t w)"
    and room: "ip_room s" and i: "skb_intf s = Some i" and x: "w_intfs w i = Some x"
    and h: "ip_at s = Inr h" "ip_proto h = IP_PROTO_ICMP"
  shows "hands_over (risk s w) p (put_skb p t w) (icmp_input os d p (put_skb p t w))"
proof (rule hands_over_weaken [OF icmp_input_safe [OF d evolvesD(1) [OF t(2)] t(3)]])
  show "wf_skb t" "skb_intf t = Some i" using t(1) i by (simp_all add: behind_def)
  show "w_intfs (put_skb p t w) i = Some x" using x by (simp add: put_skb_def)
  show "ip_hdr_off t = Some k \<Longrightarrow> k + IP_HDR_SIZE \<le> length (buf t) \<and> length (buf t) \<le> 2048" for k
    using ip_room_within(2) [OF room, of k] t(1) by (auto simp: behind_def)
qed (use t(1) h in \<open>auto simp: risk_def unmarked_def icmp_at_def behind_def rd_hdr_def rd_bytes_def\<close>)

lemma deliver_tcp:
  assumes d: "deliver_ok d" and t: "behind IP_HDR_SIZE s t" "evolves {p} w (put_skb p t w)" "flying p t (put_skb p t w)"
    and room: "ip_room s" and i: "skb_intf s = Some i" and x: "w_intfs w i = Some x"
    and h: "ip_at s = Inr h" "ip_proto h = IP_PROTO_TCP"
  shows "hands_over (risk s w) p (put_skb p t w) (tcp_input os d p (put_skb p t w))"
proof (rule hands_over_weaken [OF tcp_input_safe [OF d evolvesD(1) [OF t(2)] t(3)]])
  show "wf_skb t" "skb_intf t = Some i" using t(1) i by (simp_all add: behind_def)
  show "w_intfs (put_skb p t w) i = Some x" using x by (simp add: put_skb_def)
  show "data_off t + TCP_HDR_SIZE \<le> length (buf t)"
    using t(1) room by (simp add: behind_def ip_room_def IP_HDR_SIZE_def TCP_HDR_SIZE_def)
  show "hdr_within (ip_hdr_off t) IP_HDR_SIZE t"
    using ip_room_within(1) [OF room] t(1) hdr_within_buf [of t s] by (simp add: behind_def)
  show "risk s w e" if "e = Out_of_fuel \<or> e = Assert_failed \<and> skb_len t < TCP_HDR_SIZE \<or>
      e = Null_deref \<and> (ip_hdr_off t = None \<or> from_itself t (put_skb p t w))" for e
    using that t(1) h unfolding from_itself_behind [OF t(1,2)]
    by (auto simp: risk_def truncated_def unmarked_def spoofed_def need_def behind_def)
qed

lemma deliver_udp:
  assumes t: "behind IP_HDR_SIZE s t" "evolves {p} w (put_skb p t w)" "flying p t (put_skb p t w)"
    and room: "ip_room s" and i: "skb_intf s = Some i" and x: "w_intfs w i = Some x"
    and h: "ip_at s = Inr h" "ip_proto h = IP_PROTO_UDP"
  shows "hands_over (risk s w) p (put_skb p t w) (udp_input p (put_skb p t w))"
proof (rule hands_over_weaken [OF udp_input_safe [OF evolvesD(1) [OF t(2)] t(3)]])
  show "wf_skb t" "skb_intf t = Some i" using t(1) i by (simp_all add: behind_def)
  show "w_intfs (put_skb p t w) i = Some x" using x by (simp add: put_skb_def)
  show "data_off t + UDP_HDR_SIZE \<le> length (buf t)"
    using t(1) room by (simp add: behind_def ip_room_def IP_HDR_SIZE_def UDP_HDR_SIZE_def)
  show "hdr_within (ip_hdr_off t) IP_HDR_SIZE t"
    using ip_room_within(1) [OF room] t(1) hdr_within_buf [of t s] by (simp add: behind_def)
qed (use t(1) h in \<open>auto simp: risk_def truncated_def need_def behind_def IP_PROTO_UDP_def IP_PROTO_TCP_def\<close>)

lemma ip_input_safe: "deliver_ok (ip_input k os)"
proof (induction k)
  case (Suc k)
  show ?case
    unfolding deliver_ok_def
  proof (intro allI impI)
    fix w p s i
    assume wf: "wf_world w" and p: "flying p s w" and room: "ip_room s" and i: "skb_intf s = Some i"
      and "w_intfs w i \<noteq> None"
    then obtain x where x: "w_intfs w i = Some x" by blast
    have s: "wf_skb s" using room by (simp add: ip_room_def frame_room_def)
    have "data_off s + 60 \<le> length (buf s)" using room by (simp add: ip_room_def)
    then obtain h where h: "ip_at s = Inr h" using ip.rd_ok [of "data_off s" s] by (auto simp: ip_at_def IP_HDR_SIZE_def)
    have short: "risk s w Assert_failed" if "skb_len s < IP_HDR_SIZE" using that h by (auto simp: risk_def truncated_def)
    note pull = pull_then_safe [where F = "risk s w" and n = IP_HDR_SIZE, OF wf p s short]
    have icmp: "hands_over (risk s w) p w (bindE (on_skb p (skb_pull IP_HDR_SIZE) w) (\<lambda>w. icmp_input os (ip_input k os) p w))"
      if "ip_proto h = IP_PROTO_ICMP"
      using pull [where m = "\<lambda>s. s" and g = tcp_hdr_off and g' = udp_hdr_off
          and f = "\<lambda>w. icmp_input os (ip_input k os) p w"] deliver_icmp [OF Suc.IH _ _ _ room i x h that]
      by (simp add: bindE_Inr)
    have tcp: "hands_over (risk s w) p w
        (bindE (on_skb p (\<lambda>s. bindE (skb_pull IP_HDR_SIZE s) (\<lambda>s. Inr (s\<lparr>tcp_hdr_off := Some (data_off s)\<rparr>))) w)
          (\<lambda>w. tcp_input os (ip_input k os) p w))"
      if "ip_proto h = IP_PROTO_TCP"
      by (rule pull [where g = "\<lambda>s. Some (data_off s)" and g' = udp_hdr_off])
        (use deliver_tcp [OF Suc.IH _ _ _ room i x h that] in simp_all)
    have udp: "hands_over (risk s w) p w
        (bindE (on_skb p (\<lambda>s. bindE (skb_pull IP_HDR_SIZE s) (\<lambda>s. Inr (s\<lparr>udp_hdr_off := Some (data_off s)\<rparr>))) w)
          (\<lambda>w. udp_input p w))"
      if "ip_proto h = IP_PROTO_UDP"
      by (rule pull [where g = tcp_hdr_off and g' = "\<lambda>s. Some (data_off s)"])
        (use deliver_udp [OF _ _ _ room i x h that] in simp_all)
    show "hands_over (risk s w) p w (ip_input (Suc k) os p w)"
      using flying_get [OF p] h icmp tcp udp wf p by (auto simp: ip_at_def)
  qed
qed (simp add: deliver_ok_def risk_def)

end
