(* ===== verification/Safe_Frame.thy ===== *)
theory Safe_Frame
  imports Safe_Input
begin

text \<open>
  From a frame to the protocols: \<open>ip_preroute\<close>, \<open>ethernet_input\<close>, \<open>pkt_receive\<close> and the body of
  \<open>recv_task\<close> keep the invariant of theory World_Ok, whatever the bytes of the frame.  Two faults
  remain, each with the frames that cause it.
\<close>

section \<open>IP and Ethernet\<close>

lemma ip_preroute_safe:
  assumes wf: "wf_world w" and p: "flying p s w" and room: "ip_room s" and i: "skb_intf s = Some i" and x: "w_intfs w i = Some x"
  shows "hands_over (risk s w) p w (ip_preroute k os p w)"
proof -
  have "data_off s + IP_HDR_SIZE \<le> length (buf s)" using room by (simp add: ip_room_def IP_HDR_SIZE_def)
  then obtain h where h: "ip_at s = Inr h" using ip.rd_ok by (auto simp: ip_at_def)
  from live_intf(2) [OF wf x] obtain nd where "w_nodes w (if_node x) = Some nd" by blast
  from is_ip_local_total [OF wf this] obtain local where local: "is_ip_local (if_node x) (dst_ip h) w = Inr local" by blast
  have "hands_over (risk s w) p w (ip_input k os p w)"
    using ip_input_safe wf p room i x unfolding deliver_ok_def by blast
  with ip_forward_safe [OF wf p room h i x] show ?thesis
    using flying_get [OF p] h i x local by (cases local) (simp_all add: ip_preroute_def ip_at_def get_intf_def)
qed

text \<open>A received frame in its buffer: the fixed size, behind the reserved bytes, no pointer set.\<close>

definition received :: "skb \<Rightarrow> intf_id \<Rightarrow> bool" where
  "received s i \<longleftrightarrow> wf_skb s \<and> data_off s = RECV_RESERVED_HEAD_ROOM \<and> length (buf s) = RECV_BUFFER_SIZE \<and>
     skb_intf s = Some i \<and> ip_hdr_off s = None"

text \<open>Its IP header, and what can go wrong with it at an interface.\<close>

definition recv_risk :: "skb \<Rightarrow> intf \<Rightarrow> world \<Rightarrow> fault \<Rightarrow> bool" where
  "recv_risk s x w e \<longleftrightarrow> (\<exists>h. rd_hdr IP_HDR_SIZE dec_ip 18 s = Inr h \<and>
     (e = Out_of_fuel \<or> e = Assert_failed \<and> skb_len s < 34 + need (ip_proto h) \<or>
      e = Null_deref \<and> 34 \<le> skb_len s \<and> ip_proto h = IP_PROTO_TCP \<and> is_ip_local (if_node x) (src_ip h) w = Inr True))"

lemma arp_demux_safe:
  assumes wf: "wf_world w" and p: "flying p s w" and s: "wf_skb s" "data_off s = 4" "length (buf s) = 2048" "skb_intf s = Some i"
    and x: "w_intfs w i = Some x" and n: "ETH_HDR_SIZE \<le> skb_len s"
  shows "hands_over F p w (bindE (on_skb p (skb_pull ETH_HDR_SIZE) w) (\<lambda>w. arp_input os p w))"
proof -
  let ?t = "s\<lparr>data_off := 18, skb_len := skb_len s - ETH_HDR_SIZE\<rparr>"
  have pull: "skb_pull ETH_HDR_SIZE s = Inr ?t" using skb_pull_ok [OF n s(1)] s(2) by (simp add: ETH_HDR_SIZE_def)
  note put = evolves_put_skb [OF wf p, of ?t]
  have "hands_over F p (put_skb p ?t w) (arp_input os p (put_skb p ?t w))"
    by (rule arp_input_safe [OF evolvesD(1) [OF put(1)] put(2) wf_skb_pull [OF s(1) pull]])
      (use s x in \<open>simp_all add: put_skb_def\<close>)
  from hands_over_after [OF put(1) this] pull show ?thesis by (simp add: on_skb_def flying_get [OF p])
qed

lemma ip_demux_safe:
  assumes wf: "wf_world w" and p: "flying p t w" and t: "t = s\<lparr>ethernet_hdr_off := off\<rparr>" and s: "received s i"
    and x: "w_intfs w i = Some x" and n: "ETH_HDR_SIZE \<le> skb_len s"
  shows "hands_over (recv_risk s x w) p w (bindE (on_skb p (\<lambda>s. bindE (skb_pull ETH_HDR_SIZE s)
        (\<lambda>s. Inr (s\<lparr>ip_hdr_off := Some (data_off s)\<rparr>))) w) (\<lambda>w. ip_preroute k os p w))"
proof -
  have d: "data_off t = 4" "skb_len t = skb_len s" "length (buf t) = 2048" "skb_intf t = Some i" and wft: "wf_skb t"
    using s by (simp_all add: t received_def RECV_RESERVED_HEAD_ROOM_def RECV_BUFFER_SIZE_def wf_skb_def)
  let ?t = "t\<lparr>data_off := 18, skb_len := skb_len s - ETH_HDR_SIZE\<rparr>"
  have pull: "skb_pull ETH_HDR_SIZE t = Inr ?t" using skb_pull_ok [of ETH_HDR_SIZE t] n wft d by (simp add: ETH_HDR_SIZE_def)
  let ?u = "?t\<lparr>ip_hdr_off := Some 18\<rparr>"
  note put = evolves_put_skb [OF wf p, of ?u]
  let ?v = "put_skb p ?u w"
  have "frame_room ?u" using wf_skb_pull [OF wft pull] d s
    by (auto simp: frame_room_def wf_skb_def skb_tailroom_def ETH_HDR_SIZE_def received_def)
  then have room: "ip_room ?u" using d by (simp add: ip_room_def IP_HDR_SIZE_def)
  have "data_off s = 4" "length (buf s) = 2048" using d(1,3) by (simp_all add: t)
  then obtain h where h: "rd_hdr IP_HDR_SIZE dec_ip 18 s = Inr h" using ip.rd_ok [of 18 s] by (auto simp: IP_HDR_SIZE_def)
  have rd: "rd_hdr IP_HDR_SIZE dec_ip 18 ?u = Inr h" using h rd_hdr_buf [of ?u s IP_HDR_SIZE dec_ip 18] by (simp add: t)
  then have hd: "ip_at ?u = Inr h" by (simp add: ip_at_def)
  have "hands_over (recv_risk s x w) p ?v (ip_preroute k os p ?v)"
  proof (rule hands_over_weaken [OF ip_preroute_safe [OF evolvesD(1) [OF put(1)] put(2) room]])
    show "skb_intf ?u = Some i" using d by simp
    show "w_intfs ?v i = Some x" using x by (simp add: put_skb_def)
    have live: "w_intfs ?v = w_intfs w" by (simp add: put_skb_def)
    show "risk ?u ?v e \<Longrightarrow> recv_risk s x w e" for e
      using h d(4) x n rd evolves_local [OF put(1)]
      unfolding risk_def truncated_def unmarked_def spoofed_def from_itself_def recv_risk_def hd live
      by (auto simp: IP_HDR_SIZE_def ETH_HDR_SIZE_def)
  qed
  from hands_over_after [OF put(1) this] pull show ?thesis by (simp add: on_skb_def flying_get [OF p] d(1))
qed

lemma ethernet_input_safe:
  assumes wf: "wf_world w" and p: "flying p s w" and s: "received s i" and x: "w_intfs w i = Some x"
  shows "hands_over (recv_risk s x w) p w (ethernet_input k os p w)"
proof -
  let ?F = "recv_risk s x w"
  let ?s = "s\<lparr>ethernet_hdr_off := Some (data_off s)\<rparr>"
  have d: "data_off s = 4" "length (buf s) = 2048" "skb_intf s = Some i" and wfs: "wf_skb ?s"
    using s by (simp_all add: received_def RECV_RESERVED_HEAD_ROOM_def RECV_BUFFER_SIZE_def wf_skb_def)
  note put = evolves_put_skb [OF wf p, of ?s]
  let ?w = "put_skb p ?s w"
  have wf': "wf_world ?w" by (rule evolvesD(1) [OF put(1)])
  have x': "w_intfs ?w i = Some x" using x by (simp add: put_skb_def)
  have refused: "hands_over ?F p w (Inr (False, ?w))" using put by auto
  show ?thesis
  proof (cases "skb_len s < ETH_HDR_SIZE")
    case True
    with refused flying_get [OF p] show ?thesis by (simp add: ethernet_input_def Let_def)
  next
    case False
    then have n: "ETH_HDR_SIZE \<le> skb_len ?s" by simp
    obtain hdr where hdr: "rd_hdr ETH_HDR_SIZE dec_eth (data_off s) ?s = Inr hdr"
      using eth.rd_ok [of "data_off s" ?s] d by (auto simp: ETH_HDR_SIZE_def)
    have arp: "hands_over ?F p ?w (bindE (on_skb p (skb_pull ETH_HDR_SIZE) ?w) (\<lambda>w. arp_input os p w))"
      by (rule arp_demux_safe [OF wf' put(2) wfs _ _ _ x' n]) (use d in simp_all)
    have "recv_risk s x ?w = ?F" using evolves_local [OF put(1)] by (simp add: recv_risk_def fun_eq_iff)
    with ip_demux_safe [OF wf' put(2) refl s x'] n
    have ip: "hands_over ?F p ?w (bindE (on_skb p (\<lambda>s. bindE (skb_pull ETH_HDR_SIZE s)
        (\<lambda>s. Inr (s\<lparr>ip_hdr_off := Some (data_off s)\<rparr>))) ?w) (\<lambda>w. ip_preroute k os p w))" by simp
    have "hands_over ?F p w (if \<not> ethernet_input_qualify x hdr then Inr (False, ?w)
      else if eth_type hdr = HTONS ETH_PROTO_ARP then bindE (on_skb p (skb_pull ETH_HDR_SIZE) ?w) (\<lambda>w. arp_input os p w)
      else if eth_type hdr = HTONS ETH_PROTO_IP
      then bindE (on_skb p (\<lambda>s. bindE (skb_pull ETH_HDR_SIZE s) (\<lambda>s. Inr (s\<lparr>ip_hdr_off := Some (data_off s)\<rparr>))) ?w)
             (\<lambda>w. ip_preroute k os p w)
      else Inr (False, ?w))"
      using refused hands_over_after [OF put(1) arp] hands_over_after [OF put(1) ip] by simp
    then show ?thesis
      using False flying_get [OF p] hdr d x' unfolding ethernet_input_def Let_def by (simp add: get_intf_def)
  qed
qed

lemma pkt_receive_safe:
  assumes wf: "wf_world w" and p: "flying p s w" and s: "received s i" and x: "w_intfs w i = Some x"
  shows "hands_over (recv_risk s x w) p w (pkt_receive k os p w)"
proof -
  define w1 where "w1 = (if receive_callback w then emit (Ev_receive_callback (payload s) i) w else w)"
  have e: "evolves {p} w w1"
    using evolves_weaken [OF evolves_trace [OF wf]] wf by (simp add: w1_def emit_def)
  have p1: "flying p s w1" using p by (simp add: w1_def emit_def flying_def)
  have x1: "w_intfs w1 i = Some x" using x evolvesD(4) [OF e] by simp
  have "recv_risk s x w1 = recv_risk s x w"
    using evolves_local [OF e] by (simp add: recv_risk_def fun_eq_iff)
  with ethernet_input_safe [OF evolvesD(1) [OF e] p1 s x1]
  have "hands_over (recv_risk s x w) p w1 (if is_ip_addr_config x then ethernet_input k os p w1 else switch_input p w1)"
    using e p1 evolvesD(1) [OF e] by (auto simp: switch_input_def)
  from hands_over_after [OF e this] show ?thesis
    using flying_get [OF p] s x1 rd_payload [of s]
    by (simp add: pkt_receive_def received_def w1_def get_intf_def split: if_splits)
qed

section \<open>A frame from the operating system\<close>

text \<open>The IP header of a frame, completed with the zeros of the buffer when the frame is short.\<close>

definition frame_ip :: "u8 list \<Rightarrow> ip_hdr" where
  "frame_ip f = dec_ip (take IP_HDR_SIZE (drop ETH_HDR_SIZE f @ replicate IP_HDR_SIZE 0))"

definition frame_risk :: "u8 list \<Rightarrow> intf \<Rightarrow> world \<Rightarrow> fault \<Rightarrow> bool" where
  "frame_risk f x w e \<longleftrightarrow> e = Assert_failed \<and> length f < 34 + need (ip_proto (frame_ip f)) \<or>
     e = Null_deref \<and> 34 \<le> length f \<and> ip_proto (frame_ip f) = IP_PROTO_TCP \<and>
       is_ip_local (if_node x) (src_ip (frame_ip f)) w = Inr True"

lemma frame_ip_take: "34 \<le> n \<Longrightarrow> frame_ip (take n f) = frame_ip f"
proof -
  assume n: "34 \<le> n"
  have "take 20 (drop 14 (take n f) @ replicate 20 0) = take 20 (drop 14 f @ replicate 20 0)"
    using n by (cases "length f \<le> n") (simp_all add: drop_take)
  then show ?thesis by (simp add: frame_ip_def IP_HDR_SIZE_def ETH_HDR_SIZE_def)
qed

lemma frame_risk_take: "frame_risk (take 2044 f) x w e \<Longrightarrow> frame_risk f x w e"
proof -
  have "need q \<le> 20" for q by (simp add: need_def TCP_HDR_SIZE_def UDP_HDR_SIZE_def)
  then have "min (length f) 2044 < 34 + need q \<longleftrightarrow> length f < 34 + need q" for q
    using le_trans [of "34 + need q" 54 2044] by (auto simp: min_def)
  then show "frame_risk (take 2044 f) x w e \<Longrightarrow> frame_risk f x w e"
    by (auto simp: frame_risk_def frame_ip_take)
qed

lemma slice_of_frame:
  assumes "length f \<le> 2044"
  shows "slice 18 20 (write_at 4 f (replicate 2048 0)) = take 20 (drop 14 f @ replicate 20 (0 :: u8))"
  by (rule nth_equalityI) (use assms in \<open>auto simp: nth_slice nth_write_at nth_append slice_def write_at_def\<close>)

text \<open>The buffer that is dropped at once when nothing was received.\<close>

lemma drop_skb_safe: "wf_world w \<Longrightarrow> evolves {} w (drop_skb s w)"
proof -
  assume wf: "wf_world w"
  obtain p w1 where n: "new_skb s w = (p, w1)" by fastforce
  note new = new_skb_safe [OF wf n]
  from free_skb_safe [OF evolvesD(1) [OF new(1)] new(2)] new(2)
  have "evolves {p} w1 (w1\<lparr>w_skbs := (w_skbs w1)(p := None)\<rparr>)" by (simp add: free_skb_def flying_def)
  from evolves_trans [OF evolves_weaken [OF new(1)] this]
  have "evolves {} w (w1\<lparr>w_skbs := (w_skbs w1)(p := None)\<rparr>)"
    by (rule evolves_fresh) (simp add: new(3))
  then show ?thesis using n by (simp add: drop_skb_def)
qed

lemma received_bytes_safe:
  assumes wf: "wf_world w" and x: "w_intfs w i = Some x" and f: "length f \<le> 2044"
    and s: "buf s = write_at 4 f (replicate 2048 0)" "data_off s = 4" "tail_off s = 4 + length f" "skb_len s = length f"
      "skb_intf s = Some i" "ip_hdr_off s = None"
  shows "runs (\<lambda>e. e = Out_of_fuel \<or> frame_risk f x w e) (evolves {} w)
    (let (p, w) = new_skb s w in bindE (pkt_receive k os p w) (\<lambda>(ok, w). if \<not> ok then free_skb p w else Inr w))"
proof -
  have len: "length (buf s) = 2048" using f by (simp add: s)
  have rcv: "received s i"
    using f s len by (simp add: received_def wf_skb_def RECV_RESERVED_HEAD_ROOM_def RECV_BUFFER_SIZE_def)
  obtain p w1 where n: "new_skb s w = (p, w1)" by fastforce
  note new = new_skb_safe [OF wf n]
  have x1: "w_intfs w1 i = Some x" using x evolvesD(4) [OF new(1)] by simp
  have hdr: "rd_hdr IP_HDR_SIZE dec_ip 18 s = Inr (frame_ip f)"
    using ip.rd_ok [of 18 s] len slice_of_frame [OF f] by (simp add: s(1) frame_ip_def IP_HDR_SIZE_def ETH_HDR_SIZE_def)
  have "runs (\<lambda>e. e = Out_of_fuel \<or> frame_risk f x w e) (evolves {} w)
    (bindE (pkt_receive k os p w1) (\<lambda>(ok, w). if \<not> ok then free_skb p w else Inr w))"
  proof (rule runs_weaken [OF hands_over_free [OF pkt_receive_safe [OF evolvesD(1) [OF new(1)] new(2) rcv x1]]])
    show "recv_risk s x w1 e \<Longrightarrow> e = Out_of_fuel \<or> frame_risk f x w e" for e
      using hdr by (auto simp: recv_risk_def frame_risk_def s evolves_local [OF new(1)])
    show "evolves {} w w'" if "evolves {p} w1 w'" for w'
      by (rule evolves_fresh [OF evolves_trans [OF evolves_weaken [OF new(1)] that]]) (simp add: new(3))
  qed
  then show ?thesis using n by simp
qed

lemma recv_frame_runs:
  assumes wf: "wf_world w" and x: "w_intfs w i = Some x"
  shows "runs (\<lambda>e. e = Out_of_fuel \<or> (\<exists>f. waiting = Some f \<and> frame_risk f x w e)) (evolves {} w)
    (recv_frame k os i waiting w)"
proof -
  define s0 where "s0 = (alloc_skb 2048)\<lparr>data_off := 4, tail_off := 4, skb_intf := Some i\<rparr>"
  define s1 where "s1 = (alloc_skb 2048)\<lparr>data_off := 4, tail_off := 4\<rparr>"
  have start: "skb_reserve RECV_RESERVED_HEAD_ROOM (alloc_skb RECV_BUFFER_SIZE) = Inr s1" "s1\<lparr>skb_intf := Some i\<rparr> = s0"
    by (simp_all add: s0_def s1_def skb_reserve_def alloc_skb_def RECV_RESERVED_HEAD_ROOM_def RECV_BUFFER_SIZE_def Let_def)
  have room: "skb_tailroom s0 = 2044" by (simp add: s0_def skb_tailroom_def alloc_skb_def)
  have rcv: "recv_bytes (if_comm x) waiting (skb_tailroom s0) = Inr (map_option (take 2044) waiting)"
    using recv_bytes_open [OF live_intf(1) [OF wf x]] by (simp add: room)
  have eq: "recv_frame k os i waiting w = (case map_option (take 2044) waiting of
      None \<Rightarrow> Inr (drop_skb s0 w)
    | Some bytes \<Rightarrow> if bytes = [] then Inr (drop_skb s0 w) else
        bindE (wr_bytes (data_off s0) bytes s0) (\<lambda>s. bindE (skb_put (length bytes) s) (\<lambda>s.
          let (p, w) = new_skb s w in bindE (pkt_receive k os p w) (\<lambda>(ok, w). if \<not> ok then free_skb p w else Inr w))))"
    using rcv x unfolding recv_frame_def start(1) bindE_simps Let_def start(2) by (simp add: get_intf_def)
  show ?thesis
  proof (cases "waiting = None \<or> waiting = Some []")
    case True
    then show ?thesis unfolding eq using drop_skb_safe [OF wf] by auto
  next
    case False
    then obtain f where f: "waiting = Some f" "f \<noteq> []" by auto
    let ?b = "take 2044 f"
    let ?s = "s0\<lparr>buf := write_at 4 ?b (replicate 2048 0), tail_off := 4 + length ?b, skb_len := length ?b\<rparr>"
    have wr: "wr_bytes (data_off s0) ?b s0 = Inr (s0\<lparr>buf := write_at 4 ?b (replicate 2048 0)\<rparr>)"
      by (simp add: wr_bytes_def s0_def alloc_skb_def)
    have put: "skb_put (length ?b) (s0\<lparr>buf := write_at 4 ?b (replicate 2048 0)\<rparr>) = Inr ?s"
      by (simp add: skb_put_def s0_def alloc_skb_def Let_def size_add_def)
    have "runs (\<lambda>e. e = Out_of_fuel \<or> frame_risk ?b x w e) (evolves {} w)
      (let (p, w) = new_skb ?s w in bindE (pkt_receive k os p w) (\<lambda>(ok, w). if \<not> ok then free_skb p w else Inr w))"
      by (rule received_bytes_safe [OF wf x]) (simp_all add: s0_def alloc_skb_def)
    then show ?thesis
      unfolding eq using f wr put frame_risk_take [of f x w] by (auto elim!: runs_weaken)
  qed
qed

end
