(* ===== verification/Safe_Socket.thy ===== *)
theory Safe_Socket
  imports Safe_Frame
begin

text \<open>
  The socket calls under the invariant of theory World_Ok: sockets are created, bound, closed,
  read and written on any descriptor the application passes.  What can go wrong is named in each
  lemma; most calls cannot.
\<close>

section \<open>Changes of the socket tables\<close>

definition bare_intf :: "intf \<Rightarrow> intf" where
  "bare_intf x = x\<lparr>tcp_socks_manager := [], udp_socks_manager := []\<rparr>"

text \<open>Everything but the sockets, their descriptors and the lists of the interfaces is the same.\<close>

definition same_but_socks :: "world \<Rightarrow> world \<Rightarrow> bool" where
  "same_but_socks w w' \<longleftrightarrow> w_nodes w' = w_nodes w \<and> w_links w' = w_links w \<and> w_graphs w' = w_graphs w \<and>
    w_skbs w' = w_skbs w \<and> w_tcp_conns w' = w_tcp_conns w \<and> fd_to_comm_map w' = fd_to_comm_map w \<and>
    map_option bare_intf \<circ> w_intfs w' = map_option bare_intf \<circ> w_intfs w"

lemma bare_intf_port: "port_of (bare_intf x) = port_of x" "intf_ok (bare_intf x) = intf_ok x"
    "if_comm (bare_intf x) = if_comm x"
  by (simp_all add: bare_intf_def port_of_def intf_ok_def)

lemma bare_intf_eq:
  assumes "bare_intf y = bare_intf x"
  shows "port_of y = port_of x" "intf_ok y = intf_ok x" "if_comm y = if_comm x"
  using arg_cong [OF assms, of port_of] arg_cong [OF assms, of intf_ok] arg_cong [OF assms, of if_comm]
  by (simp_all add: bare_intf_port)

lemma same_but_socksD:
  assumes "same_but_socks w w'"
  shows "w_intfs w' i = Some y \<Longrightarrow> \<exists>x. w_intfs w i = Some x \<and> bare_intf y = bare_intf x"
    "w_intfs w' i = None \<longleftrightarrow> w_intfs w i = None" "ports_map w' = ports_map w"
proof -
  from assms have e: "map_option bare_intf \<circ> w_intfs w' = map_option bare_intf \<circ> w_intfs w"
    by (simp add: same_but_socks_def)
  show "w_intfs w' i = Some y \<Longrightarrow> \<exists>x. w_intfs w i = Some x \<and> bare_intf y = bare_intf x"
    using map_option_comp_eq [OF e] .
  show "w_intfs w' i = None \<longleftrightarrow> w_intfs w i = None"
    using fun_cong [OF e, of i] by (cases "w_intfs w i"; cases "w_intfs w' i") auto
  have "ports_map v = map_option port_of \<circ> (map_option bare_intf \<circ> w_intfs v)" for v
    by (simp add: fun_eq_iff ports_map_def option.map_comp comp_def bare_intf_port)
  then show "ports_map w' = ports_map w" using e by simp
qed

lemma intf_upd:
  "w_intfs w i = Some x \<Longrightarrow> f y = f x \<Longrightarrow> map_option f \<circ> (w_intfs w)(i \<mapsto> y) = map_option f \<circ> w_intfs w"
  by (rule map_option_comp_upd [of "w_intfs w"])

text \<open>Queues that are kept or emptied.\<close>

lemma queues_kept:
  assumes ok: "queues_ok w" and skbs: "w_skbs w' = w_skbs w" and q: "\<And>q. queue q w' = queue q w \<or> queue q w' = []"
    and fits: "\<And>q p s. p \<in> set (queue q w') \<Longrightarrow> w_skbs w p = Some s \<Longrightarrow> fits q w s \<Longrightarrow> fits q w' s"
  shows "queues_ok w'"
proof -
  have sub: "p \<in> set (queue q w)" if "p \<in> set (queue q w')" for p q
    using q [of q] that by (auto simp del: queue.simps)
  show ?thesis
    unfolding queues_ok_def skbs
  proof (intro conjI allI ballI impI)
    show "distinct (queue q w')" for q using q [of q] queues_okD(1) [OF ok, of q] by (auto simp del: queue.simps)
    show "\<exists>s. w_skbs w p = Some s \<and> fits q w' s" if "p \<in> set (queue q w')" for p q
      using queues_okD(2) [OF ok sub [OF that]] fits [OF that] by blast
    show "q = q'" if "p \<in> set (queue q w')" "p \<in> set (queue q' w')" for p q q'
      using queues_okD(3) [OF ok] sub that by blast
  qed
qed

lemma wf_socks_change:
  assumes wf: "wf_world w" and c: "same_but_socks w w'"
    and udp: "udp_registry w'" "\<And>u sk. w_udp_socks w' u = Some sk \<Longrightarrow> udp_sock_ok w sk"
      "fds_ok MAX_UDP_SOCKS (w_udp_socks w') (udp_fd_to_sock w')"
    and tcp: "tcp_registry w'" "\<And>t sk. w_tcp_socks w' t = Some sk \<Longrightarrow> tcp_sock_ok w sk"
      "fds_ok MAX_TCP_SOCKS (w_tcp_socks w') (tcp_fd_to_sock w')"
    and conns: "conns_ok w'"
    and q: "\<And>u. queue (Udp_queue u) w' = queue (Udp_queue u) w \<or> queue (Udp_queue u) w' = []"
    and n: "w_next w \<le> w_next w'" "\<And>u. w_udp_socks w' u \<noteq> None \<Longrightarrow> u < w_next w'" "\<And>t. w_tcp_socks w' t \<noteq> None \<Longrightarrow> t < w_next w'"
  shows "wf_world w'"
proof -
  from c have S: "w_nodes w' = w_nodes w" "w_links w' = w_links w" "w_graphs w' = w_graphs w" "w_skbs w' = w_skbs w"
    "w_tcp_conns w' = w_tcp_conns w" "fd_to_comm_map w' = fd_to_comm_map w"
    by (simp_all add: same_but_socks_def)
  note D = same_but_socksD [OF c] and C = wf_worldD(1) [OF wf, unfolded config_ok_def]
  have maps: "slots_map w' = slots_map w" "ends_map w' = ends_map w"
    by (simp_all add: slots_map_def ends_map_def fun_eq_iff S)
  have intfs: "intf_ok y" if "w_intfs w' i = Some y" for i y
  proof -
    from D(1) [OF that] obtain x where x: "w_intfs w i = Some x" "bare_intf y = bare_intf x" by blast
    from C x(1) have "intf_ok x" by blast
    then show ?thesis using bare_intf_eq(2) [OF x(2)] by simp
  qed
  have live: "node_ok w' nd = node_ok w nd" "udp_sock_ok w' us = udp_sock_ok w us" "tcp_sock_ok w' ts = tcp_sock_ok w ts"
    for nd us ts by (simp_all add: node_ok_def udp_sock_ok_def tcp_sock_ok_def S D(2))
  from C have nodes: "w_nodes w n = Some nd \<Longrightarrow> node_ok w nd"
    and graphs: "w_graphs w g = Some gr \<Longrightarrow> graph_ok w gr"
    and shape: "wf_shape (slots_map w) (ports_map w) (ends_map w)"
    and comms: "comms_ok w"
    for n nd g gr by blast+
  have comms': "comms_ok w'"
    unfolding comms_ok_def
  proof (intro conjI allI impI)
    fix k i
    assume k: "k < MAX_COMMS" "fd_to_comm_map w' ! k = Some i"
    with comms obtain x where x: "w_intfs w i = Some x" "comm_fd (if_comm x) = int k" by (auto simp: comms_ok_def S(6))
    with D(2) [of i] obtain y where y: "w_intfs w' i = Some y" by auto
    from D(1) [OF y] x(1) have "bare_intf y = bare_intf x" by simp
    from bare_intf_eq(3) [OF this] x(2) y show "\<exists>x. w_intfs w' i = Some x \<and> comm_fd (if_comm x) = int k" by simp
  qed (use comms in \<open>simp add: comms_ok_def S(6)\<close>)
  have graphs': "w_graphs w g = Some gr \<Longrightarrow> graph_ok w' gr" for g gr using graphs by (simp add: graph_ok_def S(1))
  have config: "config_ok w'"
    unfolding config_ok_def maps D(2,3) live S
    using shape nodes intfs udp tcp graphs' comms' by blast
  have qs: "queue q w' = queue q w \<or> queue q w' = []" for q
    using q by (cases q) (simp_all add: queue.simps S)
  have fits: "fits q w' s = fits q w s" for q s by (cases q) (simp_all add: D(2))
  have "queues_ok w'" by (rule queues_kept [OF wf_worldD(4) [OF wf] S(4) qs]) (simp add: fits)
  moreover have "arp_ok w'" using wf_worldD(3) [OF wf] by (simp add: arp_ok_def S)
  moreover have "fresh_ok w'"
    unfolding fresh_ok_def
  proof (intro allI impI)
    fix k
    assume k: "w_nodes w' k \<noteq> None \<or> w_intfs w' k \<noteq> None \<or> w_links w' k \<noteq> None \<or> w_skbs w' k \<noteq> None \<or>
      w_udp_socks w' k \<noteq> None \<or> w_tcp_socks w' k \<noteq> None \<or> w_tcp_conns w' k \<noteq> None \<or> w_graphs w' k \<noteq> None"
    show "k < w_next w'"
    proof (cases "w_udp_socks w' k = None \<and> w_tcp_socks w' k = None")
      case True
      with k have "w_nodes w k \<noteq> None \<or> w_intfs w k \<noteq> None \<or> w_links w k \<noteq> None \<or> w_skbs w k \<noteq> None \<or>
        w_tcp_conns w k \<noteq> None \<or> w_graphs w k \<noteq> None" by (simp only: S D(2) not_False_eq_True simp_thms)
      with wf_worldD(5) [OF wf] have "k < w_next w" unfolding fresh_ok_def by blast
      with n(1) show ?thesis by simp
    qed (use n in blast)
  qed
  ultimately show ?thesis using config conns by (simp add: wf_world_def)
qed

text \<open>The parts the calls of one protocol do not touch.\<close>

lemma config_parts:
  assumes "wf_world w"
  shows "udp_registry w" "tcp_registry w" "fds_ok MAX_UDP_SOCKS (w_udp_socks w) (udp_fd_to_sock w)"
    "fds_ok MAX_TCP_SOCKS (w_tcp_socks w) (tcp_fd_to_sock w)"
    "w_udp_socks w u = Some us \<Longrightarrow> udp_sock_ok w us" "w_tcp_socks w t = Some ts \<Longrightarrow> tcp_sock_ok w ts"
    "w_udp_socks w u \<noteq> None \<Longrightarrow> u < w_next w" "w_tcp_socks w t \<noteq> None \<Longrightarrow> t < w_next w"
  using wf_worldD(1) [OF assms] wf_worldD(5) [OF assms] unfolding config_ok_def fresh_ok_def by blast+

text \<open>Descriptors: a new one for a new socket, and one that is given up.\<close>

lemma fds_ok_new:
  assumes ok: "fds_ok n t fds" and k: "first_free fds 0 = Some k" and u: "t u = None"
  shows "fds_ok n (t(u \<mapsto> x)) (fds[k := Some u])"
proof -
  have len: "length fds = n" and live: "\<And>j v. j < n \<Longrightarrow> fds ! j = Some v \<Longrightarrow> t v \<noteq> None"
    and inj: "\<And>i j v. i < n \<Longrightarrow> j < n \<Longrightarrow> fds ! i = Some v \<Longrightarrow> fds ! j = Some v \<Longrightarrow> i = j"
    using ok unfolding fds_ok_def by blast+
  have other: "fds ! j \<noteq> Some u" if "j < n" for j using live [OF that] u by auto
  have entry: "fds[k := Some u] ! j = (if j = k then Some u else fds ! j)" for j
    using first_free_Some [OF k] by (simp add: nth_list_update)
  show ?thesis
    unfolding fds_ok_def entry using len live inj other by (auto split: if_splits)
qed

lemma fds_ok_del:
  assumes ok: "fds_ok n t fds" and k: "k < n" "fds ! k = Some u"
  shows "fds_ok n (t(u := None)) (fds[k := None])"
proof -
  have len: "length fds = n" and live: "\<And>j v. j < n \<Longrightarrow> fds ! j = Some v \<Longrightarrow> t v \<noteq> None"
    and inj: "\<And>i j v. i < n \<Longrightarrow> j < n \<Longrightarrow> fds ! i = Some v \<Longrightarrow> fds ! j = Some v \<Longrightarrow> i = j"
    using ok unfolding fds_ok_def by blast+
  have other: "fds ! j \<noteq> Some u" if "j < n" "j \<noteq> k" for j using inj [OF that(1) k(1) _ k(2)] that(2) by blast
  have entry: "fds[k := None] ! j = (if j = k then None else fds ! j)" for j using len k(1) by (simp add: nth_list_update)
  show ?thesis
    unfolding fds_ok_def entry using len live inj other by (auto split: if_splits)
qed

lemma fds_ok_upd: "fds_ok n t fds \<Longrightarrow> fds_ok n (t(u \<mapsto> x)) fds"
  unfolding fds_ok_def by (metis fun_upd_apply option.distinct(1))

lemma fd_live:
  assumes "wf_world w"
  shows "udp_sock_of_fd fd w = Some u \<Longrightarrow> nat fd < MAX_UDP_SOCKS \<and> udp_fd_to_sock w ! nat fd = Some u \<and> (\<exists>sk. w_udp_socks w u = Some sk)"
    "tcp_sock_of_fd fd w = Some u \<Longrightarrow> nat fd < MAX_TCP_SOCKS \<and> tcp_fd_to_sock w ! nat fd = Some u \<and> (\<exists>ts. w_tcp_socks w u = Some ts)"
    "tcp_conn_of_fd fd w = Some u \<Longrightarrow> \<exists>cn. w_tcp_conns w u = Some cn"
proof -
  have udp: "fds_ok MAX_UDP_SOCKS (w_udp_socks w) (udp_fd_to_sock w)"
    and tcp: "fds_ok MAX_TCP_SOCKS (w_tcp_socks w) (tcp_fd_to_sock w)" by (rule config_parts [OF assms])+
  show "nat fd < MAX_UDP_SOCKS \<and> udp_fd_to_sock w ! nat fd = Some u \<and> (\<exists>sk. w_udp_socks w u = Some sk)"
    if "udp_sock_of_fd fd w = Some u"
  proof -
    from that udp have "nat fd < MAX_UDP_SOCKS" "udp_fd_to_sock w ! nat fd = Some u"
      by (auto simp: udp_sock_of_fd_def fds_ok_def split: if_splits)
    with udp show ?thesis by (auto simp: fds_ok_def)
  qed
  show "nat fd < MAX_TCP_SOCKS \<and> tcp_fd_to_sock w ! nat fd = Some u \<and> (\<exists>ts. w_tcp_socks w u = Some ts)"
    if "tcp_sock_of_fd fd w = Some u"
  proof -
    from that tcp have "nat fd < MAX_TCP_SOCKS" "tcp_fd_to_sock w ! nat fd = Some u"
      by (auto simp: tcp_sock_of_fd_def fds_ok_def split: if_splits)
    with tcp show ?thesis by (auto simp: fds_ok_def)
  qed
  note C = conns_okD(3,4) [OF wf_worldD(2) [OF assms]]
  show "\<exists>cn. w_tcp_conns w u = Some cn" if "tcp_conn_of_fd fd w = Some u"
  proof -
    from that have "nat fd < length (fd_conn_to_sock w)" "fd_conn_to_sock w ! nat fd = Some u"
      using C(1) by (auto simp: tcp_conn_of_fd_def split: if_splits)
    then have "Some u \<in> set (fd_conn_to_sock w)" by (metis nth_mem)
    from C(2) [OF this] show ?thesis by blast
  qed
qed

text \<open>A call on the UDP side, and one on the TCP side, leaves the other side alone.\<close>

lemma wf_udp_change:
  assumes wf: "wf_world w" and c: "same_but_socks w w'"
    and k: "w_tcp_socks w' = w_tcp_socks w" "tcp_fd_to_sock w' = tcp_fd_to_sock w" "fd_conn_to_sock w' = fd_conn_to_sock w"
      "map_option tcp_socks_manager \<circ> w_intfs w' = map_option tcp_socks_manager \<circ> w_intfs w" "w_next w \<le> w_next w'"
    and udp: "udp_registry w'" "\<And>u sk. w_udp_socks w' u = Some sk \<Longrightarrow> udp_sock_ok w sk \<and> u < w_next w'"
      "fds_ok MAX_UDP_SOCKS (w_udp_socks w') (udp_fd_to_sock w')"
    and q: "\<And>u. queue (Udp_queue u) w' = queue (Udp_queue u) w \<or> queue (Udp_queue u) w' = []"
  shows "wf_world w'"
proof (rule wf_socks_change [OF wf c])
  note P = config_parts [OF wf]
  show "tcp_registry w'" using P(2) by (simp add: tcp_registry_def k)
  show "conns_ok w'" using wf_worldD(2) [OF wf] c by (simp add: conns_ok_def k same_but_socks_def)
  show "w_tcp_socks w' t = Some sk \<Longrightarrow> tcp_sock_ok w sk" for t sk using P(6) by (simp add: k)
  show "w_tcp_socks w' t \<noteq> None \<Longrightarrow> t < w_next w'" for t using P(8) [of t] k(5) by (auto simp: k(1))
  show "w_udp_socks w' u \<noteq> None \<Longrightarrow> u < w_next w'" for u using udp(2) by blast
qed (use udp q k config_parts(4) [OF wf] in auto)

lemma wf_tcp_change:
  assumes wf: "wf_world w" and c: "same_but_socks w w'"
    and k: "w_udp_socks w' = w_udp_socks w" "udp_fd_to_sock w' = udp_fd_to_sock w"
      "map_option udp_socks_manager \<circ> w_intfs w' = map_option udp_socks_manager \<circ> w_intfs w" "w_next w \<le> w_next w'"
    and tcp: "tcp_registry w'" "\<And>t sk. w_tcp_socks w' t = Some sk \<Longrightarrow> tcp_sock_ok w sk \<and> t < w_next w'"
      "fds_ok MAX_TCP_SOCKS (w_tcp_socks w') (tcp_fd_to_sock w')" "conns_ok w'"
  shows "wf_world w'"
proof (rule wf_socks_change [OF wf c])
  note P = config_parts [OF wf]
  show "udp_registry w'" using P(1) by (simp add: udp_registry_def k)
  show "w_udp_socks w' u = Some sk \<Longrightarrow> udp_sock_ok w sk" for u sk using P(5) by (simp add: k)
  show "w_udp_socks w' u \<noteq> None \<Longrightarrow> u < w_next w'" for u using P(7) [of u] k(4) by (auto simp: k(1))
  show "w_tcp_socks w' t \<noteq> None \<Longrightarrow> t < w_next w'" for t using tcp(2) by blast
  show "queue (Udp_queue u) w' = queue (Udp_queue u) w \<or> queue (Udp_queue u) w' = []" for u
    by (simp add: queue.simps k)
qed (use tcp k config_parts(3) [OF wf] in auto)

section \<open>UDP sockets\<close>

lemma udp_socket_safe:
  assumes wf: "wf_world w" and nd: "w_nodes w n \<noteq> None"
  shows "wf_world (snd (udp_socket n w))"
proof (cases "first_free (udp_fd_to_sock w) 0")
  case None
  with wf show ?thesis by (simp add: udp_socket_def)
next
  case (Some k)
  let ?u = "w_next w" and ?sk = "\<lparr>us_bound = False, us_node = n, us_intf = None, us_local_port = 0, us_rx_skb = []\<rparr>"
  let ?w = "(put_udp_sock ?u ?sk w)\<lparr>w_next := Suc ?u, udp_fd_to_sock := (udp_fd_to_sock w)[k := Some ?u]\<rparr>"
  note P = config_parts [OF wf]
  have new: "w_udp_socks w ?u = None" using P(7) [of ?u] by (cases "w_udp_socks w ?u") auto
  have "wf_world ?w"
  proof (rule wf_udp_change [OF wf])
    show "same_but_socks w ?w" by (simp add: same_but_socks_def put_udp_sock_def)
    show "udp_registry ?w"
      using registry_unplaced [OF P(1) [unfolded udp_registry_def], of ?u "Some None"] new
      by (simp add: udp_registry_def put_udp_sock_def udp_place_def fun_upd_comp)
    show "udp_sock_ok w sk \<and> u < w_next ?w" if "w_udp_socks ?w u = Some sk" for u sk
      using that nd P(5,7) [of u] by (auto simp: put_udp_sock_def udp_sock_ok_def less_Suc_eq split: if_splits)
    show "fds_ok MAX_UDP_SOCKS (w_udp_socks ?w) (udp_fd_to_sock ?w)"
      using fds_ok_new [OF P(3) Some new, of ?sk] by (simp add: put_udp_sock_def)
    show "queue (Udp_queue u) ?w = queue (Udp_queue u) w \<or> queue (Udp_queue u) ?w = []" for u
      by (simp add: queue.simps put_udp_sock_def)
  qed (simp_all add: put_udp_sock_def)
  with Some show ?thesis by (simp add: udp_socket_def Let_def put_udp_sock_def)
qed

lemma udp_bind_safe:
  assumes wf: "wf_world w"
  shows "runs no_fault (\<lambda>(_, w'). wf_world w') (udp_bind fd ip port w)"
proof (cases "udp_sock_of_fd fd w")
  case None
  with wf show ?thesis by (simp add: udp_bind_def)
next
  case (Some u)
  with fd_live(1) [OF wf] obtain sk where sk: "w_udp_socks w u = Some sk" by blast
  then have g: "get_udp_sock u w = Inr sk" by (simp add: get_udp_sock_def)
  note P = config_parts [OF wf]
  show ?thesis
  proof (cases "us_bound sk")
    case True
    with wf g Some show ?thesis by (simp add: udp_bind_def)
  next
    case False
    from P(5) [OF sk] have nd: "w_nodes w (us_node sk) \<noteq> None" by (simp add: udp_sock_ok_def)
    from get_matching_interface_total [OF wf nd, of ip] obtain r
      where r: "get_matching_interface (us_node sk) ip w = Inr r" "\<And>i. r = Some i \<Longrightarrow> w_intfs w i \<noteq> None" by blast
    show ?thesis
    proof (cases r)
      case None
      with wf g Some False r show ?thesis by (simp add: udp_bind_def)
    next
      case [simp]: (Some i)
      with r obtain x where x: "w_intfs w i = Some x" by auto
      let ?x = "x\<lparr>udp_socks_manager := u # udp_socks_manager x\<rparr>"
        and ?sk = "sk\<lparr>us_bound := True, us_intf := Some i, us_local_port := port\<rparr>"
      let ?w = "put_intf i ?x (put_udp_sock u ?sk w)"
      have "wf_world ?w"
      proof (rule wf_udp_change [OF wf])
        show "same_but_socks w ?w"
          using intf_upd [OF x, of bare_intf ?x]
          by (simp add: same_but_socks_def put_udp_sock_def put_intf_def bare_intf_def)
        show "map_option tcp_socks_manager \<circ> w_intfs ?w = map_option tcp_socks_manager \<circ> w_intfs w"
          using intf_upd [OF x, of tcp_socks_manager ?x] by (simp add: put_udp_sock_def put_intf_def)
        show "udp_registry ?w"
          using registry_bind [OF P(1) [unfolded udp_registry_def], of u i "udp_socks_manager x"] sk x False
          by (simp add: udp_registry_def put_udp_sock_def put_intf_def udp_place_def fun_upd_comp)
        show "udp_sock_ok w sk' \<and> v < w_next ?w" if "w_udp_socks ?w v = Some sk'" for v sk'
          using that nd P(5,7) [of v] sk
          by (auto simp: put_udp_sock_def put_intf_def udp_sock_ok_def split: if_splits)
        show "fds_ok MAX_UDP_SOCKS (w_udp_socks ?w) (udp_fd_to_sock ?w)"
          using fds_ok_upd [OF P(3)] by (simp add: put_udp_sock_def put_intf_def)
        show "queue (Udp_queue v) ?w = queue (Udp_queue v) w \<or> queue (Udp_queue v) ?w = []" for v
          using sk by (simp add: queue.simps put_udp_sock_def put_intf_def)
      qed (simp_all add: put_udp_sock_def put_intf_def)
      with g x \<open>udp_sock_of_fd fd w = Some u\<close> False r show ?thesis
        by (simp add: udp_bind_def get_intf_def put_udp_sock_def Let_def)
    qed
  qed
qed

lemma udp_close_safe:
  assumes wf: "wf_world w"
  shows "runs no_fault (\<lambda>(_, w'). wf_world w') (udp_close fd w)"
proof (cases "udp_sock_of_fd fd w")
  case None
  with wf show ?thesis by (simp add: udp_close_def)
next
  case (Some u)
  with fd_live(1) [OF wf] obtain sk where sk: "w_udp_socks w u = Some sk"
    and fd: "nat fd < MAX_UDP_SOCKS" "udp_fd_to_sock w ! nat fd = Some u" by blast
  note P = config_parts [OF wf]
  have "wf_world w'" if w': "w' = w\<lparr>udp_fd_to_sock := (udp_fd_to_sock w)[nat fd := None], w_intfs := m,
      w_udp_socks := (w_udp_socks w)(u := None)\<rparr>"
    and m: "map_option bare_intf \<circ> m = map_option bare_intf \<circ> w_intfs w"
      "map_option tcp_socks_manager \<circ> m = map_option tcp_socks_manager \<circ> w_intfs w" "udp_registry w'" for w' m
  proof (rule wf_udp_change [OF wf _ _ _ _ _ _ m(3)])
    show "same_but_socks w w'" using m(1) by (simp add: same_but_socks_def w')
    show "map_option tcp_socks_manager \<circ> w_intfs w' = map_option tcp_socks_manager \<circ> w_intfs w" using m(2) by (simp add: w')
    show "udp_sock_ok w sk' \<and> v < w_next w'" if "w_udp_socks w' v = Some sk'" for v sk'
      using that P(5,7) [of v] by (auto simp: w' split: if_splits)
    show "fds_ok MAX_UDP_SOCKS (w_udp_socks w') (udp_fd_to_sock w')"
      using fds_ok_del [OF P(3) fd] by (simp add: w')
    show "queue (Udp_queue v) w' = queue (Udp_queue v) w \<or> queue (Udp_queue v) w' = []" for v
      by (simp add: queue.simps w')
  qed (simp_all add: w')
  note close = this [OF refl]
  show ?thesis
  proof (cases "us_bound sk")
    case True
    from bound_sockets(1) [OF wf sk True] obtain i x where i: "us_intf sk = Some i" "w_intfs w i = Some x" by blast
    let ?x = "x\<lparr>udp_socks_manager := remove1 u (udp_socks_manager x)\<rparr>"
    have "wf_world (w\<lparr>udp_fd_to_sock := (udp_fd_to_sock w)[nat fd := None], w_intfs := (w_intfs w)(i \<mapsto> ?x),
      w_udp_socks := (w_udp_socks w)(u := None)\<rparr>)"
    proof (rule close)
      show "map_option bare_intf \<circ> (w_intfs w)(i \<mapsto> ?x) = map_option bare_intf \<circ> w_intfs w"
        by (rule intf_upd [OF i(2)]) (simp add: bare_intf_def)
      show "map_option tcp_socks_manager \<circ> (w_intfs w)(i \<mapsto> ?x) = map_option tcp_socks_manager \<circ> w_intfs w"
        by (rule intf_upd [OF i(2)]) simp
      show "udp_registry (w\<lparr>udp_fd_to_sock := (udp_fd_to_sock w)[nat fd := None], w_intfs := (w_intfs w)(i \<mapsto> ?x),
          w_udp_socks := (w_udp_socks w)(u := None)\<rparr>)"
        using registry_close [OF P(1) [unfolded udp_registry_def], of u i "udp_socks_manager x"] sk i True
        by (simp add: udp_registry_def udp_place_def fun_upd_comp)
    qed
    with sk Some True i show ?thesis
      by (simp add: udp_close_def get_udp_sock_def get_intf_def put_intf_def)
  next
    case False
    have "wf_world (w\<lparr>udp_fd_to_sock := (udp_fd_to_sock w)[nat fd := None], w_intfs := w_intfs w,
      w_udp_socks := (w_udp_socks w)(u := None)\<rparr>)"
    proof (rule close)
      show "udp_registry (w\<lparr>udp_fd_to_sock := (udp_fd_to_sock w)[nat fd := None], w_intfs := w_intfs w,
          w_udp_socks := (w_udp_socks w)(u := None)\<rparr>)"
        using registry_unplaced [OF P(1) [unfolded udp_registry_def], of u None] sk False
        by (simp add: udp_registry_def udp_place_def fun_upd_comp)
    qed simp_all
    with sk Some False show ?thesis by (simp add: udp_close_def get_udp_sock_def)
  qed
qed

section \<open>Reading what a queue holds\<close>

text \<open>A packet that waits may be changed in place, as long as its reader can use it.\<close>

lemma evolves_put_queued:
  assumes wf: "wf_world w" and p: "p \<in> set (queue q w)" and s': "fits q w s'"
  shows "evolves {} w (put_skb p s' w)"
proof -
  note Q = queues_okD [OF wf_worldD(4) [OF wf]]
  have same: "same_config w (put_skb p s' w)" by (simp add: same_config_def put_skb_def)
  have "queues_ok (put_skb p s' w)"
    unfolding queues_ok_def queue_skbs(2) fits_cong [OF same_configD(1) [OF same]]
  proof (intro conjI allI ballI impI)
    show "\<exists>s. w_skbs (put_skb p s' w) r = Some s \<and> fits q1 w s" if "r \<in> set (queue q1 w)" for r q1
      using Q(2) [OF that] Q(3) [OF p, of q1] that s' by (cases "r = p") (auto simp: put_skb_def)
  qed (use Q in blast)+
  moreover have "fresh_ok (put_skb p s' w)"
    using wf_worldD(5) [OF wf] Q(2) [OF p] by (auto simp: fresh_ok_def put_skb_def)
  moreover have "conns_ok (put_skb p s' w)" "arp_ok (put_skb p s' w)"
    using wf_worldD(2,3) [OF wf] by (simp_all add: conns_ok_def arp_ok_def put_skb_def)
  ultimately have "wf_world (put_skb p s' w)" using wf_worldI [OF wf same] by blast
  moreover have "flying r t (put_skb p s' w)" if "flying r t w" for r t
    using that p by (auto simp: flying_def put_skb_def)
  ultimately show ?thesis using same by (simp add: evolves_def put_skb_def)
qed

lemma read_bytes_front:
  assumes "wf_skb s"
  shows "rd_bytes (data_off s) (min (skb_len s) n) s = Inr (take n (payload s))"
    "\<exists>t. skb_pull (min (skb_len s) n) s = Inr t \<and> wf_skb t \<and> buf t = buf s \<and> skb_len t = skb_len s - n \<and>
       ip_hdr_off t = ip_hdr_off s \<and> udp_hdr_off t = udp_hdr_off s"
proof -
  show "rd_bytes (data_off s) (min (skb_len s) n) s = Inr (take n (payload s))"
    using assms by (auto simp: rd_bytes_def wf_skb_def payload_def slice_def min_def)
  have "size_sub (skb_len s) (min (skb_len s) n) = skb_len s - n" using assms by (auto simp: wf_skb_def min_def)
  then show "\<exists>t. skb_pull (min (skb_len s) n) s = Inr t \<and> wf_skb t \<and> buf t = buf s \<and> skb_len t = skb_len s - n \<and>
       ip_hdr_off t = ip_hdr_off s \<and> udp_hdr_off t = udp_hdr_off s"
    using assms by (auto simp: wf_skb_def skb_pull_def min_def Let_def)
qed

text \<open>The end of every read: the packet that is used up is taken out and freed.\<close>

lemma drop_used_safe:
  assumes wf: "wf_world w" and p: "p \<in> set (queue q w)" and t: "fits q w t"
    and pop: "wf_world (put_skb p t w) \<Longrightarrow> evolves {} (put_skb p t w) (pop (put_skb p t w)) \<and> (\<exists>s. flying p s (pop (put_skb p t w)))"
  shows "runs no_fault (evolves {} w) (if used then free_skb p (pop (put_skb p t w)) else Inr (put_skb p t w))"
proof (cases used)
  case True
  note put = evolves_put_queued [OF wf p t]
  from pop [OF evolvesD(1) [OF put]] obtain s
    where e: "evolves {} (put_skb p t w) (pop (put_skb p t w))" and s: "flying p s (pop (put_skb p t w))" by blast
  have "evolves {} w w'" if "evolves {p} (pop (put_skb p t w)) w'" for w'
    by (rule evolves_queued [OF evolves_trans [OF evolves_weaken [OF evolves_trans [OF put e]] that] p])
  then show ?thesis using True runs_post [OF free_skb_safe [OF evolvesD(1) [OF e] s]] by auto
qed (use evolves_put_queued [OF wf p t] in simp)

section \<open>UDP data\<close>

text \<open>The datagram the next read of a socket returns was sent by the node itself.\<close>

definition own_datagram :: "int \<Rightarrow> world \<Rightarrow> bool" where
  "own_datagram fd w \<longleftrightarrow> (\<exists>u sk s. udp_sock_of_fd fd w = Some u \<and> w_udp_socks w u = Some sk \<and>
     us_rx_skb sk \<noteq> [] \<and> w_skbs w (last (us_rx_skb sk)) = Some s \<and> ip_hdr_off s = None)"

lemma udp_recvfrom_safe:
  assumes wf: "wf_world w"
  shows "runs (\<lambda>e. e = Null_deref \<and> want_ip \<and> own_datagram fd w) (\<lambda>(_, w'). evolves {} w w')
    (udp_recvfrom fd n want_ip want_port w)" (is "runs ?F ?P _")
proof (cases "udp_sock_of_fd fd w")
  case None
  with wf show ?thesis by (simp add: udp_recvfrom_def)
next
  case (Some u)
  with fd_live(1) [OF wf] obtain sk where sk: "w_udp_socks w u = Some sk" by blast
  then have g: "get_udp_sock u w = Inr sk" by (simp add: get_udp_sock_def)
  show ?thesis
  proof (cases "us_bound sk \<and> us_rx_skb sk \<noteq> []")
    case True
    define p where "p = last (us_rx_skb sk)"
    have p: "p \<in> set (queue (Udp_queue u) w)" using True sk by (simp add: p_def queue.simps)
    from queues_okD(2) [OF wf_worldD(4) [OF wf] p] obtain s where s: "w_skbs w p = Some s" "wf_skb s"
      "hdr_within (ip_hdr_off s) IP_HDR_SIZE s" "udp_hdr_off s \<noteq> None" "hdr_within (udp_hdr_off s) UDP_HDR_SIZE s" by auto
    from read_bytes_front(2) [OF s(2), of n] obtain t where t: "skb_pull (min (skb_len s) n) s = Inr t" "wf_skb t" "buf t = buf s"
      "ip_hdr_off t = ip_hdr_off s" "udp_hdr_off t = udp_hdr_off s" by blast
    have fit: "fits (Udp_queue u) w t" using s t hdr_within_buf [OF t(3)] by simp
    have pop: "runs no_fault (evolves {} w)
      (if skb_len t = 0 then free_skb p (put_udp_sock u (sk\<lparr>us_rx_skb := remove1 p (us_rx_skb sk)\<rparr>) (put_skb p t w))
       else Inr (put_skb p t w))"
      by (rule drop_used_safe [OF wf p fit])
        (use udp_pop_safe [of "put_skb p t w" u sk p] sk p in \<open>auto simp: put_skb_def queue.simps\<close>)
    have ip: "runs ?F (\<lambda>_. True) (if want_ip then bindE (of_option Null_deref (ip_hdr_off t)) (\<lambda>off.
        bindE (rd_hdr IP_HDR_SIZE dec_ip off t) (\<lambda>h. Inr (Some (src_ip h)))) else Inr None)"
    proof (cases "ip_hdr_off t")
      case None
      then show ?thesis using Some sk True s(1) t by (auto simp: own_datagram_def p_def)
    next
      case (Some k)
      with t(4) have "ip_hdr_off s = Some k" by simp
      with s(3) t(3) have "k + IP_HDR_SIZE \<le> length (buf t)" by (simp add: hdr_within_def)
      with Some show ?thesis by (simp add: rd_hdr_def rd_bytes_def)
    qed
    from s(4,5) t obtain k where k: "udp_hdr_off t = Some k" "k + UDP_HDR_SIZE \<le> length (buf t)"
      by (auto simp: hdr_within_def)
    then have port: "runs ?F (\<lambda>_. True) (if want_port then bindE (of_option Null_deref (udp_hdr_off t)) (\<lambda>off.
        bindE (rd_hdr UDP_HDR_SIZE dec_udp off t) (\<lambda>h. Inr (Some (NTOHS (udp_src_port h))))) else Inr None)"
      by (simp add: rd_hdr_def rd_bytes_def)
    have "runs ?F ?P (bindE (if want_ip then bindE (of_option Null_deref (ip_hdr_off t)) (\<lambda>off.
          bindE (rd_hdr IP_HDR_SIZE dec_ip off t) (\<lambda>h. Inr (Some (src_ip h)))) else Inr None) (\<lambda>ip.
        bindE (if want_port then bindE (of_option Null_deref (udp_hdr_off t)) (\<lambda>off.
          bindE (rd_hdr UDP_HDR_SIZE dec_udp off t) (\<lambda>h. Inr (Some (NTOHS (udp_src_port h))))) else Inr None) (\<lambda>port.
        bindE (if skb_len t = 0 then free_skb p (put_udp_sock u (sk\<lparr>us_rx_skb := remove1 p (us_rx_skb sk)\<rparr>) (put_skb p t w))
          else Inr (put_skb p t w)) (\<lambda>w. Inr (Some (take n (payload s), ip, port), w)))))"
      by (intro runs_bind [OF ip] runs_bind [OF port] runs_map [OF pop]) simp
    then show ?thesis
      using g Some True s(1) t(1) read_bytes_front(1) [OF s(2), of n]
      by (simp add: udp_recvfrom_def get_skb_def Let_def p_def [symmetric] split del: if_split)
  qed (use g Some wf in \<open>auto simp: udp_recvfrom_def\<close>)
qed

lemma udp_sendto_safe:
  assumes d: "deliver_ok d" and wf: "wf_world w"
  shows "runs (\<lambda>e. e = Out_of_fuel) (\<lambda>(_, w'). evolves {} w w') (udp_sendto os d fd bytes ip port w)"
proof (cases "udp_sock_of_fd fd w")
  case None
  with wf show ?thesis by (simp add: udp_sendto_def)
next
  case (Some u)
  with fd_live(1) [OF wf] obtain sk where sk: "w_udp_socks w u = Some sk" by blast
  then have g: "get_udp_sock u w = Inr sk" by (simp add: get_udp_sock_def)
  show ?thesis
  proof (cases "us_bound sk")
    case True
    from bound_sockets(1) [OF wf sk True] obtain i x where i: "us_intf sk = Some i" "w_intfs w i = Some x" by blast
    let ?b = "take (min (length bytes) MAX_UDP_PAYLOAD) bytes"
    have len: "length ?b \<le> MAX_UDP_PAYLOAD" by simp
    from udp_skb_ok [OF len, of sk port] obtain s where s: "udp_skb sk ?b port = Inr s" "wf_skb s" "data_off s = 60"
      "skb_tailroom s = 46" "skb_len s = length ?b + 8" "ip_hdr_off s = None" by blast
    obtain p w1 where n: "new_skb s w = (p, w1)" by fastforce
    note new = new_skb_safe [OF wf n]
    have room: "out_room 8 s" using s by (simp add: out_room_def)
    from live_intf(2) [OF evolvesD(1) [OF new(1)], of i x] i evolvesD(4) [OF new(1)]
    obtain nd where nd: "w_nodes w1 (if_node x) = Some nd" by auto
    have "hands_over (\<lambda>e. e = Out_of_fuel) p w1 (ip_output os d (if_node x) ip IP_PROTO_UDP p w1)"
      by (rule hands_over_weaken [OF own_message_safe [OF d evolvesD(1) [OF new(1)] new(2) room nd]])
        (auto simp: need_def IP_PROTO_ICMP_def IP_PROTO_TCP_def IP_PROTO_UDP_def UDP_HDR_SIZE_def)
    moreover have own: "evolves {} w w'" if "evolves {p} w1 w'" for w'
      by (rule evolves_fresh [OF evolves_trans [OF evolves_weaken [OF new(1)] that]]) (simp add: new(3))
    ultimately have "runs (\<lambda>e. e = Out_of_fuel) (\<lambda>(_, w'). evolves {} w w') (udp_out os d u ?b ip port w)"
      using g s(1) n i evolvesD(4) [OF new(1)]
      by (auto simp: udp_out_def get_intf_def hands_over_def elim!: runs_weaken)
    then have "runs (\<lambda>e. e = Out_of_fuel) (\<lambda>(_, w'). evolves {} w w')
      (bindE (udp_out os d u ?b ip port w) (\<lambda>(result, w).
         if \<not> result then Inr (- 1, w) else Inr (int (min (length bytes) MAX_UDP_PAYLOAD), w)))"
      by (rule runs_bind) (auto split: if_splits)
    with g Some True show ?thesis by (simp add: udp_sendto_def Let_def)
  qed (use g Some wf in \<open>auto simp: udp_sendto_def\<close>)
qed

end
