(* ===== verification/Safe_Stream.thy ===== *)
theory Safe_Stream
  imports Safe_Socket
begin

text \<open>
  The TCP socket calls and \<open>ping\<close> under the invariant of theory World_Ok.  A socket may be closed
  as long as no connection names it as its parent; a stream can be written safely unless its peer
  is the node itself.
\<close>

section \<open>TCP sockets\<close>

lemma conns_ok_upd:
  assumes ok: "conns_ok w" and sk: "w_tcp_socks w t = Some sk" and w': "w_tcp_socks w' = (w_tcp_socks w)(t \<mapsto> sk')"
    "w_tcp_conns w' = w_tcp_conns w" "fd_conn_to_sock w' = fd_conn_to_sock w"
    and k: "ts_conns sk' = ts_conns sk" "ts_bound sk \<Longrightarrow> ts_bound sk'"
  shows "conns_ok w'"
  unfolding conns_ok_def w'
proof (intro conjI allI impI ballI)
  note C = conns_okD [OF ok]
  show "\<exists>y. ((w_tcp_socks w)(t \<mapsto> sk')) (tc_parent cn) = Some y \<and> ts_bound y" if "w_tcp_conns w c = Some cn" for c cn
    using C(1) [OF that] sk k(2) by auto
  show "\<exists>cn. w_tcp_conns w c = Some cn \<and> tc_parent cn = u"
    if "((w_tcp_socks w)(t \<mapsto> sk')) u = Some y" "c \<in> set (ts_conns y)" for u y c
    using C(2) [OF sk, of c] C(2) [of u y c] that k(1) by (cases "u = t") auto
qed (use conns_okD(3,4) [OF ok] in auto)

lemma tcp_socket_safe:
  assumes wf: "wf_world w" and nd: "w_nodes w n \<noteq> None"
  shows "wf_world (snd (tcp_socket n w))"
proof (cases "first_free (tcp_fd_to_sock w) 0")
  case None
  with wf show ?thesis by (simp add: tcp_socket_def)
next
  case (Some k)
  let ?t = "w_next w" and ?sk = "\<lparr>ts_bound = False, ts_listening = False, ts_node = n, ts_local_ip = 0,
    ts_intf = None, ts_local_port = 0, ts_conns = [], ts_closed_conns = []\<rparr>"
  let ?w = "(put_tcp_sock ?t ?sk w)\<lparr>w_next := Suc ?t, tcp_fd_to_sock := (tcp_fd_to_sock w)[k := Some ?t]\<rparr>"
  note P = config_parts [OF wf] and C = conns_okD [OF wf_worldD(2) [OF wf]]
  have new: "w_tcp_socks w ?t = None" using P(8) [of ?t] by (cases "w_tcp_socks w ?t") auto
  have "wf_world ?w"
  proof (rule wf_tcp_change [OF wf])
    show "same_but_socks w ?w" by (simp add: same_but_socks_def put_tcp_sock_def)
    show "tcp_registry ?w"
      using registry_unplaced [OF P(2) [unfolded tcp_registry_def], of ?t "Some None"] new
      by (simp add: tcp_registry_def put_tcp_sock_def tcp_place_def fun_upd_comp)
    show "tcp_sock_ok w sk \<and> t < w_next ?w" if "w_tcp_socks ?w t = Some sk" for t sk
      using that nd P(6,8) [of t] by (auto simp: put_tcp_sock_def tcp_sock_ok_def less_Suc_eq split: if_splits)
    show "fds_ok MAX_TCP_SOCKS (w_tcp_socks ?w) (tcp_fd_to_sock ?w)"
      using fds_ok_new [OF P(4) Some new, of ?sk] by (simp add: put_tcp_sock_def)
    show "conns_ok ?w"
      unfolding conns_ok_def
    proof (intro conjI allI impI ballI)
      show "\<exists>y. w_tcp_socks ?w (tc_parent cn) = Some y \<and> ts_bound y" if "w_tcp_conns ?w c = Some cn" for c cn
        using C(1) [of c cn] that new by (auto simp: put_tcp_sock_def)
      show "\<exists>cn. w_tcp_conns ?w c = Some cn \<and> tc_parent cn = t" if "w_tcp_socks ?w t = Some sk" "c \<in> set (ts_conns sk)" for t sk c
        using C(2) [of t sk c] that by (auto simp: put_tcp_sock_def split: if_splits)
    qed (use C(3,4) in \<open>auto simp: put_tcp_sock_def\<close>)
  qed (simp_all add: put_tcp_sock_def)
  with Some show ?thesis by (simp add: tcp_socket_def Let_def put_tcp_sock_def)
qed

lemma tcp_bind_safe:
  assumes wf: "wf_world w"
  shows "runs no_fault (\<lambda>(_, w'). wf_world w') (tcp_bind fd ip port w)"
proof (cases "tcp_sock_of_fd fd w")
  case None
  with wf show ?thesis by (simp add: tcp_bind_def)
next
  case (Some t)
  with fd_live(2) [OF wf] obtain sk where sk: "w_tcp_socks w t = Some sk" by blast
  then have g: "get_tcp_sock t w = Inr sk" by (simp add: get_tcp_sock_def)
  note P = config_parts [OF wf]
  show ?thesis
  proof (cases "ts_bound sk")
    case True
    with wf g Some show ?thesis by (simp add: tcp_bind_def)
  next
    case False
    from P(6) [OF sk] have nd: "w_nodes w (ts_node sk) \<noteq> None" by (simp add: tcp_sock_ok_def)
    from get_matching_interface_total [OF wf nd, of ip] obtain r
      where r: "get_matching_interface (ts_node sk) ip w = Inr r" "\<And>i. r = Some i \<Longrightarrow> w_intfs w i \<noteq> None" by blast
    show ?thesis
    proof (cases r)
      case None
      with wf g Some False r show ?thesis by (simp add: tcp_bind_def)
    next
      case [simp]: (Some i)
      with r obtain x where x: "w_intfs w i = Some x" by auto
      let ?x = "x\<lparr>tcp_socks_manager := t # tcp_socks_manager x\<rparr>"
        and ?sk = "sk\<lparr>ts_bound := True, ts_intf := Some i, ts_local_ip := ip, ts_local_port := port\<rparr>"
      let ?w = "put_intf i ?x (put_tcp_sock t ?sk w)"
      have "wf_world ?w"
      proof (rule wf_tcp_change [OF wf])
        show "same_but_socks w ?w"
          using intf_upd [OF x, of bare_intf ?x]
          by (simp add: same_but_socks_def put_tcp_sock_def put_intf_def bare_intf_def)
        show "map_option udp_socks_manager \<circ> w_intfs ?w = map_option udp_socks_manager \<circ> w_intfs w"
          using intf_upd [OF x, of udp_socks_manager ?x] by (simp add: put_tcp_sock_def put_intf_def)
        show "tcp_registry ?w"
          using registry_bind [OF P(2) [unfolded tcp_registry_def], of t i "tcp_socks_manager x"] sk x False
          by (simp add: tcp_registry_def put_tcp_sock_def put_intf_def tcp_place_def fun_upd_comp)
        show "tcp_sock_ok w sk' \<and> v < w_next ?w" if "w_tcp_socks ?w v = Some sk'" for v sk'
          using that nd P(6,8) [of v] sk
          by (auto simp: put_tcp_sock_def put_intf_def tcp_sock_ok_def split: if_splits)
        show "fds_ok MAX_TCP_SOCKS (w_tcp_socks ?w) (tcp_fd_to_sock ?w)"
          using fds_ok_upd [OF P(4)] by (simp add: put_tcp_sock_def put_intf_def)
        show "conns_ok ?w"
          by (rule conns_ok_upd [OF wf_worldD(2) [OF wf] sk, of _ ?sk]) (simp_all add: put_tcp_sock_def put_intf_def)
      qed (simp_all add: put_tcp_sock_def put_intf_def)
      with g x \<open>tcp_sock_of_fd fd w = Some t\<close> False r show ?thesis
        by (simp add: tcp_bind_def get_intf_def put_tcp_sock_def Let_def)
    qed
  qed
qed

lemma tcp_listen_safe:
  assumes wf: "wf_world w"
  shows "runs no_fault (\<lambda>(_, w'). wf_world w') (tcp_listen fd w)"
proof (cases "tcp_sock_of_fd fd w")
  case None
  with wf show ?thesis by (simp add: tcp_listen_def)
next
  case (Some t)
  with fd_live(2) [OF wf] obtain sk where sk: "w_tcp_socks w t = Some sk" by blast
  note P = config_parts [OF wf]
  let ?sk = "sk\<lparr>ts_listening := True\<rparr>"
  have "wf_world (put_tcp_sock t ?sk w)"
  proof (rule wf_tcp_change [OF wf])
    show "same_but_socks w (put_tcp_sock t ?sk w)" by (simp add: same_but_socks_def put_tcp_sock_def)
    have "map_option tcp_place \<circ> (w_tcp_socks w)(t \<mapsto> ?sk) = map_option tcp_place \<circ> w_tcp_socks w"
      by (rule map_option_comp_upd [of "w_tcp_socks w", OF sk]) (simp add: tcp_place_def)
    then show "tcp_registry (put_tcp_sock t ?sk w)" using P(2) by (simp add: tcp_registry_def put_tcp_sock_def)
    show "tcp_sock_ok w sk' \<and> v < w_next (put_tcp_sock t ?sk w)" if "w_tcp_socks (put_tcp_sock t ?sk w) v = Some sk'" for v sk'
      using that P(6,8) [of v] sk by (auto simp: put_tcp_sock_def tcp_sock_ok_def split: if_splits)
    show "fds_ok MAX_TCP_SOCKS (w_tcp_socks (put_tcp_sock t ?sk w)) (tcp_fd_to_sock (put_tcp_sock t ?sk w))"
      using fds_ok_upd [OF P(4)] by (simp add: put_tcp_sock_def)
    show "conns_ok (put_tcp_sock t ?sk w)"
      by (rule conns_ok_upd [OF wf_worldD(2) [OF wf] sk, of _ ?sk]) (simp_all add: put_tcp_sock_def)
  qed (simp_all add: put_tcp_sock_def)
  with Some sk wf show ?thesis by (simp add: tcp_listen_def get_tcp_sock_def)
qed

text \<open>A socket goes away, and with it its descriptor; no connection may name it.\<close>

definition childless :: "int \<Rightarrow> world \<Rightarrow> bool" where
  "childless fd w \<longleftrightarrow> (\<forall>t c cn. tcp_sock_of_fd fd w = Some t \<longrightarrow> w_tcp_conns w c = Some cn \<longrightarrow> tc_parent cn \<noteq> t)"

lemma tcp_close_safe:
  assumes wf: "wf_world w" and alone: "childless fd w"
  shows "runs no_fault (\<lambda>(_, w'). wf_world w') (tcp_close fd w)"
proof (cases "tcp_sock_of_fd fd w")
  case None
  with wf show ?thesis by (simp add: tcp_close_def)
next
  case (Some t)
  with fd_live(2) [OF wf] obtain sk where sk: "w_tcp_socks w t = Some sk"
    and fd: "nat fd < MAX_TCP_SOCKS" "tcp_fd_to_sock w ! nat fd = Some t" by blast
  note P = config_parts [OF wf] and C = conns_okD [OF wf_worldD(2) [OF wf]]
  have "wf_world w'" if w': "w' = w\<lparr>tcp_fd_to_sock := (tcp_fd_to_sock w)[nat fd := None], w_intfs := m,
      w_tcp_socks := (w_tcp_socks w)(t := None)\<rparr>"
    and m: "map_option bare_intf \<circ> m = map_option bare_intf \<circ> w_intfs w"
      "map_option udp_socks_manager \<circ> m = map_option udp_socks_manager \<circ> w_intfs w" "tcp_registry w'" for w' m
  proof (rule wf_tcp_change [OF wf _ _ _ _ _ m(3)])
    show "same_but_socks w w'" using m(1) by (simp add: same_but_socks_def w')
    show "map_option udp_socks_manager \<circ> w_intfs w' = map_option udp_socks_manager \<circ> w_intfs w" using m(2) by (simp add: w')
    show "tcp_sock_ok w sk' \<and> v < w_next w'" if "w_tcp_socks w' v = Some sk'" for v sk'
      using that P(6,8) [of v] by (auto simp: w' split: if_splits)
    show "fds_ok MAX_TCP_SOCKS (w_tcp_socks w') (tcp_fd_to_sock w')"
      using fds_ok_del [OF P(4) fd] by (simp add: w')
    show "conns_ok w'"
      unfolding conns_ok_def
    proof (intro conjI allI impI ballI)
      show "\<exists>y. w_tcp_socks w' (tc_parent cn) = Some y \<and> ts_bound y" if "w_tcp_conns w' c = Some cn" for c cn
        using C(1) [of c cn] that alone Some by (auto simp: w' childless_def)
      show "\<exists>cn. w_tcp_conns w' c = Some cn \<and> tc_parent cn = u" if "w_tcp_socks w' u = Some y" "c \<in> set (ts_conns y)" for u y c
        using C(2) [of u y c] that by (auto simp: w' split: if_splits)
    qed (use C(3,4) in \<open>auto simp: w'\<close>)
  qed (simp_all add: w')
  note close = this [OF refl]
  show ?thesis
  proof (cases "ts_bound sk")
    case True
    from bound_sockets(2) [OF wf sk True] obtain i x where i: "ts_intf sk = Some i" "w_intfs w i = Some x" by blast
    let ?x = "x\<lparr>tcp_socks_manager := remove1 t (tcp_socks_manager x)\<rparr>"
    have "wf_world (w\<lparr>tcp_fd_to_sock := (tcp_fd_to_sock w)[nat fd := None], w_intfs := (w_intfs w)(i \<mapsto> ?x),
      w_tcp_socks := (w_tcp_socks w)(t := None)\<rparr>)"
    proof (rule close)
      show "map_option bare_intf \<circ> (w_intfs w)(i \<mapsto> ?x) = map_option bare_intf \<circ> w_intfs w"
        by (rule intf_upd [OF i(2)]) (simp add: bare_intf_def)
      show "map_option udp_socks_manager \<circ> (w_intfs w)(i \<mapsto> ?x) = map_option udp_socks_manager \<circ> w_intfs w"
        by (rule intf_upd [OF i(2)]) simp
      show "tcp_registry (w\<lparr>tcp_fd_to_sock := (tcp_fd_to_sock w)[nat fd := None], w_intfs := (w_intfs w)(i \<mapsto> ?x),
          w_tcp_socks := (w_tcp_socks w)(t := None)\<rparr>)"
        using registry_close [OF P(2) [unfolded tcp_registry_def], of t i "tcp_socks_manager x"] sk i True
        by (simp add: tcp_registry_def tcp_place_def fun_upd_comp)
    qed
    with sk Some True i show ?thesis
      by (simp add: tcp_close_def get_tcp_sock_def get_intf_def put_intf_def)
  next
    case False
    have "wf_world (w\<lparr>tcp_fd_to_sock := (tcp_fd_to_sock w)[nat fd := None], w_intfs := w_intfs w,
      w_tcp_socks := (w_tcp_socks w)(t := None)\<rparr>)"
    proof (rule close)
      show "tcp_registry (w\<lparr>tcp_fd_to_sock := (tcp_fd_to_sock w)[nat fd := None], w_intfs := w_intfs w,
          w_tcp_socks := (w_tcp_socks w)(t := None)\<rparr>)"
        using registry_unplaced [OF P(2) [unfolded tcp_registry_def], of t None] sk False
        by (simp add: tcp_registry_def tcp_place_def fun_upd_comp)
    qed simp_all
    with sk Some False show ?thesis by (simp add: tcp_close_def get_tcp_sock_def)
  qed
qed

section \<open>Streams\<close>

lemma first_estab_total:
  assumes "\<And>c. c \<in> set cs \<Longrightarrow> w_tcp_conns w c \<noteq> None"
  shows "\<exists>r. first_estab cs w = Inr r \<and> (\<forall>c. r = Some c \<longrightarrow> w_tcp_conns w c \<noteq> None)"
  using assms
proof (induction cs)
  case (Cons c cs)
  then obtain cn where cn: "w_tcp_conns w c = Some cn" by fastforce
  from Cons.IH Cons.prems obtain r where "first_estab cs w = Inr r" "\<forall>c. r = Some c \<longrightarrow> w_tcp_conns w c \<noteq> None" by auto
  with cn show ?case by (simp add: get_tcp_conn_def)
qed simp

lemma tcp_accept_safe:
  assumes wf: "wf_world w"
  shows "runs no_fault (\<lambda>(_, w'). wf_world w') (tcp_accept fd w)"
proof (cases "tcp_sock_of_fd fd w")
  case None
  with wf show ?thesis by (simp add: tcp_accept_def)
next
  case (Some t)
  with fd_live(2) [OF wf] obtain sk where sk: "w_tcp_socks w t = Some sk" by blast
  note P = config_parts [OF wf] and C = conns_okD [OF wf_worldD(2) [OF wf]]
  have "\<And>c. c \<in> set (ts_conns sk) \<Longrightarrow> w_tcp_conns w c \<noteq> None" using C(2) [OF sk] by auto
  from first_estab_total [OF this] obtain r
    where r: "first_estab (ts_conns sk) w = Inr r" "\<And>c. r = Some c \<Longrightarrow> w_tcp_conns w c \<noteq> None" by auto
  have "wf_world (w\<lparr>fd_conn_to_sock := (fd_conn_to_sock w)[k := Some c]\<rparr>)" if c: "w_tcp_conns w c \<noteq> None" for c k
  proof (rule wf_tcp_change [OF wf])
    let ?w = "w\<lparr>fd_conn_to_sock := (fd_conn_to_sock w)[k := Some c]\<rparr>"
    show "same_but_socks w ?w" by (simp add: same_but_socks_def)
    show "tcp_registry ?w" using P(2) by (simp add: tcp_registry_def)
    show "tcp_sock_ok w sk' \<and> v < w_next ?w" if "w_tcp_socks ?w v = Some sk'" for v sk'
      using that P(6,8) [of v] by simp
    have "w_tcp_conns w d \<noteq> None" if "Some d \<in> set ((fd_conn_to_sock w)[k := Some c])" for d
      using that set_update_subset_insert [of "fd_conn_to_sock w" k "Some c"] C(4) [of d] c by blast
    then show "conns_ok ?w" using wf_worldD(2) [OF wf] by (simp add: conns_ok_def)
  qed (use P(4) in simp_all)
  then show ?thesis
    using Some sk r wf
    by (auto simp: tcp_accept_def get_tcp_sock_def get_tcp_conn_def split: option.splits)
qed

lemma tcp_recv_safe:
  assumes wf: "wf_world w"
  shows "runs no_fault (\<lambda>(_, w'). evolves {} w w') (tcp_recv fd n w)"
proof (cases "tcp_conn_of_fd fd w")
  case None
  with wf show ?thesis by (simp add: tcp_recv_def)
next
  case (Some c)
  with fd_live(3) [OF wf] obtain cn where cn: "w_tcp_conns w c = Some cn" by blast
  then have g: "get_tcp_conn c w = Inr cn" by (simp add: get_tcp_conn_def)
  show ?thesis
  proof (cases "tc_state cn = Handle_estab \<and> tc_rx_skb cn \<noteq> []")
    case True
    define p where "p = last (tc_rx_skb cn)"
    have p: "p \<in> set (queue (Tcp_queue c) w)" using True cn by (simp add: p_def queue.simps)
    from queues_okD(2) [OF wf_worldD(4) [OF wf] p] obtain s where s: "w_skbs w p = Some s" "wf_skb s" by auto
    from read_bytes_front(2) [OF s(2), of n] obtain t where t: "skb_pull (min (skb_len s) n) s = Inr t" "wf_skb t" by blast
    have pop: "runs no_fault (evolves {} w)
      (if skb_len t = 0 then free_skb p (put_tcp_conn c (cn\<lparr>tc_rx_skb := remove1 p (tc_rx_skb cn)\<rparr>) (put_skb p t w))
       else Inr (put_skb p t w))"
      by (rule drop_used_safe [OF wf p])
        (use t(2) tcp_pop_safe [of "put_skb p t w" c cn p] cn p in \<open>auto simp: put_skb_def queue.simps\<close>)
    have "runs no_fault (\<lambda>(_, w'). evolves {} w w')
      (bindE (if skb_len t = 0 then free_skb p (put_tcp_conn c (cn\<lparr>tc_rx_skb := remove1 p (tc_rx_skb cn)\<rparr>) (put_skb p t w))
        else Inr (put_skb p t w)) (\<lambda>w. Inr (Some (take n (payload s)), w)))"
      by (rule runs_map [OF pop]) simp
    then show ?thesis
      using g Some True s(1) t(1) read_bytes_front(1) [OF s(2), of n]
      by (simp add: tcp_recv_def get_skb_def Let_def p_def [symmetric] split del: if_split)
  qed (use g Some wf in \<open>auto simp: tcp_recv_def\<close>)
qed

text \<open>The stream behind a descriptor leads back to the node that holds it.\<close>

definition own_stream :: "int \<Rightarrow> world \<Rightarrow> bool" where
  "own_stream fd w \<longleftrightarrow> (\<exists>c cn. tcp_conn_of_fd fd w = Some c \<and> w_tcp_conns w c = Some cn \<and> self_peer cn w)"

lemma tcp_send_safe:
  assumes d: "deliver_ok d" and wf: "wf_world w"
  shows "runs (tcp_risk (own_stream fd w)) (\<lambda>(_, w'). evolves {} w w') (tcp_send os d fd bytes w)"
proof (cases "tcp_conn_of_fd fd w")
  case None
  with wf show ?thesis by (simp add: tcp_send_def)
next
  case (Some c)
  with fd_live(3) [OF wf] obtain cn where cn: "w_tcp_conns w c = Some cn" by blast
  then have g: "get_tcp_conn c w = Inr cn" by (simp add: get_tcp_conn_def)
  have own: "self_peer cn w \<Longrightarrow> own_stream fd w" using Some cn by (auto simp: own_stream_def)
  let ?n = "min (length bytes) MAX_TCP_PAYLOAD"
  have "runs (tcp_risk (own_stream fd w)) (\<lambda>(_, w'). evolves {} w w')
    (bindE (tcp_out os d c (take ?n bytes) flags_ack w) (\<lambda>(result, w). if \<not> result then Inr (- 1, w) else Inr (int ?n, w)))"
    by (rule runs_bind [OF runs_weaken [OF tcp_out_safe [OF d wf cn]]]) (use own in \<open>auto simp: tcp_risk_def\<close>)
  then show ?thesis using g Some wf by (simp add: tcp_send_def Let_def)
qed

lemma ping_safe:
  assumes d: "deliver_ok d" and wf: "wf_world w" and nd: "w_nodes w n = Some nd"
  shows "runs (tcp_risk (is_ip_local n (convert_ip_from_str_to_int s) w = Inr True)) (\<lambda>(_, w'). evolves {} w w') (ping os d n s w)"
  unfolding ping_def by (rule runs_weaken [OF icmp_out_safe [OF d wf nd]]) (auto simp: tcp_risk_def)

end
