(* ===== verification/Binding.thy ===== *)
theory Binding
  imports Comm
begin

text \<open>
  Opening an interface: the loop of \<open>udp_init_comm\<close> over the ports ends exactly when some port of
  the sequence can be bound, with the first such port; the map from descriptors to interfaces; and
  the verdict of flooding.
\<close>

section \<open>The search for a port\<close>

text \<open>The attempts the loop makes, and what it knows before its attempt number \<open>k\<close>.\<close>

definition tries :: "int \<Rightarrow> u16 \<Rightarrow> nat \<Rightarrow> event list" where
  "tries fd port k = map (\<lambda>j. Ev_bind fd (port + of_nat j)) [0 ..< k]"

definition can_bind :: "os \<Rightarrow> int \<Rightarrow> world \<Rightarrow> nat \<Rightarrow> bool" where
  "can_bind os fd w k \<longleftrightarrow>
     os_bind os (trace w @ tries fd (next_udp_port w) k) fd (next_udp_port w + of_nat k)"

definition after_tries :: "int \<Rightarrow> nat \<Rightarrow> world \<Rightarrow> world" where
  "after_tries fd k w = w\<lparr>next_udp_port := next_udp_port w + of_nat k, trace := trace w @ tries fd (next_udp_port w) k\<rparr>"

lemma tries_Suc: "tries fd port (Suc k) = Ev_bind fd port # tries fd (port + 1) k"
  by (simp add: tries_def upt_conv_Cons map_Suc_upt [symmetric] o_def add.assoc del: upt_Suc)

lemma tries_0 [simp]: "tries fd port 0 = []"
  by (simp add: tries_def)

lemma can_bind_Suc: "can_bind os fd (after_tries fd (Suc 0) w) k = can_bind os fd w (Suc k)"
  by (simp add: can_bind_def after_tries_def tries_Suc add.assoc)

lemma after_tries_Suc: "after_tries fd k (after_tries fd (Suc 0) w) = after_tries fd (Suc k) w"
  by (simp add: after_tries_def tries_Suc add.assoc)

lemma bind_loop_unfold:
  "bind_loop os fd w =
    (if can_bind os fd w 0 then Some (next_udp_port w, after_tries fd (Suc 0) w) else bind_loop os fd (after_tries fd (Suc 0) w))"
  by (subst bind_loop.simps)
    (simp add: get_next_udp_port_def emit_def can_bind_def after_tries_def tries_Suc)

lemma bind_loop_first:
  assumes "can_bind os fd w k" and "\<And>j. j < k \<Longrightarrow> \<not> can_bind os fd w j"
  shows "bind_loop os fd w = Some (next_udp_port w + of_nat k, after_tries fd (Suc k) w)"
  using assms
proof (induction k arbitrary: w)
  case 0
  then show ?case by (simp add: bind_loop_unfold [of os fd w])
next
  case (Suc k)
  let ?w = "after_tries fd (Suc 0) w"
  have "can_bind os fd ?w k" "\<And>j. j < k \<Longrightarrow> \<not> can_bind os fd ?w j"
    using Suc.prems by (auto simp: can_bind_Suc)
  from Suc.IH [OF this] Suc.prems(2) [of 0] show ?case
    by (simp add: bind_loop_unfold [of os fd w] after_tries_Suc add.assoc) (simp add: after_tries_def)
qed

lemma bind_loop_only:
  "bind_loop os fd w = Some r \<Longrightarrow> \<exists>k. can_bind os fd w k"
proof (induction rule: bind_loop.raw_induct [rotated, consumes 1])
  case (1 loop os fd w r)
  let ?w = "after_tries fd (Suc 0) w"
  have "(if can_bind os fd w 0 then Some (next_udp_port w, ?w) else loop os fd ?w) = Some r"
    using "1.hyps" by (simp add: get_next_udp_port_def emit_def can_bind_def after_tries_def tries_Suc Let_def
        split: if_splits)
  then show ?case
    using "1.IH" [of os fd ?w r] can_bind_Suc [of os fd w] by (auto split: if_splits)
qed

lemma bind_loop_terminates_iff: "bind_loop os fd w \<noteq> None \<longleftrightarrow> (\<exists>k. can_bind os fd w k)"
proof
  assume "\<exists>k. can_bind os fd w k"
  then have "can_bind os fd w (LEAST k. can_bind os fd w k)" by (blast intro: LeastI)
  then show "bind_loop os fd w \<noteq> None"
    using bind_loop_first [of os fd w] not_less_Least by (metis option.distinct(1))
qed (auto dest: bind_loop_only)

section \<open>Descriptors\<close>

lemma fd_to_comm_set:
  assumes "length (fd_to_comm_map w) = MAX_COMMS"
  shows "fd_to_comm fd' (snd (set_fd_comm fd c w)) =
    (if fst (set_fd_comm fd c w) \<and> fd' = fd then c else fd_to_comm fd' w)"
  using assms by (auto simp: fd_to_comm_def set_fd_comm_def nth_list_update)

lemma fd_to_comm_after_tries [simp]:
  "fd_to_comm_map (after_tries fd k w) = fd_to_comm_map w" "w_intfs (after_tries fd k w) = w_intfs w"
  by (simp_all add: after_tries_def)

text \<open>
  An interface whose socket can be bound is open afterwards: it has the first port that works, and
  its descriptor leads back to it.
\<close>

text \<open>
  C37: Opening the UDP transport of an interface takes the first port that can be bound, counting
  from the next one and wrapping at 16 bits, and registers the interface under its descriptor.
\<close>

lemma udp_init_comm_open:
  assumes x: "get_intf i w = Inr x" and fd: "os_socket os (trace w) = fd" "0 \<le> fd" "fd < int MAX_COMMS"
    and k: "can_bind os fd w k" "\<And>j. j < k \<Longrightarrow> \<not> can_bind os fd w j"
    and len: "length (fd_to_comm_map w) = MAX_COMMS"
  shows "\<exists>w'. udp_init_comm os i w = Inr (True, w') \<and> fd_to_comm fd w' = Some i \<and>
    get_intf i w' = Inr (x\<lparr>if_comm := (if_comm x)\<lparr>comm_fd := fd, comm_port := next_udp_port w + of_nat k\<rparr>\<rparr>) \<and>
    trace w' = trace w @ tries fd (next_udp_port w) (Suc k)"
proof -
  let ?w = "after_tries fd (Suc k) w"
  have x': "get_intf i ?w = Inr x" using x by (simp add: get_intf_def)
  show ?thesis
    using fd len x'
    by (simp add: udp_init_comm_def bind_loop_first [OF k] set_comm_def set_fd_comm_def fd_to_comm_def)
      (simp add: world_access after_tries_def)
qed

end
