(* ===== verification/Safe_Build.thy ===== *)
theory Safe_Build
  imports Safe_Stream Binding
begin

text \<open>
  Building and configuring a topology keeps the invariant of theory World_Ok: new graphs, nodes,
  links and TAP interfaces, addresses and routes.  What already exists keeps its queues and
  sockets; what is new has none.
\<close>

section \<open>Growing\<close>

definition same_traffic :: "world \<Rightarrow> world \<Rightarrow> bool" where
  "same_traffic w w' \<longleftrightarrow> w_skbs w' = w_skbs w \<and> w_udp_socks w' = w_udp_socks w \<and> w_tcp_socks w' = w_tcp_socks w \<and>
     w_tcp_conns w' = w_tcp_conns w \<and> udp_fd_to_sock w' = udp_fd_to_sock w \<and>
     tcp_fd_to_sock w' = tcp_fd_to_sock w \<and> fd_conn_to_sock w' = fd_conn_to_sock w"

lemma same_queues:
  assumes same: "same_traffic w w'"
    and nodes: "\<And>n nd. w_nodes w n = Some nd \<Longrightarrow> \<exists>nd'. w_nodes w' n = Some nd' \<and> arp_table nd' = arp_table nd"
      "\<And>n nd'. w_nodes w' n = Some nd' \<Longrightarrow> w_nodes w n = None \<Longrightarrow> arp_table nd' = []"
  shows "queue q w' = queue q w"
proof (cases q)
  case (Arp_queue n ip)
  show ?thesis
  proof (cases "w_nodes w n")
    case None
    then show ?thesis
      using Arp_queue nodes(2) [of n] by (cases "w_nodes w' n") (auto simp: queue.simps)
  next
    case (Some nd)
    with nodes(1) [OF this] Arp_queue show ?thesis by (auto simp: queue.simps)
  qed
qed (use same in \<open>simp_all add: queue.simps same_traffic_def\<close>)

lemma fresh_build:
  assumes old: "fresh_ok w" and topo: "wf_topo w'" and n: "w_next w \<le> w_next w'" and same: "same_traffic w w'"
    and graphs: "\<And>g gr. w_graphs w' g = Some gr \<Longrightarrow> g < w_next w'"
  shows "fresh_ok w'"
  unfolding fresh_ok_def
proof (intro allI impI)
  fix k
  assume k: "w_nodes w' k \<noteq> None \<or> w_intfs w' k \<noteq> None \<or> w_links w' k \<noteq> None \<or> w_skbs w' k \<noteq> None \<or>
    w_udp_socks w' k \<noteq> None \<or> w_tcp_socks w' k \<noteq> None \<or> w_tcp_conns w' k \<noteq> None \<or> w_graphs w' k \<noteq> None"
  from topo have b: "below (slots_map w') (ports_map w') (ends_map w') (w_next w')" by (simp add: wf_topo_def)
  consider "w_nodes w' k \<noteq> None \<or> w_intfs w' k \<noteq> None \<or> w_links w' k \<noteq> None" | "w_graphs w' k \<noteq> None"
    | "w_skbs w k \<noteq> None \<or> w_udp_socks w k \<noteq> None \<or> w_tcp_socks w k \<noteq> None \<or> w_tcp_conns w k \<noteq> None"
    using k same by (auto simp: same_traffic_def)
  then show "k < w_next w'"
  proof cases
    case 1
    then have "slots_map w' k \<noteq> None \<or> ports_map w' k \<noteq> None \<or> ends_map w' k \<noteq> None"
      by (simp add: slots_map_def ports_map_def ends_map_def)
    with b show ?thesis unfolding below_def by blast
  next
    case 2
    with graphs show ?thesis by blast
  next
    case 3
    then have "k < w_next w" using old unfolding fresh_ok_def by blast
    with n show ?thesis by simp
  qed
qed

lemma wf_build:
  assumes wf: "wf_world w" and topo: "wf_topo w'" and n: "w_next w \<le> w_next w'" and same: "same_traffic w w'"
    and nodes: "\<And>n nd. w_nodes w n = Some nd \<Longrightarrow> \<exists>nd'. w_nodes w' n = Some nd' \<and> arp_table nd' = arp_table nd"
      "\<And>n nd'. w_nodes w' n = Some nd' \<Longrightarrow> node_ok w' nd' \<and> (w_nodes w n = None \<longrightarrow> arp_table nd' = [])"
    and intfs: "\<And>i x. w_intfs w i = Some x \<Longrightarrow> \<exists>x'. w_intfs w' i = Some x' \<and>
        udp_socks_manager x' = udp_socks_manager x \<and> tcp_socks_manager x' = tcp_socks_manager x"
      "\<And>i x'. w_intfs w' i = Some x' \<Longrightarrow> intf_ok x' \<and>
        (w_intfs w i = None \<longrightarrow> udp_socks_manager x' = [] \<and> tcp_socks_manager x' = [])"
    and graphs: "\<And>g gr. w_graphs w' g = Some gr \<Longrightarrow> g < w_next w' \<and> graph_ok w' gr"
    and comms: "comms_ok w'"
  shows "wf_world w'"
proof -
  from same have S: "w_skbs w' = w_skbs w" "w_udp_socks w' = w_udp_socks w" "w_tcp_socks w' = w_tcp_socks w"
    "w_tcp_conns w' = w_tcp_conns w" "udp_fd_to_sock w' = udp_fd_to_sock w" "tcp_fd_to_sock w' = tcp_fd_to_sock w"
    "fd_conn_to_sock w' = fd_conn_to_sock w" by (simp_all add: same_traffic_def)
  have live: "w_nodes w n \<noteq> None \<Longrightarrow> w_nodes w' n \<noteq> None" "w_intfs w i \<noteq> None \<Longrightarrow> w_intfs w' i \<noteq> None" for n i
    using nodes(1) [of n] intfs(1) [of i] by auto
  note P = config_parts [OF wf]
  have udps: "udp_sock_ok w' sk" if "w_udp_socks w u = Some sk" for u sk
    using P(5) [OF that] live(1) by (simp add: udp_sock_ok_def)
  have tcps: "tcp_sock_ok w' sk" if "w_tcp_socks w u = Some sk" for u sk
    using P(6) [OF that] live(1) by (simp add: tcp_sock_ok_def)
  have registries: "udp_registry w'" "tcp_registry w'"
    unfolding udp_registry_def tcp_registry_def S
    using registry_more [OF P(1) [unfolded udp_registry_def], of "map_option udp_socks_manager \<circ> w_intfs w'"]
      registry_more [OF P(2) [unfolded tcp_registry_def], of "map_option tcp_socks_manager \<circ> w_intfs w'"]
      intfs by (fastforce simp: comp_def)+
  have config: "config_ok w'"
    unfolding config_ok_def using topo nodes(2) intfs(2) udps tcps registries graphs comms P(3,4)
    by (simp add: S wf_topo_def)
  have q: "queue q w' = queue q w" for q by (rule same_queues [OF same nodes(1)]) (use nodes(2) in \<open>simp_all\<close>)
  have fits: "fits q w' s" if "fits q w s" for q s using that live(2) by (cases q) auto
  note Q = queues_okD [OF wf_worldD(4) [OF wf]]
  have "queues_ok w'"
    unfolding queues_ok_def q S
  proof (intro conjI allI ballI impI)
    show "\<exists>s. w_skbs w p = Some s \<and> fits q w' s" if "p \<in> set (queue q w)" for q p using Q(2) [OF that] fits by blast
  qed (use Q in blast)+
  moreover have "arp_ok w'"
    unfolding arp_ok_def
  proof (intro allI impI)
    fix n nd'
    assume nd': "w_nodes w' n = Some nd'"
    show "\<forall>e \<in> set (arp_table nd'). length (arp_mac e) = 6"
      using nodes(1) [of n] nodes(2) [OF nd'] nd' wf_worldD(3) [OF wf] by (cases "w_nodes w n") (auto simp: arp_ok_def)
  qed
  moreover have "conns_ok w'" using wf_worldD(2) [OF wf] by (simp add: conns_ok_def S)
  moreover have "fresh_ok w'" by (rule fresh_build [OF wf_worldD(5) [OF wf] topo n same]) (use graphs in blast)
  ultimately show ?thesis using config by (simp add: wf_world_def)
qed

lemma wf_init: "wf_world init_world"
proof -
  have [simp]: "queue q init_world = []" for q by (cases q) (simp_all add: queue.simps init_world_def)
  show ?thesis
    using wf_init_world
    by (simp add: wf_world_def config_ok_def wf_topo_def udp_registry_def tcp_registry_def registry_ok_def fds_ok_def
        conns_ok_def arp_ok_def queues_ok_def fresh_ok_def comms_ok_def)
      (auto simp: init_world_def MAX_COMMS_def MAX_TCP_CONN_SOCKS_def)
qed

text \<open>The facts every operation below starts with.\<close>

lemma wf_parts:
  assumes "wf_world w"
  shows "w_nodes w n = Some nd \<Longrightarrow> node_ok w nd" "w_intfs w i = Some x \<Longrightarrow> intf_ok x"
    "w_graphs w g = Some gr \<Longrightarrow> g < w_next w \<and> graph_ok w gr" "comms_ok w"
  using wf_worldD(1) [OF assms] wf_worldD(5) [OF assms] unfolding config_ok_def fresh_ok_def by blast+

lemma comms_more:
  assumes "comms_ok w" and "fd_to_comm_map w' = fd_to_comm_map w"
    and "\<And>i x. w_intfs w i = Some x \<Longrightarrow> \<exists>y. w_intfs w' i = Some y \<and> if_comm y = if_comm x"
  shows "comms_ok w'"
  unfolding comms_ok_def assms(2)
proof (intro conjI allI impI)
  fix k i
  assume "k < MAX_COMMS" "fd_to_comm_map w ! k = Some i"
  with assms(1) obtain x where x: "w_intfs w i = Some x" "comm_fd (if_comm x) = int k" by (auto simp: comms_ok_def)
  with assms(3) [OF x(1)] show "\<exists>x. w_intfs w' i = Some x \<and> comm_fd (if_comm x) = int k" by auto
qed (use assms(1) in \<open>simp add: comms_ok_def\<close>)

lemma graph_more: "graph_ok w gr \<Longrightarrow> (\<And>n. w_nodes w n \<noteq> None \<Longrightarrow> w_nodes w' n \<noteq> None) \<Longrightarrow> graph_ok w' gr"
  by (simp add: graph_ok_def)

section \<open>Graphs and nodes\<close>

lemma create_graph_safe:
  assumes wf: "wf_world w"
  shows "wf_world (snd (create_new_graph name w))"
proof (rule wf_build [OF wf wf_create_graph [OF wf_world_topo [OF wf]]])
  let ?w = "snd (create_new_graph name w)"
  show "same_traffic w ?w" by (simp add: same_traffic_def create_new_graph_def put_graph_def)
  note P = wf_parts [OF wf]
  show "g < w_next ?w \<and> graph_ok ?w gr" if "w_graphs ?w g = Some gr" for g gr
    using that P(3) [of g gr] by (auto simp: create_new_graph_def put_graph_def graph_ok_def split: if_splits)
  show "comms_ok ?w" using P(4) by (simp add: comms_ok_def create_new_graph_def put_graph_def)
  show "node_ok ?w nd \<and> (w_nodes w n = None \<longrightarrow> arp_table nd = [])" if "w_nodes ?w n = Some nd" for n nd
    using that P(1) [of n nd] by (simp add: node_ok_def create_new_graph_def put_graph_def)
qed (use wf_parts [OF wf] in \<open>auto simp: create_new_graph_def put_graph_def\<close>)

lemma create_node_safe:
  assumes wf: "wf_world w" and g: "w_graphs w g \<noteq> None"
  shows "runs no_fault (\<lambda>(n, w'). wf_world w') (create_graph_node g name w)"
proof -
  from g obtain gr where gr: "w_graphs w g = Some gr" by blast
  define n nd where "n = w_next w" and "nd = init_node_nw_prop (zero_node\<lparr>node_name := strncpy name MAX_NODE_NAME_SIZE\<rparr>)"
  define w' where "w' = put_graph g (gr\<lparr>graph_nodes := n # graph_nodes gr\<rparr>) ((put_node n nd w)\<lparr>w_next := Suc n\<rparr>)"
  have r: "create_graph_node g name w = Inr (n, w')"
    using gr by (simp add: create_graph_node_def n_def nd_def w'_def get_graph_def put_node_def Let_def)
  note P = wf_parts [OF wf]
  have new: "w_nodes w n = None" using wf_worldD(5) [OF wf] n_def unfolding fresh_ok_def by (metis less_irrefl)
  have fresh: "w_next w \<notin> set (graph_nodes gr)" using P(3) [OF gr] new by (auto simp: n_def graph_ok_def)
  have empty: "arp_table nd = []" "rt_table nd = []"
    by (simp_all add: nd_def init_node_nw_prop_def init_arp_table_def init_rt_table_def)
  have f: "w_nodes w' = (w_nodes w)(n \<mapsto> nd)" "w_intfs w' = w_intfs w" "w_next w' = Suc n" "fd_to_comm_map w' = fd_to_comm_map w"
    "w_graphs w' = (w_graphs w)(g \<mapsto> gr\<lparr>graph_nodes := n # graph_nodes gr\<rparr>)"
    by (simp_all add: w'_def put_graph_def put_node_def)
  have "wf_world w'"
  proof (rule wf_build [OF wf wf_create_node [OF wf_world_topo [OF wf] r, THEN conjunct1]])
    show "same_traffic w w'" by (simp add: same_traffic_def w'_def put_graph_def put_node_def)
    show "\<exists>nd'. w_nodes w' m = Some nd' \<and> arp_table nd' = arp_table nd0" if "w_nodes w m = Some nd0" for m nd0
      using that new by (auto simp: f)
    show "node_ok w' nd' \<and> (w_nodes w m = None \<longrightarrow> arp_table nd' = [])" if "w_nodes w' m = Some nd'" for m nd'
      using that P(1) [of m nd'] empty by (auto simp: f node_ok_def routable_def split: if_splits)
    show "h < w_next w' \<and> graph_ok w' gr'" if "w_graphs w' h = Some gr'" for h gr'
      using that P(3) [OF gr] P(3) [of h gr'] fresh by (auto simp: f n_def graph_ok_def split: if_splits)
    show "comms_ok w'" by (rule comms_more [OF P(4)]) (simp_all add: f)
  qed (use P in \<open>auto simp: f n_def\<close>)
  with r show ?thesis by simp
qed

section \<open>Links and interfaces\<close>

text \<open>
  What opening an interface changes: its \<open>struct comm\<close>, the next UDP port, the trace and, when
  there is a descriptor, the entry of the descriptor in the table of the receive thread.
\<close>

definition opened :: "world \<Rightarrow> world \<Rightarrow> bool" where
  "opened w w' \<longleftrightarrow> (\<exists>q es. w' = w\<lparr>next_udp_port := q, trace := es\<rparr>)"

lemma opened_refl: "opened w w"
  unfolding opened_def by (intro exI [of _ "next_udp_port w"] exI [of _ "trace w"]) simp

lemma opened_bind_loop: "bind_loop os fd w = Some r \<Longrightarrow> opened w (snd r)"
proof (induction rule: bind_loop.raw_induct [rotated, consumes 1])
  case (1 loop os fd w r)
  let ?w2 = "emit (Ev_bind fd (next_udp_port w)) (w\<lparr>next_udp_port := next_udp_port w + 1\<rparr>)"
  have f: "opened ?w2 v \<Longrightarrow> opened w v" for v by (auto simp: opened_def emit_def)
  from 1(2) have "snd r = ?w2 \<or> loop os fd ?w2 = Some r"
    by (auto simp: get_next_udp_port_def Let_def split: if_splits)
  then show ?case using 1(1) [of os fd ?w2 r] f opened_refl by auto
qed

lemma init_comm_result:
  assumes r: "init_comm os i ct w = Inr (b, w')" and x: "w_intfs w i = Some x"
  shows "\<exists>c v u. opened w v \<and> u = put_intf i (x\<lparr>if_comm := c\<rparr>) v \<and>
    (w' = u \<or> w' = snd (set_fd_comm (comm_fd c) (Some i) u))"
proof -
  have g: "get_intf i w = Inr x" using x by (simp add: get_intf_def)
  define y where "y = x\<lparr>if_comm := (if_comm x)\<lparr>comm_type := ct, comm_ops := Some (ops_of ct)\<rparr>\<rparr>"
  let ?w1 = "put_intf i y w"
  have y: "get_intf i ?w1 = Inr y" by (rule intf_table.get_put_same)
  have result: ?thesis if o: "opened ?w1 v" and w': "w' = put_intf i (y\<lparr>if_comm := c\<rparr>) v \<or>
      w' = snd (set_fd_comm (comm_fd c) (Some i) (put_intf i (y\<lparr>if_comm := c\<rparr>) v))" for c v
  proof -
    from o obtain q es where v: "v = ?w1\<lparr>next_udp_port := q, trace := es\<rparr>" by (auto simp: opened_def)
    have "opened w (w\<lparr>next_udp_port := q, trace := es\<rparr>)" by (auto simp: opened_def)
    moreover have "put_intf i (y\<lparr>if_comm := c\<rparr>) v = put_intf i (x\<lparr>if_comm := c\<rparr>) (w\<lparr>next_udp_port := q, trace := es\<rparr>)"
      by (simp add: v y_def put_intf_def)
    ultimately show ?thesis using w' by metis
  qed
  have "udp_init_comm os i ?w1 = Inr (b, w') \<or> tuntap_init_comm os i ?w1 = Inr (b, w')"
    using r by (cases ct) (simp_all add: init_comm_def set_comm_eq [OF g] ops_of_def y_def)
  then show ?thesis
  proof
    assume u: "udp_init_comm os i ?w1 = Inr (b, w')"
    then obtain port v where l: "bind_loop os (os_socket os (trace ?w1)) ?w1 = Some (port, v)"
      by (auto simp: udp_init_comm_def Let_def split: option.splits)
    from opened_bind_loop [OF l] have o: "opened ?w1 v" by simp
    then have "get_intf i v = Inr y" using y by (auto simp: opened_def get_intf_def)
    then show ?thesis
      using u l by (intro result [OF o, of "(if_comm y)\<lparr>comm_fd := os_socket os (trace ?w1), comm_port := port\<rparr>"])
        (simp add: udp_init_comm_def set_comm_eq Let_def)
  next
    assume t: "tuntap_init_comm os i ?w1 = Inr (b, w')"
    from tun_alloc_frame [of os "if_name y" ?w1] obtain fd es where
      a: "tun_alloc os (if_name y) ?w1 = (fd, ?w1\<lparr>trace := trace ?w1 @ es\<rparr>)" by blast
    let ?v = "?w1\<lparr>trace := trace ?w1 @ es\<rparr>"
    have o: "opened ?w1 ?v" 
      unfolding opened_def by (intro exI [of _ "next_udp_port ?w1"] exI [of _ "trace ?w1 @ es"]) simp
    have "get_intf i ?v = Inr y" using y by (simp add: get_intf_def)
    then show ?thesis
      using t a y by (intro result [OF o, of "(if_comm y)\<lparr>comm_fd := fd\<rparr>"])
        (auto simp: tuntap_init_comm_def set_comm_eq Let_def split: if_splits)
  qed
qed

text \<open>A new interface, and the changes \<open>init_interface\<close> makes to the world around it.\<close>

definition new_intf :: "intf \<Rightarrow> bool" where
  "new_intf x \<longleftrightarrow> tcp_socks_manager x = [] \<and> udp_socks_manager x = [] \<and> \<not> is_ip_addr_config x \<and> length (if_mac x) = 6"

definition bare_slots :: "node \<Rightarrow> node" where
  "bare_slots nd = nd\<lparr>node_intfs := []\<rparr>"

definition grows :: "nat \<Rightarrow> world \<Rightarrow> world \<Rightarrow> bool" where
  "grows m w w' \<longleftrightarrow> same_traffic w w' \<and> w_graphs w' = w_graphs w \<and>
     map_option bare_slots \<circ> w_nodes w' = map_option bare_slots \<circ> w_nodes w \<and>
     (\<forall>j. w_intfs w j \<noteq> None \<longrightarrow> w_intfs w' j \<noteq> None) \<and>
     (\<forall>j y. w_intfs w' j = Some y \<longrightarrow> w_intfs w j = Some y \<or> (m \<le> j \<and> new_intf y))"

lemma grows_trans: "grows m w w1 \<Longrightarrow> grows m w1 w2 \<Longrightarrow> grows m w w2"
  unfolding grows_def same_traffic_def by (intro conjI) metis+

lemma grows_opened: "opened w w' \<Longrightarrow> grows m w w'"
  by (auto simp: opened_def grows_def same_traffic_def)

lemma grows_set_fd: "grows m w (snd (set_fd_comm fd c w))"
  by (auto simp: set_fd_comm_def grows_def same_traffic_def)

lemma grows_put_intf: "m \<le> i \<Longrightarrow> new_intf y \<Longrightarrow> grows m w (put_intf i y w)"
  by (auto simp: grows_def same_traffic_def put_intf_def)

lemma grows_slots: "w_nodes w n = Some nd \<Longrightarrow> grows m w (put_node n (nd\<lparr>node_intfs := sl\<rparr>) w)"
  by (auto simp: grows_def same_traffic_def put_node_def fun_eq_iff bare_slots_def)

lemma grows_init_comm:
  assumes r: "init_comm os i ct w = Inr (b, w')" and x: "w_intfs w i = Some x" and m: "m \<le> i" and y: "new_intf x"
  shows "grows m w w'"
proof -
  from init_comm_result [OF r x] obtain c v u where v: "opened w v" "u = put_intf i (x\<lparr>if_comm := c\<rparr>) v"
    and w': "w' = u \<or> w' = snd (set_fd_comm (comm_fd c) (Some i) u)" by blast
  have "grows m v u" unfolding v(2) by (rule grows_put_intf [OF m]) (use y in \<open>simp add: new_intf_def\<close>)
  from grows_trans [OF grows_opened [OF v(1)] this] have u: "grows m w u" .
  from w' show ?thesis using u grows_trans [OF u grows_set_fd] by blast
qed

text \<open>The table of the receive thread, whose only new entry is that of the new interface.\<close>

definition registers :: "intf_id \<Rightarrow> world \<Rightarrow> world \<Rightarrow> bool" where
  "registers i w w' \<longleftrightarrow> length (fd_to_comm_map w') = length (fd_to_comm_map w) \<and>
     (\<forall>j. j \<noteq> i \<longrightarrow> w_intfs w' j = w_intfs w j) \<and>
     (\<forall>k < length (fd_to_comm_map w). fd_to_comm_map w' ! k = fd_to_comm_map w ! k \<or>
        fd_to_comm_map w' ! k = Some i \<and> (\<exists>x. w_intfs w' i = Some x \<and> comm_fd (if_comm x) = int k))"

lemma registers_init_interface:
  assumes r: "init_interface os i name n l ct w = Inr w'"
  shows "registers i w w'"
proof -
  from r obtain x nd where x: "get_intf i w = Inr x" and nd: "get_node n w = Inr nd" by (auto simp: init_interface_def res_simps)
  define w1 where "w1 = put_node n (nd\<lparr>node_intfs := (node_intfs nd)[nat (get_node_intf_available_slot nd) := Some i]\<rparr>) w"
  define y where "y = init_intf_nw_prop (x\<lparr>if_name := strncpy name MAX_IF_NAME_SIZE, if_node := n, if_link := l\<rparr>)"
  have w1: "w_intfs w1 = w_intfs w" "fd_to_comm_map w1 = fd_to_comm_map w" by (simp_all add: w1_def put_node_def)
  from r nd x obtain w2 b where w2: "interface_assign_mac_address i (put_intf i y w1) = Inr w2" "init_comm os i ct w2 = Inr (b, w')"
    by (auto simp: init_interface_def res_simps w1_def y_def Let_def)
  from w2(1) obtain z where z: "w2 = put_intf i z (put_intf i y w1)"
    by (auto simp: interface_assign_mac_address_def res_simps intf_table.get_put_same)
  have "w_intfs w2 i = Some z" by (simp add: z put_intf_def)
  from init_comm_result [OF w2(2) this] obtain c v u where v: "opened w2 v" "u = put_intf i (z\<lparr>if_comm := c\<rparr>) v"
    and w': "w' = u \<or> w' = snd (set_fd_comm (comm_fd c) (Some i) u)" by blast
  have u: "w_intfs u i = Some (z\<lparr>if_comm := c\<rparr>)" "\<And>j. j \<noteq> i \<Longrightarrow> w_intfs u j = w_intfs w j"
    "fd_to_comm_map u = fd_to_comm_map w"
    using v w1 by (auto simp: z opened_def put_intf_def)
  have upd: "m[j := v] ! k = (if j = k \<and> k < length m then v else m ! k)" for m :: "intf_id option list" and j k v
    by (cases "j < length m") (auto simp: nth_list_update list_update_beyond)
  from u w' show ?thesis by (auto simp: registers_def set_fd_comm_def upd split: if_splits)
qed

lemma registers_ok:
  assumes ok: "comms_ok w" and r: "registers i w w'" and i: "Some i \<notin> set (fd_to_comm_map w)"
  shows "comms_ok w'"
  unfolding comms_ok_def
proof (intro conjI allI impI)
  note l = comms_live(1) [OF ok]
  show "length (fd_to_comm_map w') = MAX_COMMS" using r l by (simp add: registers_def)
  fix k j
  assume k: "k < MAX_COMMS" "fd_to_comm_map w' ! k = Some j"
  with i l have "fd_to_comm_map w ! k \<noteq> Some i" by (metis nth_mem)
  with k r ok show "\<exists>x. w_intfs w' j = Some x \<and> comm_fd (if_comm x) = int k"
    unfolding registers_def comms_ok_def l by (metis option.inject)
qed

lemma registers_set: "registers i w w' \<Longrightarrow> set (fd_to_comm_map w') \<subseteq> insert (Some i) (set (fd_to_comm_map w))"
  by (fastforce simp: registers_def in_set_conv_nth)

lemma grows_init_interface:
  assumes r: "init_interface os i name n l ct w = Inr w'" and m: "m \<le> i"
  shows "grows m w w'"
proof -
  from r obtain x nd where x: "get_intf i w = Inr x" and nd: "get_node n w = Inr nd" by (auto simp: init_interface_def res_simps)
  let ?w1 = "put_node n (nd\<lparr>node_intfs := (node_intfs nd)[nat (get_node_intf_available_slot nd) := Some i]\<rparr>) w"
  let ?y = "init_intf_nw_prop (x\<lparr>if_name := strncpy name MAX_IF_NAME_SIZE, if_node := n, if_link := l\<rparr>)"
  let ?w2 = "put_intf i ?y ?w1"
  from r nd x obtain w3 b where w3: "interface_assign_mac_address i ?w2 = Inr w3"
    and w4: "init_comm os i ct w3 = Inr (b, w')"
    by (auto simp: init_interface_def res_simps Let_def)
  have y: "new_intf ?y"
    by (simp add: new_intf_def init_intf_nw_prop_def init_tcp_socks_manager_def init_udp_socks_manager_def MAC_ADDR_SIZE_def)
  from w3 obtain h where h: "w3 = put_intf i (?y\<lparr>if_mac := low_mac_bytes h\<rparr>) ?w2"
    by (auto simp: interface_assign_mac_address_def res_simps intf_table.get_put_same)
  have y3: "new_intf (?y\<lparr>if_mac := low_mac_bytes h\<rparr>)" using y by (simp add: new_intf_def)
  have "grows m w ?w1" using nd by (intro grows_slots) (simp add: node_table.get_Inr_iff)
  moreover have "grows m ?w1 ?w2" by (rule grows_put_intf [OF m y])
  moreover have "grows m ?w2 w3" unfolding h by (rule grows_put_intf [OF m y3])
  moreover have "grows m w3 w'" by (rule grows_init_comm [OF w4 _ m y3]) (simp add: h put_intf_def)
  ultimately show ?thesis using grows_trans by metis
qed

lemma wf_grown:
  assumes wf: "wf_world w" and g: "grows (w_next w) w w'" and topo: "wf_topo w'" and n: "w_next w \<le> w_next w'"
    and comms: "comms_ok w'"
  shows "wf_world w'"
proof -
  note P = wf_parts [OF wf]
  from g have G: "same_traffic w w'" "w_graphs w' = w_graphs w" "w_intfs w j \<noteq> None \<Longrightarrow> w_intfs w' j \<noteq> None"
    "w_intfs w' j = Some y \<Longrightarrow> w_intfs w j = Some y \<or> (w_next w \<le> j \<and> new_intf y)"
    for j y
    unfolding grows_def by blast+
  from g have slots: "map_option bare_slots \<circ> w_nodes w' = map_option bare_slots \<circ> w_nodes w" by (simp add: grows_def)
  have bare: "arp_table nd' = arp_table nd \<and> rt_table nd' = rt_table nd" if "bare_slots nd' = bare_slots nd" for nd nd'
    using arg_cong [OF that, of arp_table] arg_cong [OF that, of rt_table] by (simp add: bare_slots_def)
  have below: "j < w_next w" if "w_intfs w j \<noteq> None" for j
    using wf_worldD(5) [OF wf] that unfolding fresh_ok_def by blast
  show ?thesis
  proof (rule wf_build [OF wf topo n G(1) _ _ _ _ _ comms])
    show "\<exists>nd'. w_nodes w' m = Some nd' \<and> arp_table nd' = arp_table nd" if "w_nodes w m = Some nd" for m nd
      using map_option_comp_eq [OF slots [symmetric] that] bare by metis
    show "node_ok w' nd' \<and> (w_nodes w m = None \<longrightarrow> arp_table nd' = [])" if "w_nodes w' m = Some nd'" for m nd'
    proof -
      from map_option_comp_eq [OF slots that] obtain nd where nd: "w_nodes w m = Some nd" "bare_slots nd' = bare_slots nd" by blast
      from P(1) [OF nd(1)] have "node_ok w' nd" using G(3) unfolding node_ok_def by blast
      then show ?thesis using bare [OF nd(2)] nd(1) by (simp add: node_ok_def)
    qed
    show "\<exists>x'. w_intfs w' j = Some x' \<and> udp_socks_manager x' = udp_socks_manager x \<and> tcp_socks_manager x' = tcp_socks_manager x"
      if "w_intfs w j = Some x" for j x
      using G(3) [of j] G(4) [of j] below [of j] that by (cases "w_intfs w' j") auto
    show "intf_ok x' \<and> (w_intfs w j = None \<longrightarrow> udp_socks_manager x' = [] \<and> tcp_socks_manager x' = [])"
      if "w_intfs w' j = Some x'" for j x'
      using G(4) [OF that] P(2) [of j x'] by (auto simp: new_intf_def intf_ok_def)
    show "h < w_next w' \<and> graph_ok w' gr" if "w_graphs w' h = Some gr" for h gr
    proof -
      have "w_nodes w' m \<noteq> None" if "w_nodes w m \<noteq> None" for m
        using map_option_comp_eq [OF slots [symmetric], of m] that by (cases "w_nodes w m") auto
      then show ?thesis using P(3) [of h gr] that n graph_more by (auto simp: G(2))
    qed
  qed
qed

text \<open>
  What can stop an insertion: a node without a free slot fails the assertion, and the search for
  a UDP port does not end when the socket the system has just opened for an end of the link, or
  failed to open, can be bound to no port.
\<close>

definition refuses_ports :: "os \<Rightarrow> world \<Rightarrow> bool" where
  "refuses_ports os w \<longleftrightarrow> (\<forall>k. \<not> can_bind os (os_socket os (trace w)) w k)"

definition first_port :: "os \<Rightarrow> world \<Rightarrow> nat \<Rightarrow> bool" where
  "first_port os w k \<longleftrightarrow> can_bind os (os_socket os (trace w)) w k \<and>
     (\<forall>j < k. \<not> can_bind os (os_socket os (trace w)) w j)"

text \<open>A link opens a socket for its first end, and then one for its second.\<close>

definition refuses_link :: "os \<Rightarrow> world \<Rightarrow> bool" where
  "refuses_link os w \<longleftrightarrow> refuses_ports os w \<or>
     (\<exists>k. first_port os w k \<and> refuses_ports os (after_tries (os_socket os (trace w)) (Suc k) w))"

lemma can_bind_cong:
  "trace v = trace w \<Longrightarrow> next_udp_port v = next_udp_port w \<Longrightarrow> can_bind os fd v k = can_bind os fd w k"
  by (simp add: can_bind_def)

lemma refuses_ports_cong:
  "trace v = trace w \<Longrightarrow> next_udp_port v = next_udp_port w \<Longrightarrow> refuses_ports os v = refuses_ports os w"
  by (simp add: refuses_ports_def can_bind_cong [of v w])

lemma bind_loop_result:
  assumes "bind_loop os (os_socket os (trace w)) w = Some (port, w')"
  shows "\<exists>k. first_port os w k \<and> w' = after_tries (os_socket os (trace w)) (Suc k) w"
proof -
  define K where "K = (LEAST k. can_bind os (os_socket os (trace w)) w k)"
  from bind_loop_only [OF assms] have k: "can_bind os (os_socket os (trace w)) w K" unfolding K_def by (rule LeastI_ex)
  have l: "\<not> can_bind os (os_socket os (trace w)) w j" if "j < K" for j using that unfolding K_def by (rule not_less_Least)
  have "w' = after_tries (os_socket os (trace w)) (Suc K) w" using bind_loop_first [OF k l] assms by (metis option.inject prod.inject)
  moreover have "first_port os w K" using k l by (simp only: first_port_def simp_thms) blast
  ultimately show ?thesis by blast
qed

lemma udp_init_comm_runs:
  assumes x: "w_intfs w i = Some x"
  shows "runs (\<lambda>e. e = Diverges \<and> refuses_ports os w)
    (\<lambda>(_, w'). \<exists>k. first_port os w k \<and> trace w' = trace (after_tries (os_socket os (trace w)) (Suc k) w) \<and>
       next_udp_port w' = next_udp_port (after_tries (os_socket os (trace w)) (Suc k) w)) (udp_init_comm os i w)"
proof (cases "bind_loop os (os_socket os (trace w)) w")
  case None
  then have "refuses_ports os w" using bind_loop_terminates_iff unfolding refuses_ports_def by blast
  with None show ?thesis by (simp add: udp_init_comm_def)
next
  case (Some r)
  obtain port w1 where r: "r = (port, w1)" by fastforce
  have g: "get_intf i w1 = Inr x" using opened_bind_loop [OF Some] x by (auto simp: opened_def get_intf_def r)
  from bind_loop_result [OF Some [unfolded r]] Some r show ?thesis
    by (simp add: udp_init_comm_def set_comm_eq [OF g] Let_def) (auto simp: set_fd_comm_def put_intf_def)
qed

lemma init_comm_runs:
  assumes x: "w_intfs w i = Some x" and ct: "ct \<noteq> CT_NONE"
  shows "runs (\<lambda>e. e = Diverges \<and> ct = CT_UDP \<and> refuses_ports os w)
    (\<lambda>(_, w'). ct = CT_UDP \<longrightarrow> (\<exists>k. first_port os w k \<and>
       trace w' = trace (after_tries (os_socket os (trace w)) (Suc k) w) \<and>
       next_udp_port w' = next_udp_port (after_tries (os_socket os (trace w)) (Suc k) w))) (init_comm os i ct w)"
proof -
  have g: "get_intf i w = Inr x" using x by (simp add: get_intf_def)
  show ?thesis
  proof (cases ct)
    case CT_UDP
    let ?y = "x\<lparr>if_comm := (if_comm x)\<lparr>comm_type := CT_UDP, comm_ops := Some Udp_comm_ops\<rparr>\<rparr>"
    let ?w = "put_intf i ?y w"
    have y: "w_intfs ?w i = Some ?y" "trace ?w = trace w" "next_udp_port ?w = next_udp_port w" by (simp_all add: put_intf_def)
    from udp_init_comm_runs [OF y(1), of os] CT_UDP show ?thesis
      by (simp add: init_comm_def set_comm_eq [OF g] refuses_ports_cong [OF y(2,3)] first_port_def can_bind_cong [OF y(2,3)]
          after_tries_def y(2,3))
  next
    case CT_TUNTAP
    let ?y = "x\<lparr>if_comm := (if_comm x)\<lparr>comm_type := CT_TUNTAP, comm_ops := Some Tuntap_comm_ops\<rparr>\<rparr>"
    from tun_alloc_frame [of os "if_name ?y" "put_intf i ?y w"] obtain fd es where
      a: "tun_alloc os (if_name ?y) (put_intf i ?y w) = (fd, (put_intf i ?y w)\<lparr>trace := trace (put_intf i ?y w) @ es\<rparr>)" by blast
    have "get_intf i ((put_intf i ?y w)\<lparr>trace := trace (put_intf i ?y w) @ es\<rparr>) = Inr ?y"
      by (simp add: get_intf_def put_intf_def)
    with CT_TUNTAP a show ?thesis
      by (simp add: init_comm_def set_comm_eq [OF g] tuntap_init_comm_def set_comm_eq intf_table.get_put_same Let_def)
  qed (use ct in simp)
qed

definition free_slots :: "node_id \<Rightarrow> world \<Rightarrow> nat" where
  "free_slots n w = (case slots_map w n of None \<Rightarrow> 0 | Some sl \<Rightarrow> count_list sl None)"

definition insert_fault :: "bool \<Rightarrow> bool \<Rightarrow> fault \<Rightarrow> bool" where
  "insert_fault full refused e \<longleftrightarrow> e = Assert_failed \<and> full \<or> e = Diverges \<and> refused"

lemma count_update:
  "k < length sl \<Longrightarrow> sl ! k = None \<Longrightarrow> count_list sl None = Suc (count_list (sl[k := Some i]) None)"
proof (induction sl arbitrary: k)
  case (Cons y sl)
  then show ?case by (cases k) auto
qed simp

lemma init_interface_runs:
  assumes x: "w_intfs w i = Some x" and nd: "w_nodes w n \<noteq> None" and ct: "ct \<noteq> CT_NONE"
  shows "runs (insert_fault (free_slots n w = 0) (ct = CT_UDP \<and> refuses_ports os w))
    (\<lambda>w'. ct = CT_UDP \<longrightarrow> (\<exists>k. first_port os w k \<and>
       trace w' = trace (after_tries (os_socket os (trace w)) (Suc k) w) \<and>
       next_udp_port w' = next_udp_port (after_tries (os_socket os (trace w)) (Suc k) w)))
    (init_interface os i name n l ct w)" (is "runs ?F ?P _")
proof -
  from nd obtain nd where nd: "w_nodes w n = Some nd" by blast
  have g: "get_intf i w = Inr x" "get_node n w = Inr nd" using x nd by (simp_all add: get_intf_def get_node_def)
  let ?nd = "nd\<lparr>node_intfs := (node_intfs nd)[nat (get_node_intf_available_slot nd) := Some i]\<rparr>"
  let ?y = "init_intf_nw_prop (x\<lparr>if_name := strncpy name MAX_IF_NAME_SIZE, if_node := n, if_link := l\<rparr>)"
  let ?w2 = "put_intf i ?y (put_node n ?nd w)"
  have full: "free_slots n w = 0" if "get_node_intf_available_slot nd = - 1"
    using that node_slots [OF g(2)] available_slot_None [of "node_intfs nd" 0]
    by (auto simp: free_slots_def get_node_intf_available_slot_def count_list_0_iff split: option.splits)
  have "get_node (if_node ?y) ?w2 = Inr ?nd" by (simp add: init_intf_nw_prop_def get_node_def put_intf_def put_node_def)
  then obtain y where y: "interface_assign_mac_address i ?w2 = Inr (put_intf i y ?w2)"
    by (simp add: interface_assign_mac_address_def intf_table.get_put_same)
  let ?w3 = "put_intf i y ?w2"
  have w3: "w_intfs ?w3 i = Some y" "trace ?w3 = trace w" "next_udp_port ?w3 = next_udp_port w"
    by (simp_all add: put_intf_def put_node_def)
  have "runs ?F ?P (bindE (init_comm os i ct ?w3) (\<lambda>(_, w). Inr w))"
    by (rule runs_bind [OF runs_weaken [OF init_comm_runs [OF w3(1) ct, of os]]])
      (auto simp: insert_fault_def refuses_ports_cong [OF w3(2,3)] first_port_def can_bind_cong [OF w3(2,3)] after_tries_def w3(2,3))
  then show ?thesis
    using full by (auto simp: init_interface_def g y Let_def insert_fault_def intro!: run_rules)
qed

lemma init_interface_slots:
  assumes "init_interface os i name n l ct w = Inr w'"
  shows "free_slots m w = (if m = n then Suc (free_slots m w') else free_slots m w')"
proof -
  from init_interface_node [OF assms] obtain sl where sl: "slots_map w n = Some sl" by blast
  from init_interface_shape [OF assms sl] obtain k where "k < length sl" "sl ! k = None"
    "slots_map w' = (slots_map w)(n \<mapsto> sl[k := Some i])" by blast
  with sl count_update [of k sl i] show ?thesis by (simp add: free_slots_def)
qed

text \<open>A link needs a slot at each end, two of them at a node it joins with itself.\<close>

definition crowded :: "node_id \<Rightarrow> node_id \<Rightarrow> world \<Rightarrow> bool" where
  "crowded n1 n2 w \<longleftrightarrow> free_slots n1 w = 0 \<or> free_slots n2 w < (if n1 = n2 then 2 else 1)"

text \<open>New identifiers: no entry of the table names them, and new interfaces keep it.\<close>

lemma comms_new:
  assumes wf: "wf_world w" and v: "fd_to_comm_map v = fd_to_comm_map w"
    "\<And>i. i < w_next w \<Longrightarrow> w_intfs v i = w_intfs w i"
  shows "comms_ok v" "w_next w \<le> i \<Longrightarrow> Some i \<notin> set (fd_to_comm_map v)"
proof -
  have live: "i < w_next w" if "w_intfs w i \<noteq> None" for i using wf_worldD(5) [OF wf] that unfolding fresh_ok_def by blast
  show "comms_ok v"
    by (rule comms_more [OF wf_parts(4) [OF wf] v(1)]) (use v(2) live in \<open>metis option.distinct(1)\<close>)
  show "w_next w \<le> i \<Longrightarrow> Some i \<notin> set (fd_to_comm_map v)"
    using comms_live(2) [OF wf_parts(4) [OF wf], of i] live [of i] by (auto simp: v(1))
qed

lemma insert_link_safe:
  assumes wf: "wf_world w" and n: "w_nodes w n1 \<noteq> None" "w_nodes w n2 \<noteq> None"
  shows "runs (insert_fault (crowded n1 n2 w) (refuses_link os w)) (\<lambda>(_, w'). wf_world w') (insert_link_between_two_nodes os n1 n2 f1 f2 c w)"
    (is "runs ?F _ _")
proof -
  define l where "l = w_next w"
  define w0 where "w0 = (put_intf (Suc (Suc l)) zero_intf (put_intf (Suc l) zero_intf
    (put_link l \<lparr>intf1 = Suc l, intf2 = Suc (Suc l), cost = c\<rparr> w)))\<lparr>w_next := Suc (Suc (Suc l))\<rparr>"
  have eq: "insert_link_between_two_nodes os n1 n2 f1 f2 c w =
    bindE (init_interface os (Suc l) f1 n1 (Some l) CT_UDP w0) (\<lambda>w1.
    bindE (init_interface os (Suc (Suc l)) f2 n2 (Some l) CT_UDP w1) (\<lambda>w2. Inr (l, w2)))"
    by (simp add: insert_link_between_two_nodes_def w0_def l_def put_link_def put_intf_def Let_def)
  have z: "new_intf zero_intf" by (simp add: new_intf_def zero_intf_def MAC_ADDR_SIZE_def)
  have g0: "grows l w w0" using z by (auto simp: grows_def same_traffic_def w0_def put_intf_def put_link_def)
  have live: "w_intfs v i \<noteq> None" "w_nodes v n \<noteq> None" if "grows l u v" "w_intfs u i \<noteq> None" "w_nodes u n \<noteq> None" for u v i n
  proof -
    from that show "w_intfs v i \<noteq> None" by (simp add: grows_def)
    from that have "map_option bare_slots \<circ> w_nodes u = map_option bare_slots \<circ> w_nodes v" by (simp add: grows_def)
    from map_option_comp_eq [OF this, of n] that(3) show "w_nodes v n \<noteq> None" by (cases "w_nodes v n") auto
  qed
  have free0: "free_slots m w0 = free_slots m w" for m
    by (simp add: free_slots_def slots_map_def w0_def put_intf_def put_link_def)
  have t0: "trace w0 = trace w" "next_udp_port w0 = next_udp_port w" by (simp_all add: w0_def put_intf_def put_link_def)
  have c0: "comms_ok w0" "w_next w \<le> i \<Longrightarrow> Some i \<notin> set (fd_to_comm_map w0)" for i
    by (rule comms_new [OF wf]; simp add: w0_def put_intf_def put_link_def l_def)+
  have i0: "w_intfs w0 (Suc l) = Some zero_intf" "w_intfs w0 (Suc (Suc l)) \<noteq> None" "w_nodes w0 n1 \<noteq> None" "w_nodes w0 n2 \<noteq> None"
    using n by (simp_all add: w0_def put_intf_def put_link_def)
  have "runs ?F (\<lambda>(_, w2). grows l w w2 \<and> comms_ok w2) (insert_link_between_two_nodes os n1 n2 f1 f2 c w)"
    unfolding eq
  proof (rule runs_bind_eq [where P = "\<lambda>_. True"], goal_cases)
    case 1
    show ?case
      by (rule runs_weaken [OF init_interface_runs [OF i0(1,3)]])
        (auto simp: insert_fault_def crowded_def free0 refuses_link_def refuses_ports_cong [OF t0])
  next
    case (2 w1)
    have second: "refuses_link os w" if "refuses_ports os w1"
    proof -
      from runs_InrD [OF init_interface_runs [OF i0(1,3)] 2(1)] obtain k where k: "first_port os w0 k"
        "trace w1 = trace (after_tries (os_socket os (trace w0)) (Suc k) w0)"
        "next_udp_port w1 = next_udp_port (after_tries (os_socket os (trace w0)) (Suc k) w0)" by auto
      from k(2,3) have "refuses_ports os (after_tries (os_socket os (trace w)) (Suc k) w)"
        using that refuses_ports_cong [of w1 "after_tries (os_socket os (trace w)) (Suc k) w"] by (simp add: after_tries_def t0)
      with k(1) show ?thesis by (auto simp: refuses_link_def first_port_def can_bind_cong [OF t0] t0)
    qed
    have g1: "grows l w0 w1" by (rule grows_init_interface [OF 2(1)]) simp
    note r1 = registers_init_interface [OF 2(1)]
    have c1: "comms_ok w1" "Some (Suc (Suc l)) \<notin> set (fd_to_comm_map w1)"
      using registers_ok [OF c0(1) r1] registers_set [OF r1] c0(2) [of "Suc l"] c0(2) [of "Suc (Suc l)"] by (auto simp: l_def)
    from live [OF g1 i0(2,4)] obtain x2 where i1: "w_intfs w1 (Suc (Suc l)) = Some x2" "w_nodes w1 n2 \<noteq> None" by blast
    show ?case
    proof (rule runs_bind_eq [where P = "\<lambda>_. True"], goal_cases)
      case 1
      show ?case
        by (rule runs_weaken [OF init_interface_runs [OF i1]])
          (use init_interface_slots [OF 2(1), of n2] second in \<open>auto simp: insert_fault_def crowded_def free0 split: if_splits\<close>)
    next
      case (2 w2)
      have "grows l w1 w2" by (rule grows_init_interface [OF 2(1)]) simp
      with grows_trans [OF grows_trans [OF g0 g1]] registers_ok [OF c1(1) registers_init_interface [OF 2(1)] c1(2)]
      show ?case by simp
    qed
  qed
  moreover have "wf_topo w'" "w_next w \<le> w_next w'"
    if "insert_link_between_two_nodes os n1 n2 f1 f2 c w = Inr (k, w')" for k w'
  proof -
    from wf_insert_link [OF wf_world_topo [OF wf] that] show t: "wf_topo w'" by simp
    from wf_insert_link [OF wf_world_topo [OF wf] that] have "k < w_next w'"
      using t unfolding wf_topo_def below_def by (metis option.distinct(1))
    moreover have "k = w_next w" using that by (auto simp: eq l_def res_simps)
    ultimately show "w_next w \<le> w_next w'" by simp
  qed
  ultimately show ?thesis using wf_grown [OF wf] l_def by (auto elim!: runs_weaken)
qed

lemma insert_tuntap_safe:
  assumes wf: "wf_world w" and n: "w_nodes w n \<noteq> None"
  shows "runs (insert_fault (free_slots n w = 0) False) (\<lambda>(_, w'). wf_world w') (insert_tuntap_interface os n name w)"
    (is "runs ?F _ _")
proof -
  define i where "i = w_next w"
  define w0 where "w0 = (put_intf i zero_intf w)\<lparr>w_next := Suc i\<rparr>"
  have eq: "insert_tuntap_interface os n name w = bindE (init_interface os i name n None CT_TUNTAP w0) (\<lambda>w1. Inr (i, w1))"
    by (simp add: insert_tuntap_interface_def w0_def i_def put_intf_def Let_def)
  have z: "new_intf zero_intf" by (simp add: new_intf_def zero_intf_def MAC_ADDR_SIZE_def)
  have g0: "grows i w w0" using z by (auto simp: grows_def same_traffic_def w0_def put_intf_def)
  have free0: "free_slots m w0 = free_slots m w" for m
    by (simp add: free_slots_def slots_map_def w0_def put_intf_def)
  have c0: "comms_ok w0" "w_next w \<le> j \<Longrightarrow> Some j \<notin> set (fd_to_comm_map w0)" for j
    by (rule comms_new [OF wf]; simp add: w0_def put_intf_def i_def)+
  have "runs ?F (\<lambda>(_, w1). grows i w w1 \<and> comms_ok w1) (insert_tuntap_interface os n name w)"
    unfolding eq
  proof (rule runs_bind_eq [where P = "\<lambda>_. True"], goal_cases)
    case 1
    have "w_intfs w0 i = Some zero_intf" "w_nodes w0 n \<noteq> None" using n by (simp_all add: w0_def put_intf_def)
    from init_interface_runs [OF this, of CT_TUNTAP] show ?case by (auto simp: free0 elim!: runs_weaken)
  next
    case (2 w1)
    have "grows i w0 w1" by (rule grows_init_interface [OF 2(1)]) simp
    with grows_trans [OF g0] registers_ok [OF c0(1) registers_init_interface [OF 2(1)]] c0(2) [of i] show ?case
      by (simp add: i_def)
  qed
  moreover have "wf_topo w'" "w_next w \<le> w_next w'" if "insert_tuntap_interface os n name w = Inr (k, w')" for k w'
  proof -
    from wf_insert_tuntap [OF wf_world_topo [OF wf] that] show t: "wf_topo w'" by simp
    from wf_insert_tuntap [OF wf_world_topo [OF wf] that] have "k < w_next w'"
      using t unfolding wf_topo_def below_def by (metis option.distinct(1))
    moreover have "k = w_next w" using that by (auto simp: eq i_def res_simps)
    ultimately show "w_next w \<le> w_next w'" by simp
  qed
  ultimately show ?thesis using wf_grown [OF wf] i_def by (auto elim!: runs_weaken)
qed

end
