(* ===== verification/Removal.thy ===== *)
theory Removal
  imports Safe_Build
begin

text \<open>
  What destruction changes and what it leaves alone.  A descriptor is taken out of the table of the
  receive thread before its interface is freed, provided it is not 0, which \<open>destroy_comm\<close> takes
  for a descriptor that was never opened; destroying nodes removes no interface but theirs and those
  at the other end of their links.
\<close>

section \<open>What destruction leaves alone\<close>

definition stdin_free :: "world \<Rightarrow> bool" where
  "stdin_free w \<longleftrightarrow> fd_to_comm_map w ! 0 = None"

definition torn :: "intf_id set \<Rightarrow> world \<Rightarrow> world \<Rightarrow> bool" where
  "torn D w w' \<longleftrightarrow> same_traffic w w' \<and> w_next w' = w_next w \<and> w_graphs w' = w_graphs w \<and>
     map_option bare_slots \<circ> w_nodes w' = map_option bare_slots \<circ> w_nodes w \<and>
     (\<forall>i. i \<notin> D \<longrightarrow> w_intfs w' i = w_intfs w i) \<and>
     length (fd_to_comm_map w') = length (fd_to_comm_map w) \<and>
     (\<forall>k. fd_to_comm_map w' ! k = fd_to_comm_map w ! k \<or> fd_to_comm_map w' ! k = None)"

lemma torn_refl: "torn D w w"
  by (simp add: torn_def same_traffic_def)

lemma tornD:
  assumes "torn D w w'"
  shows "same_traffic w w'" "w_next w' = w_next w" "w_graphs w' = w_graphs w"
    "map_option bare_slots \<circ> w_nodes w' = map_option bare_slots \<circ> w_nodes w" "i \<notin> D \<Longrightarrow> w_intfs w' i = w_intfs w i"
    "length (fd_to_comm_map w') = length (fd_to_comm_map w)"
    "fd_to_comm_map w' ! k = fd_to_comm_map w ! k \<or> fd_to_comm_map w' ! k = None"
  by (simp_all add: assms [unfolded torn_def])

lemma torn_trans:
  assumes "torn D u v" and "torn D v w"
  shows "torn D u w"
proof -
  note U = tornD [OF assms(1)] and V = tornD [OF assms(2)]
  have "fd_to_comm_map w ! k = fd_to_comm_map u ! k \<or> fd_to_comm_map w ! k = None" for k
    using U(7) [of k] V(7) [of k] by auto
  moreover have "same_traffic u w" using U(1) V(1) by (simp add: same_traffic_def)
  moreover have "w_intfs w i = w_intfs u i" if "i \<notin> D" for i using U(5) [OF that] V(5) [OF that] by simp
  moreover have "map_option bare_slots \<circ> w_nodes w = map_option bare_slots \<circ> w_nodes u" using U(4) V(4) by (rule trans [rotated])
  moreover have "w_next w = w_next u" "w_graphs w = w_graphs u" "length (fd_to_comm_map w) = length (fd_to_comm_map u)"
    using U(2,3,6) V(2,3,6) by simp_all
  ultimately show ?thesis unfolding torn_def by blast
qed

lemma torn_mono:
  assumes "torn D u v" and "D \<subseteq> E"
  shows "torn E u v"
proof -
  note U = tornD [OF assms(1)]
  have "w_intfs v i = w_intfs u i" if "i \<notin> E" for i using U(5) that assms(2) by blast
  with U(1-4,6,7) show ?thesis by (simp add: torn_def)
qed

text \<open>An interface that the table does not name stays out of it.\<close>

lemma torn_out:
  assumes t: "torn D w w'" and i: "Some i \<notin> set (fd_to_comm_map w)"
  shows "Some i \<notin> set (fd_to_comm_map w')"
proof
  assume "Some i \<in> set (fd_to_comm_map w')"
  then obtain k where k: "k < length (fd_to_comm_map w')" "fd_to_comm_map w' ! k = Some i"
    by (auto simp: in_set_conv_nth)
  with tornD(6) [OF t] tornD(7) [OF t, of k] i show False by (metis nth_mem option.distinct(1))
qed

lemma torn_comms:
  assumes t: "torn D w w'" and out: "\<And>i. i \<in> D \<Longrightarrow> Some i \<notin> set (fd_to_comm_map w')"
    and ok: "comms_ok w" "stdin_free w"
  shows "comms_ok w'" "stdin_free w'"
proof -
  note same = tornD(6,7,5) [OF t] and l = comms_live(1) [OF ok(1)]
  show "stdin_free w'" using same(2) [of 0] ok(2) by (auto simp: stdin_free_def)
  show "comms_ok w'"
    unfolding comms_ok_def
  proof (intro conjI allI impI)
    fix k i
    assume k: "k < MAX_COMMS" "fd_to_comm_map w' ! k = Some i"
    then have "Some i \<in> set (fd_to_comm_map w')" using same(1) l by (metis nth_mem)
    with out have "i \<notin> D" by blast
    moreover have "fd_to_comm_map w ! k = Some i" using k(2) same(2) [of k] by simp
    ultimately show "\<exists>x. w_intfs w' i = Some x \<and> comm_fd (if_comm x) = int k"
      using ok(1) k(1) same(3) [of i] by (auto simp: comms_ok_def)
  qed (simp add: same(1) l)
qed

section \<open>The parts of a destruction\<close>

lemma destroy_comm_torn:
  assumes r: "destroy_comm i w = Inr (b, w')"
  shows "torn {i} w w'" "comms_ok w \<Longrightarrow> stdin_free w \<Longrightarrow> Some i \<notin> set (fd_to_comm_map w')"
proof -
  from r obtain x where x: "get_intf i w = Inr x" and "comm_ops (if_comm x) \<noteq> None"
    by (auto simp: destroy_comm_def res_simps split: option.splits)
  then have w': "w' = (if comm_fd (if_comm x) = 0 then w
      else put_intf i (x\<lparr>if_comm := zero_fd (if_comm x)\<rparr>) (closed_fd (comm_fd (if_comm x)) w))"
    using r destroy_comm_eq by simp
  have upd: "m[j := v] ! k = (if j = k \<and> k < length m then v else m ! k)" for m :: "intf_id option list" and j k v
    by (cases "j < length m") (auto simp: nth_list_update list_update_beyond)
  show "torn {i} w w'"
    by (simp add: w' torn_def same_traffic_def put_intf_def closed_fd_def emit_def set_fd_comm_def upd)
  assume ok: "comms_ok w" "stdin_free w"
  show "Some i \<notin> set (fd_to_comm_map w')"
  proof
    assume "Some i \<in> set (fd_to_comm_map w')"
    then obtain k where k: "k < length (fd_to_comm_map w')" "fd_to_comm_map w' ! k = Some i" by (auto simp: in_set_conv_nth)
    with tornD(6) [OF \<open>torn {i} w w'\<close>] tornD(7) [OF \<open>torn {i} w w'\<close>, of k] have m: "k < MAX_COMMS" "fd_to_comm_map w ! k = Some i"
      using comms_live(1) [OF ok(1)] by simp_all
    with ok(2) have "k \<noteq> 0" by (cases "k = 0") (simp_all add: stdin_free_def)
    moreover have "comm_fd (if_comm x) = int k"
      using ok(1) x m by (auto simp: comms_ok_def get_intf_def split: option.splits)
    ultimately show False using k m(1)
      by (simp add: w' put_intf_def closed_fd_def emit_def set_fd_comm_def)
  qed
qed

lemma free_torn: "torn {i} w (free_intf i w)"
  by (simp add: torn_def same_traffic_def free_intf_def)

lemma destroy_interface_torn:
  assumes r: "destroy_interface i w = Inr w'"
  shows "torn {i} w w'" "comms_ok w \<Longrightarrow> stdin_free w \<Longrightarrow> Some i \<notin> set (fd_to_comm_map w')"
proof -
  from r obtain b v where v: "destroy_comm i w = Inr (b, v)" "w' = v \<or> w' = free_intf i v"
    by (auto simp: destroy_interface_def res_simps Let_def split: if_splits)
  from destroy_comm_torn(1) [OF v(1)] have "torn {i} w v" .
  with v(2) torn_trans [OF this free_torn] show "torn {i} w w'" by blast
  assume "comms_ok w" "stdin_free w"
  from destroy_comm_torn(2) [OF v(1) this] v(2) show "Some i \<notin> set (fd_to_comm_map w')"
    by (auto simp: free_intf_def)
qed

lemma clear_slot_torn:
  assumes "clear_slot l n k w = Inr w'"
  shows "torn D w w'"
proof -
  from assms obtain nd where nd: "w_nodes w n = Some nd" "w' = w \<or> w' = put_node n (nd\<lparr>node_intfs := (node_intfs nd)[k := None]\<rparr>) w"
    by (auto simp: clear_slot_def res_simps get_node_def split: option.splits if_splits)
  then show ?thesis
    by (auto simp: torn_def same_traffic_def put_node_def fun_eq_iff bare_slots_def)
qed

lemma clear_slots_torn: "clear_slots l n1 n2 ks w = Inr w' \<Longrightarrow> torn D w w'"
proof (induction ks arbitrary: w)
  case (Cons k ks)
  then obtain u v where "clear_slot l n1 k w = Inr u" "clear_slot l n2 k u = Inr v" "clear_slots l n1 n2 ks v = Inr w'"
    by (auto simp: res_simps)
  with Cons.IH torn_trans clear_slot_torn show ?case by metis
qed (simp add: torn_refl)

text \<open>A link: its interfaces leave the table of the receive thread before they are freed.\<close>

lemma destroy_link_torn:
  assumes r: "destroy_link l w = Inr w'" and lk: "w_links w l = Some lk"
  shows "torn {intf1 lk, intf2 lk} w w'" "comms_ok w \<Longrightarrow> stdin_free w \<Longrightarrow> comms_ok w' \<and> stdin_free w'"
proof -
  let ?D = "{intf1 lk, intf2 lk}"
  from r lk obtain n1 n2 w1 w2 w3 where w1: "clear_slots l n1 n2 [0 ..< MAX_INTFS_PER_NODE] w = Inr w1"
    and w2: "destroy_interface (intf1 lk) w1 = Inr w2" and w3: "destroy_interface (intf2 lk) w2 = Inr w3"
    and w': "w' = free_link l lk w3"
    by (auto simp: destroy_link_def res_simps get_link_def)
  note t1 = clear_slots_torn [OF w1, of ?D] and c1 = torn_comms [OF clear_slots_torn [OF w1, of "{}"]]
  have t2: "torn ?D w1 w2" by (rule torn_mono [OF destroy_interface_torn(1) [OF w2]]) simp
  have t3: "torn ?D w2 w3" by (rule torn_mono [OF destroy_interface_torn(1) [OF w3]]) simp
  have t4: "torn ?D w3 w'" by (simp add: w' free_link_def free_intf_def torn_def same_traffic_def)
  show t: "torn ?D w w'" using t1 t2 t3 t4 torn_trans by metis
  assume ok: "comms_ok w" "stdin_free w"
  have o2: "Some (intf1 lk) \<notin> set (fd_to_comm_map w2)"
    by (rule destroy_interface_torn(2) [OF w2]) (use c1 ok in simp_all)
  have ok2: "comms_ok w2" "stdin_free w2"
    using torn_comms [OF destroy_interface_torn(1) [OF w2]] o2 c1 ok by simp_all
  have o3: "Some (intf2 lk) \<notin> set (fd_to_comm_map w3)" by (rule destroy_interface_torn(2) [OF w3 ok2])
  have "Some i \<notin> set (fd_to_comm_map w')" if "i \<in> ?D" for i
    using that torn_out [OF t4 o3] torn_out [OF t4 torn_out [OF t3 o2]] by blast
  from torn_comms [OF t this ok] show "comms_ok w' \<and> stdin_free w'" by blast
qed

text \<open>Every destruction that returns closes what it frees.\<close>

definition closes :: "world \<Rightarrow> world \<Rightarrow> bool" where
  "closes w w' \<longleftrightarrow> same_traffic w w' \<and> w_next w' = w_next w \<and> (\<forall>g. w_graphs w' g = None \<longleftrightarrow> w_graphs w g = None) \<and>
     (comms_ok w \<and> stdin_free w \<longrightarrow> comms_ok w' \<and> stdin_free w')"

lemma closes_trans: "closes u v \<Longrightarrow> closes v w \<Longrightarrow> closes u w"
  unfolding closes_def same_traffic_def by (elim conjE, intro conjI) simp_all

lemma closes_torn:
  "torn D w w' \<Longrightarrow> (comms_ok w \<Longrightarrow> stdin_free w \<Longrightarrow> comms_ok w' \<and> stdin_free w') \<Longrightarrow> closes w w'"
  using tornD(1-3) [of D w w'] by (simp add: closes_def)

lemma closes_interface:
  assumes "destroy_interface i w = Inr w'"
  shows "closes w w'"
proof (rule closes_torn [OF destroy_interface_torn(1) [OF assms]])
  assume ok: "comms_ok w" "stdin_free w"
  note out = destroy_interface_torn(2) [OF assms ok]
  from torn_comms [OF destroy_interface_torn(1) [OF assms] _ ok] out show "comms_ok w' \<and> stdin_free w'" by simp
qed

lemma closes_link:
  assumes "destroy_link l w = Inr w'"
  shows "closes w w'"
proof -
  from assms obtain lk where "w_links w l = Some lk"
    by (auto simp: destroy_link_def res_simps get_link_def split: option.splits)
  from closes_torn [OF destroy_link_torn [OF assms this]] show ?thesis .
qed

lemma closes_slots: "destroy_slots n ks w = Inr w' \<Longrightarrow> closes w w'"
proof (induction ks arbitrary: w)
  case (Cons k ks)
  from Cons.prems obtain nd :: node and v where nd: "(case node_intfs nd ! k of None \<Rightarrow> Inr w
      | Some i \<Rightarrow> bindE (get_intf i w) (\<lambda>x. case if_link x of Some l \<Rightarrow> destroy_link l w | None \<Rightarrow> destroy_interface i w)) = Inr v"
    and v: "destroy_slots n ks v = Inr w'"
    by (auto simp: res_simps)
  have "w = v \<or> closes w v"
  proof (cases "node_intfs nd ! k")
    case (Some i)
    with nd obtain x :: intf where "(case if_link x of Some l \<Rightarrow> destroy_link l w | None \<Rightarrow> destroy_interface i w) = Inr v"
      by (auto simp: res_simps)
    then show ?thesis using closes_interface closes_link by (cases "if_link x") simp_all
  qed (use nd in simp)
  with Cons.IH [OF v] closes_trans show ?case by blast
qed (simp add: closes_def same_traffic_def)

lemma closes_node:
  assumes "destroy_node n w = Inr w'"
  shows "closes w w'"
proof -
  from assms obtain v nd where v: "destroy_slots n [0 ..< MAX_INTFS_PER_NODE] (unlink_node n w) = Inr v"
    and w': "w' = (put_node n nd v)\<lparr>w_nodes := (w_nodes (put_node n nd v))(n := None)\<rparr>"
    by (auto simp: destroy_node_def res_simps Let_def)
  have "closes w (unlink_node n w)" by (simp add: closes_def same_traffic_def unlink_node_def comms_ok_def stdin_free_def)
  moreover have "closes v w'" by (simp add: w' closes_def same_traffic_def put_node_def comms_ok_def stdin_free_def)
  ultimately show ?thesis using closes_slots [OF v] closes_trans by blast
qed

lemma closes_nodes: "destroy_nodes ns w = Inr w' \<Longrightarrow> closes w w'"
proof (induction ns arbitrary: w)
  case (Cons n ns)
  then obtain v where "destroy_node n w = Inr v" "destroy_nodes ns v = Inr w'" by (auto simp: res_simps)
  with Cons.IH closes_node closes_trans show ?case by blast
qed (simp add: closes_def same_traffic_def)

section \<open>Unused objects\<close>

text \<open>
  The interfaces that go with the nodes \<open>N\<close>: those of the nodes, and those at the other end of
  their links.
\<close>

definition near :: "node_id set \<Rightarrow> intf \<Rightarrow> world \<Rightarrow> bool" where
  "near N x w \<longleftrightarrow> if_node x \<in> N \<or>
    (\<exists>l j y. if_link x = Some l \<and> w_intfs w j = Some y \<and> if_link y = Some l \<and> if_node y \<in> N)"

text \<open>
  Nothing but the nodes \<open>N\<close> refers to an interface: no socket is bound at it, no route leads to
  it, no packet waits to be sent through it.
\<close>

definition idle_intf :: "node_id set \<Rightarrow> intf_id \<Rightarrow> world \<Rightarrow> bool" where
  "idle_intf N i w \<longleftrightarrow>
    (\<exists>x. w_intfs w i = Some x \<and> udp_socks_manager x = [] \<and> tcp_socks_manager x = []) \<and>
    (\<forall>n nd. n \<notin> N \<longrightarrow> w_nodes w n = Some nd \<longrightarrow> (\<forall>e \<in> set (rt_table nd). rt_intf e \<noteq> i)) \<and>
    (\<forall>n ip. n \<notin> N \<longrightarrow> (\<forall>p \<in> set (queue (Arp_queue n ip) w). \<forall>s. w_skbs w p = Some s \<longrightarrow> skb_intf s \<noteq> Some i))"

text \<open>
  Nodes that can be destroyed: their TAP interfaces come after their links (see theory Teardown),
  no socket was opened on them, and nothing else refers to the interfaces that go with them.
\<close>

definition idle_nodes :: "node_id set \<Rightarrow> world \<Rightarrow> bool" where
  "idle_nodes N w \<longleftrightarrow>
    (\<forall>n \<in> N. \<forall>sl. slots_map w n = Some sl \<longrightarrow> taps_last (ports_map w) sl) \<and>
    (\<forall>u sk. w_udp_socks w u = Some sk \<longrightarrow> us_node sk \<notin> N) \<and> (\<forall>t sk. w_tcp_socks w t = Some sk \<longrightarrow> ts_node sk \<notin> N) \<and>
    (\<forall>i x. w_intfs w i = Some x \<longrightarrow> near N x w \<longrightarrow> idle_intf N i w)"

text \<open>What is removed with the nodes \<open>R\<close>: nothing but interfaces near \<open>N\<close>, and the nodes from the graphs.\<close>

definition removed :: "node_id set \<Rightarrow> node_id set \<Rightarrow> world \<Rightarrow> world \<Rightarrow> bool" where
  "removed N R w w' \<longleftrightarrow> (\<forall>i. w_intfs w' i = w_intfs w i \<or> w_intfs w' i = None) \<and>
    (\<forall>i x. w_intfs w i = Some x \<longrightarrow> w_intfs w' i = None \<longrightarrow> near N x w) \<and>
    map_option bare_slots \<circ> w_nodes w' = (map_option bare_slots \<circ> w_nodes w) |` (- R) \<and>
    (\<forall>g gr'. w_graphs w' g = Some gr' \<longrightarrow> (\<exists>gr. w_graphs w g = Some gr \<and>
       (distinct (graph_nodes gr) \<longrightarrow> graph_nodes gr' = filter (\<lambda>n. n \<notin> R) (graph_nodes gr))))"

lemma removedD:
  assumes "removed N R w w'"
  shows "w_intfs w' i = w_intfs w i \<or> w_intfs w' i = None" "w_intfs w i = Some x \<Longrightarrow> w_intfs w' i = None \<Longrightarrow> near N x w"
    "map_option bare_slots \<circ> w_nodes w' = (map_option bare_slots \<circ> w_nodes w) |` (- R)"
    "w_graphs w' g = Some gr' \<Longrightarrow> \<exists>gr. w_graphs w g = Some gr \<and>
       (distinct (graph_nodes gr) \<longrightarrow> graph_nodes gr' = filter (\<lambda>n. n \<notin> R) (graph_nodes gr))"
  using assms by (simp_all add: removed_def)

lemma removed_nodes:
  assumes r: "removed N R w w'"
  shows "w_nodes w' n = None \<longleftrightarrow> n \<in> R \<or> w_nodes w n = None"
    "w_nodes w' n = Some nd' \<Longrightarrow> \<exists>nd. n \<notin> R \<and> w_nodes w n = Some nd \<and> arp_table nd' = arp_table nd \<and> rt_table nd' = rt_table nd"
proof -
  have slots: "map_option bare_slots (w_nodes w' n) = (if n \<in> R then None else map_option bare_slots (w_nodes w n))"
    using fun_cong [OF removedD(3) [OF r], of n] by (simp add: restrict_map_def)
  then show "w_nodes w' n = None \<longleftrightarrow> n \<in> R \<or> w_nodes w n = None" by (auto split: if_splits)
  assume "w_nodes w' n = Some nd'"
  with slots obtain nd where nd: "n \<notin> R" "w_nodes w n = Some nd" "bare_slots nd' = bare_slots nd"
    by (cases "w_nodes w n") (auto split: if_splits)
  from arg_cong [OF nd(3), of arp_table] arg_cong [OF nd(3), of rt_table] nd(1,2)
  show "\<exists>nd. n \<notin> R \<and> w_nodes w n = Some nd \<and> arp_table nd' = arp_table nd \<and> rt_table nd' = rt_table nd"
    by (simp add: bare_slots_def)
qed

lemma near_before:
  assumes "near N x v" and "\<And>i. w_intfs v i = w_intfs w i \<or> w_intfs v i = None"
  shows "near N x w"
  using assms unfolding near_def by (metis option.distinct(1))

lemma near_mono: "near N x w \<Longrightarrow> N \<subseteq> M \<Longrightarrow> near M x w"
  unfolding near_def by blast

lemma removed_refl: "removed N {} w w"
  by (auto simp: removed_def restrict_map_def)

lemma removed_trans:
  assumes "removed N R u v" and "removed N S v w"
  shows "removed N (R \<union> S) u w"
  unfolding removed_def
proof (intro conjI allI impI)
  note U = removedD [OF assms(1)] and V = removedD [OF assms(2)]
  show "w_intfs w i = w_intfs u i \<or> w_intfs w i = None" for i using U(1) [of i] V(1) [of i] by auto
  show "near N x u" if "w_intfs u i = Some x" "w_intfs w i = None" for i x
  proof (cases "w_intfs v i = None")
    case False
    then have "w_intfs v i = Some x" using U(1) [of i] that by auto
    from near_before [OF V(2) [OF this that(2)] U(1)] show ?thesis .
  qed (use U(2) that in blast)
  show "map_option bare_slots \<circ> w_nodes w = (map_option bare_slots \<circ> w_nodes u) |` (- (R \<union> S))"
    unfolding U(3) V(3) by (auto simp: fun_eq_iff restrict_map_def)
  show "\<exists>gr. w_graphs u g = Some gr \<and> (distinct (graph_nodes gr) \<longrightarrow>
      graph_nodes gr' = filter (\<lambda>n. n \<notin> R \<union> S) (graph_nodes gr))" if "w_graphs w g = Some gr'" for g gr'
  proof -
    from V(4) [OF that] obtain gv where gv: "w_graphs v g = Some gv"
      "distinct (graph_nodes gv) \<longrightarrow> graph_nodes gr' = filter (\<lambda>n. n \<notin> S) (graph_nodes gv)" by blast
    from U(4) [OF gv(1)] obtain gu where gu: "w_graphs u g = Some gu"
      "distinct (graph_nodes gu) \<longrightarrow> graph_nodes gv = filter (\<lambda>n. n \<notin> R) (graph_nodes gu)" by blast
    have "distinct (graph_nodes gu) \<longrightarrow> graph_nodes gr' = filter (\<lambda>n. n \<notin> R \<union> S) (graph_nodes gu)"
      using gv(2) gu(2) by (auto simp: conj_commute)
    with gu(1) show ?thesis by blast
  qed
qed

lemma removed_mono:
  assumes r: "removed N R w w'" and N: "N \<subseteq> M"
  shows "removed M R w w'"
  using removedD(1,3) [OF r] removedD(4) [OF r] near_mono [OF removedD(2) [OF r] N] by (simp add: removed_def)

lemma removed_torn:
  assumes t: "torn D w w'" and D: "\<And>i. i \<in> D \<Longrightarrow> w_intfs w' i = None" "\<And>i x. i \<in> D \<Longrightarrow> w_intfs w i = Some x \<Longrightarrow> near N x w"
  shows "removed N {} w w'"
  unfolding removed_def
proof (intro conjI allI impI)
  show "w_intfs w' i = w_intfs w i \<or> w_intfs w' i = None" for i
    using tornD(5) [OF t, of i] D(1) [of i] by (cases "i \<in> D") simp_all
  show "near N x w" if "w_intfs w i = Some x" "w_intfs w' i = None" for i x
    using tornD(5) [OF t, of i] D(2) [of i x] that by (cases "i \<in> D") simp_all
qed (use tornD(3,4) [OF t] in \<open>auto simp: restrict_map_def\<close>)

section \<open>What the destructions remove\<close>

lemma destroy_link_frees:
  assumes "destroy_link l w = Inr w'" and "w_links w l = Some lk"
  shows "w_intfs w' (intf1 lk) = None \<and> w_intfs w' (intf2 lk) = None"
  using assms by (auto simp: destroy_link_def res_simps get_link_def free_link_def free_intf_def)

lemma slot_removed:
  assumes d: "destroying n k w" and k: "k < MAX_INTFS_PER_NODE" and nd: "get_node n w = Inr nd"
    and i: "node_intfs nd ! k = Some i" and x: "get_intf i w = Inr x"
    and r: "(case if_link x of Some l \<Rightarrow> destroy_link l w | None \<Rightarrow> destroy_interface i w) = Inr w'"
  shows "removed {n} {} w w'"
proof -
  from d obtain sl where sl: "slots_map w n = Some sl" "length sl = MAX_INTFS_PER_NODE"
    and wf: "wf_shape ((slots_map w)(n \<mapsto> upto_slot k sl)) (ports_map w) (ends_map w)" by (auto simp: destroying_def)
  let ?s = "(slots_map w)(n \<mapsto> upto_slot k sl)" and ?p = "ports_map w" and ?e = "ends_map w"
  have sp: "slots_ok ?s ?p" "ports_ok ?s ?p ?e" "links_ok ?p ?e" using wf by (simp_all add: wf_shape_def)
  have ik: "sl ! k = Some i" and kl: "k < length sl" using node_slots [OF nd] i k sl by simp_all
  have "Some i \<in> set (upto_slot k sl)" using ik upto_slot_Suc(3,4) [OF kl] kl nth_mem by metis
  note q = get_intf_port [OF x]
  have on: "if_node x = n" using slots_okD(2) [OF sp(1), of n "upto_slot k sl" i] \<open>Some i \<in> _\<close> q by (auto simp: port_of_def)
  show ?thesis
  proof (cases "if_link x")
    case None
    from destroy_interface_tuntap [OF q ports_okD(1) [OF sp(2) q]] None r
    have "ports_map w' = ports_map w |` (- {i})" by (auto simp: port_of_def)
    then have "ports_map w' i = None" by simp
    then have "w_intfs w' i = None" by (simp add: ports_map_def)
    then show ?thesis
      using destroy_interface_torn(1) [of i w w'] r None x on
      by (intro removed_torn [of "{i}"]) (simp_all add: near_def get_intf_def split: option.splits)
  next
    case (Some l)
    from ports_okD(3) [OF sp(2) q] Some obtain a b where e: "?e l = Some (a, b)" by (auto simp: port_of_def)
    then obtain lk where lk: "w_links w l = Some lk" "intf1 lk = a" "intf2 lk = b" by (auto simp: ends_map_def)
    have "near {n} y w" if "j \<in> {a, b}" "w_intfs w j = Some y" for j y
    proof -
      have "if_link y = Some l"
        using links_okD(2,3) [OF sp(3) e] that by (auto simp: ports_map_def port_of_def)
      then show ?thesis
        using Some on x unfolding near_def get_intf_def by (auto split: option.splits)
    qed
    with destroy_link_torn(1) [of l w w', OF _ lk(1)] destroy_link_frees [of l w w', OF _ lk(1)] r Some lk show ?thesis
      by (intro removed_torn [of "{a, b}"]) auto
  qed
qed

lemma slots_removed:
  "destroying n k w \<Longrightarrow> k + length ks = MAX_INTFS_PER_NODE \<Longrightarrow> ks = [k ..< MAX_INTFS_PER_NODE] \<Longrightarrow>
   destroy_slots n ks w = Inr w' \<Longrightarrow> removed {n} {} w w'"
proof (induction ks arbitrary: k w)
  case Nil
  then show ?case by (simp add: removed_refl)
next
  case (Cons j ks)
  have k: "k < MAX_INTFS_PER_NODE" "j = k" "ks = [Suc k ..< MAX_INTFS_PER_NODE]" "Suc k + length ks = MAX_INTFS_PER_NODE"
    using Cons.prems(2,3) upt_eq_Cons_conv [of k MAX_INTFS_PER_NODE j ks] by auto
  from Cons.prems(1) obtain sl where sl: "slots_map w n = Some sl" "length sl = MAX_INTFS_PER_NODE"
    by (auto simp: destroying_def)
  from slots_node [OF sl(1)] obtain nd where nd: "get_node n w = Inr nd" "node_intfs nd = sl" by blast
  show ?case
  proof (cases "sl ! k")
    case None
    have kl: "k < length sl" using k(1) sl(2) by simp
    have "destroying n (Suc k) w"
      using Cons.prems(1) sl upto_slot_Suc(1) [OF kl None] upto_slot_Suc(5) [OF kl] None
      unfolding destroying_def by auto
    from Cons.IH [OF this k(4,3)] nd None k(2) Cons.prems(4) show ?thesis by simp
  next
    case (Some i)
    with nd have i: "node_intfs nd ! k = Some i" by simp
    from destroying_step [OF Cons.prems(1) k(1) nd(1) i] obtain x w1 where w1: "get_intf i w = Inr x"
      "(case if_link x of Some l \<Rightarrow> destroy_link l w | None \<Rightarrow> destroy_interface i w) = Inr w1"
      "destroying n (Suc k) w1" by blast
    have "destroy_slots n ks w1 = Inr w'" using Cons.prems(4) w1(1,2) nd Some k(2) by simp
    from Cons.IH [OF w1(3) k(4,3) this] removed_trans [OF slot_removed [OF Cons.prems(1) k(1) nd(1) i w1(1,2)]]
    show ?thesis by force
  qed
qed

lemma node_removed:
  assumes wf: "wf_topo w" and n: "slots_map w n = Some sl" and tl: "taps_last (ports_map w) sl"
    and r: "destroy_node n w = Inr w'"
  shows "removed {n} {n} w w'"
proof -
  let ?w0 = "unlink_node n w"
  have w0: "slots_map ?w0 = slots_map w" "ports_map ?w0 = ports_map w" "ends_map ?w0 = ends_map w"
    "w_next ?w0 = w_next w" "w_nodes ?w0 = w_nodes w" "w_intfs ?w0 = w_intfs w"
    by (simp_all add: unlink_node_def slots_map_def ports_map_def ends_map_def fun_eq_iff)
  have "destroying n 0 ?w0"
    using wf n tl slots_okD(1) [of "slots_map w" "ports_map w" n sl]
    by (auto simp: destroying_def w0 wf_topo_def wf_shape_def upto_slot_def fun_upd_idem)
  moreover from r obtain w1 nd where w1: "destroy_slots n [0 ..< MAX_INTFS_PER_NODE] ?w0 = Inr w1"
    and w': "w' = (put_node n nd w1)\<lparr>w_nodes := (w_nodes (put_node n nd w1))(n := None)\<rparr>"
    by (auto simp: destroy_node_def res_simps Let_def)
  ultimately have "removed {n} {} ?w0 w1" using slots_removed by simp
  note D = removedD [OF this, unfolded w0]
  have near: "near N x ?w0 = near N x w" for N x by (simp add: near_def w0)
  have f: "w_intfs w' = w_intfs w1" "w_graphs w' = w_graphs w1" "w_nodes w' = w_nodes w1 |` (- {n})"
    by (auto simp: w' put_node_def restrict_map_def)
  have "map_option bare_slots \<circ> w_nodes w' = (map_option bare_slots \<circ> w_nodes w) |` (- {n})"
    using D(3) by (auto simp: f fun_eq_iff restrict_map_def)
  moreover have "\<exists>gr. w_graphs w g = Some gr \<and> (distinct (graph_nodes gr) \<longrightarrow>
      graph_nodes gr' = filter (\<lambda>m. m \<notin> {n}) (graph_nodes gr))" if "w_graphs w' g = Some gr'" for g gr'
  proof -
    from D(4) [of g gr'] that obtain g0 where g0: "w_graphs ?w0 g = Some g0" "distinct (graph_nodes g0) \<longrightarrow> graph_nodes gr' = graph_nodes g0"
      by (auto simp: f)
    then obtain gr where "w_graphs w g = Some gr" "graph_nodes g0 = remove1 n (graph_nodes gr)"
      by (auto simp: unlink_node_def)
    with g0(2) show ?thesis by (auto simp: distinct_remove1_removeAll removeAll_filter_not_eq intro!: filter_cong)
  qed
  ultimately show ?thesis using D(1,2) by (simp add: removed_def f near)
qed

lemma nodes_removed:
  assumes "wf_topo w" and "distinct ns"
    and "\<And>n. n \<in> set ns \<Longrightarrow> \<exists>sl. slots_map w n = Some sl \<and> taps_last (ports_map w) sl"
    and "destroy_nodes ns w = Inr w'"
  shows "removed (set ns) (set ns) w w'"
  using assms
proof (induction ns arbitrary: w)
  case Nil
  then show ?case by (simp add: removed_refl)
next
  case (Cons n ns)
  from Cons.prems(3) [of n] obtain sl where sl: "slots_map w n = Some sl" "taps_last (ports_map w) sl" by auto
  from destroy_node_wf [OF Cons.prems(1) sl] obtain w1 where w1: "destroy_node n w = Inr w1" "wf_topo w1"
    "others_ok n w w1" by blast
  have ns: "\<exists>sl. slots_map w1 m = Some sl \<and> taps_last (ports_map w1) sl" if "m \<in> set ns" for m
  proof -
    from that Cons.prems(2,3) obtain sm where "m \<noteq> n" "slots_map w m = Some sm" "taps_last (ports_map w) sm" by auto
    with w1(3) show ?thesis by (simp add: others_ok_def)
  qed
  have "destroy_nodes ns w1 = Inr w'" "distinct ns" using Cons.prems(2,4) w1(1) by simp_all
  from Cons.IH [OF w1(2) this(2) ns this(1)] have "removed (set (n # ns)) (set ns) w1 w'"
    by (rule removed_mono) auto
  moreover have "removed (set (n # ns)) {n} w w1"
    by (rule removed_mono [OF node_removed [OF Cons.prems(1) sl w1(1)]]) simp
  ultimately show ?case using removed_trans by fastforce
qed

end
