(* ===== verification/Safe_Config.thy ===== *)
theory Safe_Config
  imports Safe_Build
begin

text \<open>
  Configuration under the invariant of theory World_Ok: loopback addresses, interface addresses
  with the route they bring, routes, and the switches of the program.
\<close>

section \<open>Nodes and interfaces that are changed in place\<close>

definition good_mask :: "u8 \<Rightarrow> bool" where
  "good_mask m \<longleftrightarrow> 0 \<le> sint m \<and> sint m < 31"

lemma update_node_safe:
  assumes wf: "wf_world w" and nd: "w_nodes w n = Some nd" and nd': "node_ok w nd'" "node_intfs nd' = node_intfs nd"
    "arp_table nd' = arp_table nd"
  shows "wf_world (put_node n nd' w)"
proof -
  have g: "get_node n w = Inr nd" using nd by (simp add: get_node_def)
  have "slots_map (put_node n nd' w) = slots_map w"
    using node_slots [OF g] nd'(2) by (simp add: slots_put_node fun_upd_idem)
  then have topo: "wf_topo (put_node n nd' w)" using wf_world_topo [OF wf] by (simp add: wf_topo_def)
  show ?thesis
  proof (rule wf_build [OF wf topo])
    show "same_traffic w (put_node n nd' w)" by (simp add: same_traffic_def put_node_def)
    show "node_ok (put_node n nd' w) v \<and> (w_nodes w k = None \<longrightarrow> arp_table v = [])" if "w_nodes (put_node n nd' w) k = Some v" for k v
      using that nd nd'(1) wf_parts(1) [OF wf, of k v] by (auto simp: put_node_def node_ok_def split: if_splits)
    show "\<exists>v'. w_nodes (put_node n nd' w) k = Some v' \<and> arp_table v' = arp_table v" if "w_nodes w k = Some v" for k v
      using that nd nd'(3) by (auto simp: put_node_def)
    show "h < w_next (put_node n nd' w) \<and> graph_ok (put_node n nd' w) gr"
      if "w_graphs (put_node n nd' w) h = Some gr" for h gr
      using wf_parts(3) [OF wf, of h gr] that by (auto simp: put_node_def graph_ok_def)
    show "comms_ok (put_node n nd' w)" by (rule comms_more [OF wf_parts(4) [OF wf]]) (simp_all add: put_node_def)
  qed (use wf_parts [OF wf] in \<open>auto simp: put_node_def\<close>)
qed

lemma update_intf_safe:
  assumes wf: "wf_world w" and x: "w_intfs w i = Some x" and x': "intf_ok x'" "port_of x' = port_of x"
    "udp_socks_manager x' = udp_socks_manager x" "tcp_socks_manager x' = tcp_socks_manager x" "if_comm x' = if_comm x"
  shows "wf_world (put_intf i x' w)"
proof -
  have g: "get_intf i w = Inr x" using x by (simp add: get_intf_def)
  have topo: "wf_topo (put_intf i x' w)"
    using same_shape_wf [of w "put_intf i x' w"] put_same_port [OF g x'(2)] wf_world_topo [OF wf] by (simp add: same_shape_def)
  show ?thesis
  proof (rule wf_build [OF wf topo])
    show "same_traffic w (put_intf i x' w)" by (simp add: same_traffic_def put_intf_def)
    show "node_ok (put_intf i x' w) v \<and> (w_nodes w k = None \<longrightarrow> arp_table v = [])" if "w_nodes (put_intf i x' w) k = Some v" for k v
      using that wf_parts(1) [OF wf, of k v] by (auto simp: put_intf_def node_ok_def)
    show "intf_ok y \<and> (w_intfs w k = None \<longrightarrow> udp_socks_manager y = [] \<and> tcp_socks_manager y = [])"
      if "w_intfs (put_intf i x' w) k = Some y" for k y
      using that x x'(1) wf_parts(2) [OF wf, of k y] by (auto simp: put_intf_def split: if_splits)
    show "\<exists>y'. w_intfs (put_intf i x' w) k = Some y' \<and> udp_socks_manager y' = udp_socks_manager y \<and>
        tcp_socks_manager y' = tcp_socks_manager y" if "w_intfs w k = Some y" for k y
      using that x x'(3,4) by (auto simp: put_intf_def)
    show "comms_ok (put_intf i x' w)"
      by (rule comms_more [OF wf_parts(4) [OF wf]]) (use x x'(5) in \<open>auto simp: put_intf_def\<close>)
    show "h < w_next (put_intf i x' w) \<and> graph_ok (put_intf i x' w) gr"
      if "w_graphs (put_intf i x' w) h = Some gr" for h gr
      using wf_parts(3) [OF wf, of h gr] that by (auto simp: put_intf_def graph_ok_def)
  qed (simp_all add: put_intf_def)
qed

lemma set_loopback_safe:
  assumes wf: "wf_world w" and n: "w_nodes w n \<noteq> None"
  shows "runs no_fault (\<lambda>(_, w'). wf_world w') (node_set_loopback_address n s w)"
proof -
  from n obtain nd where nd: "w_nodes w n = Some nd" by blast
  have "wf_world (put_node n (nd\<lparr>lb_addr := convert_ip_from_str_to_int s, is_lb_addr_config := True\<rparr>) w)"
    by (rule update_node_safe [OF wf nd]) (use wf_parts(1) [OF wf nd] in \<open>simp_all add: node_ok_def\<close>)
  then show ?thesis using wf nd by (simp add: node_set_loopback_address_def get_node_def Let_def)
qed

lemma add_route_safe:
  assumes wf: "wf_world w" and nd: "w_nodes w n = Some nd" and i: "w_intfs w i \<noteq> None" and m: "dst = 0 \<or> good_mask m"
  shows "wf_world (put_node n (nd\<lparr>rt_table := rt_table_add_route (rt_table nd) dst m nxt i\<rparr>) w)"
proof (rule update_node_safe [OF wf nd])
  have "set (rt_table_add_route (rt_table nd) dst m nxt i) =
      insert \<lparr>rt_dst = dst, rt_mask = m, rt_next = nxt, rt_intf = i\<rparr> (set (rt_table nd))"
    by (simp add: rt_table_add_route_def)
  then show "node_ok w (nd\<lparr>rt_table := rt_table_add_route (rt_table nd) dst m nxt i\<rparr>)"
    using wf_parts(1) [OF wf nd] i m by (simp add: node_ok_def routable_add good_mask_def)
qed simp_all

lemma set_intf_ip_safe:
  assumes wf: "wf_world w" and n: "w_nodes w n \<noteq> None"
  shows "runs (\<lambda>e. e = Undefined_behaviour \<and> \<not> good_mask m) (\<lambda>(_, w'). wf_world w') (node_set_intf_ip_addr n name s m w)"
proof -
  from n obtain nd where nd: "w_nodes w n = Some nd" by blast
  from find_node_intf_total [OF wf nd, of "\<lambda>x. strncmp_eq (if_name x) name MAX_IF_NAME_SIZE"] obtain r
    where r: "get_node_if_by_name n name w = Inr r" "\<And>i. r = Some i \<Longrightarrow> w_intfs w i \<noteq> None"
    by (auto simp: get_node_if_by_name_def)
  let ?ip = "convert_ip_from_str_to_int s"
  show ?thesis
  proof (cases "r = None \<or> ?ip = 0 \<or> \<not> good_mask m")
    case True
    then show ?thesis
      using r wf by (auto simp: node_set_intf_ip_addr_def get_intf_def INT_IP_MASKED_def prefix_mask_def good_mask_def Let_def
          split: option.splits intro!: run_rules)
  next
    case False
    then obtain i x where i: "r = Some i" "w_intfs w i = Some x" using r(2) by auto
    let ?x = "x\<lparr>if_ip := ?ip, if_mask := m, is_ip_addr_config := True\<rparr>"
    have w1: "wf_world (put_intf i ?x w)"
      by (rule update_intf_safe [OF wf i(2)])
        (use wf_parts(2) [OF wf i(2)] False in \<open>simp_all add: intf_ok_def port_of_def good_mask_def\<close>)
    have nd1: "w_nodes (put_intf i ?x w) n = Some nd" "w_intfs (put_intf i ?x w) i \<noteq> None" using nd by (simp_all add: put_intf_def)
    have "wf_world (put_node n (nd\<lparr>rt_table := rt_table_add_route (rt_table nd) net m 0 i\<rparr>) (put_intf i ?x w))" for net
      by (rule add_route_safe [OF w1 nd1]) (use False in simp)
    then show ?thesis
      using r i nd False
      by (simp add: node_set_intf_ip_addr_def get_intf_def get_node_def INT_IP_MASKED_def prefix_mask_def good_mask_def
          put_intf_def Let_def)
  qed
qed

lemma set_flags_safe:
  assumes "wf_world w"
  shows "wf_world (set_ip_forward b w)" "wf_world (set_send_callback b w)" "wf_world (set_receive_callback b w)"
proof -
  have "wf_world w'" if f: "w_nodes w' = w_nodes w" "w_intfs w' = w_intfs w" "w_links w' = w_links w" "w_graphs w' = w_graphs w"
      "w_next w' = w_next w" "fd_to_comm_map w' = fd_to_comm_map w" and s: "same_traffic w w'" for w'
  proof (rule wf_build [OF assms _ _ s])
    have "slots_map w' = slots_map w" "ports_map w' = ports_map w" "ends_map w' = ends_map w"
      by (simp_all add: slots_map_def ports_map_def ends_map_def fun_eq_iff f)
    then show "wf_topo w'" using wf_world_topo [OF assms] by (simp add: wf_topo_def f)
    show "node_ok w' v \<and> (w_nodes w k = None \<longrightarrow> arp_table v = [])" if "w_nodes w' k = Some v" for k v
      using that wf_parts(1) [OF assms, of k v] by (simp add: node_ok_def f)
    show "h < w_next w' \<and> graph_ok w' gr" if "w_graphs w' h = Some gr" for h gr
      using wf_parts(3) [OF assms, of h gr] that by (auto simp: f graph_ok_def)
    show "comms_ok w'" by (rule comms_more [OF wf_parts(4) [OF assms]]) (simp_all add: f)
  qed (use wf_parts(2) [OF assms] in \<open>auto simp: f\<close>)
  then show "wf_world (set_ip_forward b w)" "wf_world (set_send_callback b w)" "wf_world (set_receive_callback b w)"
    by (simp_all add: set_ip_forward_def set_send_callback_def set_receive_callback_def same_traffic_def)
qed

end
