(* ===== verification/Safe_Teardown.thy ===== *)
theory Safe_Teardown
  imports Removal Safe_Config
begin

text \<open>
  Destruction in a running program: a link, a node or a graph nothing else refers to any more is
  destroyed without a fault and leaves a well-formed world, provided descriptor 0 belongs to no
  interface (theory Removal).
\<close>

section \<open>The invariant\<close>

lemma registry_less:
  assumes r: "registry_ok p m" and D: "\<And>i. m' i \<noteq> m i \<Longrightarrow> m i = Some [] \<and> m' i = None"
  shows "registry_ok p m'"
  unfolding registry_ok_def
proof (intro conjI allI impI ballI)
  have sub: "m i = Some us" if "m' i = Some us" for i us using that D [of i] by fastforce
  show "distinct us" if "m' i = Some us" for i us using registry_okD(1) [OF r sub [OF that]] .
  show "p u = Some (Some i)" if "m' i = Some us" "u \<in> set us" for i us u using registry_okD(2) [OF r sub [OF that(1)] that(2)] .
  show "\<exists>us. m' i = Some us \<and> u \<in> set us" if "p u = Some (Some i)" for u i
    using registry_okD(3) [OF r that] D [of i] by (cases "m' i = m i") auto
qed

lemma wf_removed:
  assumes wf: "wf_world w" and r: "removed N R w w'" and T: "same_traffic w w'" "w_next w' = w_next w"
    and topo: "wf_topo w'" and comms: "comms_ok w'"
    and idle: "\<And>i x. w_intfs w i = Some x \<Longrightarrow> w_intfs w' i = None \<Longrightarrow> idle_intf R i w"
    and socks: "\<And>u sk. w_udp_socks w u = Some sk \<Longrightarrow> us_node sk \<notin> R" "\<And>t sk. w_tcp_socks w t = Some sk \<Longrightarrow> ts_node sk \<notin> R"
  shows "wf_world w'"
proof -
  from T(1) have S: "w_skbs w' = w_skbs w" "w_udp_socks w' = w_udp_socks w" "w_tcp_socks w' = w_tcp_socks w"
    "w_tcp_conns w' = w_tcp_conns w" "udp_fd_to_sock w' = udp_fd_to_sock w" "tcp_fd_to_sock w' = tcp_fd_to_sock w"
    "fd_conn_to_sock w' = fd_conn_to_sock w" by (simp_all add: same_traffic_def)
  note P = config_parts [OF wf] and W = wf_parts [OF wf] and I = removedD(1) [OF r]
  note gone = removed_nodes(1) [OF r] and nodes = removed_nodes(2) [OF r]
  have node: "node_ok w' nd'" if nd': "w_nodes w' n = Some nd'" for n nd'
  proof -
    from nodes [OF nd'] obtain nd where nd: "n \<notin> R" "w_nodes w n = Some nd" "rt_table nd' = rt_table nd" by blast
    have "w_intfs w' (rt_intf e) \<noteq> None" if e: "e \<in> set (rt_table nd)" for e
    proof
      assume dead: "w_intfs w' (rt_intf e) = None"
      from W(1) [OF nd(2)] e obtain x where "w_intfs w (rt_intf e) = Some x" unfolding node_ok_def by blast
      from idle [OF this dead] nd(1,2) e show False unfolding idle_intf_def by blast
    qed
    with W(1) [OF nd(2)] nd(3) show ?thesis by (simp add: node_ok_def)
  qed
  have less: "(map_option f \<circ> w_intfs w) i = Some [] \<and> (map_option f \<circ> w_intfs w') i = None"
    if "(map_option f \<circ> w_intfs w') i \<noteq> (map_option f \<circ> w_intfs w) i"
      "\<And>x. w_intfs w i = Some x \<Longrightarrow> idle_intf R i w \<Longrightarrow> f x = []" for f :: "intf \<Rightarrow> sock_id list" and i
    using I [of i] that idle [of i] by (cases "w_intfs w i") auto
  have registries: "udp_registry w'" "tcp_registry w'"
    unfolding udp_registry_def tcp_registry_def S
    by (rule registry_less [OF P(1) [unfolded udp_registry_def]] registry_less [OF P(2) [unfolded tcp_registry_def]],
        rule less, assumption, fastforce simp: idle_intf_def)+
  have sok: "w_udp_socks w u = Some us \<Longrightarrow> udp_sock_ok w' us" "w_tcp_socks w u = Some ts \<Longrightarrow> tcp_sock_ok w' ts" for u us ts
    using P(5) [of u us] P(6) [of u ts] socks gone by (auto simp: udp_sock_ok_def tcp_sock_ok_def)
  have iok: "intf_ok x" if "w_intfs w' i = Some x" for i x using that W(2) [of i x] I [of i] by auto
  have graphs: "g < w_next w' \<and> graph_ok w' gr'" if g': "w_graphs w' g = Some gr'" for g gr'
  proof -
    from removedD(4) [OF r g'] obtain gr where g: "w_graphs w g = Some gr"
      "distinct (graph_nodes gr) \<longrightarrow> graph_nodes gr' = filter (\<lambda>n. n \<notin> R) (graph_nodes gr)" by blast
    with W(3) [OF g(1)] T(2) gone show ?thesis by (auto simp: graph_ok_def)
  qed
  have config: "config_ok w'"
    unfolding config_ok_def using topo node iok sok registries graphs comms P(3,4)
    by (simp add: S wf_topo_def)
  have q: "queue q w' = queue q w \<or> queue q w' = []" for q
  proof (cases q)
    case (Arp_queue n ip)
    then show ?thesis using nodes [of n] by (cases "w_nodes w' n") (auto simp: queue.simps)
  qed (simp_all add: queue.simps S)
  have fits: "fits q w' s" if p: "p \<in> set (queue q w')" "w_skbs w p = Some s" "fits q w s" for q p s
  proof (cases q)
    case (Arp_queue n ip)
    with p(3) obtain i where i: "skb_intf s = Some i" "w_intfs w i \<noteq> None" "frame_room s" by auto
    have "n \<notin> R" "p \<in> set (queue (Arp_queue n ip) w)"
      using p(1) q [of q] gone [of n] by (auto simp: Arp_queue queue.simps split: option.splits)
    then have "w_intfs w' i \<noteq> None" using idle [of i] i(1,2) p(2) unfolding idle_intf_def by blast
    with i show ?thesis by (simp add: Arp_queue)
  qed (use p(3) in simp_all)
  have "queues_ok w'" by (rule queues_kept [OF wf_worldD(4) [OF wf] S(1) q fits])
  moreover have "arp_ok w'" using wf_worldD(3) [OF wf] nodes unfolding arp_ok_def by metis
  moreover have "conns_ok w'" using wf_worldD(2) [OF wf] by (simp add: conns_ok_def S)
  moreover have "fresh_ok w'"
    by (rule fresh_build [OF wf_worldD(5) [OF wf] topo _ T(1)]) (use graphs T(2) in auto)
  ultimately show ?thesis using config by (simp add: wf_world_def)
qed

section \<open>The calls\<close>

lemma destroy_link_safe:
  assumes wf: "wf_world w" and lk: "w_links w l = Some lk" and idle: "idle_intf {} (intf1 lk) w" "idle_intf {} (intf2 lk) w"
    and fd: "stdin_free w"
  shows "runs no_fault wf_world (destroy_link l w)"
proof -
  have topo: "wf_topo w" by (rule wf_world_topo [OF wf])
  have e: "ends_map w l = Some (intf1 lk, intf2 lk)" using lk by (simp add: ends_map_def)
  have shape: "wf_shape (slots_map w) (ports_map w) (ends_map w)" using topo by (simp add: wf_topo_def)
  from destroy_link_shape [OF shape e] obtain w' where w': "destroy_link l w = Inr w'" "link_gone l (intf1 lk) (intf2 lk) w w'" by blast
  have "below (slots_map w') (ports_map w') (ends_map w') (w_next w')"
    by (rule below_sub [of "slots_map w" "ports_map w" "ends_map w" "w_next w"])
      (use topo w'(2) in \<open>auto simp: wf_topo_def link_gone_def restrict_map_def split: if_splits\<close>)
  with link_gone_wf [OF shape e w'(2)] have topo': "wf_topo w'" by (simp add: wf_topo_def)
  note t = destroy_link_torn(1) [OF w'(1) lk] and c = closes_link [OF w'(1)] and none = destroy_link_frees [OF w'(1) lk]
  have "removed UNIV {} w w'" by (rule removed_torn [OF t]) (use none in \<open>auto simp: near_def\<close>)
  moreover have "idle_intf {} i w" if "w_intfs w i = Some x" "w_intfs w' i = None" for i x
    using tornD(5) [OF t, of i] that idle by (cases "i \<in> {intf1 lk, intf2 lk}") auto
  ultimately have "wf_world w'"
    using wf_removed [OF wf _ _ _ topo', of UNIV "{}"] c wf_parts(4) [OF wf] fd by (simp add: closes_def)
  with w'(1) show ?thesis by simp
qed

lemma destroy_node_safe:
  assumes wf: "wf_world w" and n: "w_nodes w n \<noteq> None" and idle: "idle_nodes {n} w" and fd: "stdin_free w"
  shows "runs no_fault (\<lambda>w'. wf_world w' \<and> w_nodes w' n = None) (destroy_node n w)"
proof -
  note topo = wf_world_topo [OF wf]
  from n obtain sl where sl: "slots_map w n = Some sl" "taps_last (ports_map w) sl"
    using idle by (auto simp: slots_map_def idle_nodes_def)
  from destroy_node_wf [OF topo sl] obtain w' where w': "destroy_node n w = Inr w'" "wf_topo w'" "slots_map w' n = None" by blast
  note r = node_removed [OF topo sl w'(1)] and c = closes_node [OF w'(1)]
  have "wf_world w'"
    by (rule wf_removed [OF wf r _ _ w'(2)])
      (use c wf_parts(4) [OF wf] fd idle removedD(2) [OF r] in \<open>auto simp: closes_def idle_nodes_def\<close>)
  with w' show ?thesis by (simp add: slots_map_def)
qed

lemma destroy_graph_safe:
  assumes wf: "wf_world w" and gr: "w_graphs w g = Some gr" and idle: "idle_nodes (set (graph_nodes gr)) w" and fd: "stdin_free w"
  shows "runs no_fault (\<lambda>w'. wf_world w' \<and> w_graphs w' g = None \<and> (\<forall>n \<in> set (graph_nodes gr). w_nodes w' n = None)) (destroy_graph g w)"
proof -
  let ?N = "set (graph_nodes gr)"
  note topo = wf_world_topo [OF wf]
  from wf_parts(3) [OF wf gr] have ok: "distinct (graph_nodes gr)" "\<And>n. n \<in> ?N \<Longrightarrow> w_nodes w n \<noteq> None" by (simp_all add: graph_ok_def)
  have slots: "\<exists>sl. slots_map w n = Some sl \<and> taps_last (ports_map w) sl" if "n \<in> ?N" for n
    using ok(2) [OF that] that idle by (auto simp: slots_map_def idle_nodes_def)
  from destroy_nodes_wf [OF topo ok(1) slots] obtain w1 where w1: "destroy_nodes (graph_nodes gr) w = Inr w1" "wf_topo w1"
    "\<And>n. n \<in> ?N \<Longrightarrow> slots_map w1 n = None" by blast
  note r = nodes_removed [OF topo ok(1) slots w1(1)] and c = closes_nodes [OF w1(1)]
  have wf1: "wf_world w1"
    by (rule wf_removed [OF wf r _ _ w1(2)])
      (use c wf_parts(4) [OF wf] fd idle removedD(2) [OF r] in \<open>auto simp: closes_def idle_nodes_def\<close>)
  let ?w' = "w1\<lparr>w_graphs := (w_graphs w1)(g := None)\<rparr>"
  have "wf_world ?w'"
  proof (rule wf_build [OF wf1])
    have "slots_map ?w' = slots_map w1" "ports_map ?w' = ports_map w1" "ends_map ?w' = ends_map w1"
      by (simp_all add: slots_map_def ports_map_def ends_map_def fun_eq_iff)
    then show "wf_topo ?w'" using w1(2) by (simp add: wf_topo_def)
    show "h < w_next ?w' \<and> graph_ok ?w' gr'" if "w_graphs ?w' h = Some gr'" for h gr'
      using that wf_parts(3) [OF wf1, of h gr'] by (auto simp: graph_ok_def split: if_splits)
    show "node_ok ?w' nd \<and> (w_nodes w1 n = None \<longrightarrow> arp_table nd = [])" if "w_nodes ?w' n = Some nd" for n nd
      using that wf_parts(1) [OF wf1, of n nd] by (simp add: node_ok_def)
    show "comms_ok ?w'" by (rule comms_more [OF wf_parts(4) [OF wf1]]) simp_all
  qed (use wf_parts(2) [OF wf1] in \<open>auto simp: same_traffic_def\<close>)
  moreover have "destroy_graph g w = Inr ?w'" using gr w1(1) by (simp add: destroy_graph_def get_graph_def)
  ultimately show ?thesis using w1(3) by (simp add: slots_map_def)
qed

end
