(* ===== verification/Recv_Task.thy ===== *)
theory Recv_Task
  imports Fuel
begin

text \<open>
  The receive thread of \<open>comm.c\<close>: \<open>recv_task\<close>, \<open>start_recv_thread\<close> and \<open>stop_recv_thread\<close> as
  a transition system in which the thread and the application interleave.  Handling one readable
  descriptor is one step (theory Stack); what \<open>epoll_wait\<close> reports and what a descriptor delivers
  is the environment's choice.  The code takes no locks: the world may change arbitrarily between
  two steps of the thread, as long as the application is not inside \<open>stop_recv_thread\<close>.
\<close>

section \<open>State\<close>

definition MAX_EVENTS :: nat where "MAX_EVENTS = 10"

text \<open>
  Where the thread is: not there, created, at the test of its loop, handling the descriptors
  \<open>epoll_wait\<close> reported, or returned and not yet joined.
\<close>

datatype task = No_thread | Created | Polling | Handling "nat list" | Returned

text \<open>Where the application is: outside, or waiting in \<open>pthread_join\<close>.\<close>

datatype caller = Idle | Joining

record recv_sys =
  sys_world :: world
  want_quit_recv_task :: bool
  thread_started :: bool
  epoll_fds :: "nat list"
  sys_task :: task
  sys_caller :: caller

definition init_sys :: "world \<Rightarrow> recv_sys" where
  "init_sys w = \<lparr>sys_world = w, want_quit_recv_task = False, thread_started = False, epoll_fds = [],
     sys_task = No_thread, sys_caller = Idle\<rparr>"

section \<open>Operations\<close>

definition start_recv_thread :: "os \<Rightarrow> recv_sys \<Rightarrow> recv_sys res" where
  "start_recv_thread os s =
    (if thread_started s then Inr s
     else if os_pthread_create os (trace (sys_world s)) \<noteq> 0 then Inl Exit_failure
     else Inr (s\<lparr>sys_world := emit Ev_pthread_create (sys_world s), sys_task := Created, thread_started := True\<rparr>))"

text \<open>\<open>stop_recv_thread\<close> up to the call of \<open>pthread_join\<close>, and its end.\<close>

definition request_stop :: "recv_sys \<Rightarrow> recv_sys" where
  "request_stop s =
    (if thread_started s then s\<lparr>want_quit_recv_task := True, sys_caller := Joining\<rparr> else s)"

definition joined :: "recv_sys \<Rightarrow> recv_sys" where
  "joined s = s\<lparr>thread_started := False, sys_task := No_thread, sys_caller := Idle\<rparr>"

text \<open>
  The start of \<open>recv_task\<close>: every descriptor in the table is registered with a new epoll
  instance; the process exits when the system refuses one of the two.
\<close>

fun add_comms :: "os \<Rightarrow> int \<Rightarrow> nat list \<Rightarrow> world \<Rightarrow> nat list step" where
  "add_comms os epollfd [] w = Inr ([], w)"
| "add_comms os epollfd (i # is) w =
     (if fd_to_comm_map w ! i = None then add_comms os epollfd is w
      else if os_epoll_ctl os (trace w) epollfd i = - 1 then Inl Exit_failure
      else bindE (add_comms os epollfd is (emit (Ev_epoll_ctl epollfd i) w)) (\<lambda>(fds, w). Inr (i # fds, w)))"

definition recv_task_start :: "os \<Rightarrow> world \<Rightarrow> nat list step" where
  "recv_task_start os w =
    (let epollfd = os_epoll_create os (trace w)
     in if epollfd = - 1 then Inl Exit_failure
        else add_comms os epollfd [0 ..< MAX_COMMS] (emit Ev_epoll_create w))"

text \<open>The descriptors it registers are those that have an interface; nothing but the trace changes.\<close>

definition registered :: "world \<Rightarrow> nat list" where
  "registered w = filter (\<lambda>i. fd_to_comm_map w ! i \<noteq> None) [0 ..< MAX_COMMS]"

lemma add_comms_eq:
  "add_comms os ep is w = Inr (fds, w') \<Longrightarrow> fds = filter (\<lambda>i. fd_to_comm_map w ! i \<noteq> None) is \<and>
     w' = w\<lparr>trace := trace w @ map (Ev_epoll_ctl ep) fds\<rparr>"
proof (induction "is" arbitrary: w fds)
  case (Cons i "is")
  show ?case
  proof (cases "fd_to_comm_map w ! i = None")
    case True
    then show ?thesis using Cons by simp
  next
    case False
    let ?w = "emit (Ev_epoll_ctl ep i) w"
    from Cons.prems False obtain fds' where "add_comms os ep is ?w = Inr (fds', w')" "fds = i # fds'"
      by (auto simp: res_simps split: if_splits)
    with Cons.IH [OF this(1)] False show ?thesis by (simp add: emit_def)
  qed
qed simp

definition epoll_events :: "os \<Rightarrow> world \<Rightarrow> event list" where
  "epoll_events os w = Ev_epoll_create # map (Ev_epoll_ctl (os_epoll_create os (trace w))) (registered w)"

lemma recv_task_start_eq:
  "recv_task_start os w = Inr (fds, w') \<Longrightarrow> fds = registered w \<and> w' = w\<lparr>trace := trace w @ epoll_events os w\<rparr>"
  using add_comms_eq [of os "os_epoll_create os (trace w)" "[0 ..< MAX_COMMS]" "emit Ev_epoll_create w" fds w']
  by (auto simp: recv_task_start_def registered_def epoll_events_def emit_def Let_def split: if_splits)

lemma add_comms_fault: "add_comms os ep is w = Inl e \<Longrightarrow> e = Exit_failure"
  by (induction "is" arbitrary: w) (auto simp: res_simps split: if_splits)

lemma recv_task_start_fault: "recv_task_start os w = Inl e \<Longrightarrow> e = Exit_failure"
  using add_comms_fault by (auto simp: recv_task_start_def Let_def split: if_splits)

lemma add_comms_ok:
  assumes "\<And>tr i. os_epoll_ctl os tr ep i \<noteq> - 1"
  shows "\<exists>r. add_comms os ep is w = Inr r"
proof (induction "is" arbitrary: w)
  case (Cons i "is")
  from Cons.IH [of w] Cons.IH [of "emit (Ev_epoll_ctl ep i) w"] assms show ?case by (auto split: prod.splits)
qed simp

lemma recv_task_start_ok:
  assumes "os_epoll_create os (trace w) \<noteq> - 1" and "\<And>tr ep i. os_epoll_ctl os tr ep i \<noteq> - 1"
  shows "recv_task_start os w = Inr (registered w, w\<lparr>trace := trace w @ epoll_events os w\<rparr>)"
proof -
  have "\<exists>r. recv_task_start os w = Inr r"
    using assms(1) add_comms_ok [OF assms(2)] by (simp add: recv_task_start_def Let_def)
  then obtain fds w' where r: "recv_task_start os w = Inr (fds, w')" by auto
  with recv_task_start_eq [OF r] show ?thesis by simp
qed

text \<open>One reported descriptor: its interface, if it still has one, receives a frame.\<close>

definition handle_ready :: "os \<Rightarrow> nat \<Rightarrow> u8 list option \<Rightarrow> world \<Rightarrow> world res" where
  "handle_ready os fd received w =
    guardE Out_of_bounds (fd < MAX_COMMS)
      (case fd_to_comm_map w ! fd of
         None \<Rightarrow> Inr w
       | Some i \<Rightarrow> recv_frame 2 os i received w)"

text \<open>
  The steps of the thread and of its control, and the system in which any other code of the
  application may change the world in between.
\<close>

inductive thread_step :: "os \<Rightarrow> recv_sys \<Rightarrow> recv_sys \<Rightarrow> bool" for os where
  start: "sys_caller s = Idle \<Longrightarrow> start_recv_thread os s = Inr s' \<Longrightarrow> thread_step os s s'"
| stop: "sys_caller s = Idle \<Longrightarrow> thread_step os s (request_stop s)"
| join: "sys_caller s = Joining \<Longrightarrow> sys_task s = Returned \<Longrightarrow> thread_step os s (joined s)"
| register: "sys_task s = Created \<Longrightarrow> recv_task_start os (sys_world s) = Inr (fds, w) \<Longrightarrow>
    thread_step os s (s\<lparr>sys_world := w, epoll_fds := fds, sys_task := Polling\<rparr>)"
| wait: "sys_task s = Polling \<Longrightarrow> \<not> want_quit_recv_task s \<Longrightarrow> set fds \<subseteq> set (epoll_fds s) \<Longrightarrow>
    length fds \<le> MAX_EVENTS \<Longrightarrow> thread_step os s (s\<lparr>sys_task := Handling fds\<rparr>)"
| retry: "sys_task s = Polling \<Longrightarrow> \<not> want_quit_recv_task s \<Longrightarrow> thread_step os s s"
| quit: "sys_task s = Polling \<Longrightarrow> want_quit_recv_task s \<Longrightarrow>
    thread_step os s (s\<lparr>want_quit_recv_task := False, sys_task := Returned\<rparr>)"
| handle: "sys_task s = Handling (fd # fds) \<Longrightarrow> handle_ready os fd received (sys_world s) = Inr w \<Longrightarrow>
    thread_step os s (s\<lparr>sys_world := w, sys_task := Handling fds\<rparr>)"
| again: "sys_task s = Handling [] \<Longrightarrow> thread_step os s (s\<lparr>sys_task := Polling\<rparr>)"

inductive recv_step :: "os \<Rightarrow> recv_sys \<Rightarrow> recv_sys \<Rightarrow> bool" for os where
  thread: "thread_step os s s' \<Longrightarrow> recv_step os s s'"
| app: "sys_caller s = Idle \<Longrightarrow> recv_step os s (s\<lparr>sys_world := w\<rparr>)"

inductive_cases thread_stepE: "thread_step os s s'"
inductive_cases recv_stepE: "recv_step os s s'"

inductive reachable :: "os \<Rightarrow> recv_sys \<Rightarrow> bool" for os where
  init: "reachable os (init_sys w)"
| step: "reachable os s \<Longrightarrow> recv_step os s s' \<Longrightarrow> reachable os s'"

section \<open>Invariant\<close>

text \<open>
  There is a thread exactly when \<open>thread_started\<close> says so; the quit flag is up only while
  somebody waits for the thread, and who waits is going to be released: the flag is still up or
  the thread has returned.  A descriptor that is handled was registered.
\<close>

definition sys_ok :: "recv_sys \<Rightarrow> bool" where
  "sys_ok s \<longleftrightarrow>
    (thread_started s \<longleftrightarrow> sys_task s \<noteq> No_thread) \<and>
    (want_quit_recv_task s \<longrightarrow> sys_caller s = Joining) \<and>
    (sys_caller s = Joining \<longrightarrow> thread_started s \<and> (want_quit_recv_task s \<longleftrightarrow> sys_task s \<noteq> Returned)) \<and>
    (sys_task s = Returned \<longrightarrow> sys_caller s = Joining) \<and>
    set (epoll_fds s) \<subseteq> {..< MAX_COMMS} \<and>
    (\<forall>fds. sys_task s = Handling fds \<longrightarrow> set fds \<subseteq> set (epoll_fds s) \<and> length fds \<le> MAX_EVENTS)"

lemma set_registered: "set (registered w) = {i. i < MAX_COMMS \<and> fd_to_comm_map w ! i \<noteq> None}"
  by (auto simp: registered_def)

text \<open>A system that has just started the thread.\<close>

definition with_thread :: "recv_sys \<Rightarrow> recv_sys" where
  "with_thread s = s\<lparr>sys_world := emit Ev_pthread_create (sys_world s), sys_task := Created, thread_started := True\<rparr>"

lemmas sys_ops = with_thread_def start_recv_thread_def request_stop_def joined_def init_sys_def

lemma sys_ok_init: "sys_ok (init_sys w)"
  by (simp add: sys_ok_def init_sys_def)

lemma sys_ok_thread: "thread_step os s s' \<Longrightarrow> sys_ok s \<Longrightarrow> sys_ok s'"
  by (induction rule: thread_step.induct)
    (auto simp: sys_ok_def sys_ops set_registered dest!: recv_task_start_eq split: if_splits)

lemma sys_ok_step: "recv_step os s s' \<Longrightarrow> sys_ok s \<Longrightarrow> sys_ok s'"
  by (induction rule: recv_step.induct) (simp add: sys_ok_thread, simp add: sys_ok_def)

lemma reachable_ok: "reachable os s \<Longrightarrow> sys_ok s"
  by (induction rule: reachable.induct) (auto intro: sys_ok_init sys_ok_step)

section \<open>Stopping\<close>

text \<open>The steps that are left for the thread and the join once the quit flag is up.\<close>

definition steps_left :: "recv_sys \<Rightarrow> nat" where
  "steps_left s =
    (case sys_task s of No_thread \<Rightarrow> 0 | Returned \<Rightarrow> 1 | Polling \<Rightarrow> 2 | Created \<Rightarrow> 3
     | Handling fds \<Rightarrow> 3 + length fds)"

lemma steps_left_bound: "sys_ok s \<Longrightarrow> steps_left s \<le> MAX_EVENTS + 3"
  by (auto simp: steps_left_def sys_ok_def MAX_EVENTS_def split: task.split)

lemma thread_decreases:
  "thread_step os s s' \<Longrightarrow> sys_ok s \<Longrightarrow> sys_caller s = Joining \<Longrightarrow> steps_left s' < steps_left s"
  by (induction rule: thread_step.induct) (simp_all add: steps_left_def sys_ok_def joined_def)

lemma stopping_decreases:
  "recv_step os s s' \<Longrightarrow> sys_ok s \<Longrightarrow> sys_caller s = Joining \<Longrightarrow> steps_left s' < steps_left s"
  by (elim recv_stepE) (simp_all add: thread_decreases)

lemma stopping_joins:
  "recv_step os s s' \<Longrightarrow> sys_caller s = Joining \<Longrightarrow> sys_caller s' = Joining \<or> s' = joined s \<and> sys_task s = Returned"
  by (elim recv_stepE thread_stepE) simp_all

text \<open>
  While somebody waits the thread can go on, unless the system refuses its epoll instance or the
  handling of a frame stops the process.
\<close>

lemma stopping_progress:
  assumes ok: "sys_ok s" and j: "sys_caller s = Joining"
    and safe: "\<And>fd fds. sys_task s = Handling (fd # fds) \<Longrightarrow> \<exists>received w. handle_ready os fd received (sys_world s) = Inr w"
    and start: "sys_task s = Created \<Longrightarrow> \<exists>fds. recv_task_start os (sys_world s) = Inr fds"
  shows "\<exists>s'. recv_step os s s'"
proof -
  have "\<exists>s'. thread_step os s s'"
  proof (cases "sys_task s")
    case (Handling fds)
    show ?thesis
    proof (cases fds)
      case Nil
      with Handling show ?thesis by (auto intro: thread_step.again)
    next
      case (Cons fd fds')
      with Handling safe show ?thesis by (metis thread_step.handle)
    qed
  qed (use ok j start in \<open>auto simp: sys_ok_def intro: thread_step.join thread_step.register thread_step.quit\<close>)
  then show ?thesis by (blast intro: recv_step.thread)
qed

text \<open>A quiet descriptor is always handled: the receive operation reports nothing.\<close>

lemma handle_ready_quiet:
  assumes "fd < MAX_COMMS" and "\<And>i. fd_to_comm_map w ! fd = Some i \<Longrightarrow> \<exists>x. w_intfs w i = Some x \<and> comm_ops (if_comm x) \<noteq> None"
  shows "\<exists>w'. handle_ready os fd None w = Inr w'"
proof -
  have s: "\<exists>t. skb_reserve RECV_RESERVED_HEAD_ROOM (alloc_skb RECV_BUFFER_SIZE) = Inr t"
    by (simp add: skb_reserve_def alloc_skb_def RECV_RESERVED_HEAD_ROOM_def RECV_BUFFER_SIZE_def Let_def)
  show ?thesis
    using assms s by (cases "fd_to_comm_map w ! fd") (fastforce simp: handle_ready_def recv_frame_def get_intf_def recv_bytes_open Let_def)+
qed

end
