(* ===== verification/System.thy ===== *)
theory System
  imports Safe_Teardown Recv_Task
begin

text \<open>
  The program as a whole: the calls an application makes, interleaved with the receive thread
  (theory Recv_Task).  Every state the two reach satisfies the invariant of theory World_Ok, and
  from every such state each call and each received frame is handled, or stops at a fault that is
  named here.
\<close>

section \<open>Calls of the application\<close>

datatype request =
    Create_graph string
  | Create_node graph_id string
  | Insert_link node_id node_id string string u32
  | Insert_tap node_id string
  | Set_loopback node_id string
  | Set_intf_ip node_id string string u8
  | Add_route node_id ip_addr u8 ip_addr intf_id
  | Set_forward bool
  | Set_callbacks bool bool
  | Arp_request intf_id ip_addr
  | Ping node_id string
  | Udp_socket node_id
  | Udp_bind int ip_addr u16
  | Udp_sendto int "u8 list" ip_addr u16
  | Udp_recvfrom int nat bool bool
  | Udp_close int
  | Tcp_socket node_id
  | Tcp_bind int ip_addr u16
  | Tcp_listen int
  | Tcp_accept int
  | Tcp_send int "u8 list"
  | Tcp_recv int nat
  | Tcp_close int
  | Destroy_link link_id
  | Destroy_node node_id
  | Destroy_graph graph_id

definition ignore :: "'a step \<Rightarrow> world res" where
  "ignore r = bindE r (\<lambda>(_, w). Inr w)"

fun perform :: "os \<Rightarrow> request \<Rightarrow> world \<Rightarrow> world res" where
  "perform os (Create_graph name) w = Inr (snd (create_new_graph name w))"
| "perform os (Create_node g name) w = ignore (create_graph_node g name w)"
| "perform os (Insert_link n1 n2 f1 f2 c) w = ignore (insert_link_between_two_nodes os n1 n2 f1 f2 c w)"
| "perform os (Insert_tap n name) w = ignore (insert_tuntap_interface os n name w)"
| "perform os (Set_loopback n s) w = ignore (node_set_loopback_address n s w)"
| "perform os (Set_intf_ip n name s m) w = ignore (node_set_intf_ip_addr n name s m w)"
| "perform os (Add_route n dst m nxt i) w =
     bindE (get_node n w) (\<lambda>nd. Inr (put_node n (nd\<lparr>rt_table := rt_table_add_route (rt_table nd) dst m nxt i\<rparr>) w))"
| "perform os (Set_forward b) w = Inr (set_ip_forward b w)"
| "perform os (Set_callbacks r s) w = Inr (set_receive_callback r (set_send_callback s w))"
| "perform os (Arp_request i ip) w = send_arp_broadcast_request os i ip w"
| "perform os (Ping n s) w = ignore (ping os (ip_input 2 os) n s w)"
| "perform os (Udp_socket n) w = Inr (snd (udp_socket n w))"
| "perform os (Udp_bind fd ip port) w = ignore (udp_bind fd ip port w)"
| "perform os (Udp_sendto fd bytes ip port) w = ignore (udp_sendto os (ip_input 2 os) fd bytes ip port w)"
| "perform os (Udp_recvfrom fd n want_ip want_port) w = ignore (udp_recvfrom fd n want_ip want_port w)"
| "perform os (Udp_close fd) w = ignore (udp_close fd w)"
| "perform os (Tcp_socket n) w = Inr (snd (tcp_socket n w))"
| "perform os (Tcp_bind fd ip port) w = ignore (tcp_bind fd ip port w)"
| "perform os (Tcp_listen fd) w = ignore (tcp_listen fd w)"
| "perform os (Tcp_accept fd) w = ignore (tcp_accept fd w)"
| "perform os (Tcp_send fd bytes) w = ignore (tcp_send os (ip_input 2 os) fd bytes w)"
| "perform os (Tcp_recv fd n) w = ignore (tcp_recv fd n w)"
| "perform os (Tcp_close fd) w = ignore (tcp_close fd w)"
| "perform os (Destroy_link l) w = destroy_link l w"
| "perform os (Destroy_node n) w = destroy_node n w"
| "perform os (Destroy_graph g) w = destroy_graph g w"

text \<open>
  What the code expects of its caller and does not check: objects it points to exist, a route that
  is not for 0.0.0.0 has a mask the code can shift by, 0 to 30, and a TCP socket is closed only
  while no connection names it as its parent.  Descriptors and data are arbitrary.  A link, a node
  or a graph is destroyed only when nothing outside refers to what goes with it and no interface
  holds descriptor 0 (theory Removal).
\<close>

fun admissible :: "request \<Rightarrow> world \<Rightarrow> bool" where
  "admissible (Create_node g name) w \<longleftrightarrow> w_graphs w g \<noteq> None"
| "admissible (Insert_link n1 n2 f1 f2 c) w \<longleftrightarrow> w_nodes w n1 \<noteq> None \<and> w_nodes w n2 \<noteq> None"
| "admissible (Insert_tap n name) w \<longleftrightarrow> w_nodes w n \<noteq> None"
| "admissible (Set_loopback n s) w \<longleftrightarrow> w_nodes w n \<noteq> None"
| "admissible (Set_intf_ip n name s m) w \<longleftrightarrow> w_nodes w n \<noteq> None"
| "admissible (Add_route n dst m nxt i) w \<longleftrightarrow>
     w_nodes w n \<noteq> None \<and> w_intfs w i \<noteq> None \<and> (dst = 0 \<or> good_mask m)"
| "admissible (Arp_request i ip) w \<longleftrightarrow> w_intfs w i \<noteq> None"
| "admissible (Ping n s) w \<longleftrightarrow> w_nodes w n \<noteq> None"
| "admissible (Udp_socket n) w \<longleftrightarrow> w_nodes w n \<noteq> None"
| "admissible (Tcp_socket n) w \<longleftrightarrow> w_nodes w n \<noteq> None"
| "admissible (Tcp_close fd) w \<longleftrightarrow> childless fd w"
| "admissible (Destroy_link l) w \<longleftrightarrow> stdin_free w \<and>
     (\<exists>lk. w_links w l = Some lk \<and> idle_intf {} (intf1 lk) w \<and> idle_intf {} (intf2 lk) w)"
| "admissible (Destroy_node n) w \<longleftrightarrow> stdin_free w \<and> w_nodes w n \<noteq> None \<and> idle_nodes {n} w"
| "admissible (Destroy_graph g) w \<longleftrightarrow> stdin_free w \<and>
     (\<exists>gr. w_graphs w g = Some gr \<and> idle_nodes (set (graph_nodes gr)) w)"
| "admissible r w \<longleftrightarrow> True"

text \<open>The faults a call can stop at, and when; most calls have none.\<close>

fun hazard :: "os \<Rightarrow> request \<Rightarrow> world \<Rightarrow> fault \<Rightarrow> bool" where
  "hazard os (Insert_link n1 n2 f1 f2 c) w = insert_fault (crowded n1 n2 w) (refuses_link os w)"
| "hazard os (Insert_tap n name) w = insert_fault (free_slots n w = 0) False"
| "hazard os (Set_intf_ip n name s m) w = (\<lambda>e. e = Undefined_behaviour \<and> \<not> good_mask m)"
| "hazard os (Ping n s) w = (\<lambda>e. e = Null_deref \<and> is_ip_local n (convert_ip_from_str_to_int s) w = Inr True)"
| "hazard os (Udp_recvfrom fd n want_ip want_port) w = (\<lambda>e. e = Null_deref \<and> want_ip \<and> own_datagram fd w)"
| "hazard os (Tcp_send fd bytes) w = (\<lambda>e. e = Null_deref \<and> own_stream fd w)"
| "hazard os r w = no_fault"

section \<open>Local delivery does not run out of depth\<close>

lemma deliver_fuelled: "fuelled_on (ip_input 2 os)"
  using ip_input_headerless(2) [of _ _ 1 os] by (simp add: fuelled_on_def numeral_2_eq_2)

lemma udp_skb_off: "udp_skb sk bytes port = Inr s \<Longrightarrow> ip_hdr_off s = None"
  unfolding udp_skb_def Let_def
  by (auto simp: res_simps alloc_skb_def dest!: off_dests)

lemma fuelled_udp_skb [fuel_intros]: "fuelled (udp_skb sk bytes port)"
  unfolding udp_skb_def Let_def by (auto intro!: fuel_intros)

lemma udp_sendto_fuelled:
  assumes "fuelled_on d"
  shows "fuelled (udp_sendto os d fd bytes ip port w)"
proof -
  have "fuelled (ip_output os d n ip prot (w_next w) (put_skb (w_next w) s w\<lparr>w_next := Suc (w_next w)\<rparr>))"
    if "ip_hdr_off s = None" for n s prot
    using ip_output_fuelled [OF assms, of "w_next w" "snd (new_skb s w)"] headerless_new [of w s] that
    by (simp add: new_skb_def)
  then show ?thesis
    unfolding udp_sendto_def udp_out_def Let_def
    by (auto simp: new_skb_def intro!: fuel_intros dest!: udp_skb_off split: if_splits)
qed

lemma tcp_send_fuelled: "fuelled_on d \<Longrightarrow> fuelled (tcp_send os d fd bytes w)"
  unfolding tcp_send_def Let_def by (auto intro!: fuel_intros tcp_out_fuelled)

lemma ping_fuelled: "fuelled_on d \<Longrightarrow> fuelled (ping os d n s w)"
  unfolding ping_def by (rule icmp_out_fuelled)

lemma runs_fuelled:
  assumes "runs F P r" and "fuelled r" and "\<And>e. F e \<Longrightarrow> e \<noteq> Out_of_fuel \<Longrightarrow> G e"
  shows "runs G P r"
  using assms by (cases r) (auto simp: fuelled_def)

section \<open>Every call\<close>

lemma runs_ignore: "runs F (\<lambda>(_, w'). P w') r \<Longrightarrow> runs F P (ignore r)"
  unfolding ignore_def by (erule runs_bind) auto

lemma evolves_post: "runs F (\<lambda>(_, w'). evolves {} w w') r \<Longrightarrow> runs F (\<lambda>(_, w'). wf_world w') r"
  by (erule runs_post) (auto dest: evolvesD(1))

lemma perform_safe:
  assumes wf: "wf_world w" and r: "admissible r w"
  shows "runs (hazard os r w) wf_world (perform os r w)"
proof (cases r)
  case (Create_graph name)
  then show ?thesis using create_graph_safe [OF wf] by simp
next
  case (Create_node g name)
  then show ?thesis using runs_ignore [OF create_node_safe [OF wf]] r by simp
next
  case (Insert_link n1 n2 f1 f2 c)
  then show ?thesis using runs_ignore [OF insert_link_safe [OF wf]] r by simp
next
  case (Insert_tap n name)
  then show ?thesis using runs_ignore [OF insert_tuntap_safe [OF wf]] r by simp
next
  case (Set_loopback n s)
  then show ?thesis using runs_ignore [OF set_loopback_safe [OF wf]] r by simp
next
  case (Set_intf_ip n name s m)
  then show ?thesis using runs_ignore [OF set_intf_ip_safe [OF wf]] r by simp
next
  case (Add_route n dst m nxt i)
  then show ?thesis using add_route_safe [OF wf] r by (auto simp: get_node_def)
next
  case (Set_callbacks b c)
  then show ?thesis using set_flags_safe(3) [OF set_flags_safe(2) [OF wf]] by simp
next
  case (Arp_request i ip)
  then show ?thesis
    using r runs_post [OF send_arp_broadcast_request_safe [OF wf, of i]] evolvesD(1) by (fastforce elim: runs_post)
next
  case (Ping n s)
  then obtain nd where nd: "w_nodes w n = Some nd" using r by auto
  have "runs (hazard os r w) (\<lambda>(_, w'). wf_world w') (ping os (ip_input 2 os) n s w)"
    by (rule runs_fuelled [OF evolves_post [OF ping_safe [OF ip_input_safe wf nd]] ping_fuelled [OF deliver_fuelled]])
      (auto simp: tcp_risk_def Ping)
  then show ?thesis using runs_ignore Ping by simp
next
  case (Udp_sendto fd bytes ip port)
  have "runs (hazard os r w) (\<lambda>(_, w'). wf_world w') (udp_sendto os (ip_input 2 os) fd bytes ip port w)"
    by (rule runs_fuelled [OF evolves_post [OF udp_sendto_safe [OF ip_input_safe wf]] udp_sendto_fuelled [OF deliver_fuelled]]) simp
  then show ?thesis using runs_ignore Udp_sendto by simp
next
  case (Tcp_send fd bytes)
  have "runs (hazard os r w) (\<lambda>(_, w'). wf_world w') (tcp_send os (ip_input 2 os) fd bytes w)"
    by (rule runs_fuelled [OF evolves_post [OF tcp_send_safe [OF ip_input_safe wf]] tcp_send_fuelled [OF deliver_fuelled]])
      (auto simp: tcp_risk_def Tcp_send)
  then show ?thesis using runs_ignore Tcp_send by simp
next
  case (Udp_recvfrom fd n want_ip want_port)
  then show ?thesis using runs_ignore [OF evolves_post [OF udp_recvfrom_safe [OF wf]]] by simp
next
  case (Tcp_recv fd n)
  then show ?thesis using runs_ignore [OF evolves_post [OF tcp_recv_safe [OF wf]]] by simp
next
  case (Tcp_close fd)
  then show ?thesis using runs_ignore [OF tcp_close_safe [OF wf]] r by simp
next
  case (Destroy_link l)
  then show ?thesis using r destroy_link_safe [OF wf] by auto
next
  case (Destroy_node n)
  then show ?thesis using r runs_post [OF destroy_node_safe [OF wf, of n]] by simp
next
  case (Destroy_graph g)
  then show ?thesis using r runs_post [OF destroy_graph_safe [OF wf, of g]] by auto
qed (use wf r set_flags_safe(1) udp_socket_safe tcp_socket_safe runs_ignore [OF udp_bind_safe [OF wf]]
    runs_ignore [OF udp_close_safe [OF wf]] runs_ignore [OF tcp_bind_safe [OF wf]]
    runs_ignore [OF tcp_listen_safe [OF wf]] runs_ignore [OF tcp_accept_safe [OF wf]] in simp_all)

section \<open>Every received frame\<close>

text \<open>A descriptor is handled; the frame that waits on it, if there is one, is the hazard.\<close>

definition frame_hazard :: "nat \<Rightarrow> u8 list option \<Rightarrow> world \<Rightarrow> fault \<Rightarrow> bool" where
  "frame_hazard fd got w e \<longleftrightarrow> (\<exists>i x f. fd_to_comm_map w ! fd = Some i \<and> w_intfs w i = Some x \<and>
     got = Some f \<and> frame_risk f x w e)"

lemma handle_ready_safe:
  assumes wf: "wf_world w" and fd: "fd < MAX_COMMS"
  shows "runs (frame_hazard fd got w) wf_world (handle_ready os fd got w)"
proof (cases "fd_to_comm_map w ! fd")
  case None
  then show ?thesis using wf fd by (simp add: handle_ready_def)
next
  case (Some i)
  then have "Some i \<in> set (fd_to_comm_map w)" using fd comms_live(1) [OF wf_parts(4) [OF wf]] by (metis nth_mem)
  from comms_live(2) [OF wf_parts(4) [OF wf] this] obtain x where x: "w_intfs w i = Some x" by blast
  have "runs (frame_hazard fd got w) (evolves {} w) (recv_frame 2 os i got w)"
    by (rule runs_fuelled [OF recv_frame_runs [OF wf x]])
      (use recv_frame_enough(2) [of 0 os i got w] Some x in \<open>auto simp: numeral_2_eq_2 frame_hazard_def\<close>)
  then show ?thesis using Some fd evolvesD(1) by (auto simp: handle_ready_def elim: runs_post)
qed

section \<open>The application and the receive thread\<close>

text \<open>
  The steps of the whole: an admissible call of the application while it is not waiting in
  \<open>stop_recv_thread\<close>, and a step of the receive thread or of its control.
\<close>

inductive system_step :: "os \<Rightarrow> recv_sys \<Rightarrow> recv_sys \<Rightarrow> bool" for os where
  call: "sys_caller s = Idle \<Longrightarrow> admissible r (sys_world s) \<Longrightarrow> perform os r (sys_world s) = Inr w \<Longrightarrow>
    system_step os s (s\<lparr>sys_world := w\<rparr>)"
| thread: "thread_step os s s' \<Longrightarrow> system_step os s s'"

inductive system :: "os \<Rightarrow> recv_sys \<Rightarrow> bool" for os where
  start: "system os (init_sys init_world)"
| step: "system os s \<Longrightarrow> system_step os s s' \<Longrightarrow> system os s'"

text \<open>Each is a step of the receive thread's system, whose results therefore carry over.\<close>

lemma system_step_recv: "system_step os s s' \<Longrightarrow> recv_step os s s'"
  by (erule system_step.cases) (auto intro: recv_step.intros)

lemma system_reachable: "system os s \<Longrightarrow> reachable os s"
  by (induction rule: system.induct) (auto intro: reachable.intros system_step_recv)

lemma thread_step_wf:
  assumes "thread_step os s s'" and ok: "sys_ok s" and wf: "wf_world (sys_world s)"
  shows "wf_world (sys_world s')"
proof -
  have trace: "wf_world ((sys_world s)\<lparr>trace := es\<rparr>)" for es by (rule evolvesD(1) [OF evolves_trace [OF wf]])
  from assms(1) show ?thesis
  proof cases
    case start
    then show ?thesis using wf trace by (auto simp: start_recv_thread_def emit_def split: if_splits)
  next
    case (register fds w)
    then show ?thesis using trace recv_task_start_eq [OF register(3)] by simp
  next
    case (handle fd fds received w)
    then have "fd < MAX_COMMS" using ok by (auto simp: sys_ok_def)
    with handle show ?thesis using runs_InrD [OF handle_ready_safe [OF wf]] by simp
  qed (use wf in \<open>simp_all add: request_stop_def joined_def\<close>)
qed

lemma system_step_wf:
  assumes "system_step os s s'" and ok: "sys_ok s" and wf: "wf_world (sys_world s)"
  shows "wf_world (sys_world s')"
  using assms(1)
proof cases
  case (call r w)
  then show ?thesis using runs_InrD [OF perform_safe [OF wf]] by simp
next
  case thread
  then show ?thesis by (rule thread_step_wf [OF _ ok wf])
qed

lemma system_wf: "system os s \<Longrightarrow> wf_world (sys_world s)"
proof (induction rule: system.induct)
  case start
  then show ?case using wf_init by (simp add: init_sys_def)
next
  case (step s s')
  then show ?case using system_step_wf reachable_ok [OF system_reachable] by blast
qed

end
