(* ===== verification/Exchange.thy ===== *)
theory Exchange
  imports Icmp_Path
begin

text \<open>
  Two nodes of one process: what one of them sends, received by the other.  A datagram travels
  from a socket to a socket, a ping is answered, and a packet that waits for the hardware address
  of its next hop leaves when the ARP reply comes in.
\<close>

section \<open>The frame of a packet as a received frame\<close>

definition eth_of :: "intf \<Rightarrow> mac_addr \<Rightarrow> ethernet_hdr" where
  "eth_of x mac = \<lparr>dst_mac = mac, src_mac = if_mac x, eth_type = HTONS ETH_PROTO_IP\<rparr>"

lemma ip_frame_eth: "ip_frame x mac h rest = enc_eth (eth_of x mac) @ enc_ip h @ rest"
  by (simp add: ip_frame_def eth_of_def enc_eth_def)

lemma eth_of_fields:
  "length mac = 6 \<Longrightarrow> length (if_mac x) = 6 \<Longrightarrow> valid_eth (eth_of x mac)" "eth_type (eth_of x mac) = HTONS ETH_PROTO_IP"
  "ethernet_input_qualify y (eth_of x (if_mac y))"
  by (simp_all add: eth_of_def valid_eth_def ethernet_input_qualify_def)

lemma after_send_frame:
  "get_intf i (after_send evs w) = get_intf i w" "get_node n (after_send evs w) = get_node n w"
  "get_udp_sock u (after_send evs w) = get_udp_sock u w" "w_next (after_send evs w) = Suc (w_next w)"
  "w_udp_socks (after_send evs w) = w_udp_socks w" "trace (after_send evs w) = trace w @ evs"
  "w_intfs (after_send evs w) = w_intfs w" "w_nodes (after_send evs w) = w_nodes w" "w_links (after_send evs w) = w_links w"
  "w_skbs (after_send evs w) = (w_skbs w)(w_next w := None)" "send_callback (after_send evs w) = send_callback w"
  by (simp_all add: after_send_def world_access)

lemma ip_out_hdr_fields [simp]:
  "src_ip (ip_out_hdr src dst prot n) = src" "dst_ip (ip_out_hdr src dst prot n) = dst"
  "ip_proto (ip_out_hdr src dst prot n) = prot" "ip_hlen (ip_out_hdr src dst prot n) = 5"
  by (simp_all add: ip_out_hdr_def init_ip_hdr_def)

section \<open>A datagram from socket to socket\<close>

text \<open>
  The far end is an interface of a node of the same process, with a socket on the destination port.
  The data arrive at the end of its queue, with the padding of the Ethernet frame behind them when
  they are shorter than 18 bytes.
\<close>

text \<open>
  C4: A datagram travels end to end: when a bound socket sends towards an address its node can
  reach and the frame it puts on the wire is received by the interface that owns the address,
  udp_sendto reports the bytes of the (truncated) payload as sent, and reception appends exactly
  that payload, followed by the padding of a minimum-size Ethernet frame, to the queue of the
  socket bound to the port, after what was queued before; when nothing was queued, udp_recvfrom on
  that socket then returns that data with the address and the port of the sender.
\<close>

lemma udp_exchange:
  assumes fd: "udp_sock_of_fd fd w = Some u" and sk: "get_udp_sock u w = Inr sk" "us_bound sk" "us_intf sk = Some i"
    and r: "reaches os (if_node x) dst i x (if_mac y) ev w" and data_def: "data = take MAX_UDP_PAYLOAD buff"
    and y: "get_intf j w = Inr y" "l3_open y" and loc: "is_ip_local (if_node y) dst w = Inr True"
    and v: "udp_socks_manager_find (udp_socks_manager y) port w = Inr (Some v)" "get_udp_sock v w = Inr sv"
    and q: "rx_ok (us_rx_skb sv) w" "\<And>p. p \<in> set (us_rx_skb sv) \<Longrightarrow> p < w_next w"
    and fd': "udp_sock_of_fd fd' w = Some v" "us_bound sv"
  shows "\<exists>w1 frame w2 pad sv'. udp_sendto os deliver fd buff dst port w = Inr (int (length data), w1) \<and>
    trace w1 = trace w @ sent ev i w frame \<and> recv_frame (Suc k) os j (Some frame) w1 = Inr w2 \<and>
    length pad = 18 - length data \<and> get_udp_sock v w2 = Inr sv' \<and> rx_ok (us_rx_skb sv') w2 \<and>
    rx_data (us_rx_skb sv') w2 = rx_data (us_rx_skb sv) w @ [data @ pad] \<and>
    (rx_data (us_rx_skb sv) w = [] \<longrightarrow>
      (\<exists>w3. udp_recvfrom fd' n True True w2 =
        Inr (Some (take n (data @ pad), Some (if_ip x), Some (us_local_port sk)), w3)))"
proof -
  let ?ih = "ip_out_hdr (if_ip x) dst IP_PROTO_UDP (length data + 28)" and ?uh = "udp_out_hdr sk port (length data)"
  from udp_sendto_sent [OF fd sk r data_def, of deliver port] obtain pad where
    pad: "length pad = 18 - length data" and w1: "udp_sendto os deliver fd buff dst port w = Inr (int (length data),
      after_send (sent ev i w (ip_frame x (if_mac y) ?ih (enc_udp ?uh @ data) @ pad)) w)" by blast
  define frame where "frame = ip_frame x (if_mac y) ?ih (enc_udp ?uh @ data) @ pad"
  let ?w1 = "after_send (sent ev i w frame) w"
  have macs: "length (if_mac y) = 6" "length (if_mac x) = 6" using r by (auto simp: reaches_def)
  have len: "length (data @ pad) \<le> 1900" using pad by (simp add: data_def MAX_UDP_PAYLOAD_def)
  have fr: "frame = enc_eth (eth_of x (if_mac y)) @ enc_ip ?ih @ enc_udp ?uh @ (data @ pad)"
    by (simp add: frame_def ip_frame_eth)
  have loc': "is_ip_local (if_node y) (dst_ip ?ih) ?w1 = Inr True"
    using loc is_ip_local_cong [of ?w1 w] by (simp add: after_send_frame)
  have find: "udp_socks_manager_find (udp_socks_manager y) (NTOHS (udp_dst_port ?uh)) ?w1 = Inr (Some v)"
    using v(1) udp_find_cong [of ?w1 w] by (simp add: after_send_frame udp_out_hdr_def)
  have keep: "w_skbs ?w1 p = w_skbs w p" if "p \<in> set (us_rx_skb sv)" for p
    using q(2) [OF that] by (simp add: after_send_frame)
  have fresh: "w_next ?w1 \<notin> set (us_rx_skb sv)" using q(2) [of "Suc (w_next w)"] by (auto simp: after_send_frame)
  have objs: "get_intf j ?w1 = Inr y" "get_udp_sock v ?w1 = Inr sv" using y(1) v(2) by (simp_all add: after_send_frame)
  have prot: "ip_proto ?ih = IP_PROTO_UDP" by simp
  have ok: "rx_ok (us_rx_skb sv) ?w1" by (rule rx_ok_frame [OF q(1) keep])
  from recv_udp [OF eth_of_fields(1) [OF macs] eth_of_fields(2) len objs(1) y(2) eth_of_fields(3) loc' prot find objs(2)
      ok fresh fr, of k os] obtain w2 where
    w2: "recv_frame (Suc k) os j (Some frame) ?w1 = Inr w2"
    "get_udp_sock v w2 = Inr (sv\<lparr>us_rx_skb := w_next ?w1 # us_rx_skb sv\<rparr>)"
    "rx_data (w_next ?w1 # us_rx_skb sv) w2 = rx_data (us_rx_skb sv) ?w1 @ [data @ pad]"
    "rx_ok (w_next ?w1 # us_rx_skb sv) w2" "udp_fd_to_sock w2 = udp_fd_to_sock ?w1"
    "sent_by (if_ip x) (NTOHS (udp_src_port ?uh)) (the (w_skbs w2 (w_next ?w1)))"
    unfolding ip_out_hdr_fields by blast
  let ?sv = "sv\<lparr>us_rx_skb := w_next ?w1 # us_rx_skb sv\<rparr>"
  have "rx_data (us_rx_skb sv) ?w1 = rx_data (us_rx_skb sv) w" by (rule rx_data_frame [OF keep])
  with w2 have s: "get_udp_sock v w2 = Inr ?sv" "rx_ok (us_rx_skb ?sv) w2"
    "rx_data (us_rx_skb ?sv) w2 = rx_data (us_rx_skb sv) w @ [data @ pad]" by simp_all
  have read: "\<exists>w3. udp_recvfrom fd' n True True w2 =
      Inr (Some (take n (data @ pad), Some (if_ip x), Some (us_local_port sk)), w3)" if "rx_data (us_rx_skb sv) w = []"
  proof -
    have "us_rx_skb sv = []" "udp_sock_of_fd fd' w2 = Some v" "us_bound ?sv"
      using that fd' w2(5) by (auto simp: rx_data_def udp_sock_of_fd_def after_send_def split: if_splits)
    with udp_recvfrom_oldest [OF this(2) s(1) this(3) s(2), of "data @ pad" "[]" True True "if_ip x" "us_local_port sk" n] s(3) w2(6)
    show ?thesis by (auto simp: rx_data_def udp_out_hdr_def)
  qed
  with s w1 [folded frame_def] w2(1) pad after_send_frame(6) show ?thesis by blast
qed

section \<open>A ping and its answer\<close>

text \<open>
  C6: A ping is answered: the echo request ping puts on the wire makes the node that owns the
  destination send an echo reply that carries the 22 bytes received behind the ICMP header, all of
  them the padding of the frame, addressed to the sender of the request and through the route of
  the answering node.  Both nodes have a route with an interface that is up, and the hardware
  address of the next hop in their ARP tables.
\<close>

lemma ping_exchange:
  assumes dst: "convert_ip_from_str_to_int str = dst" and r: "reaches os n dst i x (if_mac y) ev w"
    and y: "get_intf j w = Inr y" "l3_open y" and loc: "is_ip_local (if_node y) dst w = Inr True"
    and ret: "reaches os (if_node y) (if_ip x) j' y' mac' ev' w" and fresh: "w_skbs w (Suc (Suc (w_next w))) = None"
  shows "\<exists>w1 frame w2 data pad. ping os deliver n str w = Inr (True, w1) \<and> trace w1 = trace w @ sent ev i w frame \<and>
    recv_frame (Suc k) os j (Some frame) w1 = Inr w2 \<and> length data = 22 \<and> data = drop 38 frame \<and>
    trace w2 = trace w1 @ callback_events j w1 frame @ sent ev' j' w1 (ip_frame y' mac'
      (ip_out_hdr (if_ip y') (if_ip x) IP_PROTO_ICMP 46) (icmp_message ICMP_ECHO_REPLY_TYPE ICMP_ECHO_REPLY_CODE data) @ pad)"
proof -
  let ?ih = "ip_out_hdr (if_ip x) dst IP_PROTO_ICMP 24"
  let ?msg = "icmp_message ICMP_ECHO_REQUEST_TYPE ICMP_ECHO_REQUEST_CODE []"
  define ch where "ch = (icmp_blank ICMP_ECHO_REQUEST_TYPE ICMP_ECHO_REQUEST_CODE)\<lparr>icmp_cksum :=
    HTONS (calc_checksum_16 (enc_icmp (icmp_blank ICMP_ECHO_REQUEST_TYPE ICMP_ECHO_REQUEST_CODE) @ []))\<rparr>"
  have msg: "?msg = enc_icmp ch" by (simp add: icmp_message_def ch_def)
  from icmp_out_sent [OF _ r, of "[]" deliver ICMP_ECHO_REQUEST_TYPE ICMP_ECHO_REQUEST_CODE] obtain data where
    data: "length data = 22" and out: "icmp_out os deliver n dst ICMP_ECHO_REQUEST_TYPE ICMP_ECHO_REQUEST_CODE [] w =
      Inr (True, after_send (sent ev i w (ip_frame x (if_mac y) ?ih ?msg @ data)) w)" by auto
  define frame where "frame = ip_frame x (if_mac y) ?ih ?msg @ data"
  let ?w1 = "after_send (sent ev i w frame) w"
  have macs: "length (if_mac y) = 6" "length (if_mac x) = 6" using r by (auto simp: reaches_def)
  have fr: "frame = enc_eth (eth_of x (if_mac y)) @ enc_ip ?ih @ enc_icmp ch @ data"
    by (simp add: frame_def ip_frame_eth msg)
  have loc': "is_ip_local (if_node y) (dst_ip ?ih) ?w1 = Inr True"
    using loc is_ip_local_cong [of ?w1 w] by (simp add: after_send_frame)
  have ret': "reaches os (if_node y) (src_ip ?ih) j' y' mac' ev' ?w1"
    using reaches_cong [OF ret, of ?w1] by (simp add: after_send_frame)
  have fresh': "w_skbs ?w1 (Suc (w_next ?w1)) = None" using fresh by (simp add: after_send_frame)
  have len: "length data \<le> 1900" using data by simp
  have y1: "get_intf j ?w1 = Inr y" using y(1) by (simp add: after_send_frame)
  have fields: "ip_proto ?ih = IP_PROTO_ICMP" "icmp_type ch = ICMP_ECHO_REQUEST_TYPE" "icmp_code ch = ICMP_ECHO_REQUEST_CODE"
    by (simp_all add: ch_def icmp_blank_def)
  note echo = recv_echo [OF eth_of_fields(1) [OF macs] eth_of_fields(2) len y1 y(2) eth_of_fields(3) loc' fields
      ret' fresh' fr, of k]
  have n46: "length data + 24 = 46" using data by simp
  from echo obtain w2 pad where w2:
    "recv_frame (Suc k) os j (Some frame) ?w1 = Inr w2"
    "trace w2 = trace ?w1 @ callback_events j ?w1 frame @ sent ev' j' ?w1 (ip_frame y' mac'
      (ip_out_hdr (if_ip y') (if_ip x) IP_PROTO_ICMP 46) (icmp_message ICMP_ECHO_REPLY_TYPE ICMP_ECHO_REPLY_CODE data) @ pad)"
    unfolding n46 ip_out_hdr_fields by blast
  have "ping os deliver n str w = Inr (True, ?w1)"
    using out dst by (simp add: ping_def frame_def)
  moreover have "data = drop 38 frame"
    using eth.length_enc [OF eth_of_fields(1) [OF macs]] ip.length_enc [of ?ih] icmp.length_enc [of ch]
    by (simp add: fr ETH_HDR_SIZE_def IP_HDR_SIZE_def ICMP_HDR_SIZE_def)
  ultimately show ?thesis using w2 data after_send_frame(6) by blast
qed

section \<open>A reply releases a packet\<close>

lemma recv_arp_reply:
  assumes eh: "valid_eth eh" "eth_type eh = HTONS ETH_PROTO_ARP" and h: "valid_arp h" "opcode h = HTONS ARP_OP_REPLY"
    and len: "length pad \<le> 2000" and x: "get_intf i w = Inr x" "l3_open x" "ethernet_input_qualify x eh"
    and nd: "get_node (if_node x) w = Inr nd"
    and e: "arp_table_lookup (arp_table nd) (sender_proto_addr h) = Some e"
    and ready: "list_all2 (ready os (sender_hw_addr h) w) (arp_pending_pkts e) evss"
    and dist: "distinct (w_next w # arp_pending_pkts e)" and frame: "frame = enc_eth eh @ enc_arp h @ pad"
  shows "\<exists>w' nd'. recv_frame k os i (Some frame) w = Inr w' \<and>
    trace w' = trace w @ callback_events i w frame @ concat evss \<and>
    w_skbs w' = w_skbs w |` (- set (w_next w # arp_pending_pkts e)) \<and> get_node (if_node x) w' = Inr nd' \<and>
    arp_table_lookup (arp_table nd') (sender_proto_addr h) =
      Some (e\<lparr>arp_resolved := True, arp_mac := sender_hw_addr h, arp_pending_pkts := []\<rparr>)"
proof -
  have "length frame \<le> 2044" "frame \<noteq> []"
    using frame len eth.length_enc [OF eh(1)] arp.length_enc [OF h(1)] by (auto simp: ETH_HDR_SIZE_def ARP_HDR_SIZE_def)
  from recv_frame_L3 [OF this(2,1) x(1,2), of k os] obtain s where s: "rx_skb i frame s"
    "recv_frame k os i (Some frame) w =
      bindE (ethernet_input k os (w_next w) (called_back i frame (snd (new_skb s w)))) (\<lambda>(ok, w1).
        if \<not> ok then free_skb (w_next w) w1 else Inr w1)" by blast
  let ?p = "w_next w" and ?w1 = "called_back i frame (snd (new_skb s w))"
  have w1: "get_skb ?p ?w1 = Inr s" "get_intf i ?w1 = Inr x"
    using x(1) by (simp_all add: called_back_def world_access)
  from ethernet_input_arp [OF w1(1) _ eh(1) w1(2) x(3) eh(2), of "enc_arp h @ pad" k os] s(1) frame obtain t where
    t: "rx_skb i (enc_arp h @ pad) t" "ethernet_input k os ?p ?w1 = arp_input os ?p (put_skb ?p t ?w1)" by auto
  let ?w2 = "put_skb ?p t ?w1"
  have w2: "get_intf i ?w2 = Inr x" "get_node (if_node x) ?w2 = Inr nd"
    using x(1) nd by (simp_all add: called_back_def world_access)
  have keep: "ready os (sender_hw_addr h) ?w2 q evs"
    if "ready os (sender_hw_addr h) w q evs" "q \<in> set (arp_pending_pkts e)" for q evs
    by (rule ready_frame [OF that(1)]) (use that(2) dist in \<open>auto simp: called_back_def world_access\<close>)
  have "list_all2 (ready os (sender_hw_addr h) ?w2) (arp_pending_pkts e) evss"
    by (rule list.rel_mono_strong [OF ready]) (rule keep)
  from arp_input_reply [OF rx_arp [OF t(1) h(1)] h(2) w2 e this dist] obtain w3 nd' where
    w3: "arp_input os ?p ?w2 = Inr (True, w3)" "trace w3 = trace ?w2 @ concat evss"
      "w_skbs w3 = w_skbs ?w2 |` (- set (?p # arp_pending_pkts e))" "get_node (if_node x) w3 = Inr nd'"
      "arp_table_lookup (arp_table nd') (sender_proto_addr h) =
         Some (e\<lparr>arp_resolved := True, arp_mac := sender_hw_addr h, arp_pending_pkts := []\<rparr>)" by blast
  have "trace ?w2 = trace w @ callback_events i w frame"
    by (simp add: called_back_def callback_events_def world_access)
  moreover have "w_skbs ?w2 |` (- set (?p # arp_pending_pkts e)) = w_skbs w |` (- set (?p # arp_pending_pkts e))"
    by (auto simp: called_back_def world_access restrict_map_def fun_eq_iff)
  ultimately show ?thesis using s(2) t(2) w3 by simp
qed

text \<open>
  A packet for a neighbour nobody has asked for yet: a request is broadcast, and the reply of the
  neighbour makes the packet leave, to the hardware address the reply gives.
\<close>

text \<open>
  C5: Address resolution: a packet whose next hop is not in the ARP table is parked and a
  broadcast request for the hop goes out instead; when a reply from that hop arrives, the parked
  packet is transmitted, framed for the hardware address of the reply, and its buffer is released.
\<close>

lemma resolution:
  assumes t: "has_ip p (Some i) h rest t w" and room: "frame_room t" and p: "p < w_next w"
    and nd: "get_node (if_node x) w = Inr nd" "arp_table_lookup (arp_table nd) target = None"
    and up: "up os i ev w" and x: "get_intf i w = Inr x" "l3_open x" "length (if_mac x) = 6"
    and eh: "valid_eth eh" "eth_type eh = HTONS ETH_PROTO_ARP" "ethernet_input_qualify x eh"
    and a: "valid_arp a" "opcode a = HTONS ARP_OP_REPLY" "sender_proto_addr a = target"
    and len: "length fill \<le> 2000" and frame: "frame = enc_eth eh @ enc_arp a @ fill"
  shows "\<exists>w1 w2 pad. ip_finish os (if_node x) i target p w = Inr (True, w1) \<and>
    trace w1 = trace w @ sent ev i w (arp_frame x layer2_fill_with_broadcast_mac
      (arp_message ARP_OP_REQUEST x (replicate 6 0) target)) \<and>
    recv_frame k os i (Some frame) w1 = Inr w2 \<and> length pad = 26 - length rest \<and>
    trace w2 = trace w1 @ callback_events i w1 frame @ sent ev i w1 (ip_frame x (sender_hw_addr a) h rest @ pad) \<and>
    w_skbs w2 p = None"
proof -
  have e: "arp_entry_for (arp_table nd) target i = init_arp_entry target i" using nd(2) by (simp add: arp_entry_for_def)
  from ip_finish_wait [OF nd(1) _ up x(1,3), of target p] obtain w1 nd1 where
    w1: "ip_finish os (if_node x) i target p w = Inr (True, w1)"
      "trace w1 = trace w @ sent ev i w (arp_frame x layer2_fill_with_broadcast_mac
        (arp_message ARP_OP_REQUEST x (replicate 6 0) target))"
      "w_skbs w1 = (w_skbs w)(w_next w := None)" "w_next w1 = Suc (w_next w)" "w_intfs w1 = w_intfs w"
      "w_links w1 = w_links w" "send_callback w1 = send_callback w" "get_node (if_node x) w1 = Inr nd1"
      "arp_table_lookup (arp_table nd1) target = Some ((init_arp_entry target i)\<lparr>arp_pending_pkts := [p]\<rparr>)"
    unfolding e by (auto simp: init_arp_entry_def)
  have x1: "get_intf i w1 = Inr x" "up os i ev w1" using x(1) up up_cong [OF w1(5,6)] w1(5) by (simp_all add: get_intf_def)
  have s: "get_skb p w1 = Inr t" "skb_intf t = Some i" "payload t = enc_ip h @ rest" "wf_skb t"
    using t p w1(3) by (auto simp: has_ip_def get_skb_def)
  have len_t: "skb_len t = 20 + length rest" by (rule has_ip_len [OF t])
  define pad where "pad = slice (tail_off t) (26 - length rest) (buf t)"
  have "tail_off t + (26 - length rest) \<le> length (buf t)"
    using room len_t unfolding frame_room_def skb_tailroom_def wf_skb_def by linarith
  then have pad: "length pad = 26 - length rest" by (simp add: pad_def)
  have "frame_of x (sender_hw_addr a) ETH_PROTO_IP t = ip_frame x (sender_hw_addr a) h rest @ pad"
    by (simp add: frame_of_def ip_frame_def s(3) pad_def len_t)
  then have "ready os (sender_hw_addr a) w1 p (sent ev i w1 (ip_frame x (sender_hw_addr a) h rest @ pad))"
    using s x1 room x(3) unfolding ready_def by metis
  then have "list_all2 (ready os (sender_hw_addr a) w1) [p] [sent ev i w1 (ip_frame x (sender_hw_addr a) h rest @ pad)]"
    by simp
  from recv_arp_reply [OF eh(1,2) a(1,2) len x1(1) x(2) eh(3) w1(8) _ _ _ frame, of
      "(init_arp_entry target i)\<lparr>arp_pending_pkts := [p]\<rparr>" os
      "[sent ev i w1 (ip_frame x (sender_hw_addr a) h rest @ pad)]" k] this w1(9) a(3) p w1(4)
  obtain w2 where "recv_frame k os i (Some frame) w1 = Inr w2" "w_skbs w2 p = None"
    "trace w2 = trace w1 @ callback_events i w1 frame @ sent ev i w1 (ip_frame x (sender_hw_addr a) h rest @ pad)"
    by auto
  with w1(1,2) pad show ?thesis by blast
qed

section \<open>Packets that are not forwarded\<close>

text \<open>
  Forwarding is off, or the time to live has run out: the packet disappears, and nothing is sent.
\<close>

text \<open>
  C20: A packet for a remote address is dropped, without a trace on the wire and with its buffer
  released, when forwarding is disabled or its time to live would expire.
\<close>

lemma recv_expired:
  assumes eh: "valid_eth eh" "eth_type eh = HTONS ETH_PROTO_IP" and len: "length rest \<le> 2000"
    and x: "get_intf i w = Inr x" "l3_open x" "ethernet_input_qualify x eh"
    and loc: "is_ip_local (if_node x) (dst_ip ih) w = Inr False"
    and ttl: "ip_forward_enable w \<Longrightarrow> ip_ttl ih \<in> {0, 1}" and frame: "frame = enc_eth eh @ enc_ip ih @ rest"
  shows "\<exists>w'. recv_frame k os i (Some frame) w = Inr w' \<and> trace w' = trace w @ callback_events i w frame \<and>
    w_skbs w' = (w_skbs w)(w_next w := None)"
proof -
  let ?p = "w_next w"
  from recv_ip [OF eh len x frame, of k os] obtain t where t: "rx_skb i (enc_ip ih @ rest) t"
    "recv_frame k os i (Some frame) w =
      bindE (ip_preroute k os ?p (called_back i frame (snd (new_skb t w)))) (\<lambda>(ok, w1).
        if \<not> ok then free_skb ?p w1 else Inr w1)" by blast
  let ?w1 = "called_back i frame (snd (new_skb t w))"
  have w1: "get_skb ?p ?w1 = Inr t" "get_intf i ?w1 = Inr x" "is_ip_local (if_node x) (dst_ip ih) ?w1 = Inr False"
    using x(1) loc is_ip_local_cong [of ?w1 w] by (simp_all add: called_back_def world_access)
  have s: "has_ip ?p (Some i) ih rest t ?w1" using w1(1) t(1) by (simp add: has_ip_def rx_skb_def)
  have "\<not> ip_forward_enable ?w1 \<or> ip_ttl ih = 0 \<or> ip_ttl ih = 1" using ttl by (auto simp: called_back_def world_access)
  from ip_forward_drop [OF s this, of os "ip_input k os"] obtain u where
    "ip_forward os (ip_input k os) ?p ?w1 = Inr (False, put_skb ?p u ?w1) \<or>
     ip_forward os (ip_input k os) ?p ?w1 = Inr (False, ?w1)" by blast
  then show ?thesis
    using t(2) ip_preroute_eq [OF w1(1) t(1) w1(2,3), of k os]
    by (auto simp: free_skb_def called_back_def callback_events_def world_access)
qed

end
