(* ===== verification/Tcp_Stream.thy ===== *)
theory Tcp_Stream
  imports Tcp_Receive
begin

text \<open>
  The byte stream of an established connection: a run of segments, in whatever order they come,
  leaves in the receive queue a gapless selection of them.  What \<open>tcp_send\<close> puts on the wire, and
  what it reports when the window is full.
\<close>

section \<open>A run of segments\<close>

text \<open>
  The segments in the buffers \<open>ps\<close> are handed to \<open>tcp_input\<close> one after the other; the caller frees
  a buffer that was not taken (\<open>recv_task\<close>).
\<close>

fun tcp_inputs :: "os \<Rightarrow> deliver \<Rightarrow> skb_id list \<Rightarrow> world \<Rightarrow> world res" where
  "tcp_inputs os deliver [] w = Inr w"
| "tcp_inputs os deliver (p # ps) w =
     bindE (tcp_input os deliver p w) (\<lambda>(ok, w).
     bindE (if \<not> ok then free_skb p w else Inr w) (\<lambda>w. tcp_inputs os deliver ps w))"

text \<open>A buffer that holds a segment of the connection without RST or FIN.\<close>

definition conn_segment ::
    "intf_id \<Rightarrow> ip_addr \<Rightarrow> sock_id \<Rightarrow> tcp_sock \<Rightarrow> conn_id \<Rightarrow> world \<Rightarrow> skb_id \<Rightarrow> tcp_hdr \<times> u8 list \<Rightarrow> bool" where
  "conn_segment i src t sk c w p = (\<lambda>(h, data). has_tcp p i src h data w \<and> for_sock i h t sk w \<and>
     find_matching_connection (ts_conns sk) src (NTOHS (tcp_src_port h)) w = Inr (Some c) \<and>
     \<not> fl_rst (tcp_flags h) \<and> \<not> fl_fin (tcp_flags h))"

lemma find_conn_cong:
  assumes "\<And>d. d \<noteq> c \<Longrightarrow> w_tcp_conns w' d = w_tcp_conns w d" and "w_tcp_conns w c = Some cn"
    and "w_tcp_conns w' c = Some cn'" and "same_peer cn cn'"
  shows "find_matching_connection cs ip port w' = find_matching_connection cs ip port w"
proof (induction cs)
  case (Cons d cs)
  show ?case
  proof (cases "d = c")
    case True
    then show ?thesis using Cons assms by (simp add: get_tcp_conn_def same_peer_def)
  next
    case False
    then have "get_tcp_conn d w' = get_tcp_conn d w" using assms(1) by (simp add: get_tcp_conn_def)
    then show ?thesis unfolding find_matching_connection.simps Cons by simp
  qed
qed simp

lemma find_sock_cong:
  "w_tcp_socks w' = w_tcp_socks w \<Longrightarrow> tcp_socks_manager_find ts port w' = tcp_socks_manager_find ts port w"
proof (induction ts)
  case (Cons t ts)
  have "get_tcp_sock t w' = get_tcp_sock t w" using Cons.prems by (simp add: get_tcp_sock_def)
  then show ?case unfolding tcp_socks_manager_find.simps Cons.IH [OF Cons.prems] by simp
qed simp

lemma conn_segment_frame:
  assumes "conn_segment i src t sk c w q sg" and "conn_frame p c w w'" and "q \<noteq> p"
    and "get_tcp_conn c w = Inr cn" and "get_tcp_conn c w' = Inr cn'" and "same_peer cn cn'"
  shows "conn_segment i src t sk c w' q sg"
proof -
  have f: "w_skbs w' q = w_skbs w q" "w_intfs w' = w_intfs w" "w_tcp_socks w' = w_tcp_socks w"
    "\<And>d. d \<noteq> c \<Longrightarrow> w_tcp_conns w' d = w_tcp_conns w d"
    using assms(2,3) by (simp_all add: conn_frame_def)
  have g: "get_skb q w' = get_skb q w" "get_intf i w' = get_intf i w" "get_tcp_sock t w' = get_tcp_sock t w"
    using f by (simp_all add: get_skb_def get_intf_def get_tcp_sock_def)
  have "find_matching_connection cs ip port w' = find_matching_connection cs ip port w" for cs ip port
    by (rule find_conn_cong [OF f(4)]) (use assms(4-6) in \<open>simp_all add: tcp_conn_table.get_Inr_iff\<close>)
  then show ?thesis
    using assms(1) find_sock_cong [OF f(3)]
    by (auto simp: conn_segment_def has_tcp_def for_sock_def g)
qed

text \<open>Freeing the buffer that was not taken keeps the frame.\<close>

lemma conn_frame_free:
  "conn_frame p c w w1 \<Longrightarrow> conn_frame p c w (w1\<lparr>w_skbs := (w_skbs w1)(p := None)\<rparr>)"
  by (simp add: conn_frame_def)

text \<open>One segment and the release of its buffer.\<close>

lemma tcp_inputs_step:
  assumes seg: "conn_segment i src t sk c w p (h, data)" and cn: "get_tcp_conn c w = Inr cn"
    and ok: "rx_ok (tc_rx_skb cn) w" and p: "p \<notin> set (tc_rx_skb cn)"
  shows "\<exists>w1 cn1. tcp_inputs os deliver (p # ps) w = tcp_inputs os deliver ps w1 \<and> get_tcp_conn c w1 = Inr cn1 \<and>
    receiver_of cn1 w1 = rcv_segment (h, data) (receiver_of cn w) \<and> rx_ok (tc_rx_skb cn1) w1 \<and>
    conn_frame p c w w1 \<and> same_peer cn cn1 \<and> set (tc_rx_skb cn1) \<subseteq> insert p (set (tc_rx_skb cn))"
proof -
  have s: "has_tcp p i src h data w" "for_sock i h t sk w" "for_conn src h sk c cn w"
    "\<not> fl_rst (tcp_flags h)" "\<not> fl_fin (tcp_flags h)"
    using seg cn by (auto simp: conn_segment_def for_conn_def)
  from tcp_input_refines [OF s(1-3) ok p s(4,5), of os deliver] obtain w1 cn1 where
    w1: "tcp_input os deliver p w = Inr (accepts h (receiver_of cn w), w1)" "get_tcp_conn c w1 = Inr cn1"
      "receiver_of cn1 w1 = rcv_segment (h, data) (receiver_of cn w)" "rx_ok (tc_rx_skb cn1) w1" "conn_frame p c w w1"
      "same_peer cn cn1" "tc_rx_skb cn1 = (if accepts h (receiver_of cn w) then [p] else []) @ tc_rx_skb cn"
    and live: "w_skbs w1 p \<noteq> None" by blast
  show ?thesis
  proof (cases "accepts h (receiver_of cn w)")
    case True
    with w1 show ?thesis by auto
  next
    case False
    let ?w2 = "w1\<lparr>w_skbs := (w_skbs w1)(p := None)\<rparr>"
    have q: "tc_rx_skb cn1 = tc_rx_skb cn" using w1(7) False by simp
    have same: "w_skbs ?w2 r = w_skbs w1 r" if "r \<in> set (tc_rx_skb cn1)" for r using that p q by auto
    have "receiver_of cn1 ?w2 = receiver_of cn1 w1"
      using rx_data_frame [OF same] by (simp add: receiver_of_def)
    moreover have "rx_ok (tc_rx_skb cn1) ?w2" by (rule rx_ok_frame [OF w1(4) same])
    moreover have "tcp_inputs os deliver (p # ps) w = tcp_inputs os deliver ps ?w2"
      using w1(1) False live by (simp add: free_skb_def)
    ultimately show ?thesis
      using w1(2,3,5,6) q conn_frame_free [OF w1(5)] by (intro exI [of _ ?w2] exI [of _ cn1]) (auto simp: get_tcp_conn_def)
  qed
qed

text \<open>
  Whatever segments arrive for an established connection, and in whatever order: the queue grows by
  the data of a gapless selection of them that starts at the next sequence number expected.
\<close>

lemma tcp_inputs_refines:
  assumes "list_all2 (conn_segment i src t sk c w) ps segs" and "get_tcp_conn c w = Inr cn"
    and "rx_ok (tc_rx_skb cn) w" and "distinct (ps @ tc_rx_skb cn)"
  shows "\<exists>w' cn'. tcp_inputs os deliver ps w = Inr w' \<and> get_tcp_conn c w' = Inr cn' \<and> rx_ok (tc_rx_skb cn') w' \<and>
    receiver_of cn' w' = fold rcv_segment segs (receiver_of cn w) \<and> same_peer cn cn' \<and>
    w_tcp_socks w' = w_tcp_socks w \<and> tcp_fd_to_sock w' = tcp_fd_to_sock w \<and> fd_conn_to_sock w' = fd_conn_to_sock w"
  using assms
proof (induction ps arbitrary: segs w cn)
  case (Cons p ps)
  obtain h data segs' where segs: "segs = (h, data) # segs'" and p: "conn_segment i src t sk c w p (h, data)"
    and ps: "list_all2 (conn_segment i src t sk c w) ps segs'"
    using Cons.prems(1) by (auto simp: list_all2_Cons1)
  from tcp_inputs_step [OF p Cons.prems(2,3), of os deliver ps] Cons.prems(4) obtain w1 cn1 where
    w1: "tcp_inputs os deliver (p # ps) w = tcp_inputs os deliver ps w1" "get_tcp_conn c w1 = Inr cn1"
      "receiver_of cn1 w1 = rcv_segment (h, data) (receiver_of cn w)" "rx_ok (tc_rx_skb cn1) w1"
      "conn_frame p c w w1" "same_peer cn cn1" "set (tc_rx_skb cn1) \<subseteq> insert p (set (tc_rx_skb cn))" by auto
  have keep: "conn_segment i src t sk c w1 q sg" if "conn_segment i src t sk c w q sg" "q \<in> set ps" for q sg
    by (rule conn_segment_frame [OF that(1) w1(5) _ Cons.prems(2) w1(2,6)]) (use that(2) Cons.prems(4) in auto)
  have "list_all2 (conn_segment i src t sk c w1) ps segs'"
    by (rule list.rel_mono_strong [OF ps]) (rule keep)
  moreover have "distinct (ps @ tc_rx_skb cn1)"
    using Cons.prems(4) w1(4,7) by (auto simp: rx_ok_def)
  ultimately obtain w' cn' where w': "tcp_inputs os deliver ps w1 = Inr w'" "get_tcp_conn c w' = Inr cn'"
    "rx_ok (tc_rx_skb cn') w'" "receiver_of cn' w' = fold rcv_segment segs' (receiver_of cn1 w1)" "same_peer cn1 cn'"
    "w_tcp_socks w' = w_tcp_socks w1" "tcp_fd_to_sock w' = tcp_fd_to_sock w1" "fd_conn_to_sock w' = fd_conn_to_sock w1"
    using Cons.IH [OF _ w1(2,4)] by blast
  have "same_peer cn cn'" using w1(6) w'(5) by (simp add: same_peer_def)
  with w' w1(1,3,5) segs show ?case by (auto simp: conn_frame_def)
qed (auto simp: same_peer_def)

text \<open>
  C9: TCP delivers in order: whatever sequence of segments without RST and FIN an established
  connection is given, what joins its receive queue is a subsequence of them that is contiguous in
  sequence numbers from the next expected one, in arrival order and after what was queued before,
  and the next expected number advances by exactly its length; segments that arrive in order are
  all taken.  (What an RST or a FIN does is C12.)
\<close>

lemma tcp_stream:
  assumes segs: "list_all2 (conn_segment i src t sk c w) ps segs" and cn: "get_tcp_conn c w = Inr cn" "tc_state cn = Handle_estab"
    and q: "rx_ok (tc_rx_skb cn) w" "distinct (ps @ tc_rx_skb cn)"
  shows "\<exists>w' cn' acc. tcp_inputs os deliver ps w = Inr w' \<and> get_tcp_conn c w' = Inr cn' \<and>
    subseq acc segs \<and> contiguous (rcv_nxt cn) acc \<and>
    rx_data (tc_rx_skb cn') w' = rx_data (tc_rx_skb cn) w @ map snd acc \<and>
    rcv_nxt cn' = rcv_nxt cn + of_nat (length (concat (map snd acc))) \<and> (contiguous (rcv_nxt cn) segs \<longrightarrow> acc = segs)"
proof -
  from tcp_inputs_refines [OF segs cn(1) q, of os deliver] obtain w' cn' where
    w': "tcp_inputs os deliver ps w = Inr w'" "get_tcp_conn c w' = Inr cn'"
      "receiver_of cn' w' = fold rcv_segment segs (receiver_of cn w)" by blast
  from rcv_stream [of "receiver_of cn w" segs] cn(2) obtain acc where "subseq acc segs" "contiguous (rcv_nxt cn) acc"
    "r_data (receiver_of cn' w') = rx_data (tc_rx_skb cn) w @ map snd acc"
    "r_nxt (receiver_of cn' w') = rcv_nxt cn + of_nat (length (concat (map snd acc)))"
    "contiguous (rcv_nxt cn) segs \<longrightarrow> acc = segs"
    unfolding w'(3) by (auto simp: receiver_of_def)
  with w'(1,2) show ?thesis by (intro exI [of _ w'] exI [of _ cn'] exI [of _ acc]) (simp add: receiver_of_def)
qed

section \<open>Sending\<close>

text \<open>
  Data that fit the window leave in one frame whose segment passes the checksum test of the
  receiver, and the next sequence number moves on.
\<close>

text \<open>
  C13: Within the send window, and with the peer's next hop resolved, tcp_send puts one segment
  with the data on the wire, whose checksum over the pseudo header verifies, advances the next
  sequence number by the length of the data and reports it as sent.
\<close>

lemma tcp_send_sent:
  assumes fd: "tcp_conn_of_fd fd w = Some c" and cn: "get_tcp_conn c w = Inr cn" "tc_state cn = Handle_estab"
    and sk: "get_tcp_sock (tc_parent cn) w = Inr sk" "ts_intf sk = Some i"
    and r: "reaches os (if_node x) (tc_remote_ip cn) i x mac ev w"
    and data: "data = take MAX_TCP_PAYLOAD buff" and win: "\<not> outside_window cn (length data)"
  shows "\<exists>w' pad. tcp_send os deliver fd buff w = Inr (int (length data), w') \<and> length pad = 6 - length data \<and>
    trace w' = trace w @ sent ev i w (ip_frame x mac
      (ip_out_hdr (if_ip x) (tc_remote_ip cn) IP_PROTO_TCP (length data + 40)) (tcp_segment sk cn data flags_ack) @ pad) \<and>
    get_tcp_conn c w' = Inr (cn\<lparr>snt_nxt := snt_nxt cn + of_nat (length data)\<rparr>) \<and>
    calc_checksum_16 (enc_pseudo (pseudo_for (20 + length data) (ts_local_ip sk) (tc_remote_ip cn)) @
      tcp_segment sk cn data flags_ack) = 0"
proof -
  have n: "length data \<le> MAX_TCP_PAYLOAD" "take (min (length buff) MAX_TCP_PAYLOAD) buff = data"
    "min (length buff) MAX_TCP_PAYLOAD = length data"
    by (auto simp: data min_def)
  have adv: "tcp_advance cn (length data) flags_ack = cn\<lparr>snt_nxt := snt_nxt cn + of_nat (length data)\<rparr>"
    by (simp add: tcp_advance_def flags_bits)
  from tcp_out_sent [OF cn(1) sk(1) win n(1) sk(2) r, of deliver flags_ack] obtain pad where
    pad: "length pad = 6 - length data" and out: "tcp_out os deliver c data flags_ack w =
    Inr (True, (put_tcp_conn c (cn\<lparr>snt_nxt := snt_nxt cn + of_nat (length data)\<rparr>) w)
      \<lparr>trace := trace w @ sent ev i w (ip_frame x mac
         (ip_out_hdr (if_ip x) (tc_remote_ip cn) IP_PROTO_TCP (length data + 40)) (tcp_segment sk cn data flags_ack) @ pad),
       w_next := Suc (w_next w), w_skbs := (w_skbs w)(w_next w := None)\<rparr>)" unfolding adv by blast
  have "calc_checksum_16 (enc_pseudo (pseudo_for (20 + length data) (ts_local_ip sk) (tc_remote_ip cn)) @
      tcp_segment sk cn data flags_ack) = 0"
    unfolding tcp_segment_def
    by (rule tcp_sealed_checksum) (use n(1) in \<open>simp_all add: tcp_out_hdr_def MAX_TCP_PAYLOAD_def\<close>)
  with pad out fd cn n show ?thesis
    by (auto simp: tcp_send_def Let_def put_tcp_conn_def get_tcp_conn_def)
qed

text \<open>Data that do not fit are reported as sent, but nothing leaves and a buffer is lost.\<close>

text \<open>
  C14: Outside the send window tcp_out returns -1 from a function of type bool: nothing is put on
  the wire and the connection does not change, yet tcp_send reports the data as sent and the
  buffer stays allocated.
\<close>

lemma tcp_send_lost:
  assumes fd: "tcp_conn_of_fd fd w = Some c" and cn: "get_tcp_conn c w = Inr cn" "tc_state cn = Handle_estab"
    and sk: "get_tcp_sock (tc_parent cn) w = Inr sk" and data: "data = take MAX_TCP_PAYLOAD buff"
    and win: "outside_window cn (length data)"
  shows "\<exists>w'. tcp_send os deliver fd buff w = Inr (int (length data), w') \<and> trace w' = trace w \<and>
    get_tcp_conn c w' = Inr cn \<and> w_skbs w' (w_next w) \<noteq> None"
proof -
  have n: "length data \<le> MAX_TCP_PAYLOAD" "take (min (length buff) MAX_TCP_PAYLOAD) buff = data"
    "min (length buff) MAX_TCP_PAYLOAD = length data"
    by (auto simp: data min_def)
  from tcp_out_outside_window [OF cn(1) sk win n(1), of os deliver flags_ack] obtain s where
    "tcp_out os deliver c data flags_ack w = Inr (True, snd (new_skb s w))" by blast
  with fd cn n show ?thesis
    by (simp add: tcp_send_def Let_def) (simp add: new_skb_def put_skb_def get_tcp_conn_def)
qed

end
