(* ===== verification/Tcp_Session.thy ===== *)
theory Tcp_Session
  imports Tcp_Stream
begin

text \<open>
  A connection from its first segment on: the SYN of a peer, the acknowledgement that completes the
  handshake, the data that follow, and the descriptor the application gets for it.
\<close>

section \<open>The state after the SYN\<close>

lemma find_sock_same_port:
  assumes "w_tcp_socks w' = (w_tcp_socks w)(t \<mapsto> sk')" and "get_tcp_sock t w = Inr sk" and "ts_local_port sk' = ts_local_port sk"
  shows "tcp_socks_manager_find ts port w' = tcp_socks_manager_find ts port w"
proof (induction ts)
  case (Cons u ts)
  show ?case
  proof (cases "u = t")
    case True
    then show ?thesis using Cons assms by (simp add: get_tcp_sock_def)
  next
    case False
    then have "get_tcp_sock u w' = get_tcp_sock u w" using assms(1) by (simp add: get_tcp_sock_def)
    then show ?thesis unfolding tcp_socks_manager_find.simps Cons by simp
  qed
qed simp

text \<open>A segment of the same peer as the SYN, without RST or FIN, in a buffer of its own.\<close>

definition later_segment :: "skb_id \<Rightarrow> intf_id \<Rightarrow> ip_addr \<Rightarrow> tcp_hdr \<Rightarrow> world \<Rightarrow> skb_id \<Rightarrow> tcp_hdr \<times> u8 list \<Rightarrow> bool" where
  "later_segment p i src h w q = (\<lambda>(g, data). has_tcp q i src g data w \<and> q \<noteq> p \<and> q < w_next w \<and>
     tcp_src_port g = tcp_src_port h \<and> tcp_dst_port g = tcp_dst_port h \<and> \<not> fl_rst (tcp_flags g) \<and> \<not> fl_fin (tcp_flags g))"

lemma later_conn_segment:
  assumes seg: "later_segment p i src h w q sg" and t: "for_sock i h t sk w"
    and skbs: "\<And>r. r < w_next w \<Longrightarrow> r \<noteq> p \<Longrightarrow> w_skbs w' r = w_skbs w r" and intfs: "w_intfs w' = w_intfs w"
    and socks: "w_tcp_socks w' = (w_tcp_socks w)(t \<mapsto> sk\<lparr>ts_conns := c # ts_conns sk\<rparr>)"
    and cn: "get_tcp_conn c w' = Inr cn" "tc_remote_ip cn = src" "tc_remote_port cn = NTOHS (tcp_src_port h)"
  shows "conn_segment i src t (sk\<lparr>ts_conns := c # ts_conns sk\<rparr>) c w' q sg"
proof -
  obtain g data where sg: "sg = (g, data)" by (cases sg)
  let ?sk = "sk\<lparr>ts_conns := c # ts_conns sk\<rparr>"
  have sk: "get_tcp_sock t w = Inr sk" using t by (auto simp: for_sock_def)
  have "get_skb q w' = get_skb q w" "get_intf i w' = get_intf i w" "get_tcp_sock t w' = Inr ?sk"
    using seg skbs intfs socks by (auto simp: sg later_segment_def get_skb_def get_intf_def get_tcp_sock_def)
  moreover have "tcp_socks_manager_find ts port w' = tcp_socks_manager_find ts port w" for ts port
    by (rule find_sock_same_port [OF socks sk]) simp
  moreover have "find_matching_connection (ts_conns ?sk) src (NTOHS (tcp_src_port g)) w' = Inr (Some c)"
    using cn seg by (simp add: sg later_segment_def)
  ultimately show ?thesis
    using seg t by (auto simp: sg later_segment_def conn_segment_def has_tcp_def for_sock_def)
qed

section \<open>A session\<close>

lemma tcp_accept_first:
  assumes "tcp_sock_of_fd fd w = Some t" and "get_tcp_sock t w = Inr sk" and "ts_listening sk" and "ts_conns sk = c # cs"
    and "get_tcp_conn c w = Inr cn" and "tc_state cn = Handle_estab" and "first_free (fd_conn_to_sock w) 0 = Some k"
  shows "tcp_accept fd w =
    Inr (Some (int k, tc_remote_ip cn, tc_remote_port cn), w\<lparr>fd_conn_to_sock := (fd_conn_to_sock w)[k := Some c]\<rparr>)"
  using assms by (simp add: tcp_accept_def)

text \<open>
  C8: A connection comes up: after the SYN of a new peer to a listening socket, the in-sequence
  acknowledgement that completes the handshake and any further segments of that peer for the port
  that carry neither RST nor FIN, tcp_accept on the listening socket returns the first free
  connection descriptor for the new, established connection with the address and port of the peer,
  and its receive queue holds the data of a contiguous selection of those segments, all of them
  when they arrive in order.  The peer's next hop is resolved, so that the SYN-ACK is sent at
  once.
\<close>

lemma tcp_session:
  assumes s: "has_tcp p i src h d w" "p < w_next w" and t: "for_sock i h t sk w"
    and new: "find_matching_connection (ts_conns sk) src (NTOHS (tcp_src_port h)) w = Inr None"
    and syn: "ts_listening sk" "fl_syn (tcp_flags h)" "\<not> fl_ack (tcp_flags h)"
    and j: "ts_intf sk = Some j" and r: "reaches os (if_node x) src j x mac ev w"
    and ack: "later_segment p i src h w q (g, e)" "fl_ack (tcp_flags g)" "\<not> fl_syn (tcp_flags g)"
      "NTOHL (tcp_seq g) = NTOHL (tcp_seq h) + 1"
    and segs: "list_all2 (later_segment p i src h w) rs segs" and dist: "distinct (q # rs)"
    and fd: "tcp_sock_of_fd fd w = Some t" "first_free (fd_conn_to_sock w) 0 = Some k" "length (fd_conn_to_sock w) = MAX_TCP_CONN_SOCKS"
  shows "\<exists>w2 w3 acc cn. tcp_inputs os deliver (p # q # rs) w = Inr w2 \<and>
    tcp_accept fd w2 = Inr (Some (int k, src, NTOHS (tcp_src_port h)), w3) \<and>
    tcp_conn_of_fd (int k) w3 = Some (w_next w) \<and> get_tcp_conn (w_next w) w3 = Inr cn \<and> tc_state cn = Handle_estab \<and>
    subseq acc segs \<and> contiguous (NTOHL (tcp_seq h) + 1) acc \<and> rx_ok (tc_rx_skb cn) w3 \<and>
    rx_data (tc_rx_skb cn) w3 = map snd acc \<and> (contiguous (NTOHL (tcp_seq h) + 1) segs \<longrightarrow> acc = segs)"
proof -
  let ?c = "w_next w" and ?sk = "sk\<lparr>ts_conns := w_next w # ts_conns sk\<rparr>" and ?cn = "(new_conn t src h)\<lparr>snt_nxt := 1\<rparr>"
  from tcp_syn_world [OF s(1) t new syn j r, of deliver] obtain w' where
    w': "tcp_input os deliver p w = Inr (False, w')" "w_skbs w' = (w_skbs w)(Suc ?c := None)" "w_intfs w' = w_intfs w"
      "w_tcp_socks w' = (w_tcp_socks w)(t \<mapsto> ?sk)" "w_tcp_conns w' = (w_tcp_conns w)(?c \<mapsto> ?cn)"
      "tcp_fd_to_sock w' = tcp_fd_to_sock w" "fd_conn_to_sock w' = fd_conn_to_sock w" by blast
  let ?w1 = "w'\<lparr>w_skbs := (w_skbs w')(p := None)\<rparr>"
  have "w_skbs w' p \<noteq> None" using s w'(2) by (auto simp: has_tcp_def get_skb_def)
  then have run: "tcp_inputs os deliver (p # q # rs) w = tcp_inputs os deliver (q # rs) ?w1"
    using w'(1) by (simp add: free_skb_def)
  have cn: "get_tcp_conn ?c ?w1 = Inr ?cn" "tc_remote_ip ?cn = src" "tc_remote_port ?cn = NTOHS (tcp_src_port h)"
    using w'(5) by (simp_all add: get_tcp_conn_def new_conn_def)
  have keep: "conn_segment i src t ?sk ?c ?w1 u sg" if "later_segment p i src h w u sg" for u sg
    by (rule later_conn_segment [OF that t _ _ _ cn]) (use w' in auto)
  have all: "list_all2 (conn_segment i src t ?sk ?c ?w1) (q # rs) ((g, e) # segs)"
    using keep [OF ack(1)] list.rel_mono_strong [OF segs keep] by simp
  have "rx_ok (tc_rx_skb ?cn) ?w1" "distinct ((q # rs) @ tc_rx_skb ?cn)"
    using dist by (simp_all add: rx_ok_def new_conn_def)
  from tcp_inputs_refines [OF all cn(1) this, of os deliver] obtain w2 cn2 where
    w2: "tcp_inputs os deliver (q # rs) ?w1 = Inr w2" "get_tcp_conn ?c w2 = Inr cn2" "rx_ok (tc_rx_skb cn2) w2"
      "receiver_of cn2 w2 = fold rcv_segment segs (rcv_segment (g, e) (receiver_of ?cn ?w1))" "same_peer ?cn cn2"
      "w_tcp_socks w2 = w_tcp_socks w'" "tcp_fd_to_sock w2 = tcp_fd_to_sock w" "fd_conn_to_sock w2 = fd_conn_to_sock w"
    using w'(6,7) by auto
  define r1 where "r1 = rcv_segment (g, e) (receiver_of ?cn ?w1)"
  have r1: "r_state r1 = Handle_estab" "r_nxt r1 = NTOHL (tcp_seq h) + 1" "r_data r1 = []"
    using ack(2-4) by (simp_all add: r1_def rcv_segment_def receiver_of_def new_conn_def rx_data_def)
  from rcv_stream [OF r1(1), of segs] obtain acc where acc: "subseq acc segs" "contiguous (NTOHL (tcp_seq h) + 1) acc"
    "r_data (receiver_of cn2 w2) = map snd acc" "r_state (receiver_of cn2 w2) = Handle_estab"
    "contiguous (NTOHL (tcp_seq h) + 1) segs \<longrightarrow> acc = segs"
    unfolding w2(4) [folded r1_def] r1 by auto
  then have acc': "rx_data (tc_rx_skb cn2) w2 = map snd acc" "tc_state cn2 = Handle_estab" by (simp_all add: receiver_of_def)
  have sk2: "tcp_sock_of_fd fd w2 = Some t" "get_tcp_sock t w2 = Inr ?sk" "ts_listening ?sk" "ts_conns ?sk = ?c # ts_conns sk"
    "first_free (fd_conn_to_sock w2) 0 = Some k"
    using fd w2(6-8) w'(4) syn(1) by (auto simp: tcp_sock_of_fd_def get_tcp_sock_def split: if_splits)
  let ?w3 = "w2\<lparr>fd_conn_to_sock := (fd_conn_to_sock w2)[k := Some ?c]\<rparr>"
  have "tcp_accept fd w2 = Inr (Some (int k, src, NTOHS (tcp_src_port h)), ?w3)"
    using tcp_accept_first [OF sk2(1-4) w2(2) acc'(2) sk2(5)] w2(5) cn(2,3) by (simp add: same_peer_def)
  moreover have "tcp_conn_of_fd (int k) ?w3 = Some ?c"
    using first_free_Some [OF fd(2)] fd(3) w2(8) by (simp add: tcp_conn_of_fd_def)
  moreover have "get_tcp_conn ?c ?w3 = Inr cn2" "rx_ok (tc_rx_skb cn2) ?w3" "rx_data (tc_rx_skb cn2) ?w3 = map snd acc"
    using w2(2,3) acc'(1) by (simp_all add: get_tcp_conn_def rx_ok_def rx_data_def)
  ultimately show ?thesis using run w2(1) acc(1,2,5) acc'(2) by metis
qed

end
