(* ===== verification/Printing.thy ===== *)
theory Printing
  imports Construction
begin

text \<open>
  What the program prints of its tables: \<open>dump_arp_table\<close>, \<open>dump_rt_table\<close>, the two socket dumps
  and \<open>dump_nw_graph\<close>, as functions from the state to the text on standard output.  They change
  nothing, but they follow the pointers of the tables, and so find out whether these still lead to
  live objects.
\<close>

section \<open>Conversions\<close>

definition newline :: string where "newline = [CHR 0x0A]"
definition tab :: string where "tab = [CHR 0x09]"

fun join :: "string \<Rightarrow> string list \<Rightarrow> string" where
  "join sep [] = []"
| "join sep [s] = s"
| "join sep (s # t # ss) = s @ sep @ join sep (t # ss)"

text \<open>\<open>%u.%u.%u.%u\<close> of the bytes of an address, \<open>%02x\<close> of the bytes of a hardware address.\<close>

definition show_ip :: "ip_addr \<Rightarrow> string" where
  "show_ip ip = join ''.'' (map (\<lambda>b. show_dec (unat b)) (bytes32 ip))"

definition hex2 :: "u8 \<Rightarrow> string" where
  "hex2 b = [hex_digit (unat b div 16), hex_digit (unat b mod 16)]"

definition show_mac :: "mac_addr \<Rightarrow> string" where
  "show_mac mac = join '':'' (map hex2 mac)"

text \<open>A mask is a signed \<open>char\<close>, promoted to \<open>int\<close> and printed as an unsigned number.\<close>

definition show_mask :: "u8 \<Rightarrow> string" where
  "show_mask m = show_dec (unat (scast m :: u32))"

text \<open>Printing the entries of a list one after the other stops at the first fault.\<close>

fun print_all :: "('a \<Rightarrow> string res) \<Rightarrow> 'a list \<Rightarrow> string res" where
  "print_all f [] = Inr []"
| "print_all f (x # xs) = bindE (f x) (\<lambda>s. bindE (print_all f xs) (\<lambda>t. Inr (s @ t)))"

section \<open>Tables\<close>

definition dump_udp_socks_manager :: "sock_id list \<Rightarrow> world \<Rightarrow> string res" where
  "dump_udp_socks_manager socks w =
    bindE (print_all (\<lambda>u. bindE (get_udp_sock u w) (\<lambda>sk. Inr (show_dec (unat (us_local_port sk)) @ '' ''))) socks)
      (\<lambda>s. Inr (''UDP Sockets: '' @ s @ newline))"

definition dump_tcp_socks_manager :: "sock_id list \<Rightarrow> world \<Rightarrow> string res" where
  "dump_tcp_socks_manager socks w =
    bindE (print_all (\<lambda>t. bindE (get_tcp_sock t w) (\<lambda>sk. Inr (show_dec (unat (ts_local_port sk)) @ '' ''))) socks)
      (\<lambda>s. Inr (''TCP Sockets: '' @ s @ newline))"

definition dump_rt_entry :: "world \<Rightarrow> rt_entry \<Rightarrow> string res" where
  "dump_rt_entry w e =
    bindE (get_intf (rt_intf e) w) (\<lambda>x.
      Inr (tab @ ''dst: '' @ show_ip (rt_dst e) @ ''/'' @ show_mask (rt_mask e) @ '', next: '' @ show_ip (rt_next e) @
           '', intf: '' @ if_name x @ newline))"

definition dump_rt_table :: "rt_entry list \<Rightarrow> world \<Rightarrow> string res" where
  "dump_rt_table routes w =
    bindE (print_all (dump_rt_entry w) routes) (\<lambda>s. Inr (''RT Table'' @ newline @ s))"

definition dump_pending :: "world \<Rightarrow> nat \<times> skb_id \<Rightarrow> string res" where
  "dump_pending w = (\<lambda>(npacket, p).
    bindE (get_skb p w) (\<lambda>s.
    bindE (of_option Null_deref (skb_intf s)) (\<lambda>i.
    bindE (get_intf i w) (\<lambda>x.
      Inr (tab @ tab @ ''Pending packet '' @ show_dec npacket @ '' to '' @ if_name x @ newline)))))"

definition dump_arp_entry :: "world \<Rightarrow> arp_entry \<Rightarrow> string res" where
  "dump_arp_entry w e =
    bindE (get_intf (arp_intf e) w) (\<lambda>x.
    bindE (print_all (dump_pending w) (enumerate 0 (arp_pending_pkts e))) (\<lambda>s.
      Inr (tab @ ''entry ip: '' @ show_ip (arp_ip e) @ '', mac: '' @ show_mac (arp_mac e) @ '', intf: '' @ if_name x @
           newline @ s)))"

definition dump_arp_table :: "arp_entry list \<Rightarrow> world \<Rightarrow> string res" where
  "dump_arp_table entries w =
    bindE (print_all (dump_arp_entry w) entries) (\<lambda>s. Inr (''ARP Table'' @ newline @ s))"

section \<open>The graph\<close>

definition dump_intf_nw_prop :: "intf \<Rightarrow> world \<Rightarrow> string res" where
  "dump_intf_nw_prop x w =
    bindE (dump_udp_socks_manager (udp_socks_manager x) w) (\<lambda>us.
    bindE (dump_tcp_socks_manager (tcp_socks_manager x) w) (\<lambda>ts.
      Inr (''mac: '' @ show_mac (if_mac x) @ '', ip: '' @
           (if \<not> is_ip_addr_config x then ''Not configured'' @ newline
            else show_ip (if_ip x) @ ''/'' @ show_mask (if_mask x) @ newline) @
           tab @ us @ tab @ ts)))"

definition dump_interface :: "world \<Rightarrow> intf_id \<Rightarrow> string res" where
  "dump_interface w i =
    bindE (get_intf i w) (\<lambda>x.
    bindE (case if_link x of
             None \<Rightarrow> Inr []
           | Some l \<Rightarrow>
               bindE (get_nbr_node i w) (\<lambda>nbr.
               bindE (of_option Null_deref nbr) (\<lambda>n.
               bindE (get_node n w) (\<lambda>nd.
               bindE (get_link l w) (\<lambda>lk.
                 Inr ('' nbr: '' @ node_name nd @ '', cost: '' @ show_dec (unat (cost lk)) @ '', '')))))) (\<lambda>nbr.
    bindE (dump_intf_nw_prop x w) (\<lambda>props.
      Inr (tab @ ''Interface: '' @ if_name x @ '', '' @ nbr @ props))))"

definition dump_slot :: "world \<Rightarrow> intf_id option \<Rightarrow> string res" where
  "dump_slot w slot = (case slot of None \<Rightarrow> Inr [] | Some i \<Rightarrow> dump_interface w i)"

definition dump_node :: "world \<Rightarrow> node_id \<Rightarrow> string res" where
  "dump_node w n =
    bindE (get_node n w) (\<lambda>nd.
    bindE (print_all (dump_slot w) (node_intfs nd)) (\<lambda>intfs.
    bindE (dump_arp_table (arp_table nd) w) (\<lambda>arp.
    bindE (dump_rt_table (rt_table nd) w) (\<lambda>rt.
      Inr (''Node name: '' @ node_name nd @
           (if is_lb_addr_config nd then '', loopback ip: '' @ show_ip (lb_addr nd) else []) @ newline @
           intfs @ arp @ rt)))))"

definition dump_nw_graph :: "graph_id \<Rightarrow> world \<Rightarrow> string res" where
  "dump_nw_graph g w =
    bindE (get_graph g w) (\<lambda>gr.
    bindE (print_all (dump_node w) (graph_nodes gr)) (\<lambda>s.
      Inr (''Graph name: '' @ graph_name gr @ newline @ s)))"

section \<open>Received packets\<close>

text \<open>
  What \<open>udp_recv_bytes\<close> prints of the bytes that came from the address and port \<open>recvfrom\<close> has
  filled in, for the interface that embeds the \<open>struct comm\<close>.
\<close>

definition udp_recv_log :: "intf_id \<Rightarrow> ip_addr \<Rightarrow> u16 \<Rightarrow> u8 list \<Rightarrow> world \<Rightarrow> string res" where
  "udp_recv_log i addr port bytes w =
    bindE (get_intf i w) (\<lambda>x.
    bindE (get_node (if_node x) w) (\<lambda>nd.
      Inr (''Packet received from '' @ show_ip addr @ '':'' @ show_dec (unat (HTONS port)) @
           '', node '' @ node_name nd @ '', interface '' @ if_name x @ '' received '' @ show_dec (length bytes) @
           '' bytes: '' @ newline @ dump_hex bytes @ newline)))"

section \<open>Printing is safe\<close>

lemma show_ip_eq: "show_ip ip = convert_ip_from_int_to_str ip"
proof -
  have "unat (ucast w :: u8) = unat (w AND 0xff)" for w :: u32
    by (simp add: and_ff unsigned_ucast_eq unsigned_take_bit_eq)
  then show ?thesis by (simp add: show_ip_def bytes32_def convert_ip_from_int_to_str_def)
qed

lemma print_all_total:
  assumes "\<And>x. x \<in> set xs \<Longrightarrow> \<exists>s. f x = Inr s"
  shows "\<exists>s. print_all f xs = Inr s"
  using assms
proof (induction xs)
  case (Cons x xs)
  then obtain s t where "f x = Inr s" "print_all f xs = Inr t" by fastforce
  then show ?case by simp
qed simp

lemma print_all_then:
  assumes "\<forall>x \<in> set xs. \<exists>s. f x = Inr s"
  shows "\<exists>s. bindE (print_all f xs) (\<lambda>s. Inr (h s)) = Inr s"
  using print_all_total [of xs f] assms by fastforce

lemma print_all_fault:
  assumes "x \<in> set xs" and "f x = Inl e" and "\<And>y e'. y \<in> set xs \<Longrightarrow> f y = Inl e' \<Longrightarrow> e' = e"
  shows "print_all f xs = Inl e"
  using assms
proof (induction xs)
  case (Cons y ys)
  show ?case
  proof (cases "f y")
    case (Inl e')
    with Cons.prems(3) [of y e'] have "e' = e" by simp
    with Inl show ?thesis by simp
  next
    case (Inr s)
    with Cons.prems(1,2) have "x \<in> set ys" by auto
    then have "print_all f ys = Inl e"
    proof (rule Cons.IH [OF _ Cons.prems(2)])
      show "e' = e" if "z \<in> set ys" "f z = Inl e'" for z e'
        using Cons.prems(3) [of z e'] that by simp
    qed
    with Inr show ?thesis by simp
  qed
qed simp

text \<open>The pointers of the tables of a node and of the socket lists of an interface lead to live objects.\<close>

definition live :: "intf_id \<Rightarrow> world \<Rightarrow> bool" where
  "live i w \<longleftrightarrow> w_intfs w i \<noteq> None"

definition tables_live :: "node \<Rightarrow> world \<Rightarrow> bool" where
  "tables_live nd w \<longleftrightarrow>
    (\<forall>e \<in> set (rt_table nd). live (rt_intf e) w) \<and>
    (\<forall>e \<in> set (arp_table nd). live (arp_intf e) w \<and>
       (\<forall>p \<in> set (arp_pending_pkts e). \<exists>s i. w_skbs w p = Some s \<and> skb_intf s = Some i \<and> live i w))"

definition socks_live :: "intf \<Rightarrow> world \<Rightarrow> bool" where
  "socks_live x w \<longleftrightarrow>
    (\<forall>u \<in> set (udp_socks_manager x). w_udp_socks w u \<noteq> None) \<and>
    (\<forall>t \<in> set (tcp_socks_manager x). w_tcp_socks w t \<noteq> None)"

lemma live_get: "live i w \<longleftrightarrow> (\<exists>x. get_intf i w = Inr x)"
  by (auto simp: live_def get_intf_def)

lemma dump_intf_nw_prop_total:
  assumes "socks_live x w"
  shows "\<exists>s. dump_intf_nw_prop x w = Inr s"
proof -
  have "\<exists>s. dump_udp_socks_manager (udp_socks_manager x) w = Inr s"
    unfolding dump_udp_socks_manager_def
    by (rule print_all_then) (use assms in \<open>auto simp: socks_live_def get_udp_sock_def\<close>)
  moreover have "\<exists>s. dump_tcp_socks_manager (tcp_socks_manager x) w = Inr s"
    unfolding dump_tcp_socks_manager_def
    by (rule print_all_then) (use assms in \<open>auto simp: socks_live_def get_tcp_sock_def\<close>)
  ultimately show ?thesis by (auto simp: dump_intf_nw_prop_def)
qed

lemma dump_interface_total:
  assumes wf: "wf_topo w" and x: "get_intf i w = Inr x" and s: "socks_live x w"
  shows "\<exists>t. dump_interface w i = Inr t"
proof (cases "if_link x")
  case None
  with x dump_intf_nw_prop_total [OF s] show ?thesis by (auto simp: dump_interface_def)
next
  case (Some l)
  from wf_neighbour [OF wf x Some] obtain j y where j: "get_nbr_if i w = Inr (Some j)" "get_intf j w = Inr y" by blast
  have sp: "ports_ok (slots_map w) (ports_map w) (ends_map w)" using wf by (auto simp: wf_topo_def wf_shape_def)
  from ports_okD(2) [OF sp get_intf_port [OF j(2)]] obtain nd where nd: "get_node (if_node y) w = Inr nd"
    by (auto simp: port_of_def slots_map_def get_node_def)
  from ports_okD(3) [OF sp get_intf_port [OF x]] Some obtain lk where lk: "get_link l w = Inr lk"
    by (fastforce simp: port_of_def ends_map_def get_link_def)
  from dump_intf_nw_prop_total [OF s] x Some j nd lk show ?thesis
    by (auto simp: dump_interface_def get_nbr_node_def of_option_def)
qed

text \<open>The receive thread prints a packet without a fault: an interface of the topology has a live node.\<close>

lemma udp_recv_log_total:
  assumes wf: "wf_topo w" and x: "get_intf i w = Inr x"
  shows "\<exists>s. udp_recv_log i addr port bytes w = Inr s"
proof -
  have "ports_ok (slots_map w) (ports_map w) (ends_map w)" using wf by (auto simp: wf_topo_def wf_shape_def)
  from ports_okD(2) [OF this get_intf_port [OF x]] obtain nd where "get_node (if_node x) w = Inr nd"
    by (auto simp: port_of_def slots_map_def get_node_def)
  with x show ?thesis by (simp add: udp_recv_log_def)
qed

lemma dump_tables_total:
  assumes "tables_live nd w"
  shows "\<exists>s. dump_arp_table (arp_table nd) w = Inr s" "\<exists>s. dump_rt_table (rt_table nd) w = Inr s"
proof -
  have "\<exists>s. dump_arp_entry w e = Inr s" if e: "e \<in> set (arp_table nd)" for e
  proof -
    have "\<exists>s. dump_pending w (k, p) = Inr s" if "p \<in> set (arp_pending_pkts e)" for k p
      using assms e that by (fastforce simp: tables_live_def dump_pending_def get_skb_def live_get of_option_def)
    then have "\<exists>s. print_all (dump_pending w) (enumerate 0 (arp_pending_pkts e)) = Inr s"
      by (intro print_all_total) (auto simp: in_set_enumerate_eq)
    with assms e show ?thesis by (fastforce simp: dump_arp_entry_def tables_live_def live_get)
  qed
  then show "\<exists>s. dump_arp_table (arp_table nd) w = Inr s"
    unfolding dump_arp_table_def by (intro print_all_then) blast
  have "\<exists>s. dump_rt_entry w e = Inr s" if "e \<in> set (rt_table nd)" for e
    using assms that by (fastforce simp: dump_rt_entry_def tables_live_def live_get)
  then show "\<exists>s. dump_rt_table (rt_table nd) w = Inr s"
    unfolding dump_rt_table_def by (intro print_all_then) blast
qed

text \<open>
  C30: Printing a graph of a well-formed topology follows no dangling or null pointer, the
  neighbour of every linked interface included, provided the routing, ARP and socket tables of its
  nodes refer to live objects.
\<close>

lemma dump_nw_graph_total:
  assumes wf: "wf_topo w" and g: "get_graph g w = Inr gr"
    and nodes: "\<And>n. n \<in> set (graph_nodes gr) \<Longrightarrow> \<exists>nd. get_node n w = Inr nd \<and> tables_live nd w"
    and socks: "\<And>i x. get_intf i w = Inr x \<Longrightarrow> socks_live x w"
  shows "\<exists>s. dump_nw_graph g w = Inr s"
proof -
  have "\<exists>s. dump_node w n = Inr s" if "n \<in> set (graph_nodes gr)" for n
  proof -
    from nodes [OF that] obtain nd where nd: "get_node n w = Inr nd" "tables_live nd w" by blast
    then have sl: "slots_map w n = Some (node_intfs nd)" by (auto simp: slots_map_def get_node_def split: option.splits)
    have "\<exists>x. get_intf i w = Inr x" if "Some i \<in> set (node_intfs nd)" for i
    proof -
      have "slots_ok (slots_map w) (ports_map w)" using wf by (simp add: wf_topo_def wf_shape_def)
      from slots_okD(2) [OF this sl that] port_get_intf show ?thesis by blast
    qed
    then have "\<exists>s. dump_slot w slot = Inr s" if "slot \<in> set (node_intfs nd)" for slot
      using that dump_interface_total [OF wf] socks by (cases slot) (simp_all add: dump_slot_def, blast)
    then obtain s where "print_all (dump_slot w) (node_intfs nd) = Inr s"
      using print_all_total [of "node_intfs nd"] by blast
    with dump_tables_total [OF nd(2)] nd(1) show ?thesis by (auto simp: dump_node_def)
  qed
  then show ?thesis unfolding dump_nw_graph_def g bindE_simps by (intro print_all_then) blast
qed

end
