(* ===== verification/Stale_Route.thy ===== *)
theory Stale_Route
  imports Icmp_Path Printing
begin

text \<open>
  What destroying a link leaves behind.  \<open>destroy_link\<close> clears the slots of the two nodes and frees
  the interfaces, and leaves the routes through them in the routing tables: the next packet that
  takes such a route, and the next print of the table, follow a pointer to a freed interface.
\<close>

section \<open>Routing tables across the destruction of a link\<close>

definition rt_map :: "world \<Rightarrow> node_id \<Rightarrow> rt_entry list option" where
  "rt_map w n = map_option rt_table (w_nodes w n)"

lemma clear_slot_rt: "clear_slot l n k w = Inr w' \<Longrightarrow> rt_map w' = rt_map w"
  by (auto simp: clear_slot_def res_simps put_node_def get_node_def rt_map_def fun_eq_iff
      split: option.splits if_splits)

lemma clear_slots_rt: "clear_slots l n1 n2 ks w = Inr w' \<Longrightarrow> rt_map w' = rt_map w"
  by (induction ks arbitrary: w) (auto simp: res_simps dest!: clear_slot_rt)

lemma destroy_interface_rt:
  assumes r: "destroy_interface i w = Inr w'"
  shows "rt_map w' = rt_map w"
proof -
  from r obtain x b w1 where x: "get_intf i w = Inr x" "destroy_comm i w = Inr (b, w1)" "w_nodes w' = w_nodes w1"
    by (auto simp: destroy_interface_def res_simps Let_def free_intf_def split: if_splits)
  then have "comm_ops (if_comm x) \<noteq> None" by (auto simp: destroy_comm_def split: option.splits)
  from destroy_comm_shape [OF x(1) this] x(2,3) show ?thesis
    by (auto simp: same_shape_def same_wiring_def rt_map_def fun_eq_iff)
qed

lemma destroy_link_rt:
  assumes "destroy_link l w = Inr w'"
  shows "rt_map w' = rt_map w"
proof -
  from assms obtain lk n1 n2 w1 w2 w3 where
    "clear_slots l n1 n2 [0 ..< MAX_INTFS_PER_NODE] w = Inr w1" "destroy_interface (intf1 lk) w1 = Inr w2"
    "destroy_interface (intf2 lk) w2 = Inr w3" "w' = free_link l lk w3"
    by (auto simp: destroy_link_def res_simps)
  then show ?thesis
    using clear_slots_rt destroy_interface_rt by (fastforce simp: free_link_def free_intf_def rt_map_def fun_eq_iff)
qed

section \<open>A packet on a stale route\<close>

lemma ip_output_dangling:
  assumes s: "get_skb p w = Inr s" "wf_skb s" "IP_HDR_SIZE \<le> data_off s" "skb_intf s = None"
    and nd: "get_node n w = Inr nd" and rt: "rt_lookup_lpm (rt_table nd) dst = Inr (Some rt)"
    and x: "get_intf (rt_intf rt) w = Inl Dangling"
  shows "ip_output os deliver n dst prot p w = Inl Dangling"
proof -
  let ?s1 = "s\<lparr>data_off := data_off s - IP_HDR_SIZE, skb_len := skb_len s + IP_HDR_SIZE\<rparr>"
  let ?h = "init_ip_hdr\<lparr>dst_ip := dst, ip_proto := prot,
     ip_total_len := ucast (HTONS (of_nat (skb_len s + IP_HDR_SIZE) :: u64))\<rparr>"
  have s1: "skb_push IP_HDR_SIZE s = Inr ?s1" using skb_push_ok [OF s(3,2)] .
  from ip.wr_front [OF wf_skb_push [OF s(2) s1], of ?h] obtain s2 where
    s2: "wr_hdr enc_ip (data_off ?s1) ?h ?s1 = Inr s2" "wf_skb s2"
      "payload s2 = enc_ip ?h @ drop IP_HDR_SIZE (payload ?s1)" "skb_intf s2 = None"
    using s(4) by auto
  have "rd_hdr IP_HDR_SIZE dec_ip (data_off s2) s2 = Inr ?h" using ip.rd_front [OF s2(2,3)] by simp
  moreover have "get_node n (put_skb p s2 w) = Inr nd" "get_intf (rt_intf rt) (put_skb p s2 w) = Inl Dangling"
    using nd x by (simp_all add: world_access)
  ultimately have "ip_postroute os deliver n p (put_skb p s2 w) = Inl Dangling"
    using rt s2(4) by (simp add: ip_postroute_def)
  then show ?thesis using s(1) s1 s2(1) by (simp add: ip_output_def)
qed

text \<open>
  C38: Destroying a link leaves the routes through its interfaces in the tables of the nodes: the
  link is destroyed without a fault and the topology stays well formed, but a ping along such a
  route, and printing the table, read the freed interface.
\<close>

lemma ping_stale_route:
  assumes wf: "wf_topo w" and l: "get_link l w = Inr lk" and nd: "get_node n w = Inr nd"
    and ip: "convert_ip_from_str_to_int str = dst" and rt: "rt_lookup_lpm (rt_table nd) dst = Inr (Some rt)"
    and i: "rt_intf rt = intf1 lk \<or> rt_intf rt = intf2 lk"
  shows "\<exists>w' nd'. destroy_link l w = Inr w' \<and> wf_topo w' \<and> get_node n w' = Inr nd' \<and> rt_table nd' = rt_table nd \<and>
    ping os deliver n str w' = Inl Dangling \<and> dump_rt_table (rt_table nd') w' = Inl Dangling"
proof -
  have ends: "ends_map w l = Some (intf1 lk, intf2 lk)"
    using l by (auto simp: ends_map_def get_link_def split: option.splits)
  have s: "wf_shape (slots_map w) (ports_map w) (ends_map w)" using wf by (simp add: wf_topo_def)
  from destroy_link_shape [OF s ends] obtain w' where
    w': "destroy_link l w = Inr w'" "link_gone l (intf1 lk) (intf2 lk) w w'" by blast
  have "rt_map w' n = Some (rt_table nd)"
    using destroy_link_rt [OF w'(1)] nd by (auto simp: rt_map_def get_node_def split: option.splits)
  then obtain nd' where nd': "get_node n w' = Inr nd'" "rt_table nd' = rt_table nd"
    by (auto simp: rt_map_def get_node_def)
  have "ports_map w' (rt_intf rt) = None" using w'(2) i by (auto simp: link_gone_def)
  then have gone: "get_intf (rt_intf rt) w' = Inl Dangling" by (simp add: intf_table.get_Inl_iff ports_map_def)
  from icmp_skb_ok [of "[]" ICMP_ECHO_REQUEST_TYPE ICMP_ECHO_REQUEST_CODE] obtain s where
    s: "icmp_skb ICMP_ECHO_REQUEST_TYPE ICMP_ECHO_REQUEST_CODE [] = Inr s" "wf_skb s" "data_off s = 60" "skb_intf s = None"
    by auto
  let ?p = "w_next w'" and ?w1 = "snd (new_skb s w')"
  have "get_skb ?p ?w1 = Inr s" "IP_HDR_SIZE \<le> data_off s" "get_node n ?w1 = Inr nd'"
    "get_intf (rt_intf rt) ?w1 = Inl Dangling" "rt_lookup_lpm (rt_table nd') dst = Inr (Some rt)"
    using s(3) nd' gone rt by (simp_all add: world_access IP_HDR_SIZE_def)
  from ip_output_dangling [OF this(1) s(2) this(2) s(4) this(3,5,4), of os deliver IP_PROTO_ICMP]
  have "ping os deliver n str w' = Inl Dangling"
    using s(1) ip by (simp add: ping_def icmp_out_def new_skb_def)
  moreover have "dump_rt_table (rt_table nd') w' = Inl Dangling"
  proof -
    have "print_all (dump_rt_entry w') (rt_table nd') = Inl Dangling"
    proof (rule print_all_fault)
      show "rt \<in> set (rt_table nd')" using rt_lookup_lpm_mem [OF rt] nd'(2) by simp
      show "e = Dangling" if "dump_rt_entry w' y = Inl e" for y e
        using that by (auto simp: dump_rt_entry_def res_simps intf_table.get_Inl_iff)
    qed (simp add: dump_rt_entry_def gone)
    then show ?thesis by (simp add: dump_rt_table_def)
  qed
  ultimately show ?thesis using w' nd' wf_destroy_link [OF wf w'(1)] by blast
qed

end
