(* ===== verification/Example_Net.thy ===== *)
theory Example_Net
  imports Exchange Tcp_Session Stale_Route Recv_Task Binding
begin

text \<open>
  A small network, the concrete state on which the hypotheses of the properties are checked: two
  nodes A (10.0.0.1) and B (10.0.0.2) joined by a link, and a TAP interface of B (10.1.1.1).  A has
  a UDP socket on port 5000, B one on port 6000 with two datagrams in its queue and a listening
  TCP socket on port 80 with one established connection from A; a packet of B waits for the
  hardware address of 10.1.1.8.
\<close>

section \<open>Addresses\<close>

definition ip_A :: ip_addr where "ip_A = 0x0100000A"
definition ip_B :: ip_addr where "ip_B = 0x0200000A"
definition ip_T :: ip_addr where "ip_T = 0x0101010A"
definition ip_H :: ip_addr where "ip_H = 0x0901010A"
definition ip_W :: ip_addr where "ip_W = 0x0801010A"

definition mac_A :: mac_addr where "mac_A = [2, 0, 0, 0, 0, 1]"
definition mac_B :: mac_addr where "mac_B = [2, 0, 0, 0, 0, 2]"
definition mac_T :: mac_addr where "mac_T = [2, 0, 0, 0, 0, 3]"
definition mac_H :: mac_addr where "mac_H = [2, 0, 0, 0, 0, 9]"

lemmas ex_addrs = ip_A_def ip_B_def ip_T_def ip_H_def ip_W_def mac_A_def mac_B_def mac_T_def mac_H_def

section \<open>Objects\<close>

definition ex_node :: "string \<Rightarrow> intf_id option list \<Rightarrow> arp_entry list \<Rightarrow> rt_entry list \<Rightarrow> node" where
  "ex_node name slots arps routes = \<lparr>is_lb_addr_config = False, lb_addr = 0, arp_table = arps, mac_table = [],
     rt_table = routes, node_name = name, node_intfs = slots\<rparr>"

definition ex_arp :: "ip_addr \<Rightarrow> mac_addr \<Rightarrow> intf_id \<Rightarrow> arp_entry" where
  "ex_arp ip mac i = \<lparr>arp_ip = ip, arp_mac = mac, arp_intf = i, arp_resolved = True, arp_pending_pkts = []\<rparr>"

definition ex_waiting :: arp_entry where
  "ex_waiting = \<lparr>arp_ip = ip_W, arp_mac = replicate 6 0, arp_intf = 6, arp_resolved = False, arp_pending_pkts = [13]\<rparr>"

definition ex_route :: "ip_addr \<Rightarrow> u8 \<Rightarrow> ip_addr \<Rightarrow> intf_id \<Rightarrow> rt_entry" where
  "ex_route dst m nxt i = \<lparr>rt_dst = dst, rt_mask = m, rt_next = nxt, rt_intf = i\<rparr>"

definition node_A :: node where
  "node_A = ex_node ''A'' [Some 4, None, None, None] [ex_arp ip_B mac_B 4]
     [ex_route 0 0 ip_B 4, ex_route 0x0000000A 24 0 4]"

definition node_B :: node where
  "node_B = ex_node ''B'' [Some 5, Some 6, None, None] [ex_waiting, ex_arp ip_H mac_H 6, ex_arp ip_A mac_A 5]
     [ex_route 0x0001010A 24 0 6, ex_route 0x0000000A 24 0 5]"

definition udp_link_comm :: "int \<Rightarrow> u16 \<Rightarrow> comm" where
  "udp_link_comm fd port = \<lparr>comm_type = CT_UDP, comm_fd = fd, comm_port = port, comm_ops = Some Udp_comm_ops\<rparr>"

definition intf_A :: intf where
  "intf_A = \<lparr>tcp_socks_manager = [], udp_socks_manager = [7], if_mac = mac_A, is_ip_addr_config = True, if_ip = ip_A,
     if_mask = 24, if_name = ''eth0'', if_node = 19, if_link = Some 3, if_comm = udp_link_comm 3 40000\<rparr>"

definition intf_B :: intf where
  "intf_B = \<lparr>tcp_socks_manager = [9], udp_socks_manager = [8], if_mac = mac_B, is_ip_addr_config = True, if_ip = ip_B,
     if_mask = 24, if_name = ''eth0'', if_node = 2, if_link = Some 3, if_comm = udp_link_comm 4 40001\<rparr>"

definition intf_T :: intf where
  "intf_T = \<lparr>tcp_socks_manager = [], udp_socks_manager = [], if_mac = mac_T, is_ip_addr_config = True, if_ip = ip_T,
     if_mask = 24, if_name = ''tap0'', if_node = 2, if_link = None,
     if_comm = \<lparr>comm_type = CT_TUNTAP, comm_fd = 5, comm_port = 0, comm_ops = Some Tuntap_comm_ops\<rparr>\<rparr>"

text \<open>A buffer with the given contents, 60 bytes of room in front and 46 behind.\<close>

definition ex_skb :: "intf_id option \<Rightarrow> u8 list \<Rightarrow> skb" where
  "ex_skb i bytes = \<lparr>buf = replicate 60 0 @ bytes @ replicate 46 0, data_off = 60, tail_off = 60 + length bytes,
     skb_len = length bytes, skb_intf = i, ethernet_hdr_off = None, ip_hdr_off = None, tcp_hdr_off = None,
     udp_hdr_off = None\<rparr>"

definition sock_A :: udp_sock where
  "sock_A = \<lparr>us_bound = True, us_node = 19, us_intf = Some 4, us_local_port = 5000, us_rx_skb = []\<rparr>"

definition sock_B :: udp_sock where
  "sock_B = \<lparr>us_bound = True, us_node = 2, us_intf = Some 5, us_local_port = 6000, us_rx_skb = [12, 11]\<rparr>"

definition tcp_B :: tcp_sock where
  "tcp_B = \<lparr>ts_bound = True, ts_listening = True, ts_node = 2, ts_local_ip = ip_B, ts_intf = Some 5,
     ts_local_port = 80, ts_conns = [10], ts_closed_conns = []\<rparr>"

definition conn_B :: tcp_connection_sock where
  "conn_B = \<lparr>tc_parent = 9, tc_state = Handle_estab, tc_remote_ip = ip_A, tc_remote_port = 4000, snt_una = 0,
     snt_nxt = 1, snt_wnd = 500, snt_iss = 0, rcv_nxt = 100, rcv_wnd = 1500, rcv_irs = 0, tc_rx_skb = [14],
     tc_tx_skb = []\<rparr>"

definition ex_ip :: "ip_addr \<Rightarrow> ip_addr \<Rightarrow> u8 \<Rightarrow> ip_hdr" where
  "ex_ip src dst prot = init_ip_hdr\<lparr>src_ip := src, dst_ip := dst, ip_proto := prot\<rparr>"

text \<open>A received TCP segment: the IP header lies in front of the data.\<close>

definition ex_seg_skb :: "tcp_hdr \<Rightarrow> u8 list \<Rightarrow> skb" where
  "ex_seg_skb h bytes = \<lparr>buf = replicate 18 0 @ enc_ip (ex_ip ip_A ip_B IP_PROTO_TCP) @ enc_tcp h @ bytes @ replicate 40 0,
     data_off = 38, tail_off = 58 + length bytes, skb_len = 20 + length bytes, skb_intf = Some 5,
     ethernet_hdr_off = Some 4, ip_hdr_off = Some 18, tcp_hdr_off = Some 38, udp_hdr_off = None\<rparr>"

definition ex_tcp :: "u16 \<Rightarrow> u32 \<Rightarrow> u8 \<Rightarrow> tcp_hdr" where
  "ex_tcp port sq fl = \<lparr>tcp_src_port = HTONS port, tcp_dst_port = HTONS 80, tcp_seq = HTONL sq, tcp_ack = 0,
     tcp_rsrv1 = 0, tcp_hlen = 5, tcp_flags = fl, tcp_wnd_sz = HTONS 500, tcp_cksum = 0, tcp_urgp = 0\<rparr>"

section \<open>The state\<close>

definition ex_world :: world where
  "ex_world = \<lparr>w_nodes = [19 \<mapsto> node_A, 2 \<mapsto> node_B], w_intfs = [4 \<mapsto> intf_A, 5 \<mapsto> intf_B, 6 \<mapsto> intf_T],
     w_links = [3 \<mapsto> \<lparr>intf1 = 4, intf2 = 5, cost = 1\<rparr>],
     w_skbs = [11 \<mapsto> ex_skb (Some 5) [1, 2, 3], 12 \<mapsto> ex_skb (Some 5) [9],
               13 \<mapsto> ex_skb (Some 6) (enc_ip (ex_ip ip_T ip_W 17) @ replicate 8 0), 14 \<mapsto> ex_skb (Some 5) [7, 8],
               15 \<mapsto> ex_seg_skb (ex_tcp 4000 100 flags_ack) [5, 6], 16 \<mapsto> ex_seg_skb (ex_tcp 4001 50 2) [],
               17 \<mapsto> ex_seg_skb (ex_tcp 4000 100 flags_ack_rst) [], 18 \<mapsto> ex_seg_skb (ex_tcp 4001 51 flags_ack) [],
               19 \<mapsto> ex_seg_skb (ex_tcp 4001 51 flags_ack) [3, 4]],
     w_udp_socks = [7 \<mapsto> sock_A, 8 \<mapsto> sock_B], w_tcp_socks = [9 \<mapsto> tcp_B], w_tcp_conns = [10 \<mapsto> conn_B],
     w_next = 20, w_graphs = [18 \<mapsto> \<lparr>graph_name = ''net'', graph_nodes = [2, 19]\<rparr>],
     udp_fd_to_sock = [Some 7, Some 8, None, None, None, None, None, None],
     tcp_fd_to_sock = [Some 9, None, None, None, None, None, None, None],
     fd_conn_to_sock = [Some 10, None, None, None, None, None, None, None],
     fd_to_comm_map = (replicate MAX_COMMS None)[3 := Some 4, 4 := Some 5, 5 := Some 6], next_udp_port = 40002,
     ip_forward_enable = True, send_callback = False, receive_callback = False, trace = []\<rparr>"

text \<open>An operating system that takes every frame, and where port 40002 is in use.\<close>

definition ex_os :: os where
  "ex_os = \<lparr>os_sendto = (\<lambda>_ _ _ bytes. int (length bytes)), os_write = (\<lambda>_ _ bytes. int (length bytes)),
     os_socket = (\<lambda>_. 6), os_bind = (\<lambda>_ _ port. port \<noteq> 40002), os_open = (\<lambda>_ _. 7), os_tunsetiff = (\<lambda>_ _ _. 0),
     os_pthread_create = (\<lambda>_. 0), os_epoll_create = (\<lambda>_. 3), os_epoll_ctl = (\<lambda>_ _ _. 0)\<rparr>"

lemmas ex_objects = node_A_def node_B_def ex_node_def ex_arp_def ex_waiting_def ex_route_def udp_link_comm_def
  intf_A_def intf_B_def intf_T_def sock_A_def sock_B_def tcp_B_def conn_B_def

section \<open>What holds in it\<close>

lemma ex_get [simp]:
  "get_node 19 ex_world = Inr node_A" "get_node 2 ex_world = Inr node_B"
  "get_intf 4 ex_world = Inr intf_A" "get_intf 5 ex_world = Inr intf_B" "get_intf 6 ex_world = Inr intf_T"
  "get_udp_sock 7 ex_world = Inr sock_A" "get_udp_sock 8 ex_world = Inr sock_B"
  "get_tcp_sock 9 ex_world = Inr tcp_B" "get_tcp_conn 10 ex_world = Inr conn_B"
  by (simp_all add: world_access ex_world_def)

lemma ex_up:
  "up ex_os 4 (Ev_sendto 3 40001) ex_world" "up ex_os 5 (Ev_sendto 4 40000) ex_world" "up ex_os 6 (Ev_write 5) ex_world"
  by (simp_all add: up_def wire_def accepting_def get_nbr_if_def world_access ex_world_def ex_os_def ex_objects)

lemma ex_local:
  "is_ip_local 19 ip_A ex_world = Inr True" "is_ip_local 2 ip_B ex_world = Inr True"
  "is_ip_local 19 ip_B ex_world = Inr False" "is_ip_local 2 ip_A ex_world = Inr False"
  "is_ip_local 2 ip_H ex_world = Inr False" "is_ip_local 2 ip_W ex_world = Inr False" "is_ip_local 19 ip_H ex_world = Inr False"
  by (simp_all add: is_ip_local_def find_node_intf_def ex_objects ex_addrs)

lemma ex_masks: "prefix_mask 24 = Inr 0xFFFFFF" "prefix_mask 0 = Inr 0"
  by (simp_all add: prefix_mask_def push_bit_eq_mult)

lemma ex_routes:
  "rt_lookup_lpm (rt_table node_A) ip_B = Inr (Some (ex_route 0x0000000A 24 0 4))"
  "rt_lookup_lpm (rt_table node_A) ip_A = Inr (Some (ex_route 0x0000000A 24 0 4))"
  "rt_lookup_lpm (rt_table node_A) ip_H = Inr (Some (ex_route 0 0 ip_B 4))"
  "rt_lookup_lpm (rt_table node_B) ip_A = Inr (Some (ex_route 0x0000000A 24 0 5))"
  "rt_lookup_lpm (rt_table node_B) ip_H = Inr (Some (ex_route 0x0001010A 24 0 6))"
  "rt_lookup_lpm (rt_table node_B) ip_W = Inr (Some (ex_route 0x0001010A 24 0 6))"
  by (simp_all add: rt_lookup_lpm_def IP_NET_EQ_def INT_IP_MASKED_def ex_masks ex_objects ex_addrs)

lemma ex_reaches:
  "reaches ex_os 19 ip_B 4 intf_A mac_B (Ev_sendto 3 40001) ex_world"
  "reaches ex_os 19 ip_H 4 intf_A mac_B (Ev_sendto 3 40001) ex_world"
  "reaches ex_os 2 ip_A 5 intf_B mac_A (Ev_sendto 4 40000) ex_world"
  "reaches ex_os 2 ip_H 6 intf_T mac_H (Ev_write 5) ex_world"
  unfolding reaches_def
  by (simp_all add: ex_up ex_local ex_routes) (simp_all add: arp_target_def ex_objects ex_addrs)

lemma ex_sockets:
  "udp_sock_of_fd 0 ex_world = Some 7" "udp_sock_of_fd 1 ex_world = Some 8" "udp_sock_of_fd 2 ex_world = None"
  "tcp_sock_of_fd 0 ex_world = Some 9" "tcp_conn_of_fd 0 ex_world = Some 10"
  "udp_socks_manager_find (udp_socks_manager intf_B) 6000 ex_world = Inr (Some 8)"
  "tcp_socks_manager_find (tcp_socks_manager intf_B) 80 ex_world = Inr (Some 9)"
  by (simp_all add: udp_sock_of_fd_def tcp_sock_of_fd_def tcp_conn_of_fd_def ex_objects MAX_UDP_SOCKS_def
      MAX_TCP_SOCKS_def MAX_TCP_CONN_SOCKS_def)
    (simp_all add: ex_world_def world_access ex_objects)

lemma ex_skb [simp]:
  "wf_skb (ex_skb i bytes) \<longleftrightarrow> length bytes + 106 < 2 ^ 64" "payload (ex_skb i bytes) = bytes"
  by (simp_all add: wf_skb_def ex_skb_def payload_def slice_def)

lemma ex_skb_room: "20 \<le> length bytes \<Longrightarrow> length bytes \<le> 2000 \<Longrightarrow> frame_room (ex_skb i bytes)"
  by (simp add: frame_room_def skb_tailroom_def ETH_HDR_SIZE_def) (simp add: ex_skb_def)

lemma ex_queues:
  "rx_ok (us_rx_skb sock_B) ex_world" "rx_data (us_rx_skb sock_B) ex_world = [[1, 2, 3], [9]]"
  "rx_ok (tc_rx_skb conn_B) ex_world" "rx_data (tc_rx_skb conn_B) ex_world = [[7, 8]]"
  by (simp_all add: rx_ok_def rx_data_def sock_B_def conn_B_def) (simp_all add: ex_world_def)

lemma ex_topo: "wf_topo ex_world"
  by (auto simp: wf_topo_def wf_shape_def slots_ok_def ports_ok_def links_ok_def below_def slots_map_def ports_map_def
      ends_map_def ex_world_def ex_objects port_of_def port_comm_def MAX_INTFS_PER_NODE_def nth_Cons
      split: if_splits nat.splits)

section \<open>Packets in it\<close>

lemma length_headers [simp]:
  "length (enc_ip h) = 20" "length (enc_tcp g) = 20" "length (enc_udp u) = 8"
  using ip.length_enc [of h] tcp.length_enc [of g] udp.length_enc [of u]
  by (simp_all add: IP_HDR_SIZE_def TCP_HDR_SIZE_def UDP_HDR_SIZE_def)

lemma ex_ip_fields [simp]:
  "src_ip (ex_ip src dst prot) = src" "dst_ip (ex_ip src dst prot) = dst" "ip_proto (ex_ip src dst prot) = prot"
  "ip_hlen (ex_ip src dst prot) = 5" "ip_ttl (ex_ip src dst prot) = 64"
  by (simp_all add: ex_ip_def init_ip_hdr_def)

lemma ex_tcp_fields [simp]:
  "tcp_flags (ex_tcp port sq fl) = fl" "tcp_src_port (ex_tcp port sq fl) = HTONS port"
  "tcp_dst_port (ex_tcp port sq fl) = HTONS 80" "tcp_seq (ex_tcp port sq fl) = HTONL sq"
  by (simp_all add: ex_tcp_def)

lemma ex_seg_skb:
  assumes "length bytes \<le> 2000"
  shows "wf_skb (ex_seg_skb h bytes)" "payload (ex_seg_skb h bytes) = enc_tcp h @ bytes"
    "rd_hdr IP_HDR_SIZE dec_ip 18 (ex_seg_skb h bytes) = Inr (ex_ip ip_A ip_B IP_PROTO_TCP)"
  using assms ip.dec_enc [of "ex_ip ip_A ip_B IP_PROTO_TCP"]
  by (simp_all add: wf_skb_def ex_seg_skb_def payload_def slice_def rd_hdr_def rd_bytes_def IP_HDR_SIZE_def)

lemma ex_has_tcp:
  assumes "w_skbs w p = Some (ex_seg_skb h bytes)" and "length bytes \<le> 2000"
  shows "has_tcp p 5 ip_A h bytes w"
  unfolding has_tcp_def
  by (rule exI [of _ "ex_seg_skb h bytes"], rule exI [of _ 18], rule exI [of _ "ex_ip ip_A ip_B IP_PROTO_TCP"])
    (use assms ex_seg_skb [OF assms(2), of h] in \<open>simp add: get_skb_def ex_seg_skb_def\<close>)

lemma ex_segments:
  "has_tcp 15 5 ip_A (ex_tcp 4000 100 flags_ack) [5, 6] ex_world" "has_tcp 16 5 ip_A (ex_tcp 4001 50 2) [] ex_world"
  "has_tcp 17 5 ip_A (ex_tcp 4000 100 flags_ack_rst) [] ex_world" "has_tcp 18 5 ip_A (ex_tcp 4001 51 flags_ack) [] ex_world"
  "has_tcp 19 5 ip_A (ex_tcp 4001 51 flags_ack) [3, 4] ex_world"
  by (rule ex_has_tcp, simp add: ex_world_def, simp)+

lemma ex_for_sock: "for_sock 5 (ex_tcp port sq fl) 9 tcp_B ex_world"
  unfolding for_sock_def by (simp add: ex_sockets)

lemma ex_find_conn:
  "find_matching_connection (ts_conns tcp_B) ip_A 4000 ex_world = Inr (Some 10)"
  "find_matching_connection (ts_conns tcp_B) ip_A 4001 ex_world = Inr None"
  by (simp_all add: tcp_B_def) (simp_all add: conn_B_def)

lemma ex_for_conn: "for_conn ip_A (ex_tcp 4000 sq fl) tcp_B 10 conn_B ex_world"
  by (simp add: for_conn_def ex_find_conn)

definition ex_eth :: "u16 \<Rightarrow> mac_addr \<Rightarrow> mac_addr \<Rightarrow> ethernet_hdr" where
  "ex_eth ty dst src = \<lparr>dst_mac = dst, src_mac = src, eth_type = HTONS ty\<rparr>"

lemma ex_eth:
  "valid_eth (ex_eth ty mac_B mac_A)" "valid_eth (ex_eth ty mac_T mac_H)" "eth_type (ex_eth ty dst src) = HTONS ty"
  "ethernet_input_qualify intf_B (ex_eth ty mac_B src)" "ethernet_input_qualify intf_T (ex_eth ty mac_T src)"
  by (simp_all add: ex_eth_def valid_eth_def ethernet_input_qualify_def ex_addrs intf_B_def intf_T_def)

lemma ex_config [simp]:
  "l3_open intf_A" "l3_open intf_B" "l3_open intf_T"
  "if_node intf_A = 19" "if_node intf_B = 2" "if_node intf_T = 2" "if_mac intf_B = mac_B" "if_mac intf_A = mac_A"
  "if_mac intf_T = mac_T" "if_ip intf_A = ip_A" "if_ip intf_B = ip_B"
  by (simp_all add: intf_A_def intf_B_def intf_T_def l3_open_def udp_link_comm_def)

lemma ex_mac_len [simp]: "length mac_A = 6" "length mac_B = 6" "length mac_T = 6" "length mac_H = 6"
  by (simp_all add: ex_addrs)

lemma ex_next [simp]: "w_next ex_world = 20" "trace ex_world = []" "ip_forward_enable ex_world"
  "\<not> send_callback ex_world" "\<not> receive_callback ex_world"
  by (simp_all add: ex_world_def)

lemma ex_fresh: "20 \<le> n \<Longrightarrow> w_skbs ex_world n = None"
  by (simp add: ex_world_def)

lemma ex_strings: "convert_ip_from_str_to_int ''10.0.0.2'' = ip_B" "convert_ip_from_str_to_int ''10.0.0.1'' = ip_A"
proof -
  have s: "convert_ip_from_int_to_str ip_B = ''10.0.0.2''" "convert_ip_from_int_to_str ip_A = ''10.0.0.1''"
    by (simp_all add: convert_ip_from_int_to_str_def ip_A_def ip_B_def show_dec.simps drop_bit_eq_div
        word_div_def char_of_def bit_numeral_rec bit_0)
  show "convert_ip_from_str_to_int ''10.0.0.2'' = ip_B" "convert_ip_from_str_to_int ''10.0.0.1'' = ip_A"
    using convert_ip_roundtrip [of ip_B] convert_ip_roundtrip [of ip_A] by (simp_all only: s)
qed

text \<open>The same topology with the TAP interface of B in front of the linked one.\<close>

definition ex_tap_first :: world where
  "ex_tap_first = put_node 2 (node_B\<lparr>node_intfs := [Some 6, Some 5, None, None]\<rparr>) ex_world"

lemma ex_tap_first_topo: "wf_topo ex_tap_first"
  by (auto simp: wf_topo_def wf_shape_def slots_ok_def ports_ok_def links_ok_def below_def slots_map_def ports_map_def
      ends_map_def ex_tap_first_def put_node_def ex_world_def ex_objects port_of_def port_comm_def
      MAX_INTFS_PER_NODE_def nth_Cons split: if_splits nat.splits)

end
