(* ===== verification/Example_System.thy ===== *)
theory Example_System
  imports System Example_Net
begin

text \<open>
  A running program: from the initial state the application creates a node with a configured TAP
  interface and a UDP socket, and starts the receive thread, which has just been told that the
  descriptor of the interface is readable.
\<close>

section \<open>The calls\<close>

definition lab_graph :: world where "lab_graph = snd (create_new_graph ''lab'' init_world)"
definition lab_node :: world where "lab_node = snd (projr (create_graph_node 1 ''a'' lab_graph))"
definition lab_tap :: world where "lab_tap = snd (projr (insert_tuntap_interface ex_os 2 ''t0'' lab_node))"
definition lab_net :: world where "lab_net = snd (projr (node_set_intf_ip_addr 2 ''t0'' ''10.0.0.1'' 24 lab_tap))"
definition lab :: world where "lab = snd (udp_socket 2 lab_net)"

lemma slots4: "replicate MAX_INTFS_PER_NODE None = [None, None, None, None]"
  by (simp add: MAX_INTFS_PER_NODE_def eval_nat_numeral)

lemmas lab_calls = create_new_graph_def init_world_def create_graph_node_def get_graph_def put_graph_def put_node_def Let_def
  insert_tuntap_interface_def init_interface_def get_intf_def put_intf_def get_node_def zero_node_def init_node_nw_prop_def
  get_node_intf_available_slot_def slots4 interface_assign_mac_address_def
  init_comm_def set_comm_def tuntap_init_comm_def tun_alloc_def emit_def ex_os_def init_intf_nw_prop_def set_fd_comm_def MAX_COMMS_def

lemma lab_node: "create_graph_node 1 ''a'' lab_graph = Inr (2, lab_node)"
  by (simp add: lab_node_def lab_graph_def lab_calls del: One_nat_def)

lemma lab_tap: "insert_tuntap_interface ex_os 2 ''t0'' lab_node = Inr (3, lab_tap)"
  by (simp add: lab_tap_def lab_node_def lab_graph_def lab_calls del: One_nat_def)

lemma lab_tap_facts: "w_nodes lab_tap 2 \<noteq> None" "fd_to_comm_map lab_tap ! 7 = Some 3"
  "\<exists>x nd. w_intfs lab_tap 3 = Some x \<and> if_name x = ''t0'' \<and> w_nodes lab_tap 2 = Some nd \<and> node_intfs nd = [Some 3, None, None, None]"
  by (simp_all add: lab_tap_def lab_node_def lab_graph_def lab_calls MAX_IF_NAME_SIZE_def strncpy_def cstr_def del: One_nat_def)

lemma lab_net: "node_set_intf_ip_addr 2 ''t0'' ''10.0.0.1'' 24 lab_tap = Inr (True, lab_net)"
    and lab_net_facts: "w_nodes lab_net 2 \<noteq> None" "fd_to_comm_map lab_net ! 7 = Some 3"
proof -
  from lab_tap_facts(3) obtain x nd where x: "w_intfs lab_tap 3 = Some x" "if_name x = ''t0''"
    and nd: "w_nodes lab_tap 2 = Some nd" "node_intfs nd = [Some 3, None, None, None]" by blast
  have "get_node_if_by_name 2 ''t0'' lab_tap = Inr (Some 3)"
    using x nd by (simp add: get_node_if_by_name_def find_node_intf_def get_node_def get_intf_def strncmp_eq_def)
  then have "\<exists>w. node_set_intf_ip_addr 2 ''t0'' ''10.0.0.1'' 24 lab_tap = Inr (True, w) \<and> w_nodes w 2 \<noteq> None \<and>
      fd_to_comm_map w = fd_to_comm_map lab_tap"
    using x nd ex_masks ex_strings
    by (simp add: node_set_intf_ip_addr_def get_node_def get_intf_def put_intf_def put_node_def INT_IP_MASKED_def ip_A_def Let_def)
  then show "node_set_intf_ip_addr 2 ''t0'' ''10.0.0.1'' 24 lab_tap = Inr (True, lab_net)" "w_nodes lab_net 2 \<noteq> None"
    "fd_to_comm_map lab_net ! 7 = Some 3"
    using lab_tap_facts(2) by (auto simp: lab_net_def)
qed

section \<open>The running system\<close>

text \<open>The world once the thread has been created and has registered the descriptor.\<close>

definition lab_online :: world where
  "lab_online = (let w = emit Ev_pthread_create lab in w\<lparr>trace := trace w @ epoll_events ex_os w\<rparr>)"

definition lab_running :: recv_sys where
  "lab_running = (with_thread (init_sys lab))\<lparr>sys_world := lab_online, epoll_fds := registered lab, sys_task := Handling [7]\<rparr>"

lemma lab_facts: "w_nodes lab 2 \<noteq> None" "fd_to_comm_map lab ! 7 = Some 3"
  using lab_net_facts by (simp_all add: lab_def udp_socket_def put_udp_sock_def Let_def split: option.split)

lemma ex_epoll: "recv_task_start ex_os w = Inr (registered w, w\<lparr>trace := trace w @ epoll_events ex_os w\<rparr>)"
  by (rule recv_task_start_ok) (simp_all add: ex_os_def)

lemma system_call:
  assumes "system os (init_sys w)" and "admissible r w" and "perform os r w = Inr w'"
  shows "system os (init_sys w')"
  using system.step [OF assms(1) system_step.call [where r = r and w = w']] assms(2,3) by (simp add: init_sys_def)

lemma lab_built: "system ex_os (init_sys lab)" and lab_tap_built: "system ex_os (init_sys lab_tap)"
proof -
  have graph: "w_graphs lab_graph 1 \<noteq> None"
    by (simp add: lab_graph_def create_new_graph_def put_graph_def init_world_def)
  have node: "w_nodes lab_node 2 \<noteq> None" by (simp add: lab_node_def lab_graph_def lab_calls del: One_nat_def)
  have p: "perform ex_os (Create_node 1 ''a'') lab_graph = Inr lab_node"
    "perform ex_os (Insert_tap 2 ''t0'') lab_node = Inr lab_tap"
    "perform ex_os (Set_intf_ip 2 ''t0'' ''10.0.0.1'' 24) lab_tap = Inr lab_net"
    "perform ex_os (Udp_socket 2) lab_net = Inr lab"
    by (simp_all only: perform.simps ignore_def lab_node lab_tap lab_net lab_def bindE_simps prod.case)
  have "system ex_os (init_sys lab_graph)"
    by (rule system_call [OF system.start, where r = "Create_graph ''lab''"]) (simp_all add: lab_graph_def)
  from system_call [OF this _ p(1)] graph have "system ex_os (init_sys lab_node)" by simp
  from system_call [OF this _ p(2)] node show tap: "system ex_os (init_sys lab_tap)" by simp
  from system_call [OF tap _ p(3)] lab_tap_facts(1) have "system ex_os (init_sys lab_net)" by simp
  from system_call [OF this _ p(4)] lab_net_facts(1) show "system ex_os (init_sys lab)" by simp
qed

lemma lab_running: "system ex_os lab_running"
proof -
  let ?s1 = "with_thread (init_sys lab)"
  let ?w1 = "sys_world ?s1"
  let ?s2 = "?s1\<lparr>sys_world := ?w1\<lparr>trace := trace ?w1 @ epoll_events ex_os ?w1\<rparr>, epoll_fds := registered ?w1, sys_task := Polling\<rparr>"
  have r': "registered (emit Ev_pthread_create lab) = registered lab" by (simp add: registered_def emit_def)
  then have r: "registered ?w1 = registered lab" by (simp add: sys_ops)
  have "thread_step ex_os (init_sys lab) ?s1" by (rule thread_step.start) (simp_all add: sys_ops ex_os_def)
  from system.step [OF lab_built system_step.thread [OF this]] have s1: "system ex_os ?s1" .
  have "thread_step ex_os ?s1 ?s2" by (rule thread_step.register) (simp_all add: with_thread_def ex_epoll)
  from system.step [OF s1 system_step.thread [OF this]] have s2: "system ex_os ?s2" .
  have "thread_step ex_os ?s2 (?s2\<lparr>sys_task := Handling [7]\<rparr>)"
    by (rule thread_step.wait) (simp_all add: r, simp_all add: sys_ops MAX_EVENTS_def set_registered lab_facts(2) MAX_COMMS_def)
  from system.step [OF s2 system_step.thread [OF this]] show ?thesis
    by (simp add: sys_ops lab_running_def lab_online_def r' Let_def)
qed

section \<open>Its end\<close>

text \<open>Before a socket is opened the graph can be destroyed, which leaves nothing of it.\<close>

lemma lab_tap_graph:
  "w_graphs lab_tap 1 = Some \<lparr>graph_name = strncpy ''lab'' MAX_TOPO_NAME_SIZE, graph_nodes = [2]\<rparr>"
  by (simp add: lab_tap_def lab_node_def lab_graph_def lab_calls del: One_nat_def)

lemma lab_tap_idle: "stdin_free lab_tap" "idle_nodes {2} lab_tap"
proof -
  have f: "dom (w_nodes lab_tap) = {2}" "dom (w_intfs lab_tap) = {3}"
    "w_udp_socks lab_tap u = None" "w_tcp_socks lab_tap u = None" "fd_to_comm_map lab_tap ! 0 = None"
    "\<exists>x. w_intfs lab_tap 3 = Some x \<and> if_link x = None \<and> udp_socks_manager x = [] \<and> tcp_socks_manager x = []" for u
    by (simp_all add: lab_tap_def lab_node_def lab_graph_def lab_calls init_tcp_socks_manager_def init_udp_socks_manager_def
        del: One_nat_def)
  show "stdin_free lab_tap" using f(5) by (simp add: stdin_free_def)
  from lab_tap_facts(3) have "slots_map lab_tap 2 = Some [Some 3, None, None, None]" by (auto simp: slots_map_def)
  with f(6) have tl: "\<forall>sl. slots_map lab_tap 2 = Some sl \<longrightarrow> taps_last (ports_map lab_tap) sl"
    by (auto simp: linked_slot_def ports_map_def port_of_def)
  have other: "w_nodes lab_tap n = None" if "n \<noteq> 2" for n using f(1) that by auto
  have "idle_intf {2} i lab_tap" if "w_intfs lab_tap i = Some x" for i x
  proof -
    have "i = 3" using f(2) that by auto
    with f(6) show ?thesis by (auto simp: idle_intf_def other queue.simps)
  qed
  with tl show "idle_nodes {2} lab_tap" using f(3,4) by (simp add: idle_nodes_def)
qed

lemma lab_destroyed:
  "\<exists>w. perform ex_os (Destroy_graph 1) lab_tap = Inr w \<and> system ex_os (init_sys w) \<and> w_graphs w 1 = None \<and> w_nodes w 2 = None"
proof -
  have wf: "wf_world lab_tap" using system_wf [OF lab_tap_built] by (simp add: init_sys_def)
  from destroy_graph_safe [OF wf lab_tap_graph] lab_tap_idle obtain w where w: "destroy_graph 1 lab_tap = Inr w"
    "w_graphs w 1 = None" "w_nodes w 2 = None" by (auto simp: runs_no_fault)
  then have p: "perform ex_os (Destroy_graph 1) lab_tap = Inr w" by simp
  have "admissible (Destroy_graph 1) lab_tap" using lab_tap_idle lab_tap_graph by simp
  from system_call [OF lab_tap_built this p] w(2,3) p show ?thesis by blast
qed

end
