(* ===== verification/Own_Traffic.thy ===== *)
theory Own_Traffic
  imports Tcp_Session Exchange
begin

text \<open>
  Packets a node sends to itself.  They are delivered without the IP header pointer that the
  Ethernet layer sets, so the handlers that read the sender through it dereference null: a TCP
  segment for an open port, which a stranger can provoke, and the datagram a socket reads together
  with its sender.
\<close>

section \<open>Local delivery\<close>

lemma pull_ip:
  assumes t: "wf_skb t" "payload t = enc_ip ih @ rest"
  shows "rd_hdr IP_HDR_SIZE dec_ip (data_off t) t = Inr ih"
    "\<exists>u. skb_pull IP_HDR_SIZE t = Inr u \<and> wf_skb u \<and> payload u = rest \<and> skb_intf u = skb_intf t \<and>
       ip_hdr_off u = ip_hdr_off t \<and> buf u = buf t"
proof -
  note rd = ip.rd_front [OF t]
  show "rd_hdr IP_HDR_SIZE dec_ip (data_off t) t = Inr ih" using rd(1) by simp
  let ?u = "t\<lparr>data_off := data_off t + 20, skb_len := skb_len t - 20\<rparr>"
  have pull: "skb_pull IP_HDR_SIZE t = Inr ?u"
    using skb_pull_ok [of IP_HDR_SIZE t] t(1) rd(2) by (simp add: IP_HDR_SIZE_def)
  have "wf_skb ?u" "payload ?u = rest"
    using wf_skb_pull [OF t(1) pull] payload_pull [OF t(1) pull] t(2) ip.length_enc [of ih] by simp_all
  with pull show "\<exists>u. skb_pull IP_HDR_SIZE t = Inr u \<and> wf_skb u \<and> payload u = rest \<and> skb_intf u = skb_intf t \<and>
      ip_hdr_off u = ip_hdr_off t \<and> buf u = buf t" by simp
qed

lemma ip_input_tcp:
  assumes p: "get_skb p w = Inr t" and t: "wf_skb t" "payload t = enc_ip ih @ rest" and pr: "ip_proto ih = IP_PROTO_TCP"
  shows "\<exists>u. wf_skb u \<and> payload u = rest \<and> skb_intf u = skb_intf t \<and> ip_hdr_off u = ip_hdr_off t \<and> buf u = buf t \<and>
    ip_input (Suc k) os p w = tcp_input os (ip_input k os) p (put_skb p u w)"
proof -
  from pull_ip [OF t] obtain u where u: "skb_pull IP_HDR_SIZE t = Inr u" "wf_skb u" "payload u = rest"
    "skb_intf u = skb_intf t" "ip_hdr_off u = ip_hdr_off t" "buf u = buf t" by blast
  let ?v = "u\<lparr>tcp_hdr_off := Some (data_off u)\<rparr>"
  have "wf_skb ?v" "payload ?v = rest" using u(2,3) by (auto simp: wf_skb_def payload_def)
  moreover have "ip_input (Suc k) os p w = tcp_input os (ip_input k os) p (put_skb p ?v w)"
    using p pull_ip(1) [OF t] pr u(1) by (simp add: on_skb_def IP_PROTO_ICMP_def IP_PROTO_TCP_def)
  ultimately show ?thesis using u(4-6) by (intro exI [of _ ?v]) simp
qed

lemma ip_input_udp_own:
  assumes p: "get_skb p w = Inr t" and t: "wf_skb t" "payload t = enc_ip ih @ rest" and pr: "ip_proto ih = IP_PROTO_UDP"
  shows "\<exists>u. wf_skb u \<and> payload u = rest \<and> skb_intf u = skb_intf t \<and> ip_hdr_off u = ip_hdr_off t \<and>
    ip_input (Suc k) os p w = udp_input p (put_skb p u w)"
proof -
  from pull_ip [OF t] obtain u where u: "skb_pull IP_HDR_SIZE t = Inr u" "wf_skb u" "payload u = rest"
    "skb_intf u = skb_intf t" "ip_hdr_off u = ip_hdr_off t" by blast
  let ?v = "u\<lparr>udp_hdr_off := Some (data_off u)\<rparr>"
  have "wf_skb ?v" "payload ?v = rest" using u(2,3) by (auto simp: wf_skb_def payload_def)
  moreover have "ip_input (Suc k) os p w = udp_input p (put_skb p ?v w)"
    using p pull_ip(1) [OF t] pr u(1) by (simp add: on_skb_def IP_PROTO_UDP_def IP_PROTO_ICMP_def IP_PROTO_TCP_def)
  ultimately show ?thesis using u(4,5) by (intro exI [of _ ?v]) simp
qed

section \<open>TCP\<close>

text \<open>A segment for an address of the node that sends it, and a port it has a socket on.\<close>

lemma tcp_out_self:
  assumes cn: "get_tcp_conn c w = Inr cn" and sk: "get_tcp_sock (tc_parent cn) w = Inr sk"
    and win: "\<not> outside_window cn (length data)" and n: "length data \<le> MAX_TCP_PAYLOAD"
    and i: "ts_intf sk = Some i" "get_intf i w = Inr x" and nd: "get_node (if_node x) w = Inr nd"
    and rt: "rt_lookup_lpm (rt_table nd) (tc_remote_ip cn) = Inr (Some rt)" "rt_intf rt = i"
    and loc: "is_ip_local (if_node x) (tc_remote_ip cn) w = Inr True"
    and t: "tcp_socks_manager_find (tcp_socks_manager x) (tc_remote_port cn) w = Inr (Some t)" "get_tcp_sock t w = Inr st"
  shows "tcp_out os (ip_input (Suc k) os) c data fl w = Inl Null_deref"
proof -
  define w1 where "w1 = put_tcp_conn c (tcp_advance cn (length data) fl) w"
  let ?p = "w_next w" and ?d = "ip_input (Suc k) os"
  from tcp_out_in_window [OF cn sk win n i w1_def, of os ?d] obtain s where
    s: "wf_skb s" "data_off s = 60" "skb_intf s = Some i" "ip_hdr_off s = None" "payload s = tcp_segment sk cn data fl"
    and out: "tcp_out os ?d c data fl w =
      ip_output os ?d (if_node x) (tc_remote_ip cn) IP_PROTO_TCP ?p (snd (new_skb s w1))" by blast
  let ?w2 = "snd (new_skb s w1)"
  have f2: "w_intfs ?w2 = w_intfs w" "w_nodes ?w2 = w_nodes w" "w_tcp_socks ?w2 = w_tcp_socks w"
    by (simp_all add: w1_def new_skb_def put_skb_def put_tcp_conn_def)
  have g: "get_skb ?p ?w2 = Inr s" "get_node (if_node x) ?w2 = Inr nd" "get_intf (rt_intf rt) ?w2 = Inr x"
    "is_ip_local (if_node x) (tc_remote_ip cn) ?w2 = Inr True"
    using nd i(2) rt(2) loc is_ip_local_cong [OF f2(1,2)] f2
    by (simp_all add: w1_def new_skb_def put_skb_def put_tcp_conn_def get_skb_def get_node_def get_intf_def)
  have a: "IP_HDR_SIZE \<le> data_off s" "skb_intf s = None \<or> skb_intf s = Some (rt_intf rt)"
    using s rt(2) by (simp_all add: IP_HDR_SIZE_def)
  let ?h = "ip_out_hdr (if_ip x) (tc_remote_ip cn) IP_PROTO_TCP (skb_len s + IP_HDR_SIZE)"
  from ip_output_routed [OF g(1) s(1) a(1) g(2) rt(1) a(2) g(3,4), of IP_PROTO_TCP os ?d] s(4) obtain v where
    v: "ip_hdr_off v = None" "has_ip ?p (Some (rt_intf rt)) ?h (payload s) v (put_skb ?p v ?w2)"
      "ip_output os ?d (if_node x) (tc_remote_ip cn) IP_PROTO_TCP ?p ?w2 = ?d ?p (put_skb ?p v ?w2)" by auto
  let ?w3 = "put_skb ?p v ?w2"
  have v': "get_skb ?p ?w3 = Inr v" "wf_skb v" "payload v = enc_ip ?h @ payload s" "skb_intf v = Some i"
    using v(2) rt(2) by (simp_all add: has_ip_def)
  from ip_input_tcp [OF v'(1-3), of k os] obtain u where u: "wf_skb u" "payload u = tcp_segment sk cn data fl"
    "skb_intf u = Some i" "ip_hdr_off u = None" "?d ?p ?w3 = tcp_input os (ip_input k os) ?p (put_skb ?p u ?w3)"
    using v'(4) v(1) s(5) by auto
  let ?w4 = "put_skb ?p u ?w3"
  have f4: "w_intfs ?w4 = w_intfs w" "w_tcp_socks ?w4 = w_tcp_socks w" using f2 by (simp_all add: put_skb_def)
  have "rd_hdr TCP_HDR_SIZE dec_tcp (data_off u) u =
      Inr (tcp_sealed (ts_local_ip sk) (tc_remote_ip cn) (tcp_out_hdr sk cn fl) data)"
    using tcp.rd_front(1) [OF u(1)] u(2) by (simp add: tcp_segment_def)
  moreover have "NTOHS (tcp_dst_port (tcp_sealed (ts_local_ip sk) (tc_remote_ip cn) (tcp_out_hdr sk cn fl) data)) =
      tc_remote_port cn" by (simp add: tcp_sealed_def tcp_out_hdr_def)
  moreover have "tcp_socks_manager_find us port ?w4 = tcp_socks_manager_find us port w" for us port
    by (induction us) (simp_all add: get_tcp_sock_def f4 cong: if_cong)
  ultimately have "tcp_input os (ip_input k os) ?p ?w4 = Inl Null_deref"
    using u(3,4) i(2) t f4 by (simp add: tcp_input_def get_tcp_sock_def get_intf_def)
  then show ?thesis using out v(3) u(5) by simp
qed

text \<open>A SYN that claims to come from the address and port it goes to: the answer is such a segment.\<close>

lemma tcp_input_land:
  assumes s: "has_tcp p i src h data w" and t: "for_sock i h t sk w" "ts_listening sk" "ts_intf sk = Some i"
    and new: "find_matching_connection (ts_conns sk) src (NTOHS (tcp_src_port h)) w = Inr None"
    and syn: "fl_syn (tcp_flags h)" "\<not> fl_ack (tcp_flags h)"
    and own: "is_ip_local (if_node x) src w = Inr True" "tcp_src_port h = tcp_dst_port h"
    and x: "get_intf i w = Inr x" and nd: "get_node (if_node x) w = Inr nd"
    and rt: "rt_lookup_lpm (rt_table nd) src = Inr (Some rt)" "rt_intf rt = i"
  shows "tcp_input os (ip_input (Suc k) os) p w = Inl Null_deref"
proof -
  from s obtain u off iph where u: "get_skb p w = Inr u" "wf_skb u" "skb_intf u = Some i" "payload u = enc_tcp h @ data"
    "ip_hdr_off u = Some off" "rd_hdr IP_HDR_SIZE dec_ip off u = Inr iph" "src_ip iph = src" by (auto simp: has_tcp_def)
  note rd = tcp.rd_front(1) [OF u(2,4)]
  have sk: "get_tcp_sock t w = Inr sk"
    and find: "tcp_socks_manager_find (tcp_socks_manager x) (NTOHS (tcp_dst_port h)) w = Inr (Some t)"
    using t(1) x by (auto simp: for_sock_def)
  let ?c = "w_next w" and ?cn = "new_conn t src h" and ?sk = "sk\<lparr>ts_conns := w_next w # ts_conns sk\<rparr>"
  let ?w1 = "put_tcp_sock t ?sk ((put_tcp_conn ?c ?cn w)\<lparr>w_next := Suc ?c\<rparr>)"
  have find1: "tcp_socks_manager_find us port ?w1 = tcp_socks_manager_find us port w" for us port
    by (rule find_sock_same_port [where sk' = ?sk, OF _ sk]) (simp_all add: put_tcp_sock_def put_tcp_conn_def)
  have "tcp_out os (ip_input (Suc k) os) ?c [] flags_syn_ack ?w1 = Inl Null_deref"
  proof (rule tcp_out_self [where cn = ?cn and sk = ?sk and i = i and x = x and nd = nd and rt = rt and t = t and st = ?sk])
    show "is_ip_local (if_node x) (tc_remote_ip ?cn) ?w1 = Inr True"
      using own(1) is_ip_local_cong [of ?w1 w] by (simp add: new_conn_def put_tcp_sock_def put_tcp_conn_def)
    show "tcp_socks_manager_find (tcp_socks_manager x) (tc_remote_port ?cn) ?w1 = Inr (Some t)"
      unfolding find1 using find own(2) by (simp add: new_conn_def)
  qed (use t(3) x nd rt in \<open>simp_all add: new_conn_def outside_window_def get_tcp_conn_def get_tcp_sock_def get_intf_def
      get_node_def put_tcp_sock_def put_tcp_conn_def\<close>)
  then have "handle_new_connection os (ip_input (Suc k) os) t p w = Inl Null_deref"
    using rd u sk by (simp add: handle_new_connection_def new_conn_def get_tcp_sock_def Let_def)
  then show ?thesis using rd u sk x find new syn t(2) by (simp add: tcp_input_def)
qed

text \<open>
  C34: A stranger can stop the program: a SYN to an open port whose source is the address and the
  port it goes to, where the node routes that address through the interface of the socket, makes
  the stack follow the null IP header pointer of its own answer.
\<close>

lemma land_attack:
  assumes eh: "valid_eth eh" "eth_type eh = HTONS ETH_PROTO_IP" and len: "length rest \<le> 1900"
    and x: "get_intf i w = Inr x" "l3_open x" "ethernet_input_qualify x eh"
    and loc: "is_ip_local (if_node x) (dst_ip ih) w = Inr True" and pr: "ip_proto ih = IP_PROTO_TCP"
    and t: "for_sock i h t sk w" "ts_listening sk" "ts_intf sk = Some i"
    and new: "find_matching_connection (ts_conns sk) (src_ip ih) (NTOHS (tcp_src_port h)) w = Inr None"
    and syn: "fl_syn (tcp_flags h)" "\<not> fl_ack (tcp_flags h)"
    and own: "is_ip_local (if_node x) (src_ip ih) w = Inr True" "tcp_src_port h = tcp_dst_port h"
    and nd: "get_node (if_node x) w = Inr nd" "rt_lookup_lpm (rt_table nd) (src_ip ih) = Inr (Some rt)" "rt_intf rt = i"
    and frame: "frame = enc_eth eh @ enc_ip ih @ enc_tcp h @ rest"
  shows "recv_frame (Suc (Suc k)) os i (Some frame) w = Inl Null_deref"
proof -
  let ?p = "w_next w"
  have len': "length (enc_tcp h @ rest) \<le> 2000" using len tcp.length_enc [of h] by (simp add: TCP_HDR_SIZE_def)
  from recv_ip [OF eh len' x frame, of "Suc (Suc k)" os] obtain s where s: "rx_skb i (enc_ip ih @ enc_tcp h @ rest) s"
    "data_off s = 18" "ip_hdr_off s = Some 18" "recv_frame (Suc (Suc k)) os i (Some frame) w =
      bindE (ip_preroute (Suc (Suc k)) os ?p (called_back i frame (snd (new_skb s w)))) (\<lambda>(ok, w1).
        if \<not> ok then free_skb ?p w1 else Inr w1)" by blast
  let ?w1 = "called_back i frame (snd (new_skb s w))"
  have w1: "get_skb ?p ?w1 = Inr s" "get_intf i ?w1 = Inr x" "is_ip_local (if_node x) (dst_ip ih) ?w1 = Inr True"
    using x(1) loc is_ip_local_cong [of ?w1 w] by (simp_all add: called_back_def world_access)
  have s': "wf_skb s" "payload s = enc_ip ih @ enc_tcp h @ rest" "skb_intf s = Some i" using s(1) by (simp_all add: rx_skb_def)
  from ip_input_tcp [OF w1(1) s'(1,2) pr, of "Suc k" os] obtain u where u: "wf_skb u" "payload u = enc_tcp h @ rest"
    "skb_intf u = Some i" "ip_hdr_off u = Some 18" "buf u = buf s"
    "ip_input (Suc (Suc k)) os ?p ?w1 = tcp_input os (ip_input (Suc k) os) ?p (put_skb ?p u ?w1)"
    using s'(3) s(3) by auto
  let ?w2 = "put_skb ?p u ?w1"
  have f: "w_tcp_socks ?w2 = w_tcp_socks w" "w_tcp_conns ?w2 = w_tcp_conns w" "w_intfs ?w2 = w_intfs w" "w_nodes ?w2 = w_nodes w"
    by (simp_all add: called_back_def world_access)
  have "rd_hdr IP_HDR_SIZE dec_ip 18 u = Inr ih" using ip.rd_front(1) [OF s'(1,2)] s(2) by (simp add: rd_hdr_buf [OF u(5)])
  then have has: "has_tcp ?p i (src_ip ih) h rest ?w2" using u(1-4) by (auto simp: has_tcp_def)
  have "tcp_input os (ip_input (Suc k) os) ?p ?w2 = Inl Null_deref"
  proof (rule tcp_input_land [OF has _ t(2,3) _ syn _ own(2)])
    have "tcp_socks_manager_find us port ?w2 = tcp_socks_manager_find us port w" for us port
      by (induction us) (simp_all add: get_tcp_sock_def f cong: if_cong)
    then show "for_sock i h t sk ?w2" using t(1) by (simp add: for_sock_def get_intf_def get_tcp_sock_def f)
    have "find_matching_connection cs a port ?w2 = find_matching_connection cs a port w" for cs a port
      by (induction cs) (simp_all add: get_tcp_conn_def f cong: if_cong)
    then show "find_matching_connection (ts_conns sk) (src_ip ih) (NTOHS (tcp_src_port h)) ?w2 = Inr None" using new by simp
    show "is_ip_local (if_node x) (src_ip ih) ?w2 = Inr True" using own(1) is_ip_local_cong [OF f(3,4)] by simp
  qed (use x(1) nd in \<open>simp_all add: get_intf_def get_node_def f\<close>)
  then show ?thesis using s(4) u(6) ip_preroute_eq [OF w1(1) s(1) w1(2,3), of "Suc (Suc k)" os] by simp
qed

section \<open>UDP\<close>

text \<open>A datagram a socket sends to its own node is queued; reading it with its sender dereferences null.\<close>

lemma udp_input_queues:
  assumes r: "get_skb p w = Inr r" "wf_skb r" "payload r = enc_udp h @ d" "skb_intf r = Some i" "ip_hdr_off r = None"
    and x: "get_intf i w = Inr x" and v: "udp_socks_manager_find (udp_socks_manager x) (NTOHS (udp_dst_port h)) w = Inr (Some v)"
      "get_udp_sock v w = Inr sv" "us_rx_skb sv = []"
  shows "\<exists>q. wf_skb q \<and> ip_hdr_off q = None \<and>
    udp_input p w = Inr (True, put_udp_sock v (sv\<lparr>us_rx_skb := [p]\<rparr>) (put_skb p q w))"
proof -
  note rd = udp.rd_front [OF r(2,3)]
  let ?r = "r\<lparr>udp_hdr_off := Some (data_off r)\<rparr>"
  have wf': "wf_skb ?r" using r(2) by (simp add: wf_skb_def)
  have "UDP_HDR_SIZE \<le> skb_len ?r" using rd(2) by simp
  from skb_pull_ok [OF this wf'] obtain q where q: "skb_pull UDP_HDR_SIZE ?r = Inr q" "ip_hdr_off q = None"
    using r(5) by auto
  have "get_udp_sock v (put_skb p q w) = Inr sv" using v(2) by (simp add: get_udp_sock_def put_skb_def)
  then have "udp_input p w = Inr (True, put_udp_sock v (sv\<lparr>us_rx_skb := [p]\<rparr>) (put_skb p q w))"
    using r(1,4) x rd(1) v q(1) by (simp add: udp_input_def Let_def)
  then show ?thesis using wf_skb_pull [OF wf' q(1)] q(2) by blast
qed

text \<open>\<^verbatim>\<open>udp_recvfrom\<close> reads the sender out of an IP header the queued buffer does not have.\<close>

lemma udp_recvfrom_headerless:
  assumes v: "udp_sock_of_fd fd w = Some v" "get_udp_sock v w = Inr sv" "us_bound sv" "us_rx_skb sv \<noteq> []" "last (us_rx_skb sv) = p"
    and q: "get_skb p w = Inr q" "wf_skb q" "ip_hdr_off q = None"
  shows "udp_recvfrom fd n True want_port w = Inl Null_deref"
proof -
  have "rd_bytes (data_off q) (min (skb_len q) n) q = Inr (take n (payload q))"
    using q(2) by (auto simp: rd_bytes_def wf_skb_def payload_def slice_def min_def)
  moreover obtain q' where "skb_pull (min (skb_len q) n) q = Inr q'" "ip_hdr_off q' = None"
    using skb_pull_ok [of "min (skb_len q) n" q] q(2,3) by auto
  ultimately show ?thesis using v q(1) by (simp add: udp_recvfrom_def Let_def)
qed

text \<open>
  C35: A datagram a socket sends to an address and port of its own node is reported as sent and
  queued without touching the wire, and reading it together with the address of its sender follows
  a null pointer.
\<close>

lemma udp_self:
  assumes fd: "udp_sock_of_fd fd w = Some u" and sk: "get_udp_sock u w = Inr sk" "us_bound sk" "us_intf sk = Some i"
    and x: "get_intf i w = Inr x" and nd: "get_node (if_node x) w = Inr nd"
    and rt: "rt_lookup_lpm (rt_table nd) dst = Inr (Some rt)" "rt_intf rt = i"
    and loc: "is_ip_local (if_node x) dst w = Inr True"
    and v: "udp_socks_manager_find (udp_socks_manager x) port w = Inr (Some v)" "get_udp_sock v w = Inr sv" "us_rx_skb sv = []"
    and fd': "udp_sock_of_fd fd' w = Some v" "us_bound sv"
  shows "\<exists>w1. udp_sendto os (ip_input (Suc k) os) fd buff dst port w = Inr (int (min (length buff) MAX_UDP_PAYLOAD), w1) \<and>
    trace w1 = trace w \<and> udp_recvfrom fd' n True want_port w1 = Inl Null_deref"
proof -
  let ?data = "take (min (length buff) MAX_UDP_PAYLOAD) buff" and ?p = "w_next w" and ?d = "ip_input (Suc k) os"
  have "length ?data \<le> MAX_UDP_PAYLOAD" by simp
  from udp_skb_ok [OF this, of sk port] obtain s where s: "udp_skb sk ?data port = Inr s" "wf_skb s" "data_off s = 60"
    "skb_intf s = Some i" "ip_hdr_off s = None" "payload s = enc_udp (udp_out_hdr sk port (length ?data)) @ ?data"
    using sk(3) by auto
  let ?w1 = "snd (new_skb s w)"
  have g: "get_skb ?p ?w1 = Inr s" "get_node (if_node x) ?w1 = Inr nd" "get_intf (rt_intf rt) ?w1 = Inr x"
    "is_ip_local (if_node x) dst ?w1 = Inr True"
    using nd x rt(2) loc is_ip_local_cong [of ?w1 w] by (simp_all add: world_access)
  have a: "IP_HDR_SIZE \<le> data_off s" "skb_intf s = None \<or> skb_intf s = Some (rt_intf rt)"
    using s rt(2) by (simp_all add: IP_HDR_SIZE_def)
  let ?h = "ip_out_hdr (if_ip x) dst IP_PROTO_UDP (skb_len s + IP_HDR_SIZE)"
  from ip_output_routed [OF g(1) s(2) a(1) g(2) rt(1) a(2) g(3,4), of IP_PROTO_UDP os ?d] s(5) obtain t where
    t: "ip_hdr_off t = None" "has_ip ?p (Some (rt_intf rt)) ?h (payload s) t (put_skb ?p t ?w1)"
      "ip_output os ?d (if_node x) dst IP_PROTO_UDP ?p ?w1 = ?d ?p (put_skb ?p t ?w1)" by auto
  let ?w2 = "put_skb ?p t ?w1"
  have t': "get_skb ?p ?w2 = Inr t" "wf_skb t" "payload t = enc_ip ?h @ payload s" "skb_intf t = Some i"
    using t(2) rt(2) by (simp_all add: has_ip_def)
  from ip_input_udp_own [OF t'(1-3), of k os] obtain r where r: "wf_skb r" "payload r = payload s" "skb_intf r = Some i"
    "ip_hdr_off r = None" "?d ?p ?w2 = udp_input ?p (put_skb ?p r ?w2)" using t'(4) t(1) by auto
  define w3 where "w3 = put_skb ?p r ?w2"
  have f3: "get_skb ?p w3 = Inr r" "get_intf i w3 = Inr x" "w_udp_socks w3 = w_udp_socks w" "trace w3 = trace w"
    "udp_fd_to_sock w3 = udp_fd_to_sock w"
    using x by (simp_all add: w3_def world_access)
  have find: "udp_socks_manager_find (udp_socks_manager x) (NTOHS (udp_dst_port (udp_out_hdr sk port (length ?data)))) w3 = Inr (Some v)"
    "get_udp_sock v w3 = Inr sv"
    using v(1,2) by (simp_all add: udp_out_hdr_def udp_find_cong [OF f3(3)] get_udp_sock_def f3(3))
  from udp_input_queues [OF f3(1) r(1) r(2) [unfolded s(6)] r(3,4) f3(2) find v(3)] obtain q where
    q: "wf_skb q" "ip_hdr_off q = None" "udp_input ?p w3 = Inr (True, put_udp_sock v (sv\<lparr>us_rx_skb := [?p]\<rparr>) (put_skb ?p q w3))"
    by auto
  let ?w4 = "put_udp_sock v (sv\<lparr>us_rx_skb := [?p]\<rparr>) (put_skb ?p q w3)"
  have out: "udp_out os ?d u ?data dst port w = Inr (True, ?w4)"
    using sk s(1) x t(3) r(5) q(3) by (simp add: udp_out_def world_access w3_def)
  have w4: "udp_sock_of_fd fd' ?w4 = Some v" "get_udp_sock v ?w4 = Inr (sv\<lparr>us_rx_skb := [?p]\<rparr>)" "get_skb ?p ?w4 = Inr q"
    using fd'(1) by (simp_all add: udp_sock_of_fd_def put_udp_sock_def put_skb_def get_udp_sock_def get_skb_def f3 split: if_splits)
  have "udp_recvfrom fd' n True want_port ?w4 = Inl Null_deref"
    by (rule udp_recvfrom_headerless [OF w4(1,2) _ _ _ w4(3) q(1,2)]) (use fd'(2) in simp_all)
  moreover have "udp_sendto os ?d fd buff dst port w = Inr (int (min (length buff) MAX_UDP_PAYLOAD), ?w4)"
    using fd sk(1,2) out by (simp add: udp_sendto_def Let_def)
  moreover have "trace ?w4 = trace w" by (simp add: put_udp_sock_def put_skb_def f3)
  ultimately show ?thesis by blast
qed

end
