(* ===== verification/Header_Layout.thy ===== *)
theory Header_Layout
  imports Headers
begin

text \<open>
  The wire format of the packed headers of theory Headers.  A layout lists the fields of a header
  as the protocols define them: the offset and the width in bytes, and the value the code reads
  from the structure, in host order.  A field of several bytes is a big-endian number on the wire;
  two fields of four bits share a byte, the higher one first.
\<close>

section \<open>Layouts\<close>

fun be_val :: "u8 list \<Rightarrow> nat" where
  "be_val [] = 0"
| "be_val (b # bs) = unat b * 256 ^ length bs + be_val bs"

type_synonym 'h layout = "(nat \<times> nat \<times> ('h \<Rightarrow> nat)) list"

definition lies_at :: "'h \<Rightarrow> u8 list \<Rightarrow> nat \<times> nat \<times> ('h \<Rightarrow> nat) \<Rightarrow> bool" where
  "lies_at h b = (\<lambda>(off, n, field). field h = be_val (slice off n b))"

text \<open>
  A codec for a layout: its structures and the byte strings of its size are in bijection, every
  field lies where the layout says, and the fields of the layout fill the header from its first
  to its last byte.
\<close>

fun covers :: "nat \<Rightarrow> 'h layout \<Rightarrow> nat \<Rightarrow> bool" where
  "covers k [] n \<longleftrightarrow> k = n"
| "covers k ((off, m, field) # fs) n \<longleftrightarrow> off = k \<and> covers (k + m) fs n"

definition wire_format ::
    "nat \<Rightarrow> ('h \<Rightarrow> u8 list) \<Rightarrow> (u8 list \<Rightarrow> 'h) \<Rightarrow> ('h \<Rightarrow> bool) \<Rightarrow> 'h layout \<Rightarrow> bool" where
  "wire_format n enc dec valid fs \<longleftrightarrow>
    (\<forall>h. valid h \<longrightarrow> length (enc h) = n \<and> dec (enc h) = h \<and> list_all (lies_at h (enc h)) fs) \<and>
    (\<forall>b. length b = n \<longrightarrow> valid (dec b) \<and> enc (dec b) = b \<and> list_all (lies_at (dec b) b) fs) \<and>
    covers 0 fs n"

section \<open>The headers\<close>

definition eth_layout :: "ethernet_hdr layout" where
  "eth_layout =
    [(0, 6, \<lambda>h. be_val (dst_mac h)), (6, 6, \<lambda>h. be_val (src_mac h)), (12, 2, \<lambda>h. unat (NTOHS (eth_type h)))]"

definition arp_layout :: "arp_hdr layout" where
  "arp_layout =
    [(0, 2, \<lambda>h. unat (NTOHS (hw_type h))), (2, 2, \<lambda>h. unat (NTOHS (proto_type h))),
     (4, 1, \<lambda>h. unat (hw_addr_len h)), (5, 1, \<lambda>h. unat (proto_addr_len h)), (6, 2, \<lambda>h. unat (NTOHS (opcode h))),
     (8, 6, \<lambda>h. be_val (sender_hw_addr h)), (14, 4, \<lambda>h. unat (NTOHL (sender_proto_addr h))),
     (18, 6, \<lambda>h. be_val (target_hw_addr h)), (24, 4, \<lambda>h. unat (NTOHL (target_proto_addr h)))]"

definition ip_layout :: "ip_hdr layout" where
  "ip_layout =
    [(0, 1, \<lambda>h. unat (ip_ver h) * 16 + unat (ip_hlen h)), (1, 1, \<lambda>h. unat (ip_tos h)),
     (2, 2, \<lambda>h. unat (NTOHS (ip_total_len h))), (4, 2, \<lambda>h. unat (NTOHS (ip_id h))),
     (6, 2, \<lambda>h. unat (NTOHS (ip_frag_off h))), (8, 1, \<lambda>h. unat (ip_ttl h)), (9, 1, \<lambda>h. unat (ip_proto h)),
     (10, 2, \<lambda>h. unat (NTOHS (ip_hcksum h))), (12, 4, \<lambda>h. unat (NTOHL (src_ip h))),
     (16, 4, \<lambda>h. unat (NTOHL (dst_ip h)))]"

definition icmp_layout :: "icmp_hdr layout" where
  "icmp_layout =
    [(0, 1, \<lambda>h. unat (icmp_type h)), (1, 1, \<lambda>h. unat (icmp_code h)), (2, 2, \<lambda>h. unat (NTOHS (icmp_cksum h)))]"

definition udp_layout :: "udp_hdr layout" where
  "udp_layout =
    [(0, 2, \<lambda>h. unat (NTOHS (udp_src_port h))), (2, 2, \<lambda>h. unat (NTOHS (udp_dst_port h))),
     (4, 2, \<lambda>h. unat (NTOHS (udp_total_len h))), (6, 2, \<lambda>h. unat (NTOHS (udp_cksum h)))]"

definition tcp_layout :: "tcp_hdr layout" where
  "tcp_layout =
    [(0, 2, \<lambda>h. unat (NTOHS (tcp_src_port h))), (2, 2, \<lambda>h. unat (NTOHS (tcp_dst_port h))),
     (4, 4, \<lambda>h. unat (NTOHL (tcp_seq h))), (8, 4, \<lambda>h. unat (NTOHL (tcp_ack h))),
     (12, 1, \<lambda>h. unat (tcp_hlen h) * 16 + unat (tcp_rsrv1 h)), (13, 1, \<lambda>h. unat (tcp_flags h)),
     (14, 2, \<lambda>h. unat (NTOHS (tcp_wnd_sz h))), (16, 2, \<lambda>h. unat (NTOHS (tcp_cksum h))),
     (18, 2, \<lambda>h. unat (NTOHS (tcp_urgp h)))]"

definition pseudo_layout :: "pseudo_ip_hdr layout" where
  "pseudo_layout =
    [(0, 4, \<lambda>h. unat (NTOHL (ps_src_ip h))), (4, 4, \<lambda>h. unat (NTOHL (ps_dst_ip h))), (8, 1, \<lambda>h. unat (ps_rsrv h)),
     (9, 1, \<lambda>h. unat (ps_proto h)), (10, 2, \<lambda>h. unat (NTOHS (ps_len h)))]"

lemmas header_layouts = eth_layout_def arp_layout_def ip_layout_def icmp_layout_def udp_layout_def tcp_layout_def
  pseudo_layout_def

section \<open>Reading the fields\<close>

lemma unat_le32: "unat (le32 a b c d) = unat a + (unat b + (unat c + unat d * 256) * 256) * 256"
proof -
  have "le32 a b c d = ucast a + (push_bit 8 (ucast b) + (push_bit 16 (ucast c) + push_bit 24 (ucast d)))"
    unfolding le32_def
    by (subst plus_or_disj, force simp: bit_simps dest: bit_imp_le_length)+ simp
  then show ?thesis
    using unat_u8_less [of a] unat_u8_less [of b] unat_u8_less [of c] unat_u8_less [of d]
    by (simp add: unat_word_ariths push_bit_eq_mult unat_ucast_u8)
qed

lemma nibbles_value: "unat (ucast (drop_bit 4 b) :: u4) * 16 + unat (ucast b :: u4) = unat (b :: u8)"
proof -
  have "unat (ucast (drop_bit 4 b) :: u4) = unat b div 16" "unat (ucast b :: u4) = unat b mod 16"
    using unat_u8_less [of b]
    by (simp_all add: unsigned_ucast_eq unsigned_drop_bit_eq drop_bit_eq_div take_bit_eq_mod unat_div)
  then show ?thesis by simp
qed

lemma slice_Suc: "off < length b \<Longrightarrow> slice off (Suc n) b = b ! off # slice (Suc off) n b"
  by (simp add: slice_def Cons_nth_drop_Suc [symmetric])

lemma slice_0: "slice off 0 b = []"
  by (simp add: slice_def)

lemma be_slices:
  "off < length b \<Longrightarrow> be_val (slice off 1 b) = unat (b ! off)"
  "off + 1 < length b \<Longrightarrow> be_val (slice off 2 b) = unat (b ! off) * 256 + unat (b ! (off + 1))"
  "off + 3 < length b \<Longrightarrow> be_val (slice off 4 b) =
     unat (b ! (off + 3)) + (unat (b ! (off + 2)) + (unat (b ! (off + 1)) + unat (b ! off) * 256) * 256) * 256"
proof -
  show "off < length b \<Longrightarrow> be_val (slice off 1 b) = unat (b ! off)"
    by (simp only: One_nat_def slice_Suc slice_0 be_val.simps) simp
  assume "off + 1 < length b"
  then have "slice off 2 b = [b ! off, b ! (off + 1)]" by (simp add: numeral_2_eq_2 slice_Suc slice_0)
  then show "be_val (slice off 2 b) = unat (b ! off) * 256 + unat (b ! (off + 1))" by simp
next
  assume "off + 3 < length b"
  then have "slice off 4 b = [b ! off, b ! (off + 1), b ! (off + 2), b ! (off + 3)]"
    by (simp add: eval_nat_numeral slice_Suc slice_0)
  then show "be_val (slice off 4 b) =
     unat (b ! (off + 3)) + (unat (b ! (off + 2)) + (unat (b ! (off + 1)) + unat (b ! off) * 256) * 256) * 256"
    by simp
qed

lemmas field_values = HTONS_le16 HTONL_le32 unat_le16 unat_le32 nibbles_value be_slices be_slices(1) [simplified] lies_at_def

context packed_struct
begin

lemma has_wire_format:
  assumes "\<And>b. length b = hsize \<Longrightarrow> list_all (lies_at (dec b) b) fs" and "covers 0 fs hsize"
  shows "wire_format hsize enc dec valid fs"
  using assms enc_dec valid_dec length_enc dec_enc unfolding wire_format_def by metis

end

lemma eth_wire: "wire_format ETH_HDR_SIZE enc_eth dec_eth valid_eth eth_layout"
  by (rule eth.has_wire_format)
    (simp_all add: header_sizes header_layouts header_codecs field_values)

lemma arp_wire: "wire_format ARP_HDR_SIZE enc_arp dec_arp valid_arp arp_layout"
  by (rule arp.has_wire_format)
    (simp_all add: header_sizes header_layouts header_codecs field_values)

lemma ip_wire: "wire_format IP_HDR_SIZE enc_ip dec_ip any_hdr ip_layout"
  by (rule ip.has_wire_format)
    (simp_all add: header_sizes header_layouts header_codecs field_values)

lemma icmp_wire: "wire_format ICMP_HDR_SIZE enc_icmp dec_icmp any_hdr icmp_layout"
  by (rule icmp.has_wire_format)
    (simp_all add: header_sizes header_layouts header_codecs field_values)

lemma udp_wire: "wire_format UDP_HDR_SIZE enc_udp dec_udp any_hdr udp_layout"
  by (rule udp.has_wire_format)
    (simp_all add: header_sizes header_layouts header_codecs field_values)

lemma tcp_wire: "wire_format TCP_HDR_SIZE enc_tcp dec_tcp any_hdr tcp_layout"
  by (rule tcp.has_wire_format)
    (simp_all add: header_sizes header_layouts header_codecs field_values)

lemma pseudo_wire: "wire_format PSEUDO_IP_HDR_SIZE enc_pseudo dec_pseudo any_hdr pseudo_layout"
  by (rule pseudo.has_wire_format)
    (simp_all add: header_sizes header_layouts header_codecs field_values del: add_2_eq_Suc')

text \<open>
  C26: The packed headers of Ethernet, ARP, IP, ICMP, UDP, TCP and the pseudo header have the wire
  format of their protocols: a layout table gives for every field the byte offset, the width and
  the big-endian number the code obtains with NTOHS or NTOHL (two four-bit fields share a byte);
  the fields fill each header from its first byte to its last, both in what is written from a
  structure and in what is read from bytes; writing and reading are inverse to each other, for
  every structure (hardware addresses of six bytes) and every byte string of the header's size.
\<close>

lemma headers_wire_format:
  "wire_format ETH_HDR_SIZE enc_eth dec_eth valid_eth eth_layout \<and>
   wire_format ARP_HDR_SIZE enc_arp dec_arp valid_arp arp_layout \<and>
   wire_format IP_HDR_SIZE enc_ip dec_ip any_hdr ip_layout \<and>
   wire_format ICMP_HDR_SIZE enc_icmp dec_icmp any_hdr icmp_layout \<and>
   wire_format UDP_HDR_SIZE enc_udp dec_udp any_hdr udp_layout \<and>
   wire_format TCP_HDR_SIZE enc_tcp dec_tcp any_hdr tcp_layout \<and>
   wire_format PSEUDO_IP_HDR_SIZE enc_pseudo dec_pseudo any_hdr pseudo_layout"
  using eth_wire arp_wire ip_wire icmp_wire udp_wire tcp_wire pseudo_wire by blast

end
