(* ===== verification/Spec2Isabelle.thy ===== *)
theory Spec2Isabelle
  imports Example_System Own_Traffic Header_Layout
begin

text \<open>
  A verification development of a small TCP/IP stack in C: simulated nodes with
  interfaces, joined by links (UDP sockets of the host) or attached to TAP devices, that speak
  Ethernet, ARP, IP, ICMP, UDP and TCP.

  \<^bold>\<open>The program and its parts.\<close>  A graph (\<open>graph.c\<close>) owns nodes; a node has four interface slots, a
  routing table (\<open>ip.c\<close>), an ARP table (\<open>arp.c\<close>) and a MAC table (\<open>switch.c\<close>); an interface has
  addresses (\<open>net.c\<close>), the sockets bound to it (\<open>udp.c\<close>, \<open>tcp.c\<close>) and a transport (\<open>comm.c\<close> over
  \<open>comm_udp.c\<close> or \<open>comm_tuntap.c\<close>).  Packets live in socket buffers (\<open>skbuff.h\<close>); every collection is
  an intrusive list (\<open>list.h\<close>).  One thread polls the descriptors and hands each frame to
  \<open>pkt_receive\<close>; it climbs through \<open>ethernet_input\<close>, \<open>ip_preroute\<close> and \<open>ip_input\<close> to a protocol,
  which may send; sending descends through \<open>ip_output\<close>, \<open>ip_postroute\<close> and \<open>ethernet_output\<close> to the
  transport.  A packet for an address of the node itself goes from \<open>ip_postroute\<close> back to
  \<open>ip_input\<close>, the one recursion of the program.

  \<^bold>\<open>How it is modelled.\<close>  Theory State holds one record per structure, with the names of the source,
  and the record \<open>world\<close> of all objects and file-level variables: an object is reached by an
  identifier in the table of its type, and an object that was freed is absent.  Operations take
  and return the world; a fault (theory Prelude) is the left value of their result: a failed
  assertion, a null or dangling pointer, an access outside a buffer, undefined arithmetic, \<open>exit\<close>,
  a loop that does not end.  Integers are words of their width, lengths \<open>size_t\<close> where they wrap.
  What the process does to its environment, frames sent, sockets bound and closed, devices opened,
  the calls that set up the thread, is the \<open>trace\<close> of the world; what the operating system answers (\<open>sendto\<close>, \<open>write\<close>, \<open>socket\<close>, \<open>bind\<close>, \<open>open\<close>, \<open>ioctl\<close>, the creation of a thread and of an
  epoll instance) is a parameter, the record \<open>os\<close> of functions of the trace, with no assumption but those a theorem states.  Lists other than those of
  theory Linked_List are sequences, which that theory justifies on pointers.

  \<^bold>\<open>The theories, and the sources they follow.\<close>
  \<^item> Prelude: words, faults, the result type and its rules.  Utils: \<open>utils.c\<close>, \<open>utils.h\<close>, \<open>address.h\<close>.
  \<^item> Linked_List: \<open>list.h\<close> on a heap of \<open>next\<close> and \<open>prev\<close> fields with 64-bit addresses, its refinement
    to sequences (the locale \<open>head_list\<close>, interpreted on the heap), queues, and the loops over links and
    over the objects around them.
  \<^item> Skbuff: \<open>skbuff.h\<close> with bounds and contents, and the locale \<open>packed_struct\<close> of an encoded
    header, interpreted in Headers on each header of \<open>ethernet.h\<close>, \<open>arp.h\<close>, \<open>ip.h\<close>, \<open>icmp.h\<close>,
    \<open>udp.h\<close> and \<open>tcp.h\<close>.  Header_Layout: the wire format of these headers as tables of offsets and widths.
  \<^item> State: structures, world, environment; the locale \<open>object_table\<close> of a table of objects,
    interpreted on the eight kinds of object.
  \<^item> Comm: \<open>comm.c\<close> without the thread, \<open>comm_udp.c\<close>, \<open>comm_tuntap.c\<close>.  Ethernet: \<open>ethernet.c\<close>.
    Arp: \<open>arp.c\<close>, with the locale \<open>keyed_table\<close> for its table.  Route and Ip_Header: routing table
    and header of \<open>ip.c\<close>.  Net: \<open>net.c\<close>.  Ip_Output: the sending half of \<open>ip.c\<close>, with local delivery
    as an argument.  Icmp, Udp, Tcp: \<open>icmp.c\<close>, \<open>udp.c\<close>, \<open>tcp.c\<close>.  Stack: the receiving half of
    \<open>ip.c\<close> and \<open>ethernet.c\<close>, \<open>switch_input\<close>, \<open>pkt_receive\<close>, and one frame of the receive loop.
    Graph: \<open>graph.c\<close>, the initialisation and destruction of \<open>net.c\<close> and of the tables.
    Recv_Task: the receive thread of \<open>comm.c\<close> and the callers that start and stop it, as a step
    relation.  Printing: the dump functions and the log of received packets, as the text they print.
  \<^item> Topology, Wiring, Teardown, Construction: the shape of nodes, interfaces and links as an
    abstract specification, that every operation of Graph implements its change of the shape, that
    destruction touches no freed object, and that what can be built is well formed.  Stale_Route:
    what the routing tables keep of a destroyed link.
  \<^item> Transmit, Ip_Path, Rx_Queue, Udp_Path, Tcp_Path, Icmp_Path: what the sending side of each
    layer puts on the wire and what the receive queues hold (the locale \<open>rx_owner\<close>, which extends
    \<open>object_table\<close>, interpreted on UDP sockets and TCP connections).  Reception: what each layer does with
    a frame it receives.  Exchange: both together, a datagram, an echo and an address resolution
    between two interfaces.  Tcp_Receive, Tcp_Stream and Tcp_Session: the receiving half of a connection
    as a refinement of an abstract receiver, streams of segments, and a connection from its SYN on.
  \<^item> Fuel: local delivery ends.  Binding: the search for a UDP port ends when a port can be bound.
  \<^item> The whole program: Runs (a rule set for results that are values or named faults), World_Ok (the
    invariant \<open>wf_world\<close> of the whole state), World_Step (the primitive updates keep it),
    Safe_Output, Safe_Input and Safe_Frame (what each layer can do to it, down to one received
    frame), Safe_Socket, Safe_Stream (the socket calls), Safe_Build, Safe_Config (building and
    configuring a network), Removal and Safe_Teardown (destroying a link, a node or a graph that
    nothing else refers to), and System: the calls of an application (\<open>perform\<close>), what they expect
    (\<open>admissible\<close>) and the faults they can stop at (\<open>hazard\<close>), interleaved with the receive thread
    in the step relation \<open>system_step\<close>.  Own_Traffic: that the faults of packets a node sends to
    itself do happen.
  \<^item> Example_Net: a network of two nodes, a link and a TAP device, in which the hypotheses of the
    theorems hold together.  Example_System: a running program, built by calls from the initial
    state.  This theory: the theorems of the basic layers, of the receive thread and of the whole
    program, and the instances of all theorems in the examples.

  \<^bold>\<open>What the theorems show.\<close>  The whole program: in every state that admissible calls and the
  receive thread lead to, all pointers, queues and tables are in order (\<open>system_invariant\<close>); every frame,
  whatever its bytes, is handled or stops the program at one of two named faults (\<open>frame_safe\<close>), and
  every admissible call is handled or stops at the faults listed for it (\<open>call_safe\<close>); out-of-bounds accesses,
  freed memory and endless delivery are excluded.  Admissible (\<open>admissible\<close>) are calls on live objects
  with any descriptors and data, except for: adding a route with a mask outside 0 to 30 to another
  destination than 0.0.0.0; closing a TCP socket that a connection names; and destroying a link, a
  node or a graph that something outside refers to (a bound or opened socket, a route, a packet that
  waits for ARP), whose TAP interfaces come before links, or while an interface holds descriptor 0.  End to end: a datagram and its padding arrive in the queue of the
  socket (\<open>udp_exchange\<close>), a packet that waits for an address leaves when the reply comes
  (\<open>resolution\<close>), a ping is answered (\<open>ping_exchange\<close>), a router forwards, or parks until the next hop is known (\<open>recv_forward\<close>), or drops
  (\<open>recv_expired\<close>).  TCP: the receiver refines its abstract receiver and
  accepts contiguous data only (\<open>tcp_receiver_refinement\<close>, \<open>tcp_stream\<close>), a peer that completes the
  handshake is accepted with its data (\<open>tcp_session\<close>), and opening, closing, accepting, reading and
  sending behave as stated.  Basic layers: the checksum is the Internet
  checksum, lookups are longest prefix matches, headers have the wire format of their protocols, addresses survive encoding, buffer
  operations stay in bounds, pointer lists implement sequences.  Topology: what is built is well
  formed, and destroying or printing it is safe.  The thread: its flags agree with its state, and
  stopping it ends.  Several theorems state what the program does where it fails: lost segments
  reported as sent (\<open>tcp_send_lost\<close>), faults on pinging oneself, on short UDP packets, on host
  routes, on destroying a node with its TAP device first, on routes that outlive their link, on a
  SYN that claims to come from its receiver (\<open>land_attack\<close>) and on reading one's own datagram
  (\<open>udp_self\<close>).

  \<^bold>\<open>Fuel and loops.\<close>  \<open>ip_input\<close> takes the depth of nested local deliveries.  Two are enough:
  \<open>recv_frame_fuel\<close> shows that more changes nothing and that two never run out, because a locally
  delivered packet has no IP header pointer, without which \<open>icmp_input\<close> and \<open>tcp_input\<close> fault
  before they send again.  The search for a port is a partial function, whose missing result is
  the fault \<open>Diverges\<close>; all other loops are structural, except those on pointers, which end on
  well-formed lists (\<open>list_objects_refine\<close>, \<open>list_del_each_is_list\<close>, \<open>heap_queue_fifo\<close>).

  \<^bold>\<open>What is not modelled.\<close>  Diagnostics of a fixed text written with \<open>printf\<close>; failure of
  \<open>calloc\<close>; a failed \<open>pthread_join\<close>, which a thread that another one joins once cannot have; data
  races: a step of the receive thread handles one whole frame, and the application changes the world
  between steps.
  The calls of theory System that are not admissible are not followed further: what a route with a
  longer mask does is \<open>rt_lookup_lpm_undefined\<close>, what a route to a destroyed link does
  \<open>ping_stale_route\<close>; the calls destroy only what nothing else refers to, and Teardown and Construction show
  for any destruction that it keeps the topology well formed, and Stale_Route that the routing tables
  keep what was freed.  Callbacks are events of the
  trace and do not call back into the stack.  The trailer of \<open>ethernet.h\<close> and the two functions \<open>tcp.h\<close> declares and nothing defines have no code to model.
  The tests under \<open>test\<close> are not part of the program.
\<close>

section \<open>Lists\<close>

lemma heap_queue_fifo:
  assumes "is_list h l []" and "distinct (l # ys)"
  shows "\<exists>h'. drain l [] (fold (\<lambda>y. list_add y l) ys h) = Some (ys, h') \<and> is_list h' l []"
proof -
  have "is_list (fold (\<lambda>y. list_add y l) ys h) l (rev ys)"
    using heap_list.owns_add_all [OF assms(1), of ys] assms(2) by simp
  from drain_is_list [OF this, of "[]"] show ?thesis by simp
qed

theorem list_del_refines:
  assumes "is_list h l xs" and "x \<in> set xs" and "is_list h l' ys" and "set (l # xs) \<inter> set (l' # ys) = {}"
  shows "is_list (list_del x h) l (remove1 x xs) \<and> is_list (list_del x h) l' ys \<and>
    is_list (list_add x l' (list_del x h)) l' (x # ys) \<and> is_list (list_add x l' (list_del x h)) l (remove1 x xs)"
proof -
  have d: "is_list (list_del x h) l (remove1 x xs)" "is_list (list_del x h) l' ys"
    by (rule is_list_del [OF assms(1,2)], rule is_list_del_other [OF assms])
  have x: "x \<notin> set (l' # ys)" "x \<notin> set (l # remove1 x xs)"
    using assms by (auto simp: is_list_def)
  have s: "set (l' # ys) \<inter> set (l # remove1 x xs) = {}" using assms(4) set_remove1_subset [of x xs] by auto
  show ?thesis
    using d is_list_add [OF d(2) x(1)] is_list_add_other [OF d(2,1) s x(2)] by blast
qed

text \<open>
  C28: A list of objects chained through links inside them implements a sequence of objects: the
  loop list_for_each_entry visits them in order until its body leaves it, the first and the last
  entry are those of the sequence, list_add puts an object in front, list_del removes one, and the
  loop that unlinks and frees every object ends, frees each once and in order, and leaves an empty
  list.
\<close>

theorem list_objects_refine:
  assumes es: "objects h l off es" and old: "e \<in> set es" and new: "n \<notin> set es" "n + off \<noteq> l"
  shows "list_for_each_entry h l off body s = Some (until body es s) \<and>
    list_first_entry h l off = hd es \<and> list_last_entry h l off = last es \<and>
    objects (list_add (n + off) l h) l off (n # es) \<and> objects (list_del (e + off) h) l off (remove1 e es) \<and>
    (\<exists>h'. list_for_each_entry_safe l off (unlink_entry off) (h, []) = Some (h', es) \<and> objects h' l off [])"
proof -
  note ls = es [unfolded objects_def]
  have "n + off \<notin> set (l # map (\<lambda>e. e + off) es)" using new by auto
  from is_list_add [OF ls this] have "objects (list_add (n + off) l h) l off (n # es)" by (simp add: objects_def)
  moreover have "remove1 (e + off) (map (\<lambda>e. e + off) es) = map (\<lambda>e. e + off) (remove1 e es)"
    by (induction es) auto
  with is_list_del [OF ls, of "e + off"] old have "objects (list_del (e + off) h) l off (remove1 e es)"
    by (simp add: objects_def)
  moreover have "es \<noteq> []" using old by auto
  ultimately show ?thesis
    using list_for_each_entry_objects [OF es, of body s] list_for_each_entry_safe_objects [OF es] objects_ends [OF es]
    by simp
qed

text \<open>Two objects at 16 and 32 with their links eight bytes in, chained from the head at 8.\<close>

definition ex_objects_heap :: list_heap where
  "ex_objects_heap = list_add 40 8 (list_add 24 8 (INIT_LIST_HEAD 8 \<lparr>next_of = (\<lambda>_. 0), prev_of = (\<lambda>_. 0)\<rparr>))"

lemma ex_objects_heap: "objects ex_objects_heap 8 8 [32, 16]"
  by (simp add: ex_objects_heap_def objects_def is_list_def list_add_def INIT_LIST_HEAD_def heap_defs Let_def)

theorem list_objects_refine_witness:
  "list_for_each_entry ex_objects_heap 8 8 (\<lambda>p s. if p = 16 then Inl p else Inr (s + 1)) (0 :: nat) = Some (Inl 16) \<and>
   list_first_entry ex_objects_heap 8 8 = 32 \<and> list_last_entry ex_objects_heap 8 8 = 16 \<and>
   objects (list_add 56 8 ex_objects_heap) 8 8 [48, 32, 16] \<and> objects (list_del 24 ex_objects_heap) 8 8 [32] \<and>
   (\<exists>h'. list_for_each_entry_safe 8 8 (unlink_entry 8) (ex_objects_heap, []) = Some (h', [32, 16]) \<and> objects h' 8 8 [])"
  using list_objects_refine [OF ex_objects_heap, of 16 48 "\<lambda>p s. if p = 16 then Inl p else Inr (s + 1)" "0 :: nat"] by simp

section \<open>Socket buffers and headers\<close>

text \<open>
  C27: The socket buffer operations succeed exactly when there is room, keep the offsets inside
  the buffer and otherwise fail their assertion.
\<close>

theorem skb_ops_bounds:
  assumes "wf_skb s"
  shows "(if n \<le> skb_headroom s then \<exists>t. skb_push n s = Inr t \<and> wf_skb t else skb_push n s = Inl Assert_failed) \<and>
    (if n \<le> skb_len s then \<exists>t. skb_pull n s = Inr t \<and> wf_skb t else skb_pull n s = Inl Assert_failed) \<and>
    (if n \<le> skb_tailroom s then \<exists>t. skb_put n s = Inr t \<and> wf_skb t else skb_put n s = Inl Assert_failed) \<and>
    (if n \<le> skb_tailroom s then \<exists>t. skb_reserve n s = Inr t \<and> wf_skb t else skb_reserve n s = Inl Assert_failed)"
proof -
  have "n \<le> skb_headroom s \<Longrightarrow> \<exists>t. skb_push n s = Inr t" "n \<le> skb_len s \<Longrightarrow> \<exists>t. skb_pull n s = Inr t"
    "n \<le> skb_tailroom s \<Longrightarrow> \<exists>t. skb_put n s = Inr t"
    using skb_push_ok [OF _ assms] skb_pull_ok [OF _ assms] skb_put_ok [OF _ assms] by (auto simp: skb_headroom_def)
  moreover have "n \<le> skb_tailroom s \<Longrightarrow> \<exists>t. skb_reserve n s = Inr t"
    using assms by (auto simp: skb_reserve_def skb_tailroom_def wf_skb_def Let_def)
  moreover have "\<not> n \<le> skb_headroom s \<Longrightarrow> skb_push n s = Inl Assert_failed"
    "\<not> n \<le> skb_len s \<Longrightarrow> skb_pull n s = Inl Assert_failed"
    "\<not> n \<le> skb_tailroom s \<Longrightarrow> skb_put n s = Inl Assert_failed"
    "\<not> n \<le> skb_tailroom s \<Longrightarrow> skb_reserve n s = Inl Assert_failed"
    using assms skb_pull_short [of s n]
    by (auto simp: skb_push_def skb_put_def skb_reserve_def skb_headroom_def skb_tailroom_def wf_skb_def guardE_def Let_def)
  ultimately show ?thesis using wf_skb_ops(1-4) [OF assms] unfolding if_bool_eq_conj by blast
qed

theorem skb_ops_bounds_witness:
  "skb_pull 3 (ex_skb None [1, 2]) = Inl Assert_failed \<and> (\<exists>t. skb_push 60 (ex_skb None [1, 2]) = Inr t \<and> wf_skb t)"
proof -
  have s: "wf_skb (ex_skb None [1, 2])" by simp
  show ?thesis
    using skb_ops_bounds [OF s, of 3] skb_ops_bounds [OF s, of 60] by (simp add: skb_headroom_def ex_skb_def)
qed

lemma skb_header_roundtrip:
  assumes "wf_skb s" and "length hdr \<le> skb_headroom s"
  shows "\<exists>s1 s2 s3. skb_push (length hdr) s = Inr s1 \<and> wr_bytes (data_off s1) hdr s1 = Inr s2 \<and>
    payload s2 = hdr @ payload s \<and> skb_pull (length hdr) s2 = Inr s3 \<and> payload s3 = payload s \<and>
    data_off s3 = data_off s \<and> skb_len s3 = skb_len s"
proof -
  have "length hdr \<le> data_off s" using assms(2) by (simp add: skb_headroom_def)
  note push = skb_push_ok [OF this assms(1)]
  then obtain s1 where s1: "skb_push (length hdr) s = Inr s1" "skb_len s1 = skb_len s + length hdr"
    "data_off s1 = data_off s - length hdr" by auto
  have wf1: "wf_skb s1" by (rule wf_skb_push [OF assms(1) s1(1)])
  from wr_bytes_front [OF wf1, of hdr] s1(2) obtain s2 where s2: "wr_bytes (data_off s1) hdr s1 = Inr s2" "wf_skb s2"
    "payload s2 = hdr @ drop (length hdr) (payload s1)" "data_off s2 = data_off s1" "skb_len s2 = skb_len s1" by auto
  have p2: "payload s2 = hdr @ payload s"
    using s2(3) payload_push [OF assms(1) s1(1)] length_payload [OF wf1] length_payload [OF assms(1)] s1(2) by simp
  from skb_pull_ok [OF _ s2(2), of "length hdr"] s1(2) s2(5) obtain s3 where s3: "skb_pull (length hdr) s2 = Inr s3"
    "data_off s3 = data_off s2 + length hdr" "skb_len s3 = skb_len s2 - length hdr" by auto
  have "payload s3 = payload s" using payload_pull [OF s2(2) s3(1)] p2 by simp
  with s1 s2 s3 p2 \<open>length hdr \<le> data_off s\<close> show ?thesis by auto
qed

section \<open>Checksums\<close>

text \<open>
  C24: calc_checksum_16 computes the Internet checksum, the complement of the ones' complement sum
  of the big-endian words, for every buffer of up to 131000 bytes, whose sum its 32-bit
  accumulator can hold.
\<close>

theorem checksum_ones_complement:
  assumes "length bs \<le> 131000"
  shows "unat (calc_checksum_16 bs) = 65535 - ones_complement (be_sum bs)"
  by (rule calc_checksum_16_spec [OF be_sum_small [OF assms]])

theorem checksum_ones_complement_witness:
  "unat (calc_checksum_16 [0x45, 0, 0xff]) = 65535 - ones_complement (be_sum [0x45, 0, 0xff])"
  by (rule checksum_ones_complement) simp

text \<open>
  C25: Filling a header checksum does not clear the old value first: when the header length field
  is 3 or more, so that the checksum is among the bytes summed, the filled header verifies exactly
  when the field was zero (or all ones) before; with a length field of 0 to 2 the checksum is not
  summed, and filling it does not change whether the header verifies.
\<close>

theorem ip_checksum_fill:
  assumes "rd_hdr IP_HDR_SIZE dec_ip off s = Inr h" and "fill_ip_hcksum off s = Inr t"
  shows "check_ip_hcksum off t =
    (if 3 \<le> unat (ip_hlen h) then Inr (unat (HTONS (ip_hcksum h)) mod 65535 = 0) else check_ip_hcksum off s)"
  by (rule fill_then_check [OF assms])

theorem ip_checksum_fill_witness:
  "\<exists>t. fill_ip_hcksum 60 (ex_skb None (enc_ip (ex_ip ip_A ip_B 17))) = Inr t \<and> check_ip_hcksum 60 t = Inr True"
proof -
  let ?s = "ex_skb None (enc_ip (ex_ip ip_A ip_B 17))"
  have l: "length (enc_ip (ex_ip ip_A ip_B 17)) = 20" using ip.length_enc by (simp add: IP_HDR_SIZE_def)
  have d: "data_off ?s = 60" by (simp add: ex_skb_def)
  have rd: "rd_hdr IP_HDR_SIZE dec_ip 60 ?s = Inr (ex_ip ip_A ip_B 17)"
    using ip.rd_front(1) [of ?s "ex_ip ip_A ip_B 17" "[]"] l d by simp
  have h: "ip_hlen (ex_ip ip_A ip_B 17) = 5" "ip_hcksum (ex_ip ip_A ip_B 17) = 0"
    by (simp_all add: ex_ip_def init_ip_hdr_def dec_ip_def IP_HDR_SIZE_def le16_def)
  obtain t where t: "fill_ip_hcksum 60 ?s = Inr t"
    using fill_ip_hcksum_eq [OF rd h(1)] ip.wr_ok [where off = 60 and s = ?s] l by (auto simp: IP_HDR_SIZE_def ex_skb_def)
  from ip_checksum_fill [OF rd t] t h show ?thesis by (simp add: HTONS_def)
qed

section \<open>Routing\<close>

text \<open>
  C21: Longest prefix match: in a table whose masks are from 0 to 30, default entries aside, the
  lookup returns the first entry with the longest mask among those that match, a default entry if
  none matches, and nothing if there is neither.
\<close>

theorem rt_lookup_lpm_spec:
  assumes "routable table"
  shows "\<exists>r. rt_lookup_lpm table ip = Inr r \<and>
    (case r of
       Some e \<Rightarrow>
         (\<exists>pre post. table = pre @ e # post \<and> rt_matches ip e \<and>
            (\<forall>c \<in> set pre. rt_matches ip c \<longrightarrow> sint (rt_mask c) < sint (rt_mask e)) \<and>
            (\<forall>c \<in> set post. rt_matches ip c \<longrightarrow> sint (rt_mask c) \<le> sint (rt_mask e))) \<or>
         (\<forall>c \<in> set table. \<not> rt_matches ip c) \<and> e \<in> set table \<and> rt_dst e = 0
     | None \<Rightarrow> (\<forall>c \<in> set table. \<not> rt_matches ip c \<and> rt_dst c \<noteq> 0))"
proof (cases "lpm_best ip table")
  case None
  then have no: "\<forall>c \<in> set table. \<not> rt_matches ip c" by (simp add: lpm_best_None_iff)
  show ?thesis
    unfolding rt_lookup_lpm_eq [OF assms] None
    using no last_default_Some [of table] last_default_None_iff [of table]
    by (cases "last_default table") auto
next
  case (Some e)
  show ?thesis unfolding rt_lookup_lpm_eq [OF assms] Some using lpm_best_Some [OF Some] by auto
qed

theorem rt_lookup_lpm_spec_witness:
  "\<exists>r. rt_lookup_lpm (rt_table node_A) ip_H = Inr r \<and>
    (case r of
       Some e \<Rightarrow>
         (\<exists>pre post. rt_table node_A = pre @ e # post \<and> rt_matches ip_H e \<and>
            (\<forall>c \<in> set pre. rt_matches ip_H c \<longrightarrow> sint (rt_mask c) < sint (rt_mask e)) \<and>
            (\<forall>c \<in> set post. rt_matches ip_H c \<longrightarrow> sint (rt_mask c) \<le> sint (rt_mask e))) \<or>
         (\<forall>c \<in> set (rt_table node_A). \<not> rt_matches ip_H c) \<and> e \<in> set (rt_table node_A) \<and> rt_dst e = 0
     | None \<Rightarrow> (\<forall>c \<in> set (rt_table node_A). \<not> rt_matches ip_H c \<and> rt_dst c \<noteq> 0))"
  by (rule rt_lookup_lpm_spec) (simp add: routable_def ex_objects)

text \<open>
  C22: One entry for a destination other than 0.0.0.0 whose mask is 31 or more, or a negative
  char, makes every lookup in its table undefined, because the mask is computed by shifting a
  signed 1.  (The mask of an entry for 0.0.0.0 is never looked at.)
\<close>

theorem rt_lookup_lpm_undefined:
  assumes "e \<in> set table" and "rt_dst e \<noteq> 0" and "\<not> (0 \<le> sint (rt_mask e) \<and> sint (rt_mask e) < 31)"
  shows "rt_lookup_lpm table ip = Inl Undefined_behaviour"
  unfolding rt_lookup_lpm_def by (rule rt_lookup_undefined [OF assms])

theorem rt_lookup_lpm_undefined_witness:
  "rt_lookup_lpm (rt_table_add_route (rt_table node_A) ip_B 32 0 4) ip_A = Inl Undefined_behaviour"
  by (rule rt_lookup_lpm_undefined [of "ex_route ip_B 32 0 4"])
    (simp_all add: rt_table_add_route_def ex_route_def ip_B_def)

text \<open>
  C23: What comparing masked little-endian words compares: for a mask 8 k + r below 31, with r
  below 8, the first k bytes of the addresses, that is their leading 8 k bits in network order,
  and the low r bits of the byte that follows.  So it compares network prefixes for the masks 0,
  8, 16 and 24, and the wrong bits of the last byte for the others.
\<close>

theorem ip_net_eq_prefix:
  assumes "sint m = int (8 * k + r)" and "r < 8" and "8 * k + r < 31"
  shows "IP_NET_EQ a b m =
    Inr (net_prefix (8 * k) a = net_prefix (8 * k) b \<and> take_bit r (bytes32 a ! k) = take_bit r (bytes32 b ! k))"
  by (rule IP_NET_EQ_bytes [OF assms])

theorem ip_net_eq_prefix_witness:
  "IP_NET_EQ ip_A ip_B 20 = Inr (net_prefix (8 * 2) ip_A = net_prefix (8 * 2) ip_B \<and>
     take_bit 4 (bytes32 ip_A ! 2) = take_bit 4 (bytes32 ip_B ! 2))"
  by (rule ip_net_eq_prefix) simp_all

section \<open>The network\<close>

abbreviation ex_deliver :: deliver where
  "ex_deliver \<equiv> ip_input 2 ex_os"

theorem udp_exchange_witness:
  "\<exists>w1 frame w2 pad w3. udp_sendto ex_os ex_deliver 1 [1, 2, 3] ip_A 5000 ex_world = Inr (3, w1) \<and>
    recv_frame 1 ex_os 4 (Some frame) w1 = Inr w2 \<and> length pad = 15 \<and>
    udp_recvfrom 0 100 True True w2 = Inr (Some (take 100 ([1, 2, 3] @ pad), Some ip_B, Some 6000), w3)"
proof -
  have sk: "us_bound sock_B" "us_intf sock_B = Some 5" "us_bound sock_A" "us_local_port sock_B = 6000"
    by (simp_all add: sock_A_def sock_B_def)
  have q: "rx_ok (us_rx_skb sock_A) ex_world" "\<And>p. p \<in> set (us_rx_skb sock_A) \<Longrightarrow> p < w_next ex_world"
    "rx_data (us_rx_skb sock_A) ex_world = []" by (simp_all add: sock_A_def rx_ok_def rx_data_def)
  have m: "take MAX_UDP_PAYLOAD [1, 2, 3] = [1, 2, 3 :: u8]" by (simp add: MAX_UDP_PAYLOAD_def)
  have r: "reaches ex_os (if_node intf_B) ip_A 5 intf_B (if_mac intf_A) (Ev_sendto 4 40000) ex_world"
    "is_ip_local (if_node intf_A) ip_A ex_world = Inr True" using ex_reaches(3) ex_local by simp_all
  have f: "udp_socks_manager_find (udp_socks_manager intf_A) 5000 ex_world = Inr (Some 7)"
    by (simp add: intf_A_def sock_A_def)
  from udp_exchange [OF ex_sockets(2) ex_get(7) sk(1,2) r(1) m [symmetric] ex_get(3) ex_config(1) r(2) f ex_get(6)
      q(1,2) ex_sockets(1) sk(3), of ex_deliver 0 100] q(3) sk(4)
  show ?thesis by (simp only: One_nat_def) fastforce
qed

definition ex_reply :: arp_hdr where
  "ex_reply = \<lparr>hw_type = HTONS 1, proto_type = HTONS 0x0800, hw_addr_len = 6, proto_addr_len = 4,
     opcode = HTONS ARP_OP_REPLY, sender_hw_addr = mac_H, sender_proto_addr = 0x0701010A, target_hw_addr = mac_T,
     target_proto_addr = ip_T\<rparr>"

theorem resolution_witness:
  "\<exists>w1 w2 pad. ip_finish ex_os 2 6 0x0701010A 13 ex_world = Inr (True, w1) \<and>
    recv_frame 1 ex_os 6 (Some (enc_eth (ex_eth ETH_PROTO_ARP mac_T mac_H) @ enc_arp ex_reply @ [])) w1 = Inr w2 \<and>
    length pad = 18 \<and> w_skbs w2 13 = None \<and> last (trace w2) =
      Ev_write 5 (ip_frame intf_T mac_H (ex_ip ip_T ip_W 17) (replicate 8 0) @ pad)"
proof -
  let ?pkt = "enc_ip (ex_ip ip_T ip_W 17) @ replicate 8 0"
  have t: "has_ip 13 (Some 6) (ex_ip ip_T ip_W 17) (replicate 8 0) (ex_skb (Some 6) ?pkt) ex_world"
    by (simp add: has_ip_def) (simp add: get_skb_def ex_world_def ex_skb_def)
  have room: "frame_room (ex_skb (Some 6) ?pkt)" by (rule ex_skb_room) simp_all
  have nd: "get_node (if_node intf_T) ex_world = Inr node_B" "arp_table_lookup (arp_table node_B) 0x0701010A = None"
    by simp (simp add: ex_objects ex_addrs)
  have a: "valid_arp ex_reply" "opcode ex_reply = HTONS ARP_OP_REPLY" "sender_proto_addr ex_reply = 0x0701010A"
    by (simp_all add: ex_reply_def valid_arp_def)
  have m: "sender_hw_addr ex_reply = mac_H" by (simp add: ex_reply_def)
  from resolution [OF t room _ nd ex_up(3) ex_get(5) ex_config(3) _ ex_eth(2) ex_eth(3) ex_eth(5) a, of "[]" _ 1] m
  show ?thesis by (fastforce simp: sent_def)
qed

theorem ping_exchange_witness:
  "\<exists>w1 frame w2 data pad. ping ex_os ex_deliver 19 ''10.0.0.2'' ex_world = Inr (True, w1) \<and>
    recv_frame 1 ex_os 5 (Some frame) w1 = Inr w2 \<and> length data = 22 \<and>
    last (trace w2) = Ev_sendto 4 40000 (ip_frame intf_B mac_A (ip_out_hdr ip_B ip_A IP_PROTO_ICMP 46)
      (icmp_message ICMP_ECHO_REPLY_TYPE ICMP_ECHO_REPLY_CODE data) @ pad)"
proof -
  have r: "reaches ex_os 19 ip_B 4 intf_A (if_mac intf_B) (Ev_sendto 3 40001) ex_world"
    "reaches ex_os (if_node intf_B) (if_ip intf_A) 5 intf_B mac_A (Ev_sendto 4 40000) ex_world"
    "is_ip_local (if_node intf_B) ip_B ex_world = Inr True" using ex_reaches(1,3) ex_local by simp_all
  from ping_exchange [OF ex_strings(1) r(1) ex_get(4) ex_config(2) r(3) r(2), of ex_deliver 0] show ?thesis
    by (fastforce simp: ex_fresh sent_def)
qed

theorem recv_forward_witness:
  "\<exists>w' pad. recv_frame 0 ex_os 5 (Some (enc_eth (ex_eth ETH_PROTO_IP mac_B mac_A) @ enc_ip (ex_ip ip_A ip_H 17) @ [1, 2])) ex_world = Inr w' \<and>
    length pad = 24 \<and>
    trace w' = [Ev_write 5 (ip_frame intf_T mac_H (forwarded (if_ip intf_T) (ex_ip ip_A ip_H 17)) [1, 2] @ pad)]"
proof -
  from ex_reaches(4) obtain nd rt e where n: "get_node 2 ex_world = Inr nd" "rt_lookup_lpm (rt_table nd) ip_H = Inr (Some rt)"
    "rt_intf rt = 6" "arp_table_lookup (arp_table nd) (arp_target rt ip_H) = Some e" "arp_resolved e" "arp_mac e = mac_H"
    "length mac_H = 6" and r: "routed ex_os 2 ip_H nd rt intf_T (Ev_write 5) ex_world"
    by (auto simp: reaches_def routed_def)
  have d: "routed ex_os (if_node intf_B) (dst_ip (ex_ip ip_A ip_H 17)) nd rt intf_T (Ev_write 5) ex_world" using r by simp
  have e: "arp_entry_for (arp_table nd) (arp_target rt (dst_ip (ex_ip ip_A ip_H 17))) (rt_intf rt) = e"
    using n(4) by (simp add: arp_entry_for_def)
  from recv_forward [OF ex_eth(1) ex_eth(3) _ ex_get(4) ex_config(2) ex_eth(4) ex_ip_fields(4) ex_next(3) _ _ d refl refl e [symmetric],
      of "[1, 2]" 0] n show ?thesis by (simp add: callback_events_def sent_def) blast
qed

theorem recv_expired_witness:
  "\<exists>w'. recv_frame 0 ex_os 5 (Some (enc_eth (ex_eth ETH_PROTO_IP mac_B mac_A) @ enc_ip ((ex_ip ip_A ip_H 17)\<lparr>ip_ttl := 1\<rparr>) @ [])) ex_world = Inr w' \<and>
    trace w' = trace ex_world @ callback_events 5 ex_world
      (enc_eth (ex_eth ETH_PROTO_IP mac_B mac_A) @ enc_ip ((ex_ip ip_A ip_H 17)\<lparr>ip_ttl := 1\<rparr>) @ []) \<and>
    w_skbs w' = (w_skbs ex_world)(w_next ex_world := None)"
  by (rule recv_expired [OF ex_eth(1) ex_eth(3) _ ex_get(4) ex_config(2) ex_eth(4) _ _ refl]) (simp_all add: ex_local)

definition ex_request :: arp_hdr where
  "ex_request = \<lparr>hw_type = HTONS 1, proto_type = HTONS 0x0800, hw_addr_len = 6, proto_addr_len = 4,
     opcode = HTONS ARP_OP_REQUEST, sender_hw_addr = mac_A, sender_proto_addr = ip_A, target_hw_addr = replicate 6 0,
     target_proto_addr = ip_B\<rparr>"

theorem recv_arp_request_witness:
  "\<exists>w'. recv_frame 0 ex_os 5 (Some (enc_eth (ex_eth ETH_PROTO_ARP mac_B mac_A) @ enc_arp ex_request @ [])) ex_world = Inr w' \<and>
    last (trace w') = Ev_sendto 4 40000 (arp_frame intf_B mac_A (arp_message ARP_OP_REPLY intf_B mac_A ip_A))"
proof -
  have h: "valid_arp ex_request" "opcode ex_request = HTONS ARP_OP_REQUEST" "target_proto_addr ex_request = ip_B"
    "sender_hw_addr ex_request = mac_A" "sender_proto_addr ex_request = ip_A"
    by (simp_all add: ex_request_def valid_arp_def)
  from recv_arp_request [OF ex_eth(1) ex_eth(3) h(1,2) _ ex_get(4) ex_config(2) ex_eth(4) ex_up(2) _ refl, of "[]" 0] h(3-5)
  show ?thesis by (auto simp: ex_fresh sent_def)
qed

theorem recv_udp_short_witness:
  "recv_frame (Suc 0) ex_os 5
    (Some (enc_eth (ex_eth ETH_PROTO_IP mac_B mac_A) @ enc_ip (ex_ip ip_A ip_B IP_PROTO_UDP) @ [0, 0, 0x17, 0x70])) ex_world =
   Inl Assert_failed"
proof -
  have port: "NTOHS (le16 ([0, 0, 0x17, 0x70 :: u8] ! 2) ([0, 0, 0x17, 0x70] ! 3)) = 6000"
    by (simp add: HTONS_le16) (simp add: le16_def push_bit_eq_mult)
  show ?thesis
    by (rule recv_udp_short [OF ex_eth(1) ex_eth(3) _ _ ex_get(4) ex_config(2) ex_eth(4) _ _ _ refl, where u = 8])
      (simp_all add: ex_local port [simplified] ex_sockets)
qed

theorem ping_self_witness: "ping ex_os (ip_input (Suc 0) ex_os) 19 ''10.0.0.1'' ex_world = Inl Null_deref"
  by (rule ping_self [where x = intf_A, OF ex_get(1) ex_strings(2) ex_routes(2)]) (simp_all add: ex_route_def ex_local)

section \<open>Sockets\<close>

theorem udp_recvfrom_read_witness:
  "\<exists>w' sk'. udp_recvfrom 1 2 False False ex_world = Inr (Some ([1, 2], None, None), w') \<and>
    get_udp_sock 8 w' = Inr sk' \<and> rx_data (us_rx_skb sk') w' = [[3], [9]]"
proof -
  have b: "us_bound sock_B" by (simp add: sock_B_def)
  from udp_recvfrom_read [OF ex_sockets(2) ex_get(7) b ex_queues(1), of 2 False False] ex_queues(2) show ?thesis by auto
qed

theorem udp_bind_find_witness:
  "\<exists>w' u i x sk. udp_bind 2 ip_A 7000 (snd (udp_socket 19 ex_world)) = Inr (0, w') \<and>
    udp_sock_of_fd 2 (snd (udp_socket 19 ex_world)) = Some u \<and> get_intf i w' = Inr x \<and> is_ip_addr_config x \<and> if_ip x = ip_A \<and>
    udp_socks_manager_find (udp_socks_manager x) 7000 w' = Inr (Some u) \<and>
    get_udp_sock u w' = Inr sk \<and> us_bound sk \<and> us_intf sk = Some i \<and> us_local_port sk = 7000"
proof -
  have "\<exists>w'. udp_bind 2 ip_A 7000 (snd (udp_socket 19 ex_world)) = Inr (0, w')"
    by (simp add: udp_bind_def udp_sock_of_fd_def udp_socket_def get_matching_interface_def find_node_intf_def
        MAX_UDP_SOCKS_def world_access Let_def ex_world_def ex_objects ex_addrs)
  then show ?thesis using udp_bind_find by blast
qed

text \<open>
  C10: The receiving half of a connection refines an abstract receiver (state, next expected
  number, received data): one data or acknowledgement segment of the concrete stack returns and
  changes the connection as the abstract step does, whether it is accepted or not, and puts
  nothing on the wire.
\<close>

theorem tcp_receiver_refinement:
  assumes "has_tcp p i src h data w" and "for_sock i h t sk w" and "for_conn src h sk c cn w"
    and "rx_ok (tc_rx_skb cn) w" and "p \<notin> set (tc_rx_skb cn)" and "\<not> fl_rst (tcp_flags h)" and "\<not> fl_fin (tcp_flags h)"
  shows "\<exists>w' cn'. tcp_input os deliver p w = Inr (accepts h (receiver_of cn w), w') \<and> get_tcp_conn c w' = Inr cn' \<and>
    receiver_of cn' w' = rcv_segment (h, data) (receiver_of cn w) \<and> trace w' = trace w"
  using tcp_input_refines [OF assms, of os deliver] by blast

theorem tcp_receiver_refinement_witness:
  "\<exists>w' cn'. tcp_input ex_os ex_deliver 15 ex_world =
      Inr (accepts (ex_tcp 4000 100 flags_ack) (receiver_of conn_B ex_world), w') \<and> get_tcp_conn 10 w' = Inr cn' \<and>
    receiver_of cn' w' = rcv_segment (ex_tcp 4000 100 flags_ack, [5, 6]) (receiver_of conn_B ex_world) \<and>
    trace w' = trace ex_world"
  by (rule tcp_receiver_refinement [OF ex_segments(1) ex_for_sock ex_for_conn ex_queues(3)])
    (simp_all add: conn_B_def flags_bits)

theorem tcp_stream_witness:
  "\<exists>w' cn'. tcp_inputs ex_os ex_deliver [15] ex_world = Inr w' \<and> get_tcp_conn 10 w' = Inr cn' \<and>
    rx_data (tc_rx_skb cn') w' = [[7, 8], [5, 6]] \<and> rcv_nxt cn' = 102"
proof -
  have s: "list_all2 (conn_segment 5 ip_A 9 tcp_B 10 ex_world) [15] [(ex_tcp 4000 100 flags_ack, [5, 6])]"
    by (simp add: conn_segment_def ex_segments ex_for_sock ex_find_conn flags_bits)
  have c: "tc_state conn_B = Handle_estab" "rcv_nxt conn_B = 100" "distinct ([15] @ tc_rx_skb conn_B)"
    by (simp_all add: conn_B_def)
  from tcp_stream [OF s ex_get(9) c(1) ex_queues(3) c(3), of ex_os ex_deliver] show ?thesis
    unfolding c(2) ex_queues(4) by auto
qed

theorem tcp_session_witness:
  "\<exists>w2 w3 cn. tcp_inputs ex_os ex_deliver [16, 18, 19] ex_world = Inr w2 \<and>
    tcp_accept 0 w2 = Inr (Some (1, ip_A, 4001), w3) \<and> tcp_conn_of_fd 1 w3 = Some 20 \<and>
    get_tcp_conn 20 w3 = Inr cn \<and> tc_state cn = Handle_estab \<and> rx_data (tc_rx_skb cn) w3 = [[3, 4]]"
proof -
  let ?h = "ex_tcp 4001 50 2" and ?g = "ex_tcp 4001 51 flags_ack"
  have f: "find_matching_connection (ts_conns tcp_B) ip_A (NTOHS (tcp_src_port ?h)) ex_world = Inr None"
    by (simp add: ex_find_conn)
  have s: "ts_listening tcp_B" "ts_intf tcp_B = Some 5" by (simp_all add: tcp_B_def)
  have fl: "fl_syn (tcp_flags ?h)" "\<not> fl_ack (tcp_flags ?h)" "fl_ack (tcp_flags ?g)" "\<not> fl_syn (tcp_flags ?g)"
    "NTOHL (tcp_seq ?g) = NTOHL (tcp_seq ?h) + 1"
    by (simp_all add: fl_syn_def fl_ack_def flags_ack_def bit_numeral_rec)
  have r: "reaches ex_os (if_node intf_B) ip_A 5 intf_B mac_A (Ev_sendto 4 40000) ex_world" using ex_reaches(3) by simp
  have l: "later_segment 16 5 ip_A ?h ex_world 18 (?g, [])"
    "list_all2 (later_segment 16 5 ip_A ?h ex_world) [19] [(?g, [3, 4])]"
    by (simp_all add: later_segment_def ex_segments flags_bits)
  have d: "16 < w_next ex_world" "distinct [18, 19 :: nat]" "first_free (fd_conn_to_sock ex_world) 0 = Some (Suc 0)"
    "length (fd_conn_to_sock ex_world) = MAX_TCP_CONN_SOCKS"
    by (simp_all add: ex_world_def MAX_TCP_CONN_SOCKS_def)
  from tcp_session [OF ex_segments(2) d(1) ex_for_sock f s(1) fl(1,2) s(2) r l(1) fl(3-5) l(2) d(2) ex_sockets(4) d(3,4),
      of ex_deliver] show ?thesis
    by auto
qed

theorem tcp_input_syn_witness:
  "\<exists>w' pad. tcp_input ex_os ex_deliver 16 ex_world = Inr (False, w') \<and> length pad = 6 \<and>
    get_tcp_conn 20 w' = Inr ((new_conn 9 ip_A (ex_tcp 4001 50 2))\<lparr>snt_nxt := 1\<rparr>) \<and>
    get_tcp_sock 9 w' = Inr (tcp_B\<lparr>ts_conns := [20, 10]\<rparr>) \<and>
    trace w' = [Ev_sendto 4 40000 (ip_frame intf_B mac_A (ip_out_hdr ip_B ip_A IP_PROTO_TCP 40)
      (tcp_segment tcp_B (new_conn 9 ip_A (ex_tcp 4001 50 2)) [] flags_syn_ack) @ pad)]"
proof -
  have f: "find_matching_connection (ts_conns tcp_B) ip_A (NTOHS (tcp_src_port (ex_tcp 4001 50 2))) ex_world = Inr None"
    by (simp add: ex_find_conn)
  have s: "ts_listening tcp_B" "ts_intf tcp_B = Some 5" "ts_conns tcp_B = [10]" by (simp_all add: tcp_B_def)
  have fl: "fl_syn (tcp_flags (ex_tcp 4001 50 2))" "\<not> fl_ack (tcp_flags (ex_tcp 4001 50 2))"
    by (simp_all add: fl_syn_def fl_ack_def bit_numeral_rec)
  have r: "reaches ex_os (if_node intf_B) ip_A 5 intf_B mac_A (Ev_sendto 4 40000) ex_world" using ex_reaches(3) by simp
  from tcp_input_syn [OF ex_segments(2) ex_for_sock f s(1) fl s(2) r, of ex_deliver] s(3) show ?thesis
    by (simp add: sent_def)
qed


theorem tcp_send_sent_witness:
  "\<exists>w' pad. tcp_send ex_os ex_deliver 0 [1, 2] ex_world = Inr (2, w') \<and> length pad = 4 \<and>
    trace w' = [Ev_sendto 4 40000 (ip_frame intf_B mac_A (ip_out_hdr ip_B ip_A IP_PROTO_TCP 42)
      (tcp_segment tcp_B conn_B [1, 2] flags_ack) @ pad)] \<and>
    get_tcp_conn 10 w' = Inr (conn_B\<lparr>snt_nxt := 3\<rparr>)"
proof -
  have c: "tc_state conn_B = Handle_estab" "get_tcp_sock (tc_parent conn_B) ex_world = Inr tcp_B"
    "\<not> outside_window conn_B (length [1, 2 :: u8])" "tc_remote_ip conn_B = ip_A" "snt_nxt conn_B = 1"
    by (simp_all add: conn_B_def outside_window_def)
  have s: "ts_intf tcp_B = Some 5" by (simp add: tcp_B_def)
  have m: "[1, 2 :: u8] = take MAX_TCP_PAYLOAD [1, 2]" by (simp add: MAX_TCP_PAYLOAD_def)
  have r: "reaches ex_os (if_node intf_B) (tc_remote_ip conn_B) 5 intf_B mac_A (Ev_sendto 4 40000) ex_world"
    using ex_reaches(3) c(4) by simp
  from tcp_send_sent [OF ex_sockets(5) ex_get(9) c(1,2) s r m c(3), of ex_deliver] c(4,5) show ?thesis
    by (auto simp: sent_def)
qed

theorem tcp_send_lost_witness:
  "\<exists>w'. tcp_send ex_os ex_deliver 0 (replicate 600 0) ex_world = Inr (600, w') \<and> trace w' = [] \<and>
    get_tcp_conn 10 w' = Inr conn_B \<and> w_skbs w' 20 \<noteq> None"
proof -
  have c: "tc_state conn_B = Handle_estab" "get_tcp_sock (tc_parent conn_B) ex_world = Inr tcp_B"
    "outside_window conn_B (length (replicate 600 (0 :: u8)))"
    by (simp_all add: conn_B_def outside_window_def)
  have m: "replicate 600 (0 :: u8) = take MAX_TCP_PAYLOAD (replicate 600 0)" by (simp add: MAX_TCP_PAYLOAD_def)
  from tcp_send_lost [OF ex_sockets(5) ex_get(9) c(1,2) m c(3), of ex_os ex_deliver] show ?thesis by simp
qed

theorem tcp_accept_spec_witness:
  "\<exists>w' t sk c cn. tcp_accept 0 ex_world = Inr (Some (1, ip_A, 4000), w') \<and> tcp_sock_of_fd 0 ex_world = Some t \<and>
    get_tcp_sock t ex_world = Inr sk \<and> c \<in> set (ts_conns sk) \<and> get_tcp_conn c ex_world = Inr cn \<and>
    tc_state cn = Handle_estab \<and> tcp_conn_of_fd 1 ex_world = None \<and> tcp_conn_of_fd 1 w' = Some c \<and>
    first_estab (ts_conns sk) w' = Inr (Some c)"
proof -
  have "first_free (fd_conn_to_sock ex_world) 0 = Some (Suc 0)" by (simp add: ex_world_def)
  moreover have "first_estab (ts_conns tcp_B) ex_world = Inr (Some 10)" by (simp add: tcp_B_def) (simp add: conn_B_def)
  moreover have "ts_listening tcp_B" "tc_remote_ip conn_B = ip_A" "tc_remote_port conn_B = 4000"
    by (simp_all add: tcp_B_def conn_B_def)
  ultimately have "\<exists>w'. tcp_accept 0 ex_world = Inr (Some (1, ip_A, 4000), w')"
    by (simp add: tcp_accept_def ex_sockets)
  then obtain w' where w': "tcp_accept 0 ex_world = Inr (Some (1, ip_A, 4000), w')" by blast
  have "length (fd_conn_to_sock ex_world) = MAX_TCP_CONN_SOCKS" by (simp add: ex_world_def MAX_TCP_CONN_SOCKS_def)
  from tcp_accept_spec [OF w' this] w' show ?thesis by blast
qed

section \<open>Topology\<close>

theorem built_wf_witness:
  "wf_topo (snd (create_new_graph ''net'' init_world)) \<and>
   (\<exists>n w. create_graph_node 1 ''A'' (snd (create_new_graph ''net'' init_world)) = Inr (n, w) \<and> wf_topo w)"
proof -
  have g: "built ex_os (snd (create_new_graph ''net'' init_world))" by (rule built.graph [OF built.init])
  have "\<exists>n w. create_graph_node 1 ''A'' (snd (create_new_graph ''net'' init_world)) = Inr (n, w)"
    by (simp add: create_graph_node_def create_new_graph_def world_access init_world_def Let_def)
  with built_wf [OF g] built_wf [OF built.node [OF g]] show ?thesis by blast
qed

theorem dump_nw_graph_total_witness: "\<exists>s. dump_nw_graph 18 ex_world = Inr s"
proof (rule dump_nw_graph_total [OF ex_topo])
  show "get_graph 18 ex_world = Inr \<lparr>graph_name = ''net'', graph_nodes = [2, 19]\<rparr>"
    by (simp add: get_graph_def ex_world_def)
  show "\<exists>nd. get_node n ex_world = Inr nd \<and> tables_live nd ex_world"
    if "n \<in> set (graph_nodes \<lparr>graph_name = ''net'', graph_nodes = [2, 19]\<rparr>)" for n
    using that by (auto simp: tables_live_def live_def ex_objects) (simp_all add: ex_world_def ex_skb_def)
  show "socks_live x ex_world" if "get_intf i ex_world = Inr x" for i x
    using that by (auto simp: socks_live_def ex_world_def get_intf_def ex_objects split: if_splits)
qed

theorem ping_stale_route_witness:
  "\<exists>w'. destroy_link 3 ex_world = Inr w' \<and> ping ex_os ex_deliver 19 ''10.0.0.2'' w' = Inl Dangling"
proof -
  have l: "get_link 3 ex_world = Inr \<lparr>intf1 = 4, intf2 = 5, cost = 1\<rparr>" by (simp add: get_link_def ex_world_def)
  from ping_stale_route [OF ex_topo l ex_get(1) ex_strings(1) ex_routes(1), of ex_os ex_deliver] show ?thesis
    by (auto simp: ex_route_def)
qed

theorem destroy_graph_wf_witness:
  "\<exists>w'. destroy_graph 18 ex_world = Inr w' \<and> wf_topo w' \<and> w_graphs w' 18 = None \<and> w_nodes w' 2 = None \<and> w_nodes w' 19 = None"
proof -
  define gr where "gr = \<lparr>graph_name = ''net'', graph_nodes = [2, 19 :: nat]\<rparr>"
  have g: "get_graph 18 ex_world = Inr gr" "distinct (graph_nodes gr)"
    by (simp_all add: gr_def) (simp add: get_graph_def ex_world_def)
  have n: "\<exists>sl. slots_map ex_world n = Some sl \<and> taps_last (ports_map ex_world) sl" if "n \<in> set (graph_nodes gr)" for n
    using that by (auto simp: gr_def slots_map_def ports_map_def ex_world_def ex_objects port_of_def linked_slot_def)
  from destroy_graph_wf [OF ex_topo g n] show ?thesis by (auto simp: gr_def)
qed

theorem destroy_node_tap_first_witness: "destroy_node 2 ex_tap_first = Inl Dangling"
proof -
  let ?sl = "[Some 6, Some 5, None, None :: nat option]"
  have s: "slots_map ex_tap_first 2 = Some ?sl" "?sl ! 0 = Some 6" "?sl ! 1 = Some 5"
    by (simp_all add: slots_map_def ex_tap_first_def put_node_def)
  have q: "ports_map ex_tap_first 6 = Some (port_of intf_T)" "ports_map ex_tap_first 5 = Some (port_of intf_B)"
    by (simp_all add: ports_map_def ex_tap_first_def put_node_def ex_world_def)
  have l: "p_link (port_of intf_T) = None" "p_link (port_of intf_B) = Some 3"
    by (simp_all add: port_of_def intf_T_def intf_B_def)
  show ?thesis by (rule destroy_node_tap_first [OF ex_tap_first_topo s(1,2) q(1) l(1) s(3) q(2) l(2)])
qed

section \<open>Opening interfaces and the receive thread\<close>

theorem udp_init_comm_open_witness:
  "\<exists>w'. udp_init_comm ex_os 4 ex_world = Inr (True, w') \<and> fd_to_comm 6 w' = Some 4 \<and>
    trace w' = [Ev_bind 6 40002, Ev_bind 6 40003]"
proof -
  have p: "next_udp_port ex_world = 40002" by (simp add: ex_world_def)
  have k: "can_bind ex_os 6 ex_world 1" "\<And>j. j < 1 \<Longrightarrow> \<not> can_bind ex_os 6 ex_world j"
    by (simp_all add: can_bind_def p) (simp_all add: ex_os_def)
  have f: "os_socket ex_os (trace ex_world) = 6" "(0 :: int) \<le> 6" "6 < int MAX_COMMS"
    "length (fd_to_comm_map ex_world) = MAX_COMMS"
    by (simp_all add: ex_os_def MAX_COMMS_def) (simp add: ex_world_def MAX_COMMS_def)
  have tr: "tries 6 40002 (Suc 1) = [Ev_bind 6 40002, Ev_bind 6 40003]" by (simp add: tries_def)
  from udp_init_comm_open [OF ex_get(3) f(1-3) k f(4)] show ?thesis unfolding p tr by auto
qed

text \<open>
  C16: Local delivery ends: two nested deliveries are enough for any received frame in any state,
  since a packet delivered locally by a node to itself carries no IP header pointer; more fuel
  changes nothing, and two never run out.
\<close>

theorem recv_frame_fuel:
  "recv_frame (Suc (Suc k)) os i f w = recv_frame 2 os i f w \<and> recv_frame 2 os i f w \<noteq> Inl Out_of_fuel"
  using recv_frame_enough(1) [of k os i f w 0] recv_frame_enough(2) [of 0 os i f w]
  by (simp add: fuelled_def numeral_2_eq_2)

text \<open>
  C39: In every reachable state of the receive thread and its callers the flags agree with the
  thread, the quit request is pending only while a caller joins, and the thread handles registered
  descriptors only.
\<close>

theorem recv_sys_invariant:
  assumes "reachable os s"
  shows "(thread_started s \<longleftrightarrow> sys_task s \<noteq> No_thread) \<and> (if want_quit_recv_task s then sys_caller s = Joining else True) \<and>
    (if sys_caller s = Joining then want_quit_recv_task s \<or> sys_task s = Returned else sys_task s \<noteq> Returned) \<and>
    (case sys_task s of Handling fds \<Rightarrow> set fds \<subseteq> set (epoll_fds s) \<and> set fds \<subseteq> {..< MAX_COMMS} | _ \<Rightarrow> True)"
  using reachable_ok [OF assms] by (auto simp: sys_ok_def split: task.split)

definition ex_stopping :: recv_sys where
  "ex_stopping = request_stop (with_thread (init_sys ex_world))"

lemma ex_stopping: "reachable ex_os ex_stopping" "sys_caller ex_stopping = Joining" "sys_task ex_stopping = Created"
  "want_quit_recv_task ex_stopping" "thread_started ex_stopping"
proof -
  have "reachable ex_os (with_thread (init_sys ex_world))"
    by (rule reachable.step [OF reachable.init recv_step.thread [OF thread_step.start]]) (simp_all add: sys_ops ex_os_def)
  then show "reachable ex_os ex_stopping"
    unfolding ex_stopping_def
    by (rule reachable.step [OF _ recv_step.thread [OF thread_step.stop]]) (simp add: sys_ops)
qed (simp_all add: ex_stopping_def sys_ops)

theorem recv_sys_invariant_witness:
  "(thread_started ex_stopping \<longleftrightarrow> sys_task ex_stopping \<noteq> No_thread) \<and>
   (if sys_caller ex_stopping = Joining then want_quit_recv_task ex_stopping \<or> sys_task ex_stopping = Returned
    else sys_task ex_stopping \<noteq> Returned)"
  using recv_sys_invariant [OF ex_stopping(1)] by simp

text \<open>
  C40: stop_recv_thread returns: from the request on at most MAX_EVENTS + 3 steps remain, and at
  each of them either the thread has been joined or a step is possible, unless the system refuses
  the thread its epoll instance, which ends the process, or the frame at hand makes the stack
  fail.
\<close>

theorem stop_terminates:
  assumes "reachable os (f 0)" and "sys_caller (f 0) = Joining"
    and "\<And>i. i < n \<Longrightarrow> sys_caller (f i) = Joining \<and> recv_step os (f i) (f (Suc i))"
  shows "n \<le> MAX_EVENTS + 3 \<and>
    (sys_caller (f n) = Idle \<and> sys_task (f n) = No_thread \<and> \<not> thread_started (f n) \<and> \<not> want_quit_recv_task (f n) \<or>
     sys_caller (f n) = Joining \<and>
       ((\<exists>s'. recv_step os (f n) s') \<or>
        sys_task (f n) = Created \<and> recv_task_start os (sys_world (f n)) = Inl Exit_failure \<or>
        (\<exists>fd fds. sys_task (f n) = Handling (fd # fds) \<and>
           (\<forall>received. \<exists>e. handle_ready os fd received (sys_world (f n)) = Inl e))))"
proof -
  have run: "sys_ok (f m) \<and> steps_left (f m) + m \<le> steps_left (f 0)" if "m \<le> n" for m
    using that
  proof (induction m)
    case 0
    then show ?case using reachable_ok [OF assms(1)] by simp
  next
    case (Suc m)
    then have m: "sys_ok (f m)" "sys_caller (f m) = Joining" "recv_step os (f m) (f (Suc m))"
      "steps_left (f m) + m \<le> steps_left (f 0)"
      using assms(3) [of m] by auto
    with sys_ok_step [OF m(3,1)] stopping_decreases [OF m(3,1,2)] show ?case by simp
  qed
  have bound: "n \<le> MAX_EVENTS + 3" using run [of n] run [of 0] steps_left_bound [of "f 0"] by simp
  have ok: "sys_ok (f n)" using run [of n] by simp
  show ?thesis
  proof (cases "sys_caller (f n)")
    case Idle
    then obtain m where m: "n = Suc m" using assms(2) by (cases n) auto
    have "sys_ok (f m)" "sys_caller (f m) = Joining" "recv_step os (f m) (f n)"
      using run [of m] assms(3) [of m] m by auto
    from stopping_joins [OF this(3,2)] Idle have "f n = joined (f m)" by simp
    with ok Idle bound show ?thesis by (auto simp: joined_def sys_ok_def)
  next
    case Joining
    have "(\<exists>s'. recv_step os (f n) s') \<or>
        sys_task (f n) = Created \<and> recv_task_start os (sys_world (f n)) = Inl Exit_failure \<or> (\<exists>fd fds. sys_task (f n) = Handling (fd # fds) \<and>
           (\<forall>received. \<exists>e. handle_ready os fd received (sys_world (f n)) = Inl e))"
      using stopping_progress [OF ok Joining, of os] recv_task_start_fault [of os "sys_world (f n)"] by (metis old.sum.exhaust)
    with Joining bound show ?thesis by blast
  qed
qed

definition ex_run :: "nat \<Rightarrow> recv_sys" where
  "ex_run i =
    (let w = sys_world ex_stopping;
         s1 = ex_stopping\<lparr>sys_world := w\<lparr>trace := trace w @ epoll_events ex_os w\<rparr>, epoll_fds := registered w, sys_task := Polling\<rparr>;
         s2 = s1\<lparr>want_quit_recv_task := False, sys_task := Returned\<rparr>
     in if i = 0 then ex_stopping else if i = 1 then s1 else if i = 2 then s2 else joined s2)"

theorem stop_terminates_witness:
  "3 \<le> MAX_EVENTS + 3 \<and>
    (sys_caller (ex_run 3) = Idle \<and> sys_task (ex_run 3) = No_thread \<and> \<not> thread_started (ex_run 3) \<and> \<not> want_quit_recv_task (ex_run 3) \<or>
     sys_caller (ex_run 3) = Joining \<and>
       ((\<exists>s'. recv_step ex_os (ex_run 3) s') \<or>
        sys_task (ex_run 3) = Created \<and> recv_task_start ex_os (sys_world (ex_run 3)) = Inl Exit_failure \<or>
        (\<exists>fd fds. sys_task (ex_run 3) = Handling (fd # fds) \<and>
           (\<forall>received. \<exists>e. handle_ready ex_os fd received (sys_world (ex_run 3)) = Inl e))))"
proof (rule stop_terminates)
  show "reachable ex_os (ex_run 0)" "sys_caller (ex_run 0) = Joining"
    using ex_stopping by (simp_all add: ex_run_def)
  fix i :: nat
  assume "i < 3"
  then consider "i = 0" | "i = 1" | "i = 2" by linarith
  then have "sys_caller (ex_run i) = Joining \<and> thread_step ex_os (ex_run i) (ex_run (Suc i))"
  proof cases
    case 1
    then show ?thesis
      using ex_stopping thread_step.register [OF ex_stopping(3) ex_epoll] by (simp add: ex_run_def Let_def)
  next
    case 2
    then show ?thesis
      using ex_stopping thread_step.quit [of "ex_run 1" ex_os] by (simp add: ex_run_def numeral_2_eq_2 Let_def)
  next
    case 3
    then show ?thesis
      using ex_stopping thread_step.join [of "ex_run 2" ex_os] by (simp add: ex_run_def numeral_2_eq_2 Let_def)
  qed
  then show "sys_caller (ex_run i) = Joining \<and> recv_step ex_os (ex_run i) (ex_run (Suc i))"
    by (auto intro: recv_step.thread)
qed

section \<open>Addresses\<close>

lemma ip_address_roundtrip: "convert_ip_from_str_to_int (convert_ip_from_int_to_str ip) = ip"
  by (rule convert_ip_roundtrip)


section \<open>The whole program\<close>

text \<open>
  C3: Every state reached from the start of the program by admissible calls that build, configure,
  use and take down a network, interleaved with the steps of the receive thread, is well formed:
  nodes, interfaces, links, routes, sockets, connections, descriptors and packet buffers refer to
  live objects of the right kind, a socket is listed exactly by the interface it is bound to, the
  receive thread finds under a descriptor the live interface that holds it, a packet waits in at
  most one queue and is in a shape its reader can use, hardware addresses have six bytes, and the
  flags of the thread agree with its state.  Admissible are calls on live objects, with arbitrary
  descriptors and data, with these limits: a route is added with a mask of 0 to 30 or for
  destination 0.0.0.0; tcp_close needs that no connection names the socket as its parent; a link,
  a node or a graph is destroyed only while no interface holds descriptor 0, no socket is bound at
  an interface that goes or was opened on a node that goes, no route of a node that stays leads
  through such an interface, no packet that waits for ARP at a node that stays is to leave through
  it, and in the slots of a node that goes the TAP interfaces come after the links.  A link that
  is destroyed while a route leads through it is such a call that is not admissible, and leaves
  the route dangling (C38).
\<close>

theorem system_invariant:
  assumes "system os s"
  shows "wf_world (sys_world s) \<and> sys_ok s"
  using system_wf [OF assms] reachable_ok [OF system_reachable [OF assms]] by simp

lemma lab_running_world [simp]: "sys_world lab_running = lab_online" "sys_task lab_running = Handling [7]"
  by (simp_all add: lab_running_def sys_ops)

theorem system_invariant_witness: "wf_world lab_online \<and> sys_ok lab_running"
  using system_invariant [OF lab_running] by simp

text \<open>
  C2: In every state reached from the start of the program by admissible calls of the application
  and steps of the receive thread, every admissible call keeps pointers, queues and tables in
  order, or stops at the fault the call is listed with: an insertion fails an assertion at a node
  without a free slot; the insertion of a link does not end when the socket the system answers
  with for its first or, after that one is open, for its second end can be bound to no port,
  however long the search goes on; setting an interface address with a mask outside 0 to 30 is
  undefined; a ping to an address of the node itself, reading the sender of a datagram the node
  sent to itself, and writing to a stream whose peer is the node itself follow a null pointer.
  Every other admissible call succeeds without a fault.  Admissible are calls on live objects,
  with arbitrary descriptors and data, with these limits: a route is added with a mask of 0 to 30
  or for destination 0.0.0.0; tcp_close needs that no connection names the socket as its parent; a
  link, a node or a graph is destroyed only while no interface holds descriptor 0, no socket is
  bound at an interface that goes or was opened on a node that goes, no route of a node that stays
  leads through such an interface, no packet that waits for ARP at a node that stays is to leave
  through it, and in the slots of a node that goes the TAP interfaces come after the links.
\<close>

theorem call_safe:
  assumes "system os s" and "admissible r (sys_world s)"
  shows "case perform os r (sys_world s) of Inl e \<Rightarrow> hazard os r (sys_world s) e | Inr w \<Rightarrow> wf_world w"
  using perform_safe [OF system_wf [OF assms(1)] assms(2)] by (simp add: runs_def)

theorem call_safe_witness: "\<exists>w. perform ex_os (Udp_close 0) lab_online = Inr w \<and> wf_world w"
  using call_safe [OF lab_running, of "Udp_close 0"] by (cases "perform ex_os (Udp_close 0) lab_online") simp_all

text \<open>
  C1: Whatever bytes arrive, in every state reached from the start of the program by admissible
  calls of the application and steps of the receive thread, the receive thread handles the frame
  and the program is again in such a state, with its pointers, queues and tables in order, or it
  stops in one of two ways: an assertion fails, and the frame was shorter than the Ethernet, IP
  and transport headers it announces, or a null pointer is followed, and the frame was a TCP
  segment whose source is an address of the receiving node.  In these states no access outside a
  buffer, no use of freed memory, no undefined arithmetic and no endless delivery is possible.
  Admissible are calls on live objects, with arbitrary descriptors and data, with these limits: a
  route is added with a mask of 0 to 30 or for destination 0.0.0.0; tcp_close needs that no
  connection names the socket as its parent; a link, a node or a graph is destroyed only while no
  interface holds descriptor 0, no socket is bound at an interface that goes or was opened on a
  node that goes, no route of a node that stays leads through such an interface, no packet that
  waits for ARP at a node that stays is to leave through it, and in the slots of a node that goes
  the TAP interfaces come after the links.  States after other calls, as a route with a longer
  mask (C22) or one that outlives its link (C38), are not covered.
\<close>

theorem frame_safe:
  assumes "system os s" and "sys_task s = Handling (fd # fds)"
  shows "case handle_ready os fd got (sys_world s) of
      Inl e \<Rightarrow> frame_hazard fd got (sys_world s) e
    | Inr w \<Rightarrow> wf_world w \<and> system os (s\<lparr>sys_world := w, sys_task := Handling fds\<rparr>)"
proof -
  have "fd < MAX_COMMS" using reachable_ok [OF system_reachable [OF assms(1)]] assms(2) by (auto simp: sys_ok_def)
  from handle_ready_safe [OF system_wf [OF assms(1)] this, of got os]
  show ?thesis using system.step [OF assms(1) system_step.thread [OF thread_step.handle [OF assms(2)]]] by (auto simp: runs_def split: sum.splits)
qed

theorem frame_safe_witness:
  "\<exists>w. handle_ready ex_os 7 (Some (replicate 60 255)) lab_online = Inr w \<and> wf_world w \<and>
     system ex_os (lab_running\<lparr>sys_world := w, sys_task := Handling []\<rparr>)"
proof -
  have "ip_proto (frame_ip (replicate 60 255)) = 255"
    by (simp add: frame_ip_def dec_ip_def IP_HDR_SIZE_def ETH_HDR_SIZE_def)
  then have "\<not> frame_hazard 7 (Some (replicate 60 255)) lab_online e" for e
    by (simp add: frame_hazard_def frame_risk_def need_def IP_PROTO_TCP_def IP_PROTO_UDP_def)
  then show ?thesis
    using frame_safe [OF lab_running, of 7 "[]" "Some (replicate 60 255)"]
    by (cases "handle_ready ex_os 7 (Some (replicate 60 255)) lab_online") simp_all
qed

section \<open>A node that talks to itself\<close>

theorem land_attack_witness:
  "recv_frame (Suc (Suc 0)) ex_os 5 (Some (enc_eth (ex_eth ETH_PROTO_IP mac_B mac_A) @
     enc_ip (ex_ip ip_B ip_B IP_PROTO_TCP) @ enc_tcp (ex_tcp 80 1 2) @ [])) ex_world = Inl Null_deref"
proof -
  have s: "ts_listening tcp_B" "ts_intf tcp_B = Some 5" by (simp_all add: tcp_B_def)
  have new: "find_matching_connection (ts_conns tcp_B) ip_B 80 ex_world = Inr None"
    by (simp add: tcp_B_def) (simp add: conn_B_def ex_addrs)
  have rt: "rt_lookup_lpm (rt_table node_B) ip_B = Inr (Some (ex_route 0x0000000A 24 0 5))"
    by (simp add: rt_lookup_lpm_def IP_NET_EQ_def INT_IP_MASKED_def ex_masks ex_objects ex_addrs)
  show ?thesis
    by (rule land_attack [OF ex_eth(1) ex_eth(3) _ ex_get(4) ex_config(2) ex_eth(4) _ _ ex_for_sock s _ _ _ _ _ _ _ _ refl,
        where nd = node_B and rt = "ex_route 0x0000000A 24 0 5"])
      (use new rt in \<open>simp_all add: ex_local fl_syn_def fl_ack_def bit_numeral_rec ex_route_def\<close>)
qed

theorem udp_self_witness:
  "\<exists>w1. udp_sendto ex_os (ip_input (Suc 0) ex_os) 0 [1, 2, 3] ip_A 5000 ex_world = Inr (3, w1) \<and> trace w1 = [] \<and>
    udp_recvfrom 0 100 True False w1 = Inl Null_deref"
proof -
  have s: "us_bound sock_A" "us_intf sock_A = Some 4" "us_rx_skb sock_A = []" by (simp_all add: sock_A_def)
  have v: "udp_socks_manager_find (udp_socks_manager intf_A) 5000 ex_world = Inr (Some 7)"
    by (simp add: intf_A_def) (simp add: sock_A_def)
  have n: "get_node (if_node intf_A) ex_world = Inr node_A" "is_ip_local (if_node intf_A) ip_A ex_world = Inr True"
    by (simp_all add: ex_local)
  have i: "rt_intf (ex_route 0x0000000A 24 0 4) = 4" by (simp add: ex_route_def)
  from udp_self [OF ex_sockets(1) ex_get(6) s(1,2) ex_get(3) n(1) ex_routes(2) i n(2) v ex_get(6) s(3) ex_sockets(1) s(1),
      of ex_os 0 "[1, 2, 3]" 100 False] show ?thesis
    by (auto simp: MAX_UDP_PAYLOAD_def)
qed

end
